(* ===== verification/Prelude.thy ===== *)
theory Prelude
  imports Main "HOL-Library.Word" "HOL-Library.Monad_Syntax"
begin

section \<open>Shared vocabulary: machine integers, checked memory, C strings\<close>

text \<open>
  What every component of the development shares: the names of the machine integer types
  of the code, byte buffers whose accesses are checked, and C strings.

  The code is C++ over plain arrays. An access out of the bounds of an array, and an
  \<open>assert\<close> that fails, leave the program without a defined result, so every operation that
  can do one of them returns an \<open>option\<close>: \<^term>\<open>None\<close> is "no defined result" and
  \<^term>\<open>Some r\<close> is the result. A theorem that an operation returns \<^term>\<open>Some r\<close> is
  therefore a theorem that it stays inside its buffers and passes its assertions.
\<close>

unbundle bit_operations_syntax

type_synonym u8 = "8 word"
type_synonym u16 = "16 word"
type_synonym u32 = "32 word"
type_synonym u64 = "64 word"

named_theorems mem_simps
  \<open>Evaluation of checked loads and stores on buffers of known length\<close>

named_theorems wire_simps
  \<open>Lengths and inverses of the big-endian encodings\<close>

subsection \<open>Checked memory\<close>

definition load :: "'a list \<Rightarrow> nat \<Rightarrow> 'a option" where
  "load buf i = (if i < length buf then Some (buf ! i) else None)"

definition store :: "'a list \<Rightarrow> nat \<Rightarrow> 'a \<Rightarrow> 'a list option" where
  "store buf i v = (if i < length buf then Some (buf[i := v]) else None)"

definition store_block :: "'a list \<Rightarrow> nat \<Rightarrow> 'a list \<Rightarrow> 'a list option" where
  "store_block buf i bs =
     (if i + length bs \<le> length buf
      then Some (take i buf @ bs @ drop (i + length bs) buf) else None)"

definition c_assert :: "bool \<Rightarrow> unit option" where
  "c_assert b = (if b then Some () else None)"

text \<open>
  \<open>written ws buf\<close> is the buffer \<open>buf\<close> after the block \<open>ws\<close> has been written at its start:
  the normal form in which a sequence of consecutive writes is evaluated.
\<close>

definition written :: "'a list \<Rightarrow> 'a list \<Rightarrow> 'a list" where
  "written ws buf = ws @ drop (length ws) buf"

lemma load_Some [mem_simps]: "i < length buf \<Longrightarrow> load buf i = Some (buf ! i)"
  by (simp add: load_def)

lemma load_None [mem_simps]: "length buf \<le> i \<Longrightarrow> load buf i = None"
  by (simp add: load_def)

lemma store_as_block: "store buf i v = store_block buf i [v]"
  by (auto simp: store_def store_block_def upd_conv_take_nth_drop)

lemma c_assert_True [simp]: "c_assert True = Some ()"
  by (simp add: c_assert_def)

lemma c_assert_False [simp]: "c_assert False = None"
  by (simp add: c_assert_def)

lemma c_assert_eq_Some [simp]: "c_assert b = Some u \<longleftrightarrow> b"
  by (simp add: c_assert_def)

lemma c_assert_bind: "Option.bind (c_assert b) f = (if b then f () else None)"
  by (simp add: c_assert_def)

lemma length_store: "store buf i v = Some buf' \<Longrightarrow> length buf' = length buf"
  by (auto simp: store_def split: if_splits)

lemma length_store_block: "store_block buf i bs = Some buf' \<Longrightarrow> length buf' = length buf"
  by (auto simp: store_block_def split: if_splits)

lemma length_written [mem_simps]: "length ws \<le> length buf \<Longrightarrow> length (written ws buf) = length buf"
  by (simp add: written_def)

lemma written_Nil [mem_simps]: "written [] buf = buf"
  by (simp add: written_def)

lemma take_written [mem_simps]: "n = length ws \<Longrightarrow> take n (written ws buf) = ws"
  by (simp add: written_def)

lemma drop_written [mem_simps]:
  "n = length ws \<Longrightarrow> drop n (written ws buf) = drop n buf"
  by (simp add: written_def)

lemma store_block_start [mem_simps]:
  "length bs \<le> length buf \<Longrightarrow> store_block buf 0 bs = Some (written bs buf)"
  by (simp add: store_block_def written_def)

lemma store_block_written [mem_simps]:
  assumes "i = length ws" and "i + length bs \<le> length buf"
  shows "store_block (written ws buf) i bs = Some (written (ws @ bs) buf)"
  using assms by (simp add: store_block_def written_def add.commute)

lemma store_block_append:
  "store_block buf i (xs @ ys) =
     Option.bind (store_block buf i xs) (\<lambda>b. store_block b (i + length xs) ys)"
  by (auto simp: store_block_def ac_simps)

lemma store_block_Cons:
  "store_block buf i (x # xs) = Option.bind (store buf i x) (\<lambda>b. store_block b (i + 1) xs)"
  using store_block_append [of buf i "[x]" xs] by (simp add: store_as_block)

lemma store_block_defined: "i + length bs \<le> length buf \<Longrightarrow> \<exists>d. store_block buf i bs = Some d"
  by (simp add: store_block_def)

lemma store_block_overwrite:
  assumes "i = length ws" and "length z \<le> length bs" and "i + length bs \<le> length buf"
  shows "store_block (written (ws @ z) buf) i bs = Some (written (ws @ bs) buf)"
  using assms by (auto simp: store_block_def written_def ac_simps)

lemma nth_written:
  "i < length ws \<Longrightarrow> written ws buf ! i = ws ! i"
  by (simp add: written_def nth_append)

lemma bind_Some_iff: "Option.bind x f = Some y \<longleftrightarrow> (\<exists>a. x = Some a \<and> f a = Some y)"
  by (cases x) auto

text \<open>\<open>defined P x\<close>: the result \<open>x\<close> is defined and satisfies \<open>P\<close>.\<close>

definition defined :: "('a \<Rightarrow> bool) \<Rightarrow> 'a option \<Rightarrow> bool" where
  "defined P x = (case x of None \<Rightarrow> False | Some y \<Rightarrow> P y)"

lemma defined_simps [simp]: "\<not> defined P None" "defined P (Some y) \<longleftrightarrow> P y"
  by (simp_all add: defined_def)

lemma defined_bind: "defined P (Option.bind x f) \<longleftrightarrow> defined (\<lambda>y. defined P (f y)) x"
  by (cases x) simp_all

lemma definedE: "defined P x \<Longrightarrow> (\<And>y. x = Some y \<Longrightarrow> P y \<Longrightarrow> Q) \<Longrightarrow> Q"
  by (cases x) auto

lemma defined_mono: "defined P x \<Longrightarrow> (\<And>y. P y \<Longrightarrow> Q y) \<Longrightarrow> defined Q x"
  by (cases x) auto

subsection \<open>Modular arithmetic on indices\<close>

lemma mod_once: "(m :: nat) < 2 * n \<Longrightarrow> m mod n = (if m < n then m else m - n)"
  by (auto simp: mod_if [of m] mod_less)

lemma mod_offset_inj:
  fixes t i j n :: nat
  assumes "(t + i) mod n = (t + j) mod n" and "t < n" and "i < n" and "j < n"
  shows "i = j"
  using assms by (auto simp: mod_once split: if_splits)

subsection \<open>C strings\<close>

text \<open>
  A C string is the list of its characters before the terminating NUL, so a string of the
  code satisfies \<open>cstring\<close>. Reading \<open>s[i]\<close> yields the NUL at \<open>i = strlen(s)\<close> and is out of
  bounds beyond it. An Isabelle \<open>char\<close> is one byte, as in C.
\<close>

definition NUL :: char where
  "NUL = CHR 0x00"

definition cstring :: "string \<Rightarrow> bool" where
  "cstring s \<longleftrightarrow> NUL \<notin> set s"

definition char_at :: "string \<Rightarrow> nat \<Rightarrow> char option" where
  "char_at s i = (if i < length s then Some (s ! i) else if i = length s then Some NUL else None)"

definition byte_of :: "char \<Rightarrow> u8" where
  "byte_of c = of_nat (of_char c)"

definition char_of_byte :: "u8 \<Rightarrow> char" where
  "char_of_byte b = char_of (unat b)"

definition bytes_of :: "string \<Rightarrow> u8 list" where
  "bytes_of s = map byte_of s"

definition string_of_bytes :: "u8 list \<Rightarrow> string" where
  "string_of_bytes bs = map char_of_byte bs"

lemma unat_byte_of [simp]: "unat (byte_of c) = of_char c"
proof -
  have "(of_char c :: nat) < 256"
    using of_char_of [of "of_char c :: nat"] by (metis char_of_char of_char_of mod_less_divisor zero_less_numeral)
  then show ?thesis
    by (simp add: byte_of_def unat_of_nat take_bit_eq_mod)
qed

lemma char_of_byte_of [simp]: "char_of_byte (byte_of c) = c"
  by (simp add: char_of_byte_def)

lemma byte_of_char_of_byte [simp]: "byte_of (char_of_byte b) = b"
proof -
  have "unat b < 256"
    using unsigned_less [of b, where ?'a = nat] by simp
  then show ?thesis
    by (simp add: byte_of_def char_of_byte_def of_char_of)
qed

lemma string_of_bytes_of [simp]: "string_of_bytes (bytes_of s) = s"
  by (simp add: string_of_bytes_def bytes_of_def comp_def)

lemma bytes_of_string_of [simp]: "bytes_of (string_of_bytes bs) = bs"
  by (simp add: string_of_bytes_def bytes_of_def comp_def)

lemma length_bytes_of [simp]: "length (bytes_of s) = length s"
  by (simp add: bytes_of_def)

lemma length_string_of_bytes [simp]: "length (string_of_bytes bs) = length bs"
  by (simp add: string_of_bytes_def)

lemma byte_of_eq_iff [simp]: "byte_of c = byte_of d \<longleftrightarrow> c = d"
  by (metis char_of_byte_of)

lemma cstring_Cons [simp]: "cstring (c # s) \<longleftrightarrow> c \<noteq> NUL \<and> cstring s"
  by (auto simp: cstring_def)

lemma cstring_Nil [simp]: "cstring []"
  by (simp add: cstring_def)

lemma cstring_append [simp]: "cstring (s @ t) \<longleftrightarrow> cstring s \<and> cstring t"
  by (auto simp: cstring_def)

lemma cstring_nth: "cstring s \<Longrightarrow> i < length s \<Longrightarrow> s ! i \<noteq> NUL"
  unfolding cstring_def by (metis nth_mem)

lemma char_at_end [simp]: "char_at s (length s) = Some NUL"
  by (simp add: char_at_def)

lemma char_at_nth [simp]: "i < length s \<Longrightarrow> char_at s i = Some (s ! i)"
  by (simp add: char_at_def)

end
