(* ===== verification/Buffer_Util.thy ===== *)
theory Buffer_Util
  imports Prelude
begin

section \<open>Big-endian buffer access (src/src/util/buffer_util.hpp)\<close>

text \<open>
  The inline functions that write and read 16, 32 and 64-bit integers in network byte
  order. A pointer into a buffer is the buffer and an offset. Each write is proved to be the
  block store of the encoding \<open>be16\<close>, \<open>be32\<close>, \<open>be64\<close>, and each read to invert it.
\<close>

definition buffer_write16be :: "u8 list \<Rightarrow> nat \<Rightarrow> u16 \<Rightarrow> u8 list option" where
  "buffer_write16be buf i value = do {
     buf \<leftarrow> store buf i (ucast (drop_bit 8 value));
     store buf (i + 1) (ucast value)
   }"

definition buffer_write32be :: "u8 list \<Rightarrow> nat \<Rightarrow> u32 \<Rightarrow> u8 list option" where
  "buffer_write32be buf i value = do {
     buf \<leftarrow> store buf i (ucast (drop_bit 24 value));
     buf \<leftarrow> store buf (i + 1) (ucast (drop_bit 16 value));
     buf \<leftarrow> store buf (i + 2) (ucast (drop_bit 8 value));
     store buf (i + 3) (ucast value)
   }"

definition buffer_write64be :: "u8 list \<Rightarrow> nat \<Rightarrow> u64 \<Rightarrow> u8 list option" where
  "buffer_write64be buf i value = do {
     buf \<leftarrow> buffer_write32be buf i (ucast (drop_bit 32 value));
     buffer_write32be buf (i + 4) (ucast value)
   }"

definition buffer_read16be :: "u8 list \<Rightarrow> nat \<Rightarrow> u16 option" where
  "buffer_read16be buf i = do {
     b0 \<leftarrow> load buf i;
     b1 \<leftarrow> load buf (i + 1);
     Some (push_bit 8 (ucast b0) OR ucast b1)
   }"

definition buffer_read32be :: "u8 list \<Rightarrow> nat \<Rightarrow> u32 option" where
  "buffer_read32be buf i = do {
     b0 \<leftarrow> load buf i;
     b1 \<leftarrow> load buf (i + 1);
     b2 \<leftarrow> load buf (i + 2);
     b3 \<leftarrow> load buf (i + 3);
     Some (push_bit 24 (ucast b0) OR push_bit 16 (ucast b1) OR push_bit 8 (ucast b2) OR ucast b3)
   }"

definition buffer_read64be :: "u8 list \<Rightarrow> nat \<Rightarrow> u64 option" where
  "buffer_read64be buf i = do {
     msb \<leftarrow> buffer_read32be buf i;
     lsb \<leftarrow> buffer_read32be buf (i + 4);
     Some (push_bit 32 (ucast msb) OR ucast lsb)
   }"

subsection \<open>The encodings\<close>

definition be16 :: "u16 \<Rightarrow> u8 list" where
  "be16 v = [ucast (drop_bit 8 v), ucast v]"

definition be32 :: "u32 \<Rightarrow> u8 list" where
  "be32 v = [ucast (drop_bit 24 v), ucast (drop_bit 16 v), ucast (drop_bit 8 v), ucast v]"

definition be64 :: "u64 \<Rightarrow> u8 list" where
  "be64 v = be32 (ucast (drop_bit 32 v)) @ be32 (ucast v)"

lemma length_be16 [simp, wire_simps]: "length (be16 v) = 2"
  by (simp add: be16_def)

lemma length_be32 [simp, wire_simps]: "length (be32 v) = 4"
  by (simp add: be32_def)

lemma length_be64 [simp, wire_simps]: "length (be64 v) = 8"
  by (simp add: be64_def)

lemma buffer_write16be_block: "buffer_write16be buf i v = store_block buf i (be16 v)"
  using store_block_append [of buf i "[ucast (drop_bit 8 v)]" "[ucast v]"]
  by (simp add: buffer_write16be_def be16_def store_as_block)

lemma buffer_write32be_block: "buffer_write32be buf i v = store_block buf i (be32 v)"
proof -
  let ?a = "ucast (drop_bit 24 v) :: u8" and ?b = "ucast (drop_bit 16 v) :: u8"
    and ?c = "ucast (drop_bit 8 v) :: u8" and ?d = "ucast v :: u8"
  have "store_block buf i [?a, ?b, ?c, ?d] =
    Option.bind (store_block buf i [?a]) (\<lambda>b. store_block b (i + 1) [?b, ?c, ?d])"
    using store_block_append [of buf i "[?a]" "[?b, ?c, ?d]"] by simp
  also have "\<dots> = Option.bind (store_block buf i [?a])
      (\<lambda>b. Option.bind (store_block b (i + 1) [?b]) (\<lambda>b. store_block b (i + 2) [?c, ?d]))"
    using store_block_append [of _ "i + 1" "[?b]" "[?c, ?d]"] by (simp add: numeral_2_eq_2)
  also have "\<dots> = Option.bind (store_block buf i [?a])
      (\<lambda>b. Option.bind (store_block b (i + 1) [?b])
      (\<lambda>b. Option.bind (store_block b (i + 2) [?c]) (\<lambda>b. store_block b (i + 3) [?d])))"
    using store_block_append [of _ "i + 2" "[?c]" "[?d]"] by (simp add: numeral_3_eq_3)
  finally show ?thesis
    by (simp add: buffer_write32be_def be32_def store_as_block)
qed

lemma buffer_write64be_block: "buffer_write64be buf i v = store_block buf i (be64 v)"
  by (simp add: buffer_write64be_def be64_def buffer_write32be_block store_block_append)

lemmas buffer_write_block =
  buffer_write16be_block buffer_write32be_block buffer_write64be_block

subsection \<open>Reading back\<close>

text \<open>
  A read succeeds exactly inside the buffer, and then yields the one integer whose encoding
  stands at the offset: the reads are inverse to the writes in both directions.
\<close>

definition un16 :: "u8 \<Rightarrow> u8 \<Rightarrow> u16" where
  "un16 a b = push_bit 8 (ucast a) OR ucast b"

definition un32 :: "u8 \<Rightarrow> u8 \<Rightarrow> u8 \<Rightarrow> u8 \<Rightarrow> u32" where
  "un32 a b c d = push_bit 24 (ucast a) OR push_bit 16 (ucast b) OR push_bit 8 (ucast c) OR ucast d"

definition un64 :: "u32 \<Rightarrow> u32 \<Rightarrow> u64" where
  "un64 m l = push_bit 32 (ucast m) OR ucast l"

lemma byte_bit: "bit (b :: u8) n \<Longrightarrow> n < 8"
  using bit_imp_le_length [of b n] by simp

lemma word32_bit: "bit (b :: u32) n \<Longrightarrow> n < 32"
  using bit_imp_le_length [of b n] by simp

lemma word64_bit: "bit (b :: u64) n \<Longrightarrow> n < 64"
  using bit_imp_le_length [of b n] by simp

lemma word16_bit: "bit (b :: u16) n \<Longrightarrow> n < 16"
  using bit_imp_le_length [of b n] by simp

lemma be16_un16: "be16 (un16 a b) = [a, b]"
  by (auto simp: be16_def un16_def bit_simps intro!: bit_word_eqI dest: byte_bit)

lemma byte_bit_high: "8 \<le> n \<Longrightarrow> \<not> bit (b :: u8) n"
  using byte_bit by fastforce

lemma be32_un32: "be32 (un32 a b c d) = [a, b, c, d]"
  by (auto simp: be32_def un32_def bit_simps byte_bit_high intro!: bit_word_eqI)

lemma un64_halves: "ucast (drop_bit 32 (un64 m l)) = m" "ucast (un64 m l) = l"
  by (auto simp: un64_def bit_simps intro!: bit_word_eqI dest: word32_bit)

lemma be64_un64: "be64 (un64 m l) = be32 m @ be32 l"
  by (simp add: be64_def un64_halves)

lemma un16_parts: "un16 (ucast (drop_bit 8 v)) (ucast v) = v"
  by (rule bit_word_eqI) (auto simp: un16_def bit_simps dest: word16_bit)

lemma un32_parts:
  "un32 (ucast (drop_bit 24 v)) (ucast (drop_bit 16 v)) (ucast (drop_bit 8 v)) (ucast v) = v"
proof (rule bit_word_eqI)
  fix n assume "n < LENGTH(32)"
  then consider "n < 8" | "8 \<le> n" "n < 16" | "16 \<le> n" "n < 24" | "24 \<le> n" "n < 32"
    by fastforce
  then show "bit (un32 (ucast (drop_bit 24 v)) (ucast (drop_bit 16 v)) (ucast (drop_bit 8 v))
      (ucast v)) n \<longleftrightarrow> bit v n"
    by cases (auto simp: un32_def bit_simps)
qed

lemma un64_parts: "un64 (ucast (drop_bit 32 v)) (ucast v) = v"
  by (rule bit_word_eqI) (auto simp: un64_def bit_simps dest: word64_bit)

lemma be16_inj [simp]: "be16 v = be16 w \<longleftrightarrow> v = w"
proof
  assume "be16 v = be16 w"
  then have "un16 (ucast (drop_bit 8 v)) (ucast v) = un16 (ucast (drop_bit 8 w)) (ucast w)"
    by (simp only: be16_def list.inject)
  then show "v = w" by (simp only: un16_parts)
qed simp

lemma be32_inj [simp]: "be32 v = be32 w \<longleftrightarrow> v = w"
proof
  assume "be32 v = be32 w"
  then have "un32 (ucast (drop_bit 24 v)) (ucast (drop_bit 16 v)) (ucast (drop_bit 8 v)) (ucast v)
    = un32 (ucast (drop_bit 24 w)) (ucast (drop_bit 16 w)) (ucast (drop_bit 8 w)) (ucast w)"
    by (simp only: be32_def list.inject)
  then show "v = w" by (simp only: un32_parts)
qed simp

lemma be64_inj [simp]: "be64 v = be64 w \<longleftrightarrow> v = w"
proof
  assume "be64 v = be64 w"
  then have "(ucast (drop_bit 32 v) :: u32) = ucast (drop_bit 32 w) \<and> (ucast v :: u32) = ucast w"
    by (simp add: be64_def)
  then have "un64 (ucast (drop_bit 32 v)) (ucast v) = un64 (ucast (drop_bit 32 w)) (ucast w)"
    by (simp only:)
  then show "v = w" by (simp only: un64_parts)
qed simp

lemma take_drop_nth:
  "i + n \<le> length buf \<Longrightarrow> take n (drop i buf) = map (\<lambda>k. buf ! (i + k)) [0..<n]"
  by (rule nth_equalityI) auto

lemma upt_2_4: "[0..<2] = [0, 1]" "[0..<4] = [0, 1, 2, 3]"
  by (simp_all add: upt_rec)

lemma buffer_read16be_iff:
  "buffer_read16be buf i = Some v \<longleftrightarrow> i + 2 \<le> length buf \<and> take 2 (drop i buf) = be16 v"
proof (cases "i + 2 \<le> length buf")
  case True
  let ?v = "un16 (buf ! i) (buf ! (i + 1))"
  have r: "buffer_read16be buf i = Some ?v"
    using True by (simp add: buffer_read16be_def load_Some un16_def)
  have t: "take 2 (drop i buf) = be16 ?v"
    using True by (simp add: take_drop_nth be16_un16 upt_2_4)
  from r t True show ?thesis by simp
next
  case False
  then show ?thesis
    by (auto simp: buffer_read16be_def load_def bind_Some_iff split: if_splits)
qed

lemma buffer_read32be_iff:
  "buffer_read32be buf i = Some v \<longleftrightarrow> i + 4 \<le> length buf \<and> take 4 (drop i buf) = be32 v"
proof (cases "i + 4 \<le> length buf")
  case True
  let ?v = "un32 (buf ! i) (buf ! (i + 1)) (buf ! (i + 2)) (buf ! (i + 3))"
  have r: "buffer_read32be buf i = Some ?v"
    using True by (simp add: buffer_read32be_def load_Some un32_def)
  have t: "take 4 (drop i buf) = be32 ?v"
    using True by (simp add: take_drop_nth be32_un32 upt_2_4)
  from r t True show ?thesis by simp
next
  case False
  then show ?thesis
    by (auto simp: buffer_read32be_def load_def bind_Some_iff split: if_splits)
qed

lemma buffer_read64be_iff:
  "buffer_read64be buf i = Some v \<longleftrightarrow> i + 8 \<le> length buf \<and> take 8 (drop i buf) = be64 v"
proof -
  have split: "take 8 (drop i buf) = take 4 (drop i buf) @ take 4 (drop (i + 4) buf)"
    using take_add [of 4 4 "drop i buf"] by (simp add: add.commute)
  have "buffer_read64be buf i = Some v \<longleftrightarrow>
    (\<exists>m l. buffer_read32be buf i = Some m \<and> buffer_read32be buf (i + 4) = Some l \<and> un64 m l = v)"
    by (simp add: buffer_read64be_def bind_Some_iff un64_def)
  also have "\<dots> \<longleftrightarrow> i + 8 \<le> length buf \<and>
    (\<exists>m l. take 4 (drop i buf) = be32 m \<and> take 4 (drop (i + 4) buf) = be32 l \<and> un64 m l = v)"
    by (auto simp: buffer_read32be_iff)
  also have "\<dots> \<longleftrightarrow> i + 8 \<le> length buf \<and> take 8 (drop i buf) = be64 v"
  proof (intro conj_cong refl)
    assume "i + 8 \<le> length buf"
    then have "length (take 4 (drop i buf)) = 4" by simp
    then show "(\<exists>m l. take 4 (drop i buf) = be32 m \<and> take 4 (drop (i + 4) buf) = be32 l \<and> un64 m l = v)
      \<longleftrightarrow> take 8 (drop i buf) = be64 v"
      by (auto simp: split be64_un64 be64_def un64_parts un64_halves)
  qed
  finally show ?thesis .
qed

lemmas buffer_read_iff = buffer_read16be_iff buffer_read32be_iff buffer_read64be_iff

lemma take_store_block:
  "store_block buf i bs = Some buf' \<Longrightarrow> i + length bs \<le> length buf' \<and> take (length bs) (drop i buf') = bs"
  by (auto simp: store_block_def min_def split: if_splits)

subsection \<open>Properties\<close>

text \<open>What a 64-bit big-endian write puts into a buffer is what a 64-bit read returns, and
  the write changes no byte outside the eight it writes.\<close>

theorem buffer64_roundtrip:
  assumes "buffer_write64be buf i v = Some buf'"
  shows "buffer_read64be buf' i = Some v \<and> length buf' = length buf \<and>
    take i buf' = take i buf \<and> drop (i + 8) buf' = drop (i + 8) buf"
proof -
  have w: "store_block buf i (be64 v) = Some buf'"
    using assms by (simp add: buffer_write_block)
  then show ?thesis
    using take_store_block [OF w] length_store_block [OF w]
    by (auto simp: buffer_read_iff store_block_def split: if_splits)
qed

theorem buffer64_roundtrip_witness:
  "buffer_read64be [0, 1, 2, 3, 4, 5, 6, 7, 8, 9] 1 = Some 0x0102030405060708"
proof -
  have "buffer_write64be (replicate 10 0) 1 0x0102030405060708 = Some [0, 1, 2, 3, 4, 5, 6, 7, 8, 0]"
    by code_simp
  from buffer64_roundtrip [OF this] have "buffer_read64be [0, 1, 2, 3, 4, 5, 6, 7, 8, 0] 1 = Some 0x0102030405060708"
    by blast
  then show ?thesis by (simp add: buffer_read_iff)
qed

end
