(* ===== verification/Fifo.thy ===== *)
theory Fifo
  imports Prelude
begin

section \<open>The queue contracts the components rely on\<close>

text \<open>
  Two queues are used in the code: the circular buffer of \<^verbatim>\<open>cbuf.hpp\<close> (control messages,
  blob messages, file requests) and the intrusive linked list of \<^verbatim>\<open>queue.hpp\<close> (packets to
  record). What their clients rely on is stated here once, as two locales over the operations
  the client calls: \<open>items\<close> is the abstract content, \<open>qinv\<close> the representation invariant.
  The facts a client uses about whole runs of pushes and takes are proved inside the locales.

  Operations return \<^term>\<open>None\<close> only when they leave the bounds of their memory, so each law
  \<open>\<dots> = Some \<dots>\<close> is also the promise that they do not.
\<close>

datatype 'a qop = Push 'a | Take

text \<open>
  The client's view of a run: the elements the queue accepted, the elements it handed out, and
  the queue it ends in.
\<close>

fun run_qops ::
  "('q \<Rightarrow> 'a \<Rightarrow> (bool \<times> 'q) option) \<Rightarrow> ('q \<Rightarrow> ('a option \<times> 'q) option) \<Rightarrow>
   'a qop list \<Rightarrow> 'q \<Rightarrow> ('a list \<times> 'a list \<times> 'q) option" where
  "run_qops push tke [] q = Some ([], [], q)"
| "run_qops push tke (Push x # ops) q = do {
     (ok, q') \<leftarrow> push q x;
     (acc, out, q'') \<leftarrow> run_qops push tke ops q';
     Some (if ok then x # acc else acc, out, q'')
   }"
| "run_qops push tke (Take # ops) q = do {
     (r, q') \<leftarrow> tke q;
     (acc, out, q'') \<leftarrow> run_qops push tke ops q';
     Some (acc, (case r of None \<Rightarrow> out | Some x \<Rightarrow> x # out), q'')
   }"

text \<open>
  What a client sees of each operation, whether the push was accepted and what the take returned, and
  the same for a list that holds at most \<open>cap\<close> elements: the reference of a bounded queue.
\<close>

datatype 'a qanswer = Pushed bool | Taken "'a option"

fun run_answers ::
  "('q \<Rightarrow> 'a \<Rightarrow> (bool \<times> 'q) option) \<Rightarrow> ('q \<Rightarrow> ('a option \<times> 'q) option) \<Rightarrow>
   'a qop list \<Rightarrow> 'q \<Rightarrow> ('a qanswer list \<times> 'q) option" where
  "run_answers push tke [] q = Some ([], q)"
| "run_answers push tke (Push x # ops) q = do {
     (ok, q) \<leftarrow> push q x;
     (as, q) \<leftarrow> run_answers push tke ops q;
     Some (Pushed ok # as, q)
   }"
| "run_answers push tke (Take # ops) q = do {
     (r, q) \<leftarrow> tke q;
     (as, q) \<leftarrow> run_answers push tke ops q;
     Some (Taken r # as, q)
   }"

fun list_answers :: "nat \<Rightarrow> 'a qop list \<Rightarrow> 'a list \<Rightarrow> 'a qanswer list \<times> 'a list" where
  "list_answers cap [] xs = ([], xs)"
| "list_answers cap (Push x # ops) xs =
     (let (as, ys) = list_answers cap ops (if length xs < cap then xs @ [x] else xs)
      in (Pushed (length xs < cap) # as, ys))"
| "list_answers cap (Take # ops) [] = (let (as, ys) = list_answers cap ops [] in (Taken None # as, ys))"
| "list_answers cap (Take # ops) (x # xs) = (let (as, ys) = list_answers cap ops xs in (Taken (Some x) # as, ys))"

text \<open>Every element a run pushes, in order.\<close>

fun pushed :: "'a qop list \<Rightarrow> 'a list" where
  "pushed [] = []"
| "pushed (Push x # ops) = x # pushed ops"
| "pushed (Take # ops) = pushed ops"

locale fifo =
  fixes items :: "'q \<Rightarrow> 'a list"
    and qinv :: "'q \<Rightarrow> bool"
    and is_empty :: "'q \<Rightarrow> bool"
    and push :: "'q \<Rightarrow> 'a \<Rightarrow> (bool \<times> 'q) option"
    and tke :: "'q \<Rightarrow> ('a option \<times> 'q) option"
  assumes is_empty: "qinv q \<Longrightarrow> is_empty q \<longleftrightarrow> items q = []"
    and tke_empty: "qinv q \<Longrightarrow> items q = [] \<Longrightarrow> tke q = Some (None, q)"
    and tke_some: "qinv q \<Longrightarrow> items q = x # xs \<Longrightarrow>
      \<exists>q'. tke q = Some (Some x, q') \<and> qinv q' \<and> items q' = xs"
    and push_result: "qinv q \<Longrightarrow>
      (\<exists>q'. push q x = Some (True, q') \<and> qinv q' \<and> items q' = items q @ [x])
      \<or> push q x = Some (False, q)"
begin

lemma tke_defined:
  assumes "qinv q"
  shows "\<exists>r q'. tke q = Some (r, q') \<and> qinv q' \<and>
    items q = (case r of None \<Rightarrow> items q' | Some x \<Rightarrow> x # items q')"
proof (cases "items q")
  case Nil
  with assms tke_empty show ?thesis by fastforce
next
  case (Cons x xs)
  with assms tke_some show ?thesis by fastforce
qed

text \<open>
  First in, first out: whatever is pushed and taken, the elements the queue accepted are, in
  order, the elements it handed out followed by the elements it still holds.
\<close>

lemma run_fifo:
  assumes "qinv q"
  shows "\<exists>acc out q'. run_qops push tke ops q = Some (acc, out, q') \<and> qinv q' \<and>
    items q @ acc = out @ items q'"
  using assms
proof (induction ops arbitrary: q)
  case Nil
  then show ?case by simp
next
  case (Cons op ops)
  show ?case
  proof (cases op)
    case (Push x)
    obtain ok q1 where p: "push q x = Some (ok, q1)" "qinv q1"
      and i: "items q1 = (if ok then items q @ [x] else items q)"
      using push_result [OF Cons.prems, of x] Cons.prems by fastforce
    obtain acc out q2 where "run_qops push tke ops q1 = Some (acc, out, q2)" "qinv q2"
      "items q1 @ acc = out @ items q2"
      using Cons.IH [OF p(2)] by blast
    with p i Push show ?thesis by (cases ok) auto
  next
    case Take
    obtain r q1 where t: "tke q = Some (r, q1)" "qinv q1"
      and i: "items q = (case r of None \<Rightarrow> items q1 | Some x \<Rightarrow> x # items q1)"
      using tke_defined [OF Cons.prems] by blast
    obtain acc out q2 where "run_qops push tke ops q1 = Some (acc, out, q2)" "qinv q2"
      "items q1 @ acc = out @ items q2"
      using Cons.IH [OF t(2)] by blast
    with t i Take show ?thesis by (cases r) auto
  qed
qed

end

text \<open>A queue of bounded capacity refuses a push exactly when it is full.\<close>

locale bounded_fifo = fifo items qinv is_empty push tke
  for items :: "'q \<Rightarrow> 'a list"
    and qinv :: "'q \<Rightarrow> bool"
    and is_empty :: "'q \<Rightarrow> bool"
    and push :: "'q \<Rightarrow> 'a \<Rightarrow> (bool \<times> 'q) option"
    and tke :: "'q \<Rightarrow> ('a option \<times> 'q) option" +
  fixes capacity :: "'q \<Rightarrow> nat"
    and is_full :: "'q \<Rightarrow> bool"
  assumes is_full: "qinv q \<Longrightarrow> is_full q \<longleftrightarrow> length (items q) = capacity q"
    and within: "qinv q \<Longrightarrow> length (items q) \<le> capacity q"
    and push_iff: "qinv q \<Longrightarrow> push q x = Some (ok, q') \<Longrightarrow> ok \<longleftrightarrow> length (items q) < capacity q"
    and push_capacity: "qinv q \<Longrightarrow> push q x = Some (ok, q') \<Longrightarrow> capacity q' = capacity q"
    and tke_capacity: "qinv q \<Longrightarrow> tke q = Some (r, q') \<Longrightarrow> capacity q' = capacity q"
begin

lemma push_room:
  assumes inv: "qinv q" and room: "length (items q) < capacity q"
  shows "\<exists>q'. push q x = Some (True, q') \<and> qinv q' \<and> items q' = items q @ [x] \<and>
    capacity q' = capacity q"
  using push_result [OF inv, of x]
proof
  assume "\<exists>q'. push q x = Some (True, q') \<and> qinv q' \<and> items q' = items q @ [x]"
  with push_capacity [OF inv] show ?thesis by blast
next
  assume "push q x = Some (False, q)"
  from push_iff [OF inv this] room show ?thesis by simp
qed

lemma push_full:
  assumes inv: "qinv q" and full: "length (items q) = capacity q"
  shows "push q x = Some (False, q)"
  using push_result [OF inv, of x]
proof
  assume "\<exists>q'. push q x = Some (True, q') \<and> qinv q' \<and> items q' = items q @ [x]"
  then obtain q' where "push q x = Some (True, q')" by blast
  from push_iff [OF inv this] full show ?thesis by simp
qed

lemma push_decides:
  assumes "qinv q"
  shows "\<exists>q'. push q x = Some (length (items q) < capacity q, q')"
  using push_room [OF assms, of x] push_full [OF assms, of x] within [OF assms]
  by (cases "length (items q) < capacity q") auto

text \<open>Operation by operation, the queue answers like the bounded list of its items.\<close>

lemma run_answers_list:
  assumes "qinv q"
  shows "\<exists>q'. run_answers push tke ops q = Some (fst (list_answers (capacity q) ops (items q)), q') \<and>
    qinv q' \<and> capacity q' = capacity q \<and> items q' = snd (list_answers (capacity q) ops (items q))"
  using assms
proof (induction ops arbitrary: q)
  case Nil
  then show ?case by simp
next
  case (Cons op ops)
  show ?case
  proof (cases op)
    case (Push x)
    show ?thesis
    proof (cases "length (items q) < capacity q")
      case True
      with push_room [OF Cons.prems, of x] obtain q1 where
        "push q x = Some (True, q1)" "qinv q1" "items q1 = items q @ [x]" "capacity q1 = capacity q" by blast
      with Cons.IH [of q1] True Push show ?thesis by (auto simp: case_prod_beta)
    next
      case False
      with push_full [OF Cons.prems, of x] within [OF Cons.prems] have "push q x = Some (False, q)" by simp
      with Cons.IH [OF Cons.prems] False Push show ?thesis by (auto simp: case_prod_beta)
    qed
  next
    case Take
    show ?thesis
    proof (cases "items q")
      case Nil
      with tke_empty [OF Cons.prems] have "tke q = Some (None, q)" by simp
      with Cons.IH [OF Cons.prems] Nil Take show ?thesis by (auto simp: case_prod_beta)
    next
      case (Cons x xs)
      with tke_some [OF \<open>qinv q\<close>] obtain q1 where t: "tke q = Some (Some x, q1)" "qinv q1" "items q1 = xs" by blast
      with tke_capacity [OF \<open>qinv q\<close>] have "capacity q1 = capacity q" by blast
      with t Cons.IH [OF t(2)] Cons Take show ?thesis by (auto simp: case_prod_beta)
    qed
  qed
qed

end

text \<open>An unbounded queue never refuses.\<close>

locale unbounded_fifo = fifo items qinv is_empty push tke
  for items :: "'q \<Rightarrow> 'a list"
    and qinv :: "'q \<Rightarrow> bool"
    and is_empty :: "'q \<Rightarrow> bool"
    and push :: "'q \<Rightarrow> 'a \<Rightarrow> (bool \<times> 'q) option"
    and tke :: "'q \<Rightarrow> ('a option \<times> 'q) option" +
  assumes push_accepts: "qinv q \<Longrightarrow> push q x = Some (ok, q') \<Longrightarrow> ok"
begin

lemma run_accepts_all:
  assumes "qinv q" and "run_qops push tke ops q = Some (acc, out, q')"
  shows "acc = pushed ops"
  using assms
proof (induction ops arbitrary: q acc out)
  case Nil
  then show ?case by simp
next
  case (Cons op ops)
  show ?case
  proof (cases op)
    case (Push x)
    then obtain ok q1 acc1 where p: "push q x = Some (ok, q1)"
      and r: "run_qops push tke ops q1 = Some (acc1, out, q')" "acc = (if ok then x # acc1 else acc1)"
      using Cons.prems(2) by (auto simp: bind_Some_iff)
    have "qinv q1" using push_result [OF Cons.prems(1), of x] p Cons.prems(1) by auto
    with Cons.IH [OF _ r(1)] push_accepts [OF Cons.prems(1) p] r(2) Push show ?thesis by simp
  next
    case Take
    then obtain x q1 out1 where t: "tke q = Some (x, q1)"
      and r: "run_qops push tke ops q1 = Some (acc, out1, q')"
      using Cons.prems(2) by (auto simp: bind_Some_iff)
    have "qinv q1" using tke_defined [OF Cons.prems(1)] t by auto
    with Cons.IH [OF _ r] Take show ?thesis by simp
  qed
qed

lemma push_always:
  assumes "qinv q"
  shows "\<exists>q'. push q x = Some (True, q') \<and> qinv q' \<and> items q' = items q @ [x]"
  using push_result [OF assms, of x] push_accepts [OF assms] by blast

end

end
