(* ===== verification/Cbuf.thy ===== *)
theory Cbuf
  imports Fifo
begin

section \<open>The circular buffer (src/src/util/cbuf.hpp)\<close>

text \<open>
  The macros \<^verbatim>\<open>CBUF\<close>, \<^verbatim>\<open>cbuf_is_empty\<close>, \<^verbatim>\<open>cbuf_is_full\<close>, \<^verbatim>\<open>cbuf_init\<close>, \<^verbatim>\<open>cbuf_push\<close> and
  \<^verbatim>\<open>cbuf_take\<close>. The array has one slot more than the capacity, so that \<open>head = tail\<close> means
  empty and never full. \<open>cbuf_items\<close> is the abstract content; the theory ends with the
  proof that the buffer is a bounded FIFO.
\<close>

record 'a cbuf =
  cb_data :: "'a list"
  cb_head :: nat
  cb_tail :: nat

definition CBUF :: "'a \<Rightarrow> nat \<Rightarrow> 'a cbuf" where
  "CBUF d cap = \<lparr>cb_data = replicate (cap + 1) d, cb_head = 0, cb_tail = 0\<rparr>"

definition cbuf_size :: "'a cbuf \<Rightarrow> nat" where
  "cbuf_size q = length (cb_data q)"

definition cbuf_is_empty :: "'a cbuf \<Rightarrow> bool" where
  "cbuf_is_empty q \<longleftrightarrow> cb_head q = cb_tail q"

definition cbuf_is_full :: "'a cbuf \<Rightarrow> bool" where
  "cbuf_is_full q \<longleftrightarrow> (cb_head q + 1) mod cbuf_size q = cb_tail q"

definition cbuf_init :: "'a cbuf \<Rightarrow> 'a cbuf" where
  "cbuf_init q = q\<lparr>cb_head := 0, cb_tail := 0\<rparr>"

definition cbuf_push :: "'a cbuf \<Rightarrow> 'a \<Rightarrow> (bool \<times> 'a cbuf) option" where
  "cbuf_push q item =
     (let ok = \<not> cbuf_is_full q in
      if ok then do {
        d \<leftarrow> store (cb_data q) (cb_head q) item;
        Some (ok, q\<lparr>cb_data := d, cb_head := (cb_head q + 1) mod cbuf_size q\<rparr>)
      } else Some (ok, q))"

definition cbuf_take :: "'a cbuf \<Rightarrow> ('a option \<times> 'a cbuf) option" where
  "cbuf_take q =
     (let ok = \<not> cbuf_is_empty q in
      if ok then do {
        item \<leftarrow> load (cb_data q) (cb_tail q);
        Some (Some item, q\<lparr>cb_tail := (cb_tail q + 1) mod cbuf_size q\<rparr>)
      } else Some (None, q))"

subsection \<open>Invariant and abstract content\<close>

definition cbuf_inv :: "'a cbuf \<Rightarrow> bool" where
  "cbuf_inv q \<longleftrightarrow> cb_head q < cbuf_size q \<and> cb_tail q < cbuf_size q"

definition cbuf_count :: "'a cbuf \<Rightarrow> nat" where
  "cbuf_count q = (cb_head q + cbuf_size q - cb_tail q) mod cbuf_size q"

definition cbuf_items :: "'a cbuf \<Rightarrow> 'a list" where
  "cbuf_items q =
     map (\<lambda>i. cb_data q ! ((cb_tail q + i) mod cbuf_size q)) [0..<cbuf_count q]"

definition cbuf_capacity :: "'a cbuf \<Rightarrow> nat" where
  "cbuf_capacity q = cbuf_size q - 1"

lemma cbuf_inv_CBUF [simp]: "cbuf_inv (CBUF d cap)"
  by (simp add: cbuf_inv_def CBUF_def cbuf_size_def)

lemma cbuf_items_CBUF [simp]: "cbuf_items (CBUF d cap) = []"
  by (simp add: cbuf_items_def cbuf_count_def CBUF_def cbuf_size_def)

lemma cbuf_capacity_CBUF [simp]: "cbuf_capacity (CBUF d cap) = cap"
  by (simp add: cbuf_capacity_def CBUF_def cbuf_size_def)

lemma cbuf_init_props:
  "0 < cbuf_size q \<Longrightarrow> cbuf_inv (cbuf_init q)"
  "0 < cbuf_size q \<Longrightarrow> cbuf_items (cbuf_init q) = []"
  "cbuf_capacity (cbuf_init q) = cbuf_capacity q"
  by (simp_all add: cbuf_inv_def cbuf_init_def cbuf_size_def cbuf_items_def cbuf_count_def
      cbuf_capacity_def)

lemma length_cbuf_items [simp]: "length (cbuf_items q) = cbuf_count q"
  by (simp add: cbuf_items_def)

lemma cbuf_items_Nil: "cbuf_items q = [] \<longleftrightarrow> cbuf_count q = 0"
  by (simp add: cbuf_items_def)

lemma cbuf_count_less: "cbuf_inv q \<Longrightarrow> cbuf_count q < cbuf_size q"
  by (simp add: cbuf_inv_def cbuf_count_def)

lemma cbuf_count_alt:
  "cbuf_inv q \<Longrightarrow> cbuf_count q =
     (if cb_tail q \<le> cb_head q then cb_head q - cb_tail q
      else cb_head q + cbuf_size q - cb_tail q)"
  by (auto simp: cbuf_inv_def cbuf_count_def mod_once)

lemma cbuf_head_count: "cbuf_inv q \<Longrightarrow> cb_head q = (cb_tail q + cbuf_count q) mod cbuf_size q"
  by (auto simp: cbuf_inv_def cbuf_count_alt mod_once)

lemma cbuf_is_empty_count: "cbuf_inv q \<Longrightarrow> cbuf_is_empty q \<longleftrightarrow> cbuf_count q = 0"
  by (auto simp: cbuf_is_empty_def cbuf_count_alt cbuf_inv_def)

lemma cbuf_is_full_count: "cbuf_inv q \<Longrightarrow> cbuf_is_full q \<longleftrightarrow> cbuf_count q = cbuf_size q - 1"
  by (auto simp: cbuf_is_full_def cbuf_count_alt cbuf_inv_def mod_once)

lemma cbuf_push_room:
  assumes inv: "cbuf_inv q" and room: "cbuf_count q < cbuf_size q - 1"
  shows "\<exists>q'. cbuf_push q x = Some (True, q') \<and> cbuf_inv q' \<and> cbuf_items q' = cbuf_items q @ [x]
    \<and> cbuf_size q' = cbuf_size q"
proof -
  let ?n = "cbuf_size q" and ?h = "cb_head q" and ?t = "cb_tail q" and ?c = "cbuf_count q"
  define q' where "q' = q\<lparr>cb_data := (cb_data q)[?h := x], cb_head := (?h + 1) mod ?n\<rparr>"
  have len: "?h < length (cb_data q)"
    using inv by (simp add: cbuf_inv_def cbuf_size_def)
  have size': "cbuf_size q' = ?n" and head': "cb_head q' = (?h + 1) mod ?n"
    and tail': "cb_tail q' = ?t"
    by (simp_all add: q'_def cbuf_size_def)
  have inv': "cbuf_inv q'"
    using inv by (auto simp: cbuf_inv_def size' head' tail')
  have count': "cbuf_count q' = Suc ?c"
    using inv room
    by (auto simp: cbuf_count_alt inv' size' head' tail' mod_once cbuf_inv_def split: if_splits)
  have "cb_data q' ! ((?t + i) mod ?n) = cb_data q ! ((?t + i) mod ?n)" if "i < ?c" for i
  proof -
    have "(?t + i) mod ?n \<noteq> ?h"
      using that inv cbuf_head_count [OF inv] mod_offset_inj [of ?t i ?n ?c] cbuf_count_less [OF inv]
      by (auto simp: cbuf_inv_def)
    then show ?thesis by (simp add: q'_def)
  qed
  moreover have "cb_data q' ! ((?t + ?c) mod ?n) = x"
    using cbuf_head_count [OF inv] len by (simp add: q'_def)
  ultimately have "cbuf_items q' = cbuf_items q @ [x]"
    by (simp add: cbuf_items_def count' size') (simp add: q'_def)
  moreover have "cbuf_push q x = Some (True, q')"
    using room len by (simp add: cbuf_push_def cbuf_is_full_count [OF inv] store_def q'_def)
  ultimately show ?thesis using inv' size' by blast
qed

lemma cbuf_push_full: "cbuf_is_full q \<Longrightarrow> cbuf_push q x = Some (False, q)"
  by (simp add: cbuf_push_def)

lemma cbuf_take_empty: "cbuf_is_empty q \<Longrightarrow> cbuf_take q = Some (None, q)"
  by (simp add: cbuf_take_def)

lemma cbuf_take_items:
  assumes inv: "cbuf_inv q" and items: "cbuf_items q = x # xs"
  shows "\<exists>q'. cbuf_take q = Some (Some x, q') \<and> cbuf_inv q' \<and> cbuf_items q' = xs
    \<and> cbuf_size q' = cbuf_size q"
proof -
  let ?n = "cbuf_size q" and ?t = "cb_tail q" and ?c = "cbuf_count q"
  define q' where "q' = q\<lparr>cb_tail := (?t + 1) mod ?n\<rparr>"
  have size': "cbuf_size q' = ?n" and head': "cb_head q' = cb_head q"
    and tail': "cb_tail q' = (?t + 1) mod ?n"
    by (simp_all add: q'_def cbuf_size_def)
  obtain m where c: "?c = Suc m"
    using items by (metis length_cbuf_items length_Cons)
  have inv': "cbuf_inv q'"
    using inv by (auto simp: cbuf_inv_def size' head' tail')
  have count': "cbuf_count q' = m"
    using inv c
    by (auto simp: cbuf_count_alt inv' size' head' tail' mod_once cbuf_inv_def split: if_splits)
  have split: "[0..<Suc m] = 0 # map Suc [0..<m]"
    by (simp add: upt_conv_Cons map_Suc_upt del: upt_Suc)
  have "x # xs = cb_data q ! (?t mod ?n) # map (\<lambda>i. cb_data q ! ((?t + Suc i) mod ?n)) [0..<m]"
    using items by (simp add: cbuf_items_def c split comp_def del: upt_Suc)
  moreover have "cbuf_items q' = map (\<lambda>i. cb_data q ! ((?t + Suc i) mod ?n)) [0..<m]"
    by (simp add: cbuf_items_def count' size') (simp add: q'_def mod_add_left_eq)
  moreover have "cbuf_take q = Some (Some (cb_data q ! ?t), q')"
    using inv c by (simp add: cbuf_take_def cbuf_is_empty_count [OF inv] q'_def load_def
        cbuf_inv_def cbuf_size_def)
  ultimately show ?thesis
    using inv' size' inv by (simp add: cbuf_inv_def)
qed

subsection \<open>The circular buffer is a bounded FIFO\<close>

interpretation cb: bounded_fifo cbuf_items cbuf_inv cbuf_is_empty cbuf_push cbuf_take
  cbuf_capacity cbuf_is_full
proof unfold_locales
  fix q :: "'a cbuf" and x :: 'a and ok q'
  assume inv: "cbuf_inv q"
  show "cbuf_is_empty q \<longleftrightarrow> cbuf_items q = []"
    by (simp add: cbuf_is_empty_count [OF inv] cbuf_items_Nil)
  show "cbuf_is_full q \<longleftrightarrow> length (cbuf_items q) = cbuf_capacity q"
    by (simp add: cbuf_is_full_count [OF inv] cbuf_capacity_def)
  show "length (cbuf_items q) \<le> cbuf_capacity q"
    using cbuf_count_less [OF inv] by (simp add: cbuf_capacity_def)
  show "(\<exists>q'. cbuf_push q x = Some (True, q') \<and> cbuf_inv q' \<and> cbuf_items q' = cbuf_items q @ [x])
      \<or> cbuf_push q x = Some (False, q)"
    using cbuf_push_room [OF inv, of x] cbuf_push_full [of q x] cbuf_is_full_count [OF inv]
      cbuf_count_less [OF inv] by fastforce
  show "ok \<longleftrightarrow> length (cbuf_items q) < cbuf_capacity q" if "cbuf_push q x = Some (ok, q')"
    using that cbuf_push_room [OF inv, of x] cbuf_push_full [of q x] cbuf_is_full_count [OF inv]
      cbuf_count_less [OF inv] by (fastforce simp: cbuf_capacity_def)
  show "cbuf_capacity q' = cbuf_capacity q" if "cbuf_push q x = Some (ok, q')"
    using that by (auto simp: cbuf_push_def cbuf_capacity_def cbuf_size_def bind_Some_iff Let_def
        dest: length_store split: if_splits)
next
  fix q q' :: "'a cbuf" and r
  assume "cbuf_take q = Some (r, q')"
  then show "cbuf_capacity q' = cbuf_capacity q"
    by (auto simp: cbuf_take_def cbuf_capacity_def cbuf_size_def bind_Some_iff Let_def split: if_splits)
next
  fix q :: "'a cbuf"
  assume "cbuf_inv q" and "cbuf_items q = []"
  then show "cbuf_take q = Some (None, q)"
    by (simp add: cbuf_take_empty cbuf_is_empty_count cbuf_items_Nil)
next
  fix q :: "'a cbuf" and x xs
  assume "cbuf_inv q" and "cbuf_items q = x # xs"
  then show "\<exists>q'. cbuf_take q = Some (Some x, q') \<and> cbuf_inv q' \<and> cbuf_items q' = xs"
    using cbuf_take_items [of q x xs] by auto
qed


subsection \<open>Properties\<close>

text \<open>C18. A circular buffer of capacity \<open>cap\<close> is a bounded FIFO: whatever sequence of pushes and takes
  runs on it, no access leaves its array, and every single answer, of each push whether it was
  accepted and of each take what it returned, is that of a list from whose front elements are
  taken and to whose end they are added while it holds fewer than \<open>cap\<close>. The buffer then holds
  that list, and the macros that test for an empty and for a full buffer tell so.\<close>

theorem cbuf_fifo:
  "\<exists>as q xs. run_answers cbuf_push cbuf_take ops (CBUF d cap) = Some (as, q) \<and>
     list_answers cap ops [] = (as, xs) \<and> cbuf_items q = xs \<and>
     (cbuf_is_empty q \<longleftrightarrow> xs = []) \<and> (cbuf_is_full q \<longleftrightarrow> length xs = cap)"
proof -
  obtain q where "run_answers cbuf_push cbuf_take ops (CBUF d cap) = Some (fst (list_answers cap ops []), q)"
    and q: "cbuf_inv q" "cbuf_capacity q = cap" "cbuf_items q = snd (list_answers cap ops [])"
    using cb.run_answers_list [OF cbuf_inv_CBUF, of ops d cap] by auto
  then show ?thesis
    using cb.is_empty [OF q(1)] cb.is_full [OF q(1)]
    by (intro exI [of _ "fst (list_answers cap ops [])"] exI [of _ q] exI [of _ "snd (list_answers cap ops [])"]) simp
qed

end
