(* ===== verification/Queue.thy ===== *)
theory Queue
  imports Fifo
begin

section \<open>The intrusive linked queue (src/src/util/queue.hpp)\<close>

text \<open>
  The macros \<^verbatim>\<open>queue_init\<close>, \<^verbatim>\<open>queue_is_empty\<close>, \<^verbatim>\<open>queue_push\<close> and \<^verbatim>\<open>queue_take\<close> over an
  explicit store: an address maps to the element's payload and its \<open>NEXTFIELD\<close>; \<^term>\<open>None\<close> as
  a pointer is \<open>NULL\<close>. Dereferencing an address that is not allocated, and the assertion of
  \<open>queue_take\<close> on an empty queue, have no defined result.

  The store also holds the allocator (\<open>q_brk\<close>, above every address in use), so that
  \<open>queue_put\<close> and \<open>queue_get\<close> are what the recorder does: allocate an element and push it; take an
  element, read its payload and free it. These two are proved to be an unbounded FIFO.
\<close>

type_synonym addr = nat

record 'a queue =
  q_heap :: "addr \<Rightarrow> ('a \<times> addr option) option"
  q_brk :: addr
  q_first :: "addr option"
  q_last :: "addr option"

definition queue_init :: "'a queue \<Rightarrow> 'a queue" where
  "queue_init q = q\<lparr>q_first := None, q_last := None\<rparr>"

definition queue_is_empty :: "'a queue \<Rightarrow> bool" where
  "queue_is_empty q \<longleftrightarrow> q_first q = None"

definition queue_push :: "'a queue \<Rightarrow> addr \<Rightarrow> 'a queue option" where
  "queue_push q item = do {
     (v, _) \<leftarrow> q_heap q item;
     let h = (q_heap q)(item \<mapsto> (v, None));
     if queue_is_empty q
     then Some (q\<lparr>q_heap := h, q_first := Some item, q_last := Some item\<rparr>)
     else do {
       l \<leftarrow> q_last q;
       (w, _) \<leftarrow> h l;
       Some (q\<lparr>q_heap := h(l \<mapsto> (w, Some item)), q_last := Some item\<rparr>)
     }
   }"

definition queue_take :: "'a queue \<Rightarrow> (addr \<times> 'a queue) option" where
  "queue_take q = do {
     c_assert (\<not> queue_is_empty q);
     p \<leftarrow> q_first q;
     (_, n) \<leftarrow> q_heap q p;
     Some (p, q\<lparr>q_first := n\<rparr>)
   }"

definition queue_alloc :: "'a queue \<Rightarrow> 'a \<Rightarrow> addr \<times> 'a queue" where
  "queue_alloc q v = (q_brk q, q\<lparr>q_heap := (q_heap q)(q_brk q \<mapsto> (v, None)), q_brk := q_brk q + 1\<rparr>)"

definition queue_free :: "'a queue \<Rightarrow> addr \<Rightarrow> 'a queue" where
  "queue_free q p = q\<lparr>q_heap := (q_heap q)(p := None)\<rparr>"

definition queue_put :: "'a queue \<Rightarrow> 'a \<Rightarrow> (bool \<times> 'a queue) option" where
  "queue_put q v = do {
     let (p, q') = queue_alloc q v;
     q'' \<leftarrow> queue_push q' p;
     Some (True, q'')
   }"

definition queue_get :: "'a queue \<Rightarrow> ('a option \<times> 'a queue) option" where
  "queue_get q =
     (if queue_is_empty q then Some (None, q)
      else do {
        (p, q') \<leftarrow> queue_take q;
        (v, _) \<leftarrow> q_heap q' p;
        Some (Some v, queue_free q' p)
      })"

definition queue_new :: "'a queue" where
  "queue_new = \<lparr>q_heap = Map.empty, q_brk = 0, q_first = None, q_last = None\<rparr>"

subsection \<open>The list a queue represents\<close>

fun seg :: "(addr \<Rightarrow> ('a \<times> addr option) option) \<Rightarrow> addr option \<Rightarrow> addr list \<Rightarrow> bool" where
  "seg h p [] \<longleftrightarrow> p = None"
| "seg h p (a # as) \<longleftrightarrow> p = Some a \<and> (\<exists>v n. h a = Some (v, n) \<and> seg h n as)"

definition queue_rep :: "'a queue \<Rightarrow> addr list \<Rightarrow> bool" where
  "queue_rep q ps \<longleftrightarrow> seg (q_heap q) (q_first q) ps \<and> (ps \<noteq> [] \<longrightarrow> q_last q = Some (last ps))"

definition queue_inv :: "'a queue \<Rightarrow> bool" where
  "queue_inv q \<longleftrightarrow> (\<exists>ps. queue_rep q ps) \<and> (\<forall>p. q_heap q p \<noteq> None \<longrightarrow> p < q_brk q)"

definition queue_items :: "'a queue \<Rightarrow> 'a list" where
  "queue_items q = map (\<lambda>p. fst (the (q_heap q p))) (THE ps. queue_rep q ps)"

lemma seg_unique: "seg h p as \<Longrightarrow> seg h p bs \<Longrightarrow> as = bs"
proof (induction as arbitrary: p bs)
  case Nil
  then show ?case by (cases bs) auto
next
  case (Cons a as)
  then show ?case by (cases bs) auto
qed

lemma seg_append: "seg h p (as @ bs) \<Longrightarrow> \<exists>n. seg h n bs"
  by (induction as arbitrary: p) auto

lemma seg_distinct: "seg h p as \<Longrightarrow> distinct as"
proof (induction as arbitrary: p)
  case Nil
  then show ?case by simp
next
  case (Cons a as)
  then obtain v n where a: "h a = Some (v, n)" "seg h n as" by auto
  have "a \<notin> set as"
  proof
    assume "a \<in> set as"
    then obtain xs ys where as: "as = xs @ a # ys" by (meson split_list)
    from a(2) obtain m where "seg h m (a # ys)"
      unfolding as using seg_append by blast
    with a(1) have "seg h n ys" by auto
    from seg_unique [OF a(2) this] as show False by simp
  qed
  with Cons.IH [OF a(2)] show ?case by simp
qed

lemma seg_allocated: "seg h p as \<Longrightarrow> a \<in> set as \<Longrightarrow> \<exists>x. h a = Some x"
  by (induction as arbitrary: p) auto

lemma seg_frame: "a \<notin> set as \<Longrightarrow> seg (h(a := x)) p as = seg h p as"
  by (induction as arbitrary: p) auto

lemma seg_link:
  assumes "seg h p (as @ [l])" and "h l = Some (w, n)" and "h b = Some (v, None)"
    and "b \<notin> set (as @ [l])"
  shows "seg (h(l \<mapsto> (w, Some b))) p (as @ [l, b])"
  using assms
proof (induction as arbitrary: p)
  case Nil
  then show ?case by auto
next
  case (Cons a as)
  then have "distinct (a # as @ [l])" using seg_distinct by fastforce
  then have "a \<noteq> l" by auto
  with Cons show ?case by auto
qed

lemma queue_rep_unique: "queue_rep q ps \<Longrightarrow> queue_rep q qs \<Longrightarrow> ps = qs"
  by (auto simp: queue_rep_def dest: seg_unique)

lemma queue_items_rep:
  assumes "queue_rep q ps"
  shows "queue_items q = map (\<lambda>p. fst (the (q_heap q p))) ps"
proof -
  have "(THE ps. queue_rep q ps) = ps"
    using assms queue_rep_unique by (intro the_equality) blast+
  then show ?thesis by (simp add: queue_items_def)
qed

lemma queue_inv_new [simp]: "queue_inv queue_new" and queue_items_new [simp]: "queue_items queue_new = []"
proof -
  have r: "queue_rep queue_new []"
    by (simp add: queue_rep_def queue_new_def)
  then show "queue_inv queue_new"
    by (auto simp: queue_inv_def) (simp_all add: queue_new_def)
  show "queue_items queue_new = []"
    using queue_items_rep [OF r] by simp
qed

lemma queue_inv_init:
  "queue_inv q \<Longrightarrow> queue_inv (queue_init q) \<and> queue_items (queue_init q) = []"
proof -
  assume inv: "queue_inv q"
  have r: "queue_rep (queue_init q) []"
    by (simp add: queue_rep_def queue_init_def)
  with inv have "queue_inv (queue_init q)"
    by (auto simp: queue_inv_def) (simp_all add: queue_init_def)
  with queue_items_rep [OF r] show ?thesis by simp
qed

text \<open>Pushing an allocated element that is not in the queue appends it.\<close>

lemma queue_push_rep:
  assumes rep: "queue_rep q ps" and item: "q_heap q p = Some (v, n)" and new: "p \<notin> set ps"
  shows "\<exists>q'. queue_push q p = Some q' \<and> queue_rep q' (ps @ [p]) \<and> q_brk q' = q_brk q
    \<and> (\<forall>a. map_option fst (q_heap q' a) = map_option fst (q_heap q a))"
proof (cases "ps = []")
  case True
  with rep have "queue_is_empty q" by (simp add: queue_rep_def queue_is_empty_def)
  with True item show ?thesis
    by (auto simp: queue_push_def queue_rep_def)
next
  case False
  then obtain as l where ps: "ps = as @ [l]" by (metis append_butlast_last_id)
  let ?h = "(q_heap q)(p \<mapsto> (v, None))"
  from rep ps have l: "q_last q = Some l" and s: "seg (q_heap q) (q_first q) (as @ [l])"
    by (auto simp: queue_rep_def)
  obtain w m where hl: "q_heap q l = Some (w, m)"
    using seg_allocated [OF s, of l] by auto
  have lp: "l \<noteq> p" using new ps by auto
  have "seg ?h (q_first q) (as @ [l])"
    using s new ps seg_frame by metis
  then have "seg (?h(l \<mapsto> (w, Some p))) (q_first q) (as @ [l, p])"
    using seg_link [of ?h "q_first q" as l w m p v] hl lp new ps by simp
  moreover have "\<not> queue_is_empty q"
    using s by (cases as) (auto simp: queue_is_empty_def)
  ultimately show ?thesis
    using item l hl lp ps by (auto simp: queue_push_def queue_rep_def)
qed

lemma queue_put_inv:
  assumes inv: "queue_inv q"
  shows "\<exists>q'. queue_put q v = Some (True, q') \<and> queue_inv q' \<and> queue_items q' = queue_items q @ [v]"
proof -
  from inv obtain ps where rep: "queue_rep q ps" and brk: "\<forall>p. q_heap q p \<noteq> None \<longrightarrow> p < q_brk q"
    by (auto simp: queue_inv_def)
  define p where "p = q_brk q"
  define q1 where "q1 = q\<lparr>q_heap := (q_heap q)(p \<mapsto> (v, None)), q_brk := p + 1\<rparr>"
  have new: "p \<notin> set ps"
    using rep brk seg_allocated by (fastforce simp: queue_rep_def p_def)
  have rep1: "queue_rep q1 ps"
    using rep new by (simp add: queue_rep_def q1_def seg_frame)
  have "q_heap q1 p = Some (v, None)" by (simp add: q1_def)
  from queue_push_rep [OF rep1 this new] obtain q2 where q2: "queue_push q1 p = Some q2"
    "queue_rep q2 (ps @ [p])" "q_brk q2 = q_brk q1"
    and vals: "\<forall>a. map_option fst (q_heap q2 a) = map_option fst (q_heap q1 a)"
    by blast
  have val2: "fst (the (q_heap q2 a)) = fst (the (q_heap q1 a))" if "q_heap q1 a \<noteq> None" for a
    using vals that by (metis map_option_is_None option.map_sel)
  have dom2: "q_heap q2 a \<noteq> None \<Longrightarrow> a < q_brk q2" for a
  proof -
    assume "q_heap q2 a \<noteq> None"
    then have "q_heap q1 a \<noteq> None" using vals by (metis map_option_is_None)
    then show "a < q_brk q2" using brk q2(3) by (auto simp: q1_def p_def split: if_splits) (metis less_SucI option.distinct(1))
  qed
  have same: "fst (the (q_heap q2 a)) = fst (the (q_heap q a))" if "a \<in> set ps" for a
  proof -
    have "a \<noteq> p" using that new by auto
    moreover have "q_heap q a \<noteq> None"
      using seg_allocated [of "q_heap q" "q_first q" ps a] rep that by (auto simp: queue_rep_def)
    ultimately show ?thesis using val2 [of a] by (simp add: q1_def)
  qed
  have "queue_items q2 = queue_items q @ [v]"
    using queue_items_rep [OF q2(2)] queue_items_rep [OF rep] same val2 [of p]
    by (simp add: q1_def cong: map_cong)
  moreover have "queue_put q v = Some (True, q2)"
    using q2(1) by (simp add: queue_put_def queue_alloc_def p_def q1_def)
  moreover have "queue_inv q2"
    using q2(2) dom2 by (auto simp: queue_inv_def)
  ultimately show ?thesis by blast
qed

lemma queue_items_Nil:
  assumes "queue_inv q"
  shows "queue_items q = [] \<longleftrightarrow> queue_is_empty q"
proof -
  from assms obtain ps where rep: "queue_rep q ps" by (auto simp: queue_inv_def)
  with queue_items_rep [OF rep] show ?thesis
    by (cases ps) (auto simp: queue_is_empty_def queue_rep_def)
qed

lemma queue_get_items:
  assumes inv: "queue_inv q" and items: "queue_items q = x # xs"
  shows "\<exists>q'. queue_get q = Some (Some x, q') \<and> queue_inv q' \<and> queue_items q' = xs"
proof -
  from inv obtain ps where rep: "queue_rep q ps" and brk: "\<forall>p. q_heap q p \<noteq> None \<longrightarrow> p < q_brk q"
    by (auto simp: queue_inv_def)
  from items queue_items_rep [OF rep] obtain p qs where ps: "ps = p # qs"
    and x: "x = fst (the (q_heap q p))" and xs: "xs = map (\<lambda>p. fst (the (q_heap q p))) qs"
    by (cases ps) auto
  from rep ps obtain n where f: "q_first q = Some p" and hp: "q_heap q p = Some (x, n)"
    and sq: "seg (q_heap q) n qs" and l: "qs \<noteq> [] \<longrightarrow> q_last q = Some (last qs)"
    by (auto simp: queue_rep_def x)
  have p: "p \<notin> set qs"
    using rep ps seg_distinct [of "q_heap q" "q_first q" ps] by (simp add: queue_rep_def)
  define q' where "q' = queue_free (q\<lparr>q_first := n\<rparr>) p"
  have rep': "queue_rep q' qs"
    using sq p l by (simp add: queue_rep_def q'_def queue_free_def seg_frame)
  moreover have "queue_items q' = xs"
    using queue_items_rep [OF rep'] p xs
    by (auto simp: q'_def queue_free_def)
  moreover have "queue_inv q'"
    using rep' brk by (auto simp: queue_inv_def) (auto simp: q'_def queue_free_def split: if_splits)
  moreover have "queue_get q = Some (Some x, q')"
    using f hp by (simp add: queue_get_def queue_take_def queue_is_empty_def q'_def)
  ultimately show ?thesis by blast
qed

subsection \<open>The linked queue is an unbounded FIFO\<close>

interpretation lq: unbounded_fifo queue_items queue_inv queue_is_empty queue_put queue_get
proof unfold_locales
  fix q :: "'a queue" and x :: 'a and ok q'
  assume inv: "queue_inv q"
  show "queue_is_empty q \<longleftrightarrow> queue_items q = []"
    by (simp add: queue_items_Nil [OF inv])
  show "(\<exists>q'. queue_put q x = Some (True, q') \<and> queue_inv q' \<and> queue_items q' = queue_items q @ [x])
      \<or> queue_put q x = Some (False, q)"
    using queue_put_inv [OF inv, of x] by simp
  show "ok" if "queue_put q x = Some (ok, q')"
    using that by (auto simp: queue_put_def bind_Some_iff Let_def split: prod.splits)
next
  fix q :: "'a queue"
  assume "queue_inv q" and "queue_items q = []"
  then show "queue_get q = Some (None, q)"
    by (simp add: queue_get_def queue_items_Nil)
next
  fix q :: "'a queue" and x xs
  assume "queue_inv q" and "queue_items q = x # xs"
  then show "\<exists>q'. queue_get q = Some (Some x, q') \<and> queue_inv q' \<and> queue_items q' = xs"
    by (rule queue_get_items)
qed


subsection \<open>Properties\<close>

text \<open>C21. The linked queue is an unbounded FIFO: starting from the empty queue, no sequence of
  pushes and takes dereferences memory that is not allocated, every pushed element is accepted,
  and the elements come out in the order they were pushed.\<close>

theorem queue_fifo:
  "\<exists>out q. run_qops queue_put queue_get ops queue_new = Some (pushed ops, out, q) \<and>
     pushed ops = out @ queue_items q"
proof -
  obtain acc out q where r: "run_qops queue_put queue_get ops queue_new = Some (acc, out, q)"
    and "acc = out @ queue_items q"
    using lq.run_fifo [OF queue_inv_new, of ops] by (auto simp: queue_items_new)
  with lq.run_accepts_all [OF queue_inv_new r] show ?thesis by simp
qed

end
