(* ===== verification/C_Stdlib.thy ===== *)
theory C_Stdlib
  imports Prelude "HOL-Library.Signed_Division" "HOL-Library.Sublist"
begin

section \<open>What the code uses of the C library\<close>

text \<open>
  Executable models of the standard functions the components call: decimal printing (the
  \<open>%d\<close> and \<open>%u\<close> conversions of \<open>sprintf\<close>), \<open>strtol\<close> with base 0, \<open>strstr\<close>, \<open>strrchr\<close> and
  the \<open>malloc\<close> family. \<open>long\<close> is 64 bits and \<open>int\<close> 32 (LP64). None of these is code of the
  repository.
\<close>

definition LONG_MAX :: int where "LONG_MAX = 2 ^ 63 - 1"
definition LONG_MIN :: int where "LONG_MIN = - (2 ^ 63)"
definition INT_MAX :: int where "INT_MAX = 2 ^ 31 - 1"
definition INT_MIN :: int where "INT_MIN = - (2 ^ 31)"

text \<open>Signed \<open>int\<close> arithmetic that overflows has no defined result.\<close>

definition checked_int :: "int \<Rightarrow> int option" where
  "checked_int x = (if INT_MIN \<le> x \<and> x \<le> INT_MAX then Some x else None)"

subsection \<open>Memory allocation\<close>

text \<open>
  \<open>malloc n\<close> returns a block of \<open>n\<close> bytes of unspecified content, or fails. The allocator is a
  parameter of the functions that use it, and \<open>malloc_ok\<close> its documented behaviour.
\<close>

type_synonym 'a allocator = "nat \<Rightarrow> 'a list option"

definition malloc_ok :: "'a allocator \<Rightarrow> bool" where
  "malloc_ok malloc \<longleftrightarrow> (\<forall>n b. malloc n = Some b \<longrightarrow> length b = n)"

lemma malloc_okD: "malloc_ok malloc \<Longrightarrow> malloc n = Some b \<Longrightarrow> length b = n"
  by (simp add: malloc_ok_def)

text \<open>The string a character buffer holds: the characters before its first NUL.\<close>

definition cstr :: "char list \<Rightarrow> string" where
  "cstr buf = takeWhile (\<lambda>c. c \<noteq> NUL) buf"



lemma cstr_append_NUL [simp]: "cstr (s @ NUL # rest) = cstr s"
  by (induction s) (auto simp: cstr_def)

lemma cstr_cstring: "cstring s \<Longrightarrow> cstr s = s"
  by (induction s) (auto simp: cstr_def)

lemma cstring_cstr [simp]: "cstring (cstr buf)"
  by (auto simp: cstr_def cstring_def dest: set_takeWhileD)

subsection \<open>Decimal printing\<close>

definition digit_char :: "nat \<Rightarrow> char" where
  "digit_char d = char_of (48 + d)"

fun dec_nat :: "nat \<Rightarrow> string" where
  "dec_nat n = (if n < 10 then [digit_char n] else dec_nat (n div 10) @ [digit_char (n mod 10)])"

declare dec_nat.simps [simp del]

definition dec_int :: "int \<Rightarrow> string" where
  "dec_int i = (if i < 0 then CHR ''-'' # dec_nat (nat (- i)) else dec_nat (nat i))"

subsection \<open>strtol with base 0\<close>

definition is_space :: "char \<Rightarrow> bool" where
  "is_space c \<longleftrightarrow> c \<in> {CHR '' '', CHR 0x09, CHR 0x0A, CHR 0x0B, CHR 0x0C, CHR 0x0D}"

definition digit_val :: "char \<Rightarrow> nat option" where
  "digit_val c = (let n = of_char c in
     if 48 \<le> n \<and> n \<le> 57 then Some (n - 48)
     else if 97 \<le> n \<and> n \<le> 122 then Some (n - 87)
     else if 65 \<le> n \<and> n \<le> 90 then Some (n - 55) else None)"

definition is_digit :: "nat \<Rightarrow> char \<Rightarrow> bool" where
  "is_digit base c = (case digit_val c of Some d \<Rightarrow> d < base | None \<Rightarrow> False)"

fun read_digits :: "nat \<Rightarrow> nat \<Rightarrow> string \<Rightarrow> nat \<times> string" where
  "read_digits base acc [] = (acc, [])"
| "read_digits base acc (c # s) =
     (if is_digit base c then read_digits base (acc * base + the (digit_val c)) s else (acc, c # s))"

fun strtol_sign :: "string \<Rightarrow> bool \<times> string" where
  "strtol_sign (c # s) =
     (if c = CHR ''-'' then (True, s) else if c = CHR ''+'' then (False, s) else (False, c # s))"
| "strtol_sign [] = (False, [])"

fun strtol_base :: "string \<Rightarrow> nat \<times> string" where
  "strtol_base (z # x # h # s) =
     (if z = CHR ''0'' \<and> (x = CHR ''x'' \<or> x = CHR ''X'') \<and> is_digit 16 h then (16, h # s)
      else if z = CHR ''0'' then (8, z # x # h # s) else (10, z # x # h # s))"
| "strtol_base (z # s) = (if z = CHR ''0'' then (8, z # s) else (10, z # s))"
| "strtol_base [] = (10, [])"

text \<open>
  The result of \<open>strtol (s, &endptr, 0)\<close>: the value, the string at \<open>endptr\<close>, and whether \<open>errno\<close>
  is \<open>ERANGE\<close>. Without a conversion the value is 0 and \<open>endptr\<close> is \<open>s\<close>.
\<close>

definition strtol0 :: "string \<Rightarrow> int \<times> string \<times> bool" where
  "strtol0 s =
     (let (neg, s2) = strtol_sign (dropWhile is_space s);
          (base, s3) = strtol_base s2
      in case s3 of
           [] \<Rightarrow> (0, s, False)
         | c # _ \<Rightarrow>
             if is_digit base c then
               let (v, rest) = read_digits base 0 s3;
                   value = (if neg then - int v else int v)
               in if value > LONG_MAX then (LONG_MAX, rest, True)
                  else if value < LONG_MIN then (LONG_MIN, rest, True)
                  else (value, rest, False)
             else (0, s, False))"

lemma strtol0_range:
  "strtol0 s = (v, rest, e) \<Longrightarrow> LONG_MIN \<le> v \<and> v \<le> LONG_MAX"
  by (auto simp: strtol0_def Let_def LONG_MIN_def LONG_MAX_def
      split: prod.splits list.splits if_splits)

text \<open>Decimal output is read back: the digits of \<open>dec_nat\<close> and what follows them.\<close>

lemma digit_val_digit_char: "d < 10 \<Longrightarrow> digit_val (digit_char d) = Some d"
  by (simp add: digit_val_def digit_char_def Let_def of_char_of)

lemma is_digit_digit_char: "d < 10 \<Longrightarrow> is_digit 10 (digit_char d)"
  by (simp add: is_digit_def digit_val_digit_char)

lemma digit_char_inj: "d < 10 \<Longrightarrow> e < 10 \<Longrightarrow> digit_char d = digit_char e \<longleftrightarrow> d = e"
  by (metis digit_val_digit_char option.inject)

lemma digit_char_0: "digit_char 0 = CHR ''0''"
  by code_simp

lemma read_digits_append:
  "\<forall>c \<in> set ds. is_digit base c \<Longrightarrow>
   read_digits base acc (ds @ s) = read_digits base (fst (read_digits base acc ds)) s"
  by (induction ds arbitrary: acc) auto

lemma dec_nat_digits: "\<forall>c \<in> set (dec_nat n). \<exists>d < 10. c = digit_char d"
proof (induction n rule: dec_nat.induct)
  case (1 n)
  show ?case
  proof (cases "n < 10")
    case False
    have "\<exists>d < 10. digit_char (n mod 10) = digit_char d"
      by (rule exI [of _ "n mod 10"]) simp
    with 1 False show ?thesis by (subst dec_nat.simps) simp
  qed (subst dec_nat.simps, auto)
qed

lemma dec_nat_is_digit: "\<forall>c \<in> set (dec_nat n). is_digit 10 c"
  using dec_nat_digits is_digit_digit_char by fastforce

lemma read_digits_dec_nat: "fst (read_digits 10 0 (dec_nat n)) = n"
proof (induction n rule: dec_nat.induct)
  case (1 n)
  show ?case
  proof (cases "n < 10")
    case True
    then show ?thesis
      by (subst dec_nat.simps) (simp add: is_digit_digit_char digit_val_digit_char)
  next
    case False
    have "read_digits 10 0 (dec_nat (n div 10) @ [digit_char (n mod 10)]) =
        read_digits 10 (n div 10) [digit_char (n mod 10)]"
      using "1" [OF False] read_digits_append [OF dec_nat_is_digit [of "n div 10"]] by simp
    with False show ?thesis
      by (subst dec_nat.simps) (simp add: is_digit_digit_char digit_val_digit_char)
  qed
qed

lemma read_digits_dec_nat_append:
  assumes "s = [] \<or> \<not> is_digit 10 (hd s)"
  shows "read_digits 10 0 (dec_nat n @ s) = (n, s)"
proof -
  have "read_digits 10 0 (dec_nat n @ s) = read_digits 10 n s"
    using read_digits_append [OF dec_nat_is_digit [of n], of 0 s] by (simp add: read_digits_dec_nat)
  with assms show ?thesis by (cases s) auto
qed

lemma dec_nat_not_Nil [simp]: "dec_nat n \<noteq> []"
  by (subst dec_nat.simps) simp

lemma hd_dec_nat_zero: "hd (dec_nat n) = CHR ''0'' \<longleftrightarrow> n = 0"
proof (induction n rule: dec_nat.induct)
  case (1 n)
  show ?case
  proof (cases "n < 10")
    case True
    then show ?thesis
      using digit_char_inj [of n 0] by (subst dec_nat.simps) (simp add: digit_char_0)
  next
    case False
    with "1" have "hd (dec_nat (n div 10)) \<noteq> CHR ''0''" by simp
    with False show ?thesis by (subst dec_nat.simps) simp
  qed
qed

lemma dec_nat_0: "dec_nat 0 = ''0''"
  by (subst dec_nat.simps) (simp add: digit_char_0)

lemma digit_char_not_special:
  assumes "d < 10"
  shows "\<not> is_space (digit_char d)" "digit_char d \<noteq> CHR ''-''" "digit_char d \<noteq> CHR ''+''"
    "digit_char d \<noteq> CHR ''x''" "digit_char d \<noteq> CHR ''X''" "digit_char d \<noteq> NUL"
proof -
  have "d \<in> {0..9}" using assms by simp
  then have "d = 0 \<or> d = 1 \<or> d = 2 \<or> d = 3 \<or> d = 4 \<or> d = 5 \<or> d = 6 \<or> d = 7 \<or> d = 8 \<or> d = 9"
    by auto
  then show "\<not> is_space (digit_char d)" "digit_char d \<noteq> CHR ''-''" "digit_char d \<noteq> CHR ''+''"
    "digit_char d \<noteq> CHR ''x''" "digit_char d \<noteq> CHR ''X''" "digit_char d \<noteq> NUL"
    by (auto simp: is_space_def digit_char_def char_of_def NUL_def)
qed

text \<open>
  A printed integer is read back by \<open>strtol\<close>, up to a suffix that cannot continue a number.
\<close>

definition ends_number :: "string \<Rightarrow> bool" where
  "ends_number s \<longleftrightarrow> s = [] \<or> (\<not> is_digit 10 (hd s) \<and> hd s \<noteq> CHR ''x'' \<and> hd s \<noteq> CHR ''X'')"

lemma is_digit_8: "is_digit 8 c \<Longrightarrow> is_digit 10 c"
  by (auto simp: is_digit_def split: option.splits)

lemma strtol_base_dec_nat:
  assumes "ends_number s"
  shows "strtol_base (dec_nat n @ s) = ((if n = 0 then 8 else 10), dec_nat n @ s)"
proof (cases "n = 0")
  case True
  with assms show ?thesis
    by (cases s; cases "tl s") (auto simp: dec_nat_0 ends_number_def)
next
  case False
  obtain c ds where d: "dec_nat n = c # ds" by (cases "dec_nat n") auto
  with False hd_dec_nat_zero [of n] have "c \<noteq> CHR ''0''" by simp
  with False d show ?thesis by (cases "ds @ s"; cases "tl (ds @ s)") auto
qed

lemma read_digits_dec_nat_base:
  assumes "ends_number s"
  shows "read_digits (if n = 0 then 8 else 10) 0 (dec_nat n @ s) = (n, s)"
proof (cases "n = 0")
  case True
  have "is_digit 8 CHR ''0''" "digit_val CHR ''0'' = Some 0"
    by (simp_all add: is_digit_def digit_val_def Let_def)
  with True assms show ?thesis
    by (cases s) (auto simp: dec_nat_0 ends_number_def dest: is_digit_8)
next
  case False
  with assms show ?thesis
    by (auto simp: ends_number_def intro: read_digits_dec_nat_append)
qed

lemma dec_nat_Cons: "\<exists>d ds. d < 10 \<and> dec_nat n = digit_char d # ds \<and> (n = 0 \<longrightarrow> d = 0)"
proof -
  obtain c ds where d: "dec_nat n = c # ds" by (cases "dec_nat n") auto
  with dec_nat_digits [of n] obtain e where e: "e < 10" "c = digit_char e" by auto
  moreover have "n = 0 \<longrightarrow> e = 0"
    using hd_dec_nat_zero [of n] d e digit_char_inj [of e 0] by (simp add: digit_char_0)
  ultimately show ?thesis using d by blast
qed

lemma strtol0_dec_int:
  assumes s: "ends_number s"
  shows "strtol0 (dec_int v @ s) =
    (if v > LONG_MAX then (LONG_MAX, s, True)
     else if v < LONG_MIN then (LONG_MIN, s, True) else (v, s, False))"
proof -
  let ?n = "nat \<bar>v\<bar>"
  obtain d ds where d: "d < 10" "dec_nat ?n = digit_char d # ds" "?n = 0 \<longrightarrow> d = 0"
    using dec_nat_Cons [of ?n] by (elim exE conjE) (rule that)
  note nsp = digit_char_not_special [OF d(1)]
  have sign: "strtol_sign (dropWhile is_space (dec_int v @ s)) = (v < 0, dec_nat ?n @ s)"
  proof (cases "v < 0")
    case True
    then have "dec_int v = CHR ''-'' # dec_nat ?n" by (simp add: dec_int_def)
    moreover have "\<not> is_space CHR ''-''" by (simp add: is_space_def)
    ultimately show ?thesis using True by simp
  next
    case False
    then have "dec_int v = dec_nat ?n" by (simp add: dec_int_def)
    with False d nsp show ?thesis by simp
  qed
  have dig: "is_digit (if ?n = 0 then 8 else 10) (digit_char d)"
    using d(1,3) by (simp add: is_digit_def digit_val_digit_char)
  define b where "b = (if ?n = 0 then 8 else 10 :: nat)"
  have r: "read_digits b 0 (digit_char d # ds @ s) = (?n, s)"
    using read_digits_dec_nat_base [OF s, of ?n] d(2) by (simp only: b_def append_Cons)
  have base: "strtol_base (digit_char d # ds @ s) = (b, digit_char d # ds @ s)"
    using strtol_base_dec_nat [OF s, of ?n] d(2) by (simp only: b_def append_Cons)
  have sign': "strtol_sign (dropWhile is_space (dec_int v @ s)) = (v < 0, digit_char d # ds @ s)"
    using sign d(2) by (simp only: append_Cons)
  have dig': "is_digit b (digit_char d)" using dig by (simp only: b_def)
  have "strtol0 (dec_int v @ s) =
    (let value = (if v < 0 then - int ?n else int ?n)
     in if value > LONG_MAX then (LONG_MAX, s, True)
        else if value < LONG_MIN then (LONG_MIN, s, True) else (value, s, False))"
    by (simp only: strtol0_def Let_def sign' prod.case base list.case dig' if_True r)
  moreover have "(if v < 0 then - int ?n else int ?n) = v" by simp
  ultimately show ?thesis by (simp only: Let_def)
qed

subsection \<open>strstr\<close>

fun strstr :: "string \<Rightarrow> string \<Rightarrow> nat option" where
  "strstr s r =
     (if prefix r s then Some 0
      else case s of [] \<Rightarrow> None | _ # t \<Rightarrow> map_option Suc (strstr t r))"

declare strstr.simps [simp del]

lemma strstr_Some:
  "strstr s r = Some k \<Longrightarrow>
    take k s @ r @ drop (k + length r) s = s \<and> k + length r \<le> length s \<and>
    (\<forall>j < k. \<not> prefix r (drop j s))"
proof (induction s arbitrary: k)
  case Nil
  then show ?case by (subst (asm) strstr.simps) (auto split: if_splits)
next
  case (Cons c t)
  show ?case
  proof (cases "prefix r (c # t)")
    case True
    then have "k = 0" using Cons.prems by (subst (asm) strstr.simps) simp
    with True prefix_length_le [OF True] show ?thesis by (auto simp: prefix_def)
  next
    case False
    then obtain j where k: "k = Suc j" "strstr t r = Some j"
      using Cons.prems by (subst (asm) strstr.simps) auto
    note ih = Cons.IH [OF k(2)]
    have "\<not> prefix r (drop i (c # t))" if "i < k" for i
      using that ih False k(1) by (cases i) simp_all
    with ih k(1) show ?thesis by simp
  qed
qed

lemma strstr_None: "strstr s r = None \<Longrightarrow> \<not> prefix r (drop j s)"
proof (induction s arbitrary: j)
  case Nil
  then show ?case by (subst (asm) strstr.simps) (auto split: if_splits)
next
  case (Cons c t)
  have "\<not> prefix r (c # t)" "strstr t r = None"
    using Cons.prems by (subst (asm) strstr.simps, simp split: if_splits)+
  with Cons.IH show ?case by (cases j) auto
qed

end
