(* ===== verification/Str_Util.thy ===== *)
theory Str_Util
  imports C_Stdlib
begin

section \<open>String utilities (src/src/util/str_util.cpp)\<close>

text \<open>
  Bounded copy and join, quoting, integer parsing with suffixes, UTF-8 truncation and
  replacement. \<open>size_t\<close> values are naturals below \<open>2^64\<close>, with the wrap-around of \<open>n - 1\<close> at
  \<open>n = 0\<close> written out in \<open>size_pred\<close>; a destination pointer is a buffer and an offset.
\<close>

definition size_pred :: "nat \<Rightarrow> nat" where
  "size_pred n = (if n = 0 then 2 ^ 64 - 1 else n - 1)"

subsection \<open>xstrncpy and xstrjoin\<close>

function xstrncpy_loop ::
  "char list \<Rightarrow> nat \<Rightarrow> string \<Rightarrow> nat \<Rightarrow> nat \<Rightarrow> (char list \<times> nat) option" where
  "xstrncpy_loop dest off src n i =
     (case char_at src i of
        None \<Rightarrow> None
      | Some c \<Rightarrow>
          if i < size_pred n \<and> c \<noteq> NUL
          then (case store dest (off + i) c of
                  None \<Rightarrow> None
                | Some dest' \<Rightarrow> xstrncpy_loop dest' off src n (i + 1))
          else Some (dest, i))"
  by pat_completeness auto
termination
  by (relation "measure (\<lambda>(dest, off, src, n, i). length src - i)")
    (auto simp: char_at_def split: if_splits)

declare xstrncpy_loop.simps [simp del]

definition xstrncpy :: "char list \<Rightarrow> nat \<Rightarrow> string \<Rightarrow> nat \<Rightarrow> (char list \<times> nat) option" where
  "xstrncpy dest off src n = do {
     (dest, i) \<leftarrow> xstrncpy_loop dest off src n 0;
     dest \<leftarrow> (if n \<noteq> 0 then store dest (off + i) NUL else Some dest);
     c \<leftarrow> char_at src i;
     Some (dest, if c = NUL then i else n)
   }"

definition xstrjoin_truncated :: "char list \<Rightarrow> nat \<Rightarrow> (char list \<times> nat) option" where
  "xstrjoin_truncated dst n = do {
     dst \<leftarrow> store dst (size_pred n) NUL;
     Some (dst, n)
   }"

fun xstrjoin_loop ::
  "char list \<Rightarrow> string list \<Rightarrow> char \<Rightarrow> nat \<Rightarrow> nat \<Rightarrow> (char list \<times> nat) option" where
  "xstrjoin_loop dst [] sep n i = Some (dst, i)"
| "xstrjoin_loop dst (token # remaining) sep n i =
     (case (if i \<noteq> 0 then map_option (\<lambda>d. (d, i + 1)) (store dst i sep) else Some (dst, i)) of
        None \<Rightarrow> None
      | Some (dst, i') \<Rightarrow>
          if i \<noteq> 0 \<and> i' = n then xstrjoin_truncated dst n
          else (case xstrncpy dst i' token (n - i') of
                  None \<Rightarrow> None
                | Some (dst, w) \<Rightarrow>
                    if n - i' \<le> w then xstrjoin_truncated dst n
                    else xstrjoin_loop dst remaining sep n (i' + w)))"

definition xstrjoin :: "char list \<Rightarrow> string list \<Rightarrow> char \<Rightarrow> nat \<Rightarrow> (char list \<times> nat) option" where
  "xstrjoin dst tokens sep n = xstrjoin_loop dst tokens sep n 0"

text \<open>
  The string the code joins: a separator goes before a token only when something has been
  written already, so empty leading tokens leave no separator.
\<close>

fun join_from :: "char \<Rightarrow> string \<Rightarrow> string list \<Rightarrow> string" where
  "join_from sep acc [] = acc"
| "join_from sep acc (t # ts) = join_from sep (if acc = [] then t else acc @ sep # t) ts"

text \<open>The copy loop writes the first \<open>n - 1\<close> characters at most.\<close>

lemma xstrncpy_loop_block:
  assumes "cstring src" and "m = min (size_pred n) (length src)" and "i \<le> m"
    and "off + m \<le> length dest"
  shows "xstrncpy_loop dest off src n i =
    map_option (\<lambda>d. (d, m)) (store_block dest (off + i) (take (m - i) (drop i src)))"
  using assms(3,4)
proof (induction "m - i" arbitrary: dest i)
  case 0
  then have i: "i = m" by simp
  have stop: "\<not> (m < size_pred n \<and> c \<noteq> NUL)" if "char_at src m = Some c" for c
    using that assms(2) by (auto simp: char_at_def split: if_splits)
  have "m \<le> length src" using assms(2) by simp
  then obtain c where c: "char_at src m = Some c"
    by (cases "m = length src") auto
  show ?case
    using stop [OF c] c "0.prems" i
    by (subst xstrncpy_loop.simps) (auto simp: store_block_def)
next
  case (Suc k)
  then have i: "i < m" by simp
  then have lt: "i < size_pred n" "i < length src" using assms(2) by auto
  have c: "char_at src i = Some (src ! i)" "src ! i \<noteq> NUL"
    using lt cstring_nth [OF assms(1)] by simp_all
  have off: "off + i < length dest" using i Suc.prems by simp
  define d1 where "d1 = dest[off + i := src ! i]"
  have st: "store dest (off + i) (src ! i) = Some d1"
    using off by (simp add: store_def d1_def)
  have take_Suc: "take (m - i) (drop i src) = src ! i # take (m - Suc i) (drop (Suc i) src)"
    using i lt by (metis Cons_nth_drop_Suc Suc_diff_Suc take_Suc_Cons)
  have "xstrncpy_loop dest off src n i = xstrncpy_loop d1 off src n (i + 1)"
    using c lt st by (subst xstrncpy_loop.simps) simp
  also have "\<dots> = map_option (\<lambda>d. (d, m))
      (store_block d1 (off + (i + 1)) (take (m - (i + 1)) (drop (i + 1) src)))"
    using Suc.hyps(1) [of "i + 1" d1] Suc.hyps(2) Suc.prems i by (simp add: d1_def)
  also have "store_block d1 (off + (i + 1)) (take (m - (i + 1)) (drop (i + 1) src)) =
      store_block dest (off + i) (take (m - i) (drop i src))"
    by (simp add: take_Suc store_block_Cons st)
  finally show ?case .
qed

lemma xstrncpy_block:
  assumes src: "cstring src" and n: "0 < n" and room: "off + n \<le> length dest"
  shows "xstrncpy dest off src n =
    map_option (\<lambda>d. (d, if length src < n then length src else n))
      (store_block dest off (take (n - 1) src @ [NUL]))"
proof -
  define m where "m = min (n - 1) (length src)"
  have m: "m = min (size_pred n) (length src)" "off + m < length dest"
    using n room by (simp_all add: m_def size_pred_def)
  obtain d where d: "store_block dest off (take (n - 1) src) = Some d"
    using store_block_defined [of off "take (n - 1) src" dest] room n by fastforce
  have len: "length (take (n - 1) src) = m" by (simp add: m_def)
  have tk: "take m src = take (n - 1) src" by (simp add: m_def min_def)
  have loop: "xstrncpy_loop dest off src n 0 = Some (d, m)"
    using xstrncpy_loop_block [OF src m(1), of 0 off dest] m(2) d tk by simp
  have "length d = length dest" using d length_store_block by blast
  then obtain d2 where d2: "store d (off + m) NUL = Some d2"
    using m(2) by (auto simp: store_def)
  have blk: "store_block dest off (take (n - 1) src @ [NUL]) = Some d2"
    using d d2 len by (simp add: store_block_append store_as_block)
  have c: "\<exists>c. char_at src m = Some c \<and> (c = NUL \<longleftrightarrow> length src < n)"
  proof (cases "length src < n")
    case True
    then have "m = length src" by (simp add: m_def)
    with True show ?thesis by simp
  next
    case False
    then have "m < length src" using n by (simp add: m_def)
    with False cstring_nth [OF src] show ?thesis by simp
  qed
  show ?thesis
    using loop d2 blk c n m(1) by (auto simp: xstrncpy_def m_def)
qed

lemma join_from_prefix: "\<exists>rest. join_from sep acc ts = acc @ rest"
proof (induction ts arbitrary: acc)
  case Nil
  then show ?case by simp
next
  case (Cons t ts)
  from Cons [of "if acc = [] then t else acc @ sep # t"] show ?case by auto
qed

lemma take_join_from:
  assumes "k \<le> length acc"
  shows "take k (join_from sep acc ts) = take k acc" and "length acc \<le> length (join_from sep acc ts)"
proof -
  obtain r where "join_from sep acc ts = acc @ r"
    using join_from_prefix [of sep acc ts] by (elim exE)
  with assms show "take k (join_from sep acc ts) = take k acc"
    and "length acc \<le> length (join_from sep acc ts)" by simp_all
qed

lemma xstrjoin_truncated_written:
  assumes "length ws = n" and "0 < n" and "n \<le> length dst"
  shows "xstrjoin_truncated (written ws dst) n = Some (written (take (n - 1) ws @ [NUL]) dst, n)"
proof -
  have "ws = take (n - 1) ws @ [last ws]"
    using assms(1,2) by (metis append_butlast_last_id butlast_conv_take length_greater_0_conv)
  then have "store (written ws dst) (n - 1) NUL = Some (written (take (n - 1) ws @ [NUL]) dst)"
    using assms store_block_overwrite [of "n - 1" "take (n - 1) ws" "[last ws]" "[NUL]" dst]
    by (simp add: store_as_block)
  then show ?thesis
    using assms(2) by (simp add: xstrjoin_truncated_def size_pred_def)
qed

text \<open>Copying one token behind what is already written.\<close>

lemma xstrjoin_copy:
  assumes "cstring t" and "length base < n" and "n \<le> length dst" and "length z \<le> 1"
  shows "xstrncpy (written (base @ z) dst) (length base) t (n - length base) =
    (if length base + length t < n then Some (written ((base @ t) @ [NUL]) dst, length t)
     else Some (written (take (n - 1) (base @ t) @ [NUL]) dst, n - length base))"
proof -
  let ?k = "n - length base" and ?buf = "written (base @ z) dst"
  have blk: "store_block ?buf (length base) (take (?k - 1) t @ [NUL]) =
      Some (written (base @ take (?k - 1) t @ [NUL]) dst)"
    using assms(2,3,4) by (intro store_block_overwrite) auto
  have "length ?buf = length dst"
    using assms(2,3,4) by (intro length_written) auto
  then have cpy: "xstrncpy ?buf (length base) t ?k =
      Some (written (base @ take (?k - 1) t @ [NUL]) dst, if length t < ?k then length t else ?k)"
    using xstrncpy_block [OF assms(1), of ?k "length base" ?buf] assms(2,3) blk by simp
  show ?thesis
  proof (cases "length base + length t < n")
    case True
    with cpy show ?thesis by simp
  next
    case False
    then have "take (n - 1) (base @ t) = base @ take (?k - 1) t"
      using assms(2) by simp
    with cpy False show ?thesis by simp
  qed
qed

lemma xstrjoin_loop_join:
  assumes "\<forall>t \<in> set tokens. cstring t" and "length acc < n" and "n \<le> length dst" and "length z \<le> 1"
  shows "xstrjoin_loop (written (acc @ z) dst) tokens sep n (length acc) =
    (let J = join_from sep acc tokens in
     if tokens = [] then Some (written (acc @ z) dst, length acc)
     else if length J < n then Some (written (J @ [NUL]) dst, length J)
     else Some (written (take (n - 1) J @ [NUL]) dst, n))"
  using assms
proof (induction tokens arbitrary: acc z)
  case Nil
  then show ?case by simp
next
  case (Cons t ts)
  define acc' where "acc' = (if acc = [] then t else acc @ sep # t)"
  have t: "cstring t" and ts: "\<forall>t \<in> set ts. cstring t" using Cons.prems(1) by auto
  have J: "join_from sep acc (t # ts) = join_from sep acc' ts" by (simp add: acc'_def)
  have rest: "(if length acc' < n
      then xstrjoin_loop (written (acc' @ [NUL]) dst) ts sep n (length acc')
      else Some (written (take (n - 1) acc' @ [NUL]) dst, n)) =
    (let J = join_from sep acc (t # ts) in
     if length J < n then Some (written (J @ [NUL]) dst, length J)
     else Some (written (take (n - 1) J @ [NUL]) dst, n))"
  proof (cases "length acc' < n")
    case True
    then show ?thesis
      using Cons.IH [OF ts True Cons.prems(3), of "[NUL]"] J by (auto simp: Let_def)
  next
    case False
    then have "take (n - 1) (join_from sep acc' ts) = take (n - 1) acc'"
      and "\<not> length (join_from sep acc' ts) < n"
      using take_join_from [of "n - 1" acc' sep ts] by auto
    with False J show ?thesis by simp
  qed
  show ?case
  proof (cases "acc = []")
    case True
    have "length acc' = length t" "acc' = t" using True by (simp_all add: acc'_def)
    with True rest xstrjoin_copy [OF t, of "[]" n dst z] Cons.prems
      xstrjoin_truncated_written [of "take (n - 1) t @ [NUL]" n dst]
    show ?thesis by (auto simp: Let_def min_def)
  next
    case False
    let ?b = "acc @ [sep]"
    have acc': "acc' = ?b @ t" using False by (simp add: acc'_def)
    have st: "store (written (acc @ z) dst) (length acc) sep = Some (written (?b @ []) dst)"
      using store_block_overwrite [of "length acc" acc z "[sep]" dst] Cons.prems
      by (simp add: store_as_block)
    show ?thesis
    proof (cases "Suc (length acc) = n")
      case True
      then have "\<not> length acc' < n" "take (n - 1) acc' = acc" by (auto simp: acc')
      with True st False rest xstrjoin_truncated_written [of ?b n dst] Cons.prems
      show ?thesis by (auto simp: Let_def)
    next
      case lt: False
      have "length ?b < n" using lt Cons.prems by simp
      note copy = xstrjoin_copy [OF t this Cons.prems(3), of "[]"]
      have sum: "length ?b + length t = length acc'" by (simp add: acc')
      have "xstrjoin_loop (written (acc @ z) dst) (t # ts) sep n (length acc) =
        (if length acc' < n
         then xstrjoin_loop (written (acc' @ [NUL]) dst) ts sep n (length acc')
         else xstrjoin_truncated (written (take (n - 1) acc' @ [NUL]) dst) n)"
        using copy st False lt sum
        by (cases "length acc' < n") (auto simp: acc' [symmetric] simp del: append_assoc)
      moreover have "xstrjoin_truncated (written (take (n - 1) acc' @ [NUL]) dst) n =
          Some (written (take (n - 1) acc' @ [NUL]) dst, n)" if "\<not> length acc' < n"
        using that Cons.prems xstrjoin_truncated_written [of "take (n - 1) acc' @ [NUL]" n dst]
        by simp
      ultimately show ?thesis
        using rest by (cases "length acc' < n") (simp_all add: Let_def del: join_from.simps xstrjoin_loop.simps)
    qed
  qed
qed

lemma xstrjoin_spec:
  assumes "tokens \<noteq> []" and "\<forall>t \<in> set tokens. cstring t" and "0 < n" and "n \<le> length dst"
  shows "xstrjoin dst tokens sep n =
    (let J = join_from sep [] tokens in
     if length J < n then Some (written (J @ [NUL]) dst, length J)
     else Some (written (take (n - 1) J @ [NUL]) dst, n))"
  using xstrjoin_loop_join [of tokens "[]" n dst "[]" sep] assms
  by (simp add: xstrjoin_def written_Nil)

subsection \<open>strquote\<close>

text \<open>The inner \<^term>\<open>None\<close> is the null pointer the code returns when the allocation fails.\<close>

definition strquote :: "char allocator \<Rightarrow> string \<Rightarrow> char list option option" where
  "strquote malloc src =
     (let len = length src in
      case malloc (len + 3) of
        None \<Rightarrow> Some None
      | Some quoted \<Rightarrow> do {
          quoted \<leftarrow> store_block quoted 1 src;
          quoted \<leftarrow> store quoted 0 (CHR 0x22);
          quoted \<leftarrow> store quoted (len + 1) (CHR 0x22);
          quoted \<leftarrow> store quoted (len + 2) NUL;
          Some (Some quoted)
        })"

lemma strquote_result:
  assumes "malloc_ok malloc" and "malloc (length src + 3) = Some b"
  shows "strquote malloc src = Some (Some (CHR 0x22 # src @ [CHR 0x22, NUL]))"
proof -
  have len: "length b = length src + 3" using malloc_okD [OF assms] by simp
  then obtain x ys where b: "b = x # ys" by (cases b) auto
  then have "length ys = length src + 2" using len by simp
  then obtain zs u v where ys: "ys = zs @ [u, v]" "length zs = length src"
    by (metis (no_types, lifting) add_2_eq_Suc' append_Cons append_Nil append_assoc length_Suc_conv_rev)
  have 1: "store_block b 1 src = Some (x # src @ [u, v])"
    by (simp add: store_block_def b ys)
  have 2: "store (x # src @ [u, v]) 0 (CHR 0x22) = Some (CHR 0x22 # src @ [u, v])"
    by (simp add: store_def)
  have 3: "store (CHR 0x22 # src @ [u, v]) (length src + 1) (CHR 0x22) =
      Some (CHR 0x22 # src @ [CHR 0x22, v])"
    by (simp add: store_def list_update_append)
  have 4: "store (CHR 0x22 # src @ [CHR 0x22, v]) (length src + 2) NUL =
      Some (CHR 0x22 # src @ [CHR 0x22, NUL])"
    by (simp add: store_def list_update_append)
  show ?thesis
    by (simp only: strquote_def Let_def assms(2) option.case 1 2 3 4 bind.bind_lunit)
qed

subsection \<open>Integer parsing\<close>

definition parse_integer :: "string \<Rightarrow> int option" where
  "parse_integer s =
     (if s = [] then None
      else let (value, endptr, erange) = strtol0 s in
        if erange then None
        else if endptr \<noteq> [] then None
        else Some value)"

definition suffix_mul :: "string \<Rightarrow> string \<Rightarrow> int option" where
  "suffix_mul s endptr =
     (if endptr \<noteq> [] then
        if s = endptr then None
        else if endptr = ''M'' \<or> endptr = ''m'' then Some 1000000
        else if endptr = ''K'' \<or> endptr = ''k'' then Some 1000
        else None
      else Some 1)"

definition parse_integer_with_suffix :: "string \<Rightarrow> int option" where
  "parse_integer_with_suffix s =
     (if s = [] then None
      else let (value, endptr, erange) = strtol0 s in
        if erange then None
        else case suffix_mul s endptr of
            None \<Rightarrow> None
          | Some mul \<Rightarrow>
              if (value < 0 \<and> LONG_MIN sdiv mul > value) \<or> (value > 0 \<and> LONG_MAX sdiv mul < value)
              then None
              else Some (value * mul))"

lemma dec_int_not_Nil [simp]: "dec_int v \<noteq> []"
  by (simp add: dec_int_def)

lemma parse_integer_dec_int:
  "parse_integer (dec_int v) = (if LONG_MIN \<le> v \<and> v \<le> LONG_MAX then Some v else None)"
  using strtol0_dec_int [of "[]" v] by (auto simp: parse_integer_def ends_number_def)

lemma parse_integer_range: "parse_integer s = Some v \<Longrightarrow> LONG_MIN \<le> v \<and> v \<le> LONG_MAX"
  by (auto simp: parse_integer_def split: if_splits prod.splits dest!: strtol0_range)

text \<open>The division test of the code is exact: it passes when and only when the product fits.\<close>

lemma suffix_overflow_test:
  assumes "mul = 1 \<or> mul = 1000 \<or> mul = 1000000" and "LONG_MIN \<le> v" and "v \<le> LONG_MAX"
  shows "(v < 0 \<and> LONG_MIN sdiv mul > v) \<or> (v > 0 \<and> LONG_MAX sdiv mul < v) \<longleftrightarrow>
    \<not> (LONG_MIN \<le> v * mul \<and> v * mul \<le> LONG_MAX)"
proof -
  have d: "LONG_MIN sdiv 1 = LONG_MIN" "LONG_MAX sdiv 1 = LONG_MAX"
    "LONG_MIN sdiv 1000 = - 9223372036854775" "LONG_MAX sdiv 1000 = 9223372036854775"
    "LONG_MIN sdiv 1000000 = - 9223372036854" "LONG_MAX sdiv 1000000 = 9223372036854"
    by (simp_all add: LONG_MIN_def LONG_MAX_def signed_divide_int_def)
  have b: "- 9223372036854775808 \<le> v" "v \<le> 9223372036854775807"
    using assms(2,3) by (simp_all add: LONG_MIN_def LONG_MAX_def)
  from assms(1) consider "mul = 1" | "mul = 1000" | "mul = 1000000" by auto
  then show ?thesis
    by cases (use d b in \<open>simp_all add: LONG_MIN_def LONG_MAX_def, linarith+\<close>)
qed

lemma parse_integer_with_suffix_range:
  assumes "parse_integer_with_suffix s = Some r"
  shows "LONG_MIN \<le> r \<and> r \<le> LONG_MAX"
proof -
  from assms obtain v e mul where st: "strtol0 s = (v, e, False)" and m: "suffix_mul s e = Some mul"
    and t: "\<not> ((v < 0 \<and> LONG_MIN sdiv mul > v) \<or> (v > 0 \<and> LONG_MAX sdiv mul < v))" and r: "r = v * mul"
    by (auto simp: parse_integer_with_suffix_def split: if_splits prod.splits option.splits)
  from m have "mul = 1 \<or> mul = 1000 \<or> mul = 1000000"
    by (auto simp: suffix_mul_def split: if_splits)
  with suffix_overflow_test [of mul v] strtol0_range [OF st] t r show ?thesis by simp
qed

definition suffix_factor :: "string \<Rightarrow> int" where
  "suffix_factor sfx =
     (if sfx = ''K'' \<or> sfx = ''k'' then 1000 else if sfx = ''M'' \<or> sfx = ''m'' then 1000000 else 1)"

lemma suffix_factor_cases:
  "suffix_factor sfx = 1 \<or> suffix_factor sfx = 1000 \<or> suffix_factor sfx = 1000000"
  by (simp add: suffix_factor_def)

lemma parse_integer_with_suffix_dec_int:
  assumes "sfx \<in> {[], ''K'', ''k'', ''M'', ''m''}"
  shows "parse_integer_with_suffix (dec_int v @ sfx) =
    (let r = v * suffix_factor sfx in if LONG_MIN \<le> r \<and> r \<le> LONG_MAX then Some r else None)"
proof -
  have e: "ends_number sfx"
    using assms by (auto simp: ends_number_def is_digit_def digit_val_def Let_def)
  have ne: "dec_int v @ sfx \<noteq> sfx" by simp
  have mul: "suffix_mul (dec_int v @ sfx) sfx = Some (suffix_factor sfx)"
    using assms ne by (auto simp: suffix_mul_def suffix_factor_def)
  note f = suffix_factor_cases [of sfx]
  show ?thesis
  proof (cases "LONG_MIN \<le> v \<and> v \<le> LONG_MAX")
    case True
    then have "strtol0 (dec_int v @ sfx) = (v, sfx, False)"
      using strtol0_dec_int [OF e, of v] by simp
    with True mul suffix_overflow_test [OF f, of v] show ?thesis
      by (simp add: parse_integer_with_suffix_def Let_def)
  next
    case False
    then have "\<exists>w. strtol0 (dec_int v @ sfx) = (w, sfx, True)"
      using strtol0_dec_int [OF e, of v] by auto
    then have "parse_integer_with_suffix (dec_int v @ sfx) = None"
      by (auto simp: parse_integer_with_suffix_def)
    moreover have "\<not> (LONG_MIN \<le> v * suffix_factor sfx \<and> v * suffix_factor sfx \<le> LONG_MAX)"
      using False f by (auto simp: LONG_MIN_def LONG_MAX_def)
    ultimately show ?thesis by (simp add: Let_def)
  qed
qed

subsection \<open>UTF-8 truncation\<close>

definition utf8_continues :: "char \<Rightarrow> bool" where
  "utf8_continues c \<longleftrightarrow> byte_of c AND 0x80 \<noteq> 0 \<and> byte_of c AND 0xc0 \<noteq> 0xc0"

text \<open>
  The loop that moves back to the start of a code point. Below index 0 the code reads before
  the string.
\<close>

fun utf8_back :: "string \<Rightarrow> nat \<Rightarrow> nat option" where
  "utf8_back s 0 = (if utf8_continues (s ! 0) then None else Some 0)"
| "utf8_back s (Suc len) = (if utf8_continues (s ! Suc len) then utf8_back s len else Some (Suc len))"

definition utf8_truncation_index :: "string \<Rightarrow> nat \<Rightarrow> nat option" where
  "utf8_truncation_index utf8 max_len =
     (let len = length utf8 in
      if len \<le> max_len then Some len else utf8_back utf8 max_len)"

text \<open>One encoded code point: a byte that starts it and the bytes that continue it.\<close>

definition utf8_char :: "string \<Rightarrow> bool" where
  "utf8_char c \<longleftrightarrow> c \<noteq> [] \<and> \<not> utf8_continues (hd c) \<and> (\<forall>x \<in> set (tl c). utf8_continues x)"

lemma utf8_back_finds:
  assumes "l \<le> m" and "\<not> utf8_continues (s ! l)" and "\<forall>i. l < i \<and> i \<le> m \<longrightarrow> utf8_continues (s ! i)"
  shows "utf8_back s m = Some l"
  using assms
proof (induction m)
  case 0
  then show ?case by simp
next
  case (Suc m)
  show ?case
  proof (cases "l = Suc m")
    case True
    with Suc.prems show ?thesis by simp
  next
    case False
    with Suc show ?thesis by simp
  qed
qed

lemma utf8_back_None:
  "\<forall>i \<le> m. utf8_continues (s ! i) \<Longrightarrow> utf8_back s m = None"
  by (induction m) auto

lemma utf8_back_bound: "utf8_back s m = Some k \<Longrightarrow> k \<le> m"
  by (induction m) (auto split: if_splits simp: le_SucI)

lemma utf8_truncation_index_bound:
  "utf8_truncation_index s m = Some k \<Longrightarrow> k \<le> m \<and> k \<le> length s"
  using utf8_back_bound [of s m k] by (auto simp: utf8_truncation_index_def Let_def split: if_splits)

lemma utf8_back_char:
  assumes c: "utf8_char c" and lo: "length p \<le> m" and hi: "m < length p + length c"
  shows "utf8_back (p @ c @ r) m = Some (length p)"
proof (rule utf8_back_finds [OF lo])
  show "\<not> utf8_continues ((p @ c @ r) ! length p)"
    using c by (cases c) (auto simp: utf8_char_def nth_append)
  show "\<forall>i. length p < i \<and> i \<le> m \<longrightarrow> utf8_continues ((p @ c @ r) ! i)"
  proof (intro allI impI)
    fix i assume i: "length p < i \<and> i \<le> m"
    then obtain j where j: "i = length p + Suc j" "Suc j < length c"
      using hi by (metis add_Suc_right less_imp_Suc_add nat_add_left_cancel_less le_less_trans)
    then have "(p @ c @ r) ! i = tl c ! j"
      by (cases c) (auto simp: nth_append)
    moreover have "tl c ! j \<in> set (tl c)" using j(2) by (intro nth_mem) simp
    ultimately show "utf8_continues ((p @ c @ r) ! i)"
      using c by (simp add: utf8_char_def)
  qed
qed

lemma split_at_char:
  assumes "m < length (concat css)"
  shows "\<exists>ps c rs. css = ps @ c # rs \<and> length (concat ps) \<le> m \<and> m < length (concat ps) + length c"
  using assms
proof (induction css arbitrary: m)
  case Nil
  then show ?case by simp
next
  case (Cons c css)
  show ?case
  proof (cases "m < length c")
    case True
    then show ?thesis by (intro exI [of _ "[]"] exI [of _ c] exI [of _ css]) simp
  next
    case False
    then have "m - length c < length (concat css)" using Cons.prems by simp
    from Cons.IH [OF this] obtain ps d rs where
      d: "css = ps @ d # rs" "length (concat ps) \<le> m - length c"
        "m - length c < length (concat ps) + length d" by (elim exE conjE)
    then show ?thesis using False
      by (intro exI [of _ "c # ps"] exI [of _ d] exI [of _ rs]) auto
  qed
qed

text \<open>
  On well-formed text the result is the longest prefix of whole code points that fits.
\<close>

lemma utf8_truncation_index_chars:
  assumes "\<forall>c \<in> set css. utf8_char c"
  shows "\<exists>ps rs. css = ps @ rs \<and> utf8_truncation_index (concat css) m = Some (length (concat ps)) \<and>
    length (concat ps) \<le> m \<and> (rs \<noteq> [] \<longrightarrow> m < length (concat ps) + length (hd rs))"
proof (cases "length (concat css) \<le> m")
  case True
  then show ?thesis
    by (intro exI [of _ css] exI [of _ "[]"]) (simp add: utf8_truncation_index_def)
next
  case False
  then have "m < length (concat css)" by simp
  from split_at_char [OF this] obtain ps c rs where css: "css = ps @ c # rs"
    and b: "length (concat ps) \<le> m" "m < length (concat ps) + length c" by (elim exE conjE)
  have "utf8_char c" using assms css by simp
  from utf8_back_char [OF this b] have "utf8_back (concat css) m = Some (length (concat ps))"
    by (simp add: css)
  with False css b show ?thesis
    by (intro exI [of _ ps] exI [of _ "c # rs"]) (simp add: utf8_truncation_index_def)
qed

subsection \<open>str_replace\<close>

function str_replace_count :: "string \<Rightarrow> string \<Rightarrow> nat" where
  "str_replace_count ins rep =
     (case (if rep = [] then None else strstr ins rep) of
        None \<Rightarrow> 0
      | Some tmp \<Rightarrow> Suc (str_replace_count (drop (tmp + length rep) ins) rep))"
  by pat_completeness auto
termination
proof (relation "measure (\<lambda>(ins, rep). length ins)")
  fix ins rep :: string and tmp
  assume "(if rep = [] then None else strstr ins rep) = Some tmp"
  then have "rep \<noteq> []" "tmp + length rep \<le> length ins"
    using strstr_Some [of ins rep tmp] by (auto split: if_splits)
  then show "((drop (tmp + length rep) ins, rep), ins, rep) \<in> measure (\<lambda>(ins, rep). length ins)"
    by (cases rep) auto
qed simp

declare str_replace_count.simps [simp del]

text \<open>
  The copying loop: \<open>tmp\<close> is the offset in the result, \<open>orig\<close> what remains of the source.
  \<open>strcpy\<close> also writes the terminating NUL. The lengths, the distance \<open>len_front\<close> and the number of
  occurrences are of type \<^verbatim>\<open>int\<close>: one that is not has no defined result.
\<close>

fun str_replace_loop ::
  "nat \<Rightarrow> char list \<Rightarrow> nat \<Rightarrow> string \<Rightarrow> string \<Rightarrow> string \<Rightarrow> char list option" where
  "str_replace_loop 0 result tmp orig rep wth = store_block result tmp (orig @ [NUL])"
| "str_replace_loop (Suc count) result tmp orig rep wth =
     (case strstr orig rep of
        None \<Rightarrow> None
      | Some len_front \<Rightarrow>
          (case checked_int (int len_front) of
             None \<Rightarrow> None
           | Some _ \<Rightarrow>
               (case store_block result tmp (take len_front orig) of
                  None \<Rightarrow> None
                | Some result \<Rightarrow>
                    (case store_block result (tmp + len_front) (wth @ [NUL]) of
                       None \<Rightarrow> None
                     | Some result \<Rightarrow>
                         str_replace_loop count result (tmp + len_front + length wth)
                           (drop (len_front + length rep) orig) rep wth))))"

definition str_replace ::
  "char allocator \<Rightarrow> string option \<Rightarrow> string option \<Rightarrow> string option \<Rightarrow> char list option option" where
  "str_replace malloc orig rep wth =
     (case (orig, rep) of
        (Some orig, Some rep) \<Rightarrow>
          if rep = [] then Some None
          else do {
            len_rep \<leftarrow> checked_int (int (length rep));
            let wth = (case wth of None \<Rightarrow> [] | Some w \<Rightarrow> w);
            len_with \<leftarrow> checked_int (int (length wth));
            let count = str_replace_count orig rep;
            checked_int (int count);
            d \<leftarrow> checked_int (len_with - len_rep);
            n \<leftarrow> checked_int (d * int count);
            case malloc (nat (int (length orig) + n + 1)) of
              None \<Rightarrow> Some None
            | Some result \<Rightarrow>
                map_option Some (str_replace_loop count result 0 orig rep wth)
          }
      | _ \<Rightarrow> Some None)"

text \<open>The reference: every occurrence found from left to right, without overlap, is replaced.\<close>

function replace_all :: "string \<Rightarrow> string \<Rightarrow> string \<Rightarrow> string" where
  "replace_all s rep wth =
     (if rep \<noteq> [] \<and> prefix rep s then wth @ replace_all (drop (length rep) s) rep wth
      else case s of [] \<Rightarrow> [] | c # t \<Rightarrow> c # replace_all t rep wth)"
  by pat_completeness auto
termination
proof (relation "measure (\<lambda>(s, rep, wth). length s)")
  fix s rep wth :: string
  assume "rep \<noteq> [] \<and> prefix rep s"
  then have "0 < length rep" "length rep \<le> length s" by (auto dest: prefix_length_le)
  then have "length s - length rep < length s" by linarith
  then show "((drop (length rep) s, rep, wth), s, rep, wth) \<in> measure (\<lambda>(s, rep, wth). length s)"
    by simp
qed simp_all

declare replace_all.simps [simp del]

lemma replace_all_Nil: "rep \<noteq> [] \<Longrightarrow> replace_all [] rep wth = []"
  by (subst replace_all.simps) simp

lemma replace_all_prefix:
  "rep \<noteq> [] \<Longrightarrow> prefix rep s \<Longrightarrow> replace_all s rep wth = wth @ replace_all (drop (length rep) s) rep wth"
  by (subst replace_all.simps) simp

lemma replace_all_Cons:
  "\<not> prefix rep (c # t) \<Longrightarrow> replace_all (c # t) rep wth = c # replace_all t rep wth"
  by (subst replace_all.simps) simp

lemma replace_all_strstr:
  assumes "rep \<noteq> []"
  shows "replace_all s rep wth =
    (case strstr s rep of None \<Rightarrow> s
     | Some k \<Rightarrow> take k s @ wth @ replace_all (drop (k + length rep) s) rep wth)"
proof (induction s)
  case Nil
  with assms show ?case by (subst strstr.simps) (simp add: replace_all_Nil)
next
  case (Cons c t)
  show ?case
  proof (cases "prefix rep (c # t)")
    case True
    with assms show ?thesis by (subst strstr.simps) (simp add: replace_all_prefix)
  next
    case False
    with Cons show ?thesis
      by (subst strstr.simps) (auto simp: replace_all_Cons split: option.splits)
  qed
qed

lemma length_replace_all:
  assumes "rep \<noteq> []"
  shows "int (length (replace_all s rep wth)) =
    int (length s) + (int (length wth) - int (length rep)) * int (str_replace_count s rep)"
proof (induction s rule: length_induct)
  case (1 s)
  show ?case
  proof (cases "strstr s rep")
    case None
    then show ?thesis
      using replace_all_strstr [OF assms, of s wth] by (subst str_replace_count.simps) simp
  next
    case (Some k)
    note k = strstr_Some [OF Some]
    let ?t = "drop (k + length rep) s"
    have "length ?t < length s" using k assms by (cases rep) auto
    with 1 have ih: "int (length (replace_all ?t rep wth)) = int (length ?t) +
      (int (length wth) - int (length rep)) * int (str_replace_count ?t rep)" by blast
    have "str_replace_count s rep = Suc (str_replace_count ?t rep)"
      using Some assms by (subst str_replace_count.simps) simp
    with ih replace_all_strstr [OF assms, of s wth] Some k show ?thesis
      by (simp add: algebra_simps)
  qed
qed

lemma store_block_beyond:
  assumes "length z \<le> 1" and "length ws + length bs \<le> length b" and "length ws + length z \<le> length b"
  shows "\<exists>z'. length z' \<le> 1 \<and> length ws + length bs + length z' \<le> length b \<and>
    store_block (written (ws @ z) b) (length ws) bs = Some (written ((ws @ bs) @ z') b)"
proof (cases "bs = []")
  case True
  with assms show ?thesis
    by (intro exI [of _ z]) (simp add: store_block_def written_def)
next
  case False
  then have "length z \<le> length bs" using assms(1) by (cases bs) auto
  with assms show ?thesis
    by (intro exI [of _ "[]"]) (auto intro!: store_block_overwrite)
qed

lemma str_replace_loop_all:
  assumes "rep \<noteq> []" and "count = str_replace_count orig rep" and "length z \<le> 1"
    and "length ws + length (replace_all orig rep wth) < length b" and "int (length orig) \<le> INT_MAX"
  shows "str_replace_loop count (written (ws @ z) b) (length ws) orig rep wth =
    Some (written (ws @ replace_all orig rep wth @ [NUL]) b)"
  using assms(2-5)
proof (induction count arbitrary: orig ws z)
  case 0
  then have "strstr orig rep = None"
    using assms(1) by (subst (asm) str_replace_count.simps) (simp split: option.splits)
  then have "replace_all orig rep wth = orig"
    using replace_all_strstr [OF assms(1), of orig wth] by simp
  with 0 show ?case by (auto intro!: store_block_overwrite)
next
  case (Suc count)
  then obtain k where k: "strstr orig rep = Some k"
    and c: "count = str_replace_count (drop (k + length rep) orig) rep"
    using assms(1) by (subst (asm) str_replace_count.simps) (auto split: option.splits)
  note kb = strstr_Some [OF k]
  define t where "t = drop (k + length rep) orig"
  have R: "replace_all orig rep wth = take k orig @ wth @ replace_all t rep wth"
    using replace_all_strstr [OF assms(1), of orig wth] k by (simp add: t_def)
  have len: "length ws + k + length wth + length (replace_all t rep wth) < length b"
    using Suc.prems(3) R kb by simp
  obtain z1 where z1: "length z1 \<le> 1" "length ws + length (take k orig) + length z1 \<le> length b"
    "store_block (written (ws @ z) b) (length ws) (take k orig) = Some (written ((ws @ take k orig) @ z1) b)"
    using store_block_beyond [of z ws "take k orig" b] Suc.prems(2) len kb by auto
  let ?w = "ws @ take k orig"
  have s2: "store_block (written (?w @ z1) b) (length ?w) (wth @ [NUL]) = Some (written (?w @ wth @ [NUL]) b)"
    using z1(1) len kb by (intro store_block_overwrite) auto
  have ih: "str_replace_loop count (written ((?w @ wth) @ [NUL]) b) (length (?w @ wth)) t rep wth =
      Some (written ((?w @ wth) @ replace_all t rep wth @ [NUL]) b)"
    using len kb Suc.prems(4) by (intro Suc.IH) (auto simp: c t_def)
  have "checked_int (int k) = Some (int k)"
    using kb Suc.prems(4) by (simp add: checked_int_def INT_MIN_def)
  moreover have l: "length ws + k = length ?w" "length ws + k + length wth = length (?w @ wth)"
    using kb by simp_all
  ultimately show ?case
    using k z1(3) s2 ih by (simp add: R t_def [symmetric] l del: length_append append_assoc) (simp add: add.assoc)
qed

lemma str_replace_count_bound: "rep \<noteq> [] \<Longrightarrow> str_replace_count s rep \<le> length s"
proof (induction s rule: length_induct)
  case (1 s)
  show ?case
  proof (cases "strstr s rep")
    case None
    then show ?thesis by (subst str_replace_count.simps) simp
  next
    case (Some k)
    let ?t = "drop (k + length rep) s"
    have "length ?t < length s" using strstr_Some [OF Some] 1(2) by (cases rep) auto
    moreover from this 1 have "str_replace_count ?t rep \<le> length ?t" by blast
    ultimately show ?thesis using Some 1(2) by (subst str_replace_count.simps) simp
  qed
qed

lemma str_replace_correct:
  assumes "malloc_ok malloc" and "rep \<noteq> []"
    and "malloc (length (replace_all orig rep wth) + 1) = Some b"
    and "int (length rep) \<le> INT_MAX" and "int (length wth) \<le> INT_MAX"
    and "INT_MIN \<le> (int (length wth) - int (length rep)) * int (str_replace_count orig rep)"
    and "(int (length wth) - int (length rep)) * int (str_replace_count orig rep) \<le> INT_MAX" and "int (length orig) \<le> INT_MAX"
  shows "str_replace malloc (Some orig) (Some rep) (Some wth) =
    Some (Some (replace_all orig rep wth @ [NUL]))"
proof -
  let ?R = "replace_all orig rep wth" and ?c = "str_replace_count orig rep"
  have lb: "length b = length ?R + 1" using malloc_okD [OF assms(1,3)] by simp
  have n: "nat (int (length orig) + (int (length wth) - int (length rep)) * int ?c + 1) = length ?R + 1"
    using length_replace_all [OF assms(2), of orig wth] by simp
  have loop: "str_replace_loop ?c b 0 orig rep wth = Some (?R @ [NUL])"
    using str_replace_loop_all [OF assms(2) refl, of "[]" "[]" orig wth b] lb assms(8)
    by (simp add: written_def)
  have "checked_int (int (length rep)) = Some (int (length rep))"
    "checked_int (int (length wth)) = Some (int (length wth))"
    "checked_int (int (length wth) - int (length rep)) = Some (int (length wth) - int (length rep))"
    "checked_int ((int (length wth) - int (length rep)) * int ?c) =
       Some ((int (length wth) - int (length rep)) * int ?c)"
    "checked_int (int ?c) = Some (int ?c)"
    using assms(4-8) str_replace_count_bound [OF assms(2), of orig] by (simp_all add: checked_int_def INT_MIN_def INT_MAX_def)
  then show ?thesis
    using assms(2,3) n loop by (simp add: str_replace_def Let_def)
qed

subsection \<open>Properties\<close>

text \<open>Joining tokens writes the joined string and its terminator when it fits in \<open>n\<close> bytes
  and returns its length; otherwise it writes the longest prefix that fits, terminated, and
  returns \<open>n\<close>. No byte beyond them is touched.\<close>

theorem xstrjoin_joins:
  assumes "tokens \<noteq> []" and "\<forall>t \<in> set tokens. cstring t" and "0 < n" and "n \<le> length dst"
  shows "xstrjoin dst tokens sep n =
    (let J = join_from sep [] tokens in
     if length J < n then Some (J @ [NUL] @ drop (length J + 1) dst, length J)
     else Some (take (n - 1) J @ [NUL] @ drop n dst, n))"
  using xstrjoin_spec [OF assms, of sep] assms(3,4) by (auto simp: written_def Let_def min_def)

theorem xstrjoin_joins_witness:
  "xstrjoin ''########'' [''ab'', ''c''] (CHR '' '') 4 = Some (''ab '' @ [NUL] @ ''####'', 4)"
  using xstrjoin_joins [of "[''ab'', ''c'']" 4 "''########''" "CHR '' ''"]
  by (simp add: NUL_def)

text \<open>Parsing a printed number with a suffix yields the number times the suffix's factor
  (1, 1000 or 1000000) exactly when that product is a \<open>long\<close>, and fails otherwise: the
  overflow test of the code is exact.\<close>

theorem parse_suffix_exact:
  assumes "sfx \<in> {[], ''K'', ''k'', ''M'', ''m''}"
  shows "parse_integer_with_suffix (dec_int v @ sfx) =
    (let r = v * suffix_factor sfx in if LONG_MIN \<le> r \<and> r \<le> LONG_MAX then Some r else None)"
  by (rule parse_integer_with_suffix_dec_int [OF assms])

theorem parse_suffix_exact_witness:
  "parse_integer_with_suffix (dec_int 8 @ ''M'') = Some 8000000 \<and>
   parse_integer_with_suffix (dec_int 9223372036854776 @ ''K'') = None"
  using parse_suffix_exact [of "''M''" 8] parse_suffix_exact [of "''K''" 9223372036854776]
  by (simp add: suffix_factor_def LONG_MIN_def LONG_MAX_def)

text \<open>C22. Truncation of UTF-8 text to \<open>m\<close> bytes cuts between two characters: the index is at most
  \<open>m\<close>, what lies before it is a sequence of whole characters, and the next character does not
  fit any more.\<close>

theorem utf8_truncation_whole_chars:
  assumes "\<forall>c \<in> set css. utf8_char c"
  shows "\<exists>ps rs. css = ps @ rs \<and> utf8_truncation_index (concat css) m = Some (length (concat ps)) \<and>
    length (concat ps) \<le> m \<and> (rs \<noteq> [] \<longrightarrow> m < length (concat ps) + length (hd rs))"
  by (rule utf8_truncation_index_chars [OF assms])

theorem utf8_truncation_whole_chars_witness:
  "utf8_truncation_index (concat [''a'', [CHR 0xC3, CHR 0xA9], ''b'']) 2 = Some 1 \<and>
   (\<exists>ps rs. [''a'', [CHR 0xC3, CHR 0xA9], ''b''] = ps @ rs \<and> length (concat ps) = 1)"
proof -
  have u: "\<forall>c \<in> set [''a'', [CHR 0xC3, CHR 0xA9], ''b'']. utf8_char c"
    by code_simp
  have 1: "utf8_truncation_index (concat [''a'', [CHR 0xC3, CHR 0xA9], ''b'']) 2 = Some 1"
    by code_simp
  from utf8_truncation_whole_chars [OF u, of 2] 1 show ?thesis by (metis option.inject)
qed

text \<open>C23. \<open>str_replace\<close> returns a fresh, terminated string in which every occurrence of the
  pattern, found from the left without overlap, is replaced, and which exactly fills the block
  it allocated, provided that the lengths of the three strings and the change in length are values
  of type \<^verbatim>\<open>int\<close>.\<close>

theorem str_replace_all:
  assumes "malloc_ok malloc" and "rep \<noteq> []"
    and "malloc (length (replace_all orig rep wth) + 1) = Some b"
    and "int (length rep) \<le> INT_MAX" and "int (length wth) \<le> INT_MAX"
    and "INT_MIN \<le> (int (length wth) - int (length rep)) * int (str_replace_count orig rep)"
    and "(int (length wth) - int (length rep)) * int (str_replace_count orig rep) \<le> INT_MAX" and "int (length orig) \<le> INT_MAX"
  shows "str_replace malloc (Some orig) (Some rep) (Some wth) =
    Some (Some (replace_all orig rep wth @ [NUL]))"
  by (rule str_replace_correct [OF assms])

theorem str_replace_all_witness:
  "str_replace (\<lambda>n. Some (replicate n (CHR ''?''))) (Some ''a.b.'') (Some ''.'') (Some ''::'') =
   Some (Some (''a::b::'' @ [NUL]))"
proof -
  have r: "replace_all ''a.b.'' ''.'' ''::'' = ''a::b::''" by code_simp
  have c: "str_replace_count ''a.b.'' ''.'' = 2" by code_simp
  show ?thesis
    using str_replace_all [of "\<lambda>n. Some (replicate n (CHR ''?''))" "''.''" "''a.b.''" "''::''"]
    by (simp add: r c malloc_ok_def INT_MIN_def INT_MAX_def)
qed

end
