(* ===== verification/Common.thy ===== *)
theory Common
  imports C_Stdlib Complex_Main
begin

section \<open>Shared data: geometry, floats, Android input codes\<close>

text \<open>
  The structures of src/src/core/common.hpp, the \<open>float\<close> values the messages carry, and the
  enumerations of src/src/android/input.hpp that the client sends. A C++ enumeration holds any
  32-bit value once an integer has been cast to it, so the fields of these types are \<open>u32\<close>
  and the enumerators are named by a datatype with its numbering.
\<close>

record Size =
  width :: u16
  height :: u16

record Point =
  pt_x :: u32
  pt_y :: u32

record Position =
  screen_size :: Size
  point :: Point

text \<open>
  A \<open>float\<close> is a rational number, an infinity or not a number. Comparisons with a value
  that is not a number are false.
\<close>

datatype c_float = Fin rat | Infinite bool | Not_A_Number

fun float_ge :: "c_float \<Rightarrow> rat \<Rightarrow> bool" where
  "float_ge (Fin q) r \<longleftrightarrow> q \<ge> r"
| "float_ge (Infinite negative) r \<longleftrightarrow> \<not> negative"
| "float_ge Not_A_Number r \<longleftrightarrow> False"

fun float_le :: "c_float \<Rightarrow> rat \<Rightarrow> bool" where
  "float_le (Fin q) r \<longleftrightarrow> q \<le> r"
| "float_le (Infinite negative) r \<longleftrightarrow> negative"
| "float_le Not_A_Number r \<longleftrightarrow> False"

text \<open>
  Rounding to the nearest integer, ties to even, as \<open>lrint\<close> and the conversions of \<open>printf\<close>
  do it, and the \<open>%f\<close> conversion, which prints six digits after the point.
\<close>

definition round_half_even :: "rat \<Rightarrow> int" where
  "round_half_even q =
     (let n = \<lfloor>q\<rfloor>; r = q - of_int n in
      if r < 1 / 2 \<or> (r = 1 / 2 \<and> even n) then n else n + 1)"

definition pad_left :: "nat \<Rightarrow> string \<Rightarrow> string" where
  "pad_left n s = replicate (n - length s) (CHR ''0'') @ s"

fun fmt_f :: "c_float \<Rightarrow> string" where
  "fmt_f (Fin q) =
     (let m = nat (round_half_even (\<bar>q\<bar> * 1000000)) in
      (if q < 0 then ''-'' else '''') @ dec_nat (m div 1000000) @ ''.''
        @ pad_left 6 (dec_nat (m mod 1000000)))"
| "fmt_f (Infinite negative) = (if negative then ''-inf'' else ''inf'')"
| "fmt_f Not_A_Number = ''nan''"

subsection \<open>Android input codes\<close>

datatype AndroidMetaState =
    AMETA_NONE | AMETA_ALT_ON | AMETA_ALT_LEFT_ON | AMETA_ALT_RIGHT_ON
  | AMETA_SHIFT_ON | AMETA_SHIFT_LEFT_ON | AMETA_SHIFT_RIGHT_ON
  | AMETA_SYM_ON | AMETA_FUNCTION_ON
  | AMETA_CTRL_ON | AMETA_CTRL_LEFT_ON | AMETA_CTRL_RIGHT_ON
  | AMETA_META_ON | AMETA_META_LEFT_ON | AMETA_META_RIGHT_ON
  | AMETA_CAPS_LOCK_ON | AMETA_NUM_LOCK_ON | AMETA_SCROLL_LOCK_ON

fun meta_code :: "AndroidMetaState \<Rightarrow> u32" where
  "meta_code AMETA_NONE = 0"
| "meta_code AMETA_ALT_ON = 0x02"
| "meta_code AMETA_ALT_LEFT_ON = 0x10"
| "meta_code AMETA_ALT_RIGHT_ON = 0x20"
| "meta_code AMETA_SHIFT_ON = 0x01"
| "meta_code AMETA_SHIFT_LEFT_ON = 0x40"
| "meta_code AMETA_SHIFT_RIGHT_ON = 0x80"
| "meta_code AMETA_SYM_ON = 0x04"
| "meta_code AMETA_FUNCTION_ON = 0x08"
| "meta_code AMETA_CTRL_ON = 0x1000"
| "meta_code AMETA_CTRL_LEFT_ON = 0x2000"
| "meta_code AMETA_CTRL_RIGHT_ON = 0x4000"
| "meta_code AMETA_META_ON = 0x10000"
| "meta_code AMETA_META_LEFT_ON = 0x20000"
| "meta_code AMETA_META_RIGHT_ON = 0x40000"
| "meta_code AMETA_CAPS_LOCK_ON = 0x100000"
| "meta_code AMETA_NUM_LOCK_ON = 0x200000"
| "meta_code AMETA_SCROLL_LOCK_ON = 0x400000"

datatype AndroidKeyEventAction =
  AKEY_EVENT_ACTION_DOWN | AKEY_EVENT_ACTION_UP | AKEY_EVENT_ACTION_MULTIPLE

fun key_action_code :: "AndroidKeyEventAction \<Rightarrow> u32" where
  "key_action_code AKEY_EVENT_ACTION_DOWN = 0"
| "key_action_code AKEY_EVENT_ACTION_UP = 1"
| "key_action_code AKEY_EVENT_ACTION_MULTIPLE = 2"

datatype AndroidMotionEventAction =
    AMOTION_EVENT_ACTION_MASK | AMOTION_EVENT_ACTION_POINTER_INDEX_MASK
  | AMOTION_EVENT_ACTION_DOWN | AMOTION_EVENT_ACTION_UP | AMOTION_EVENT_ACTION_MOVE
  | AMOTION_EVENT_ACTION_CANCEL | AMOTION_EVENT_ACTION_OUTSIDE
  | AMOTION_EVENT_ACTION_POINTER_DOWN | AMOTION_EVENT_ACTION_POINTER_UP
  | AMOTION_EVENT_ACTION_HOVER_MOVE | AMOTION_EVENT_ACTION_SCROLL
  | AMOTION_EVENT_ACTION_HOVER_ENTER | AMOTION_EVENT_ACTION_HOVER_EXIT
  | AMOTION_EVENT_ACTION_BUTTON_PRESS | AMOTION_EVENT_ACTION_BUTTON_RELEASE

fun motion_action_code :: "AndroidMotionEventAction \<Rightarrow> u32" where
  "motion_action_code AMOTION_EVENT_ACTION_MASK = 0xff"
| "motion_action_code AMOTION_EVENT_ACTION_POINTER_INDEX_MASK = 0xff00"
| "motion_action_code AMOTION_EVENT_ACTION_DOWN = 0"
| "motion_action_code AMOTION_EVENT_ACTION_UP = 1"
| "motion_action_code AMOTION_EVENT_ACTION_MOVE = 2"
| "motion_action_code AMOTION_EVENT_ACTION_CANCEL = 3"
| "motion_action_code AMOTION_EVENT_ACTION_OUTSIDE = 4"
| "motion_action_code AMOTION_EVENT_ACTION_POINTER_DOWN = 5"
| "motion_action_code AMOTION_EVENT_ACTION_POINTER_UP = 6"
| "motion_action_code AMOTION_EVENT_ACTION_HOVER_MOVE = 7"
| "motion_action_code AMOTION_EVENT_ACTION_SCROLL = 8"
| "motion_action_code AMOTION_EVENT_ACTION_HOVER_ENTER = 9"
| "motion_action_code AMOTION_EVENT_ACTION_HOVER_EXIT = 10"
| "motion_action_code AMOTION_EVENT_ACTION_BUTTON_PRESS = 11"
| "motion_action_code AMOTION_EVENT_ACTION_BUTTON_RELEASE = 12"

datatype AndroidMotionEventButtons =
    AMOTION_EVENT_BUTTON_PRIMARY | AMOTION_EVENT_BUTTON_SECONDARY
  | AMOTION_EVENT_BUTTON_TERTIARY | AMOTION_EVENT_BUTTON_BACK
  | AMOTION_EVENT_BUTTON_FORWARD
  | AMOTION_EVENT_BUTTON_STYLUS_PRIMARY | AMOTION_EVENT_BUTTON_STYLUS_SECONDARY

fun button_code :: "AndroidMotionEventButtons \<Rightarrow> u32" where
  "button_code AMOTION_EVENT_BUTTON_PRIMARY = push_bit 0 1"
| "button_code AMOTION_EVENT_BUTTON_SECONDARY = push_bit 1 1"
| "button_code AMOTION_EVENT_BUTTON_TERTIARY = push_bit 2 1"
| "button_code AMOTION_EVENT_BUTTON_BACK = push_bit 3 1"
| "button_code AMOTION_EVENT_BUTTON_FORWARD = push_bit 4 1"
| "button_code AMOTION_EVENT_BUTTON_STYLUS_PRIMARY = push_bit 5 1"
| "button_code AMOTION_EVENT_BUTTON_STYLUS_SECONDARY = push_bit 6 1"

lemma length_dec_nat_le: "n < 10 ^ Suc k \<Longrightarrow> length (dec_nat n) \<le> Suc k"
proof (induction k arbitrary: n)
  case 0
  then show ?case by (subst dec_nat.simps) simp
next
  case (Suc k)
  then have "n div 10 < 10 ^ Suc k" by (simp add: less_mult_imp_div_less mult.commute)
  with Suc.IH have "length (dec_nat (n div 10)) \<le> Suc k" by blast
  then show ?case by (subst dec_nat.simps) simp
qed

lemma length_dec_int_le:
  assumes "\<bar>i\<bar> < 10 ^ Suc k"
  shows "length (dec_int i) \<le> k + 2"
proof -
  have "nat \<bar>i\<bar> < 10 ^ Suc k" using assms by (simp add: nat_less_iff)
  then have "length (dec_nat (nat \<bar>i\<bar>)) \<le> Suc k" by (rule length_dec_nat_le)
  then show ?thesis by (simp add: dec_int_def abs_if split: if_splits)
qed

lemma length_dec_int_32 [simp]: "length (dec_int (sint (w :: u32))) \<le> 11"
  using length_dec_int_le [of "sint w" 9] sint_range_size [of w] by (simp add: word_size abs_less_iff)

lemma length_dec_int_64 [simp]: "length (dec_int (sint (w :: u64))) \<le> 20"
  using length_dec_int_le [of "sint w" 18] sint_range_size [of w] by (simp add: word_size abs_less_iff)

lemma length_dec_int_16 [simp]: "length (dec_int (uint (w :: u16))) \<le> 6"
  using length_dec_int_le [of "uint w" 4] uint_range_size [of w] by (simp add: word_size)

end
