(* ===== verification/Control_Msg.thy ===== *)
theory Control_Msg
  imports Common Buffer_Util Str_Util
begin

section \<open>Control messages (src/src/message/control_msg.hpp, control_msg.cpp)\<close>

text \<open>
  The messages the client sends to the device: their data, the binary encoding \<open>Serialize\<close>
  with its helpers, the JSON text \<open>JsonSerialize\<close> and its reader \<open>JsonDeserialize\<close>. The
  reference is the wire format \<open>wire\<close> with the decoder \<open>decode\<close>: serialization writes exactly
  the wire bytes, inside the buffer, and the decoder reads a stream of messages back.
\<close>

subsection \<open>Data\<close>

datatype ControlMessageType =
    CONTROL_MSG_TYPE_INJECT_KEYCODE
  | CONTROL_MSG_TYPE_INJECT_TEXT
  | CONTROL_MSG_TYPE_INJECT_TOUCH_EVENT
  | CONTROL_MSG_TYPE_INJECT_SCROLL_EVENT
  | CONTROL_MSG_TYPE_BACK_OR_SCREEN_ON
  | CONTROL_MSG_TYPE_EXPAND_NOTIFICATION_PANEL
  | CONTROL_MSG_TYPE_COLLAPSE_NOTIFICATION_PANEL
  | CONTROL_MSG_TYPE_GET_CLIPBOARD
  | CONTROL_MSG_TYPE_SET_CLIPBOARD
  | CONTROL_MSG_TYPE_SET_SCREEN_POWER_MODE
  | CONTROL_MSG_TYPE_ROTATE_DEVICE
  | CONTROL_MSG_TYPE_START_RECORDING
  | CONTROL_MSG_TYPE_END_RECORDING
  | CONTROL_MSG_TYPE_UNKNOWN

fun msg_type_code :: "ControlMessageType \<Rightarrow> u8" where
  "msg_type_code CONTROL_MSG_TYPE_INJECT_KEYCODE = 0"
| "msg_type_code CONTROL_MSG_TYPE_INJECT_TEXT = 1"
| "msg_type_code CONTROL_MSG_TYPE_INJECT_TOUCH_EVENT = 2"
| "msg_type_code CONTROL_MSG_TYPE_INJECT_SCROLL_EVENT = 3"
| "msg_type_code CONTROL_MSG_TYPE_BACK_OR_SCREEN_ON = 4"
| "msg_type_code CONTROL_MSG_TYPE_EXPAND_NOTIFICATION_PANEL = 5"
| "msg_type_code CONTROL_MSG_TYPE_COLLAPSE_NOTIFICATION_PANEL = 6"
| "msg_type_code CONTROL_MSG_TYPE_GET_CLIPBOARD = 7"
| "msg_type_code CONTROL_MSG_TYPE_SET_CLIPBOARD = 8"
| "msg_type_code CONTROL_MSG_TYPE_SET_SCREEN_POWER_MODE = 9"
| "msg_type_code CONTROL_MSG_TYPE_ROTATE_DEVICE = 10"
| "msg_type_code CONTROL_MSG_TYPE_START_RECORDING = 11"
| "msg_type_code CONTROL_MSG_TYPE_END_RECORDING = 12"
| "msg_type_code CONTROL_MSG_TYPE_UNKNOWN = 13"

datatype ScreenPowerMode = SCREEN_POWER_MODE_OFF | SCREEN_POWER_MODE_NORMAL

fun power_mode_code :: "ScreenPowerMode \<Rightarrow> u8" where
  "power_mode_code SCREEN_POWER_MODE_OFF = 0"
| "power_mode_code SCREEN_POWER_MODE_NORMAL = 2"

record InjectKeycode =
  ik_action :: u32
  ik_keycode :: u32
  ik_metastate :: u32

record InjectTouch =
  it_action :: u32
  it_buttons :: u32
  it_pointer_id :: u64
  it_position :: Position
  it_pressure :: c_float

record InjectScroll =
  is_position :: Position
  is_hscroll :: u32
  is_vscroll :: u32

text \<open>
  The union of the structure. \<open>inject_text.text\<close> and \<open>set_clipboard.text\<close> are the same
  pointer, so they are one member here; \<open>BodyText None\<close> is the null pointer. Reading a
  member that was not written has no defined result.
\<close>

datatype ControlBody =
    Unwritten
  | BodyKeycode InjectKeycode
  | BodyText "string option"
  | BodyTouch InjectTouch
  | BodyScroll InjectScroll
  | BodyPower ScreenPowerMode

record ControlMessage =
  cm_type :: ControlMessageType
  cm_body :: ControlBody

fun inject_keycode :: "ControlBody \<Rightarrow> InjectKeycode option" where
  "inject_keycode (BodyKeycode k) = Some k"
| "inject_keycode _ = None"

fun text_member :: "ControlBody \<Rightarrow> string option option" where
  "text_member (BodyText t) = Some t"
| "text_member _ = None"

fun inject_touch_event :: "ControlBody \<Rightarrow> InjectTouch option" where
  "inject_touch_event (BodyTouch t) = Some t"
| "inject_touch_event _ = None"

fun inject_scroll_event :: "ControlBody \<Rightarrow> InjectScroll option" where
  "inject_scroll_event (BodyScroll s) = Some s"
| "inject_scroll_event _ = None"

fun set_screen_power_mode :: "ControlBody \<Rightarrow> ScreenPowerMode option" where
  "set_screen_power_mode (BodyPower p) = Some p"
| "set_screen_power_mode _ = None"

definition CONTROL_MSG_TEXT_MAX_LENGTH :: nat where
  "CONTROL_MSG_TEXT_MAX_LENGTH = 300"

definition CONTROL_MSG_CLIPBOARD_TEXT_MAX_LENGTH :: nat where
  "CONTROL_MSG_CLIPBOARD_TEXT_MAX_LENGTH = 4093"

definition CONTROL_MSG_SERIALIZED_MAX_SIZE :: nat where
  "CONTROL_MSG_SERIALIZED_MAX_SIZE = 3 + CONTROL_MSG_CLIPBOARD_TEXT_MAX_LENGTH"

definition POINTER_ID_MOUSE :: u64 where
  "POINTER_ID_MOUSE = - 1"

subsection \<open>Binary serialization\<close>

definition WritePosition :: "u8 list \<Rightarrow> nat \<Rightarrow> Position \<Rightarrow> u8 list option" where
  "WritePosition buf i position = do {
     buf \<leftarrow> buffer_write32be buf i (pt_x (point position));
     buf \<leftarrow> buffer_write32be buf (i + 4) (pt_y (point position));
     buf \<leftarrow> buffer_write16be buf (i + 8) (width (screen_size position));
     buffer_write16be buf (i + 10) (height (screen_size position))
   }"

text \<open>A null \<open>utf8\<close> has no length.\<close>

definition WriteString :: "string option \<Rightarrow> nat \<Rightarrow> u8 list \<Rightarrow> nat \<Rightarrow> (u8 list \<times> nat) option" where
  "WriteString utf8 max_len buf i = do {
     utf8 \<leftarrow> utf8;
     len \<leftarrow> utf8_truncation_index utf8 max_len;
     buf \<leftarrow> buffer_write16be buf i (of_nat len);
     buf \<leftarrow> store_block buf (i + 2) (take len (bytes_of utf8));
     Some (buf, 2 + len)
   }"

text \<open>\<open>f\<close> is finite once the assertion has passed, and \<open>f * 0x1p16f\<close> is then exact.\<close>

fun float_to_fixed :: "c_float \<Rightarrow> u32" where
  "float_to_fixed (Fin q) = of_int \<lfloor>q * 65536\<rfloor>"
| "float_to_fixed _ = 0"

definition ToFixedPoint16 :: "c_float \<Rightarrow> u16 option" where
  "ToFixedPoint16 f = do {
     c_assert (float_ge f 0 \<and> float_le f 1);
     let u = float_to_fixed f;
     let u = (if u \<ge> 0xffff then 0xffff else u);
     Some (ucast u)
   }"

definition ControlMessage_Serialize :: "ControlMessage \<Rightarrow> u8 list \<Rightarrow> (u8 list \<times> nat) option" where
  "ControlMessage_Serialize m buf = do {
     buf \<leftarrow> store buf 0 (msg_type_code (cm_type m));
     (case cm_type m of
        CONTROL_MSG_TYPE_INJECT_KEYCODE \<Rightarrow> do {
          k \<leftarrow> inject_keycode (cm_body m);
          buf \<leftarrow> store buf 1 (ucast (ik_action k));
          buf \<leftarrow> buffer_write32be buf 2 (ik_keycode k);
          buf \<leftarrow> buffer_write32be buf 6 (ik_metastate k);
          Some (buf, 10) }
      | CONTROL_MSG_TYPE_INJECT_TEXT \<Rightarrow> do {
          t \<leftarrow> text_member (cm_body m);
          (buf, len) \<leftarrow> WriteString t CONTROL_MSG_TEXT_MAX_LENGTH buf 1;
          Some (buf, 1 + len) }
      | CONTROL_MSG_TYPE_INJECT_TOUCH_EVENT \<Rightarrow> do {
          t \<leftarrow> inject_touch_event (cm_body m);
          buf \<leftarrow> store buf 1 (ucast (it_action t));
          buf \<leftarrow> buffer_write64be buf 2 (it_pointer_id t);
          buf \<leftarrow> WritePosition buf 10 (it_position t);
          pressure \<leftarrow> ToFixedPoint16 (it_pressure t);
          buf \<leftarrow> buffer_write16be buf 22 pressure;
          buf \<leftarrow> buffer_write32be buf 24 (it_buttons t);
          Some (buf, 28) }
      | CONTROL_MSG_TYPE_INJECT_SCROLL_EVENT \<Rightarrow> do {
          s \<leftarrow> inject_scroll_event (cm_body m);
          buf \<leftarrow> WritePosition buf 1 (is_position s);
          buf \<leftarrow> buffer_write32be buf 13 (is_hscroll s);
          buf \<leftarrow> buffer_write32be buf 17 (is_vscroll s);
          Some (buf, 21) }
      | CONTROL_MSG_TYPE_SET_CLIPBOARD \<Rightarrow> do {
          t \<leftarrow> text_member (cm_body m);
          (buf, len) \<leftarrow> WriteString t CONTROL_MSG_CLIPBOARD_TEXT_MAX_LENGTH buf 1;
          Some (buf, 1 + len) }
      | CONTROL_MSG_TYPE_SET_SCREEN_POWER_MODE \<Rightarrow> do {
          p \<leftarrow> set_screen_power_mode (cm_body m);
          buf \<leftarrow> store buf 1 (power_mode_code p);
          Some (buf, 2) }
      | CONTROL_MSG_TYPE_BACK_OR_SCREEN_ON \<Rightarrow> Some (buf, 1)
      | CONTROL_MSG_TYPE_EXPAND_NOTIFICATION_PANEL \<Rightarrow> Some (buf, 1)
      | CONTROL_MSG_TYPE_COLLAPSE_NOTIFICATION_PANEL \<Rightarrow> Some (buf, 1)
      | CONTROL_MSG_TYPE_GET_CLIPBOARD \<Rightarrow> Some (buf, 1)
      | CONTROL_MSG_TYPE_ROTATE_DEVICE \<Rightarrow> Some (buf, 1)
      | _ \<Rightarrow> Some (buf, 0))
   }"

text \<open>What \<open>Destroy\<close> frees: the pointers passed to \<open>SDL_free\<close>.\<close>

definition ControlMessage_Destroy :: "ControlMessage \<Rightarrow> string option list option" where
  "ControlMessage_Destroy m =
     (case cm_type m of
        CONTROL_MSG_TYPE_INJECT_TEXT \<Rightarrow> do { t \<leftarrow> text_member (cm_body m); Some [t] }
      | CONTROL_MSG_TYPE_SET_CLIPBOARD \<Rightarrow> do { t \<leftarrow> text_member (cm_body m); Some [t] }
      | _ \<Rightarrow> Some [])"

subsection \<open>The wire format\<close>

text \<open>
  \<open>wire m\<close> is the encoding of a message, and \<open>well_formed m\<close> the contract of \<open>Serialize\<close>:
  the member of the union that the type selects has been written, a text is UTF-8, and the
  pressure lies between 0 and 1.
\<close>

definition utf8_string :: "string \<Rightarrow> bool" where
  "utf8_string s \<longleftrightarrow> (\<exists>css. s = concat css \<and> (\<forall>c \<in> set css. utf8_char c))"

definition truncated :: "nat \<Rightarrow> string \<Rightarrow> string" where
  "truncated m s = take (case utf8_truncation_index s m of Some k \<Rightarrow> k | None \<Rightarrow> 0) s"

definition wire_text :: "nat \<Rightarrow> string \<Rightarrow> u8 list" where
  "wire_text m s = be16 (of_nat (length (truncated m s))) @ bytes_of (truncated m s)"

definition wire_position :: "Position \<Rightarrow> u8 list" where
  "wire_position p = be32 (pt_x (point p)) @ be32 (pt_y (point p))
     @ be16 (width (screen_size p)) @ be16 (height (screen_size p))"

definition fixed16 :: "c_float \<Rightarrow> u16" where
  "fixed16 f = (let u = float_to_fixed f in ucast (if u \<ge> 0xffff then 0xffff else u))"

fun wire_body :: "ControlMessageType \<Rightarrow> ControlBody \<Rightarrow> u8 list" where
  "wire_body _ (BodyKeycode k) = [ucast (ik_action k)] @ be32 (ik_keycode k) @ be32 (ik_metastate k)"
| "wire_body t (BodyText (Some s)) =
     wire_text (if t = CONTROL_MSG_TYPE_INJECT_TEXT then CONTROL_MSG_TEXT_MAX_LENGTH
                else CONTROL_MSG_CLIPBOARD_TEXT_MAX_LENGTH) s"
| "wire_body _ (BodyTouch t) = [ucast (it_action t)] @ be64 (it_pointer_id t)
     @ wire_position (it_position t) @ be16 (fixed16 (it_pressure t)) @ be32 (it_buttons t)"
| "wire_body _ (BodyScroll s) = wire_position (is_position s) @ be32 (is_hscroll s) @ be32 (is_vscroll s)"
| "wire_body _ (BodyPower p) = [power_mode_code p]"
| "wire_body _ _ = []"

definition wire :: "ControlMessage \<Rightarrow> u8 list" where
  "wire m = msg_type_code (cm_type m) # wire_body (cm_type m) (cm_body m)"

fun well_formed_body :: "ControlMessageType \<Rightarrow> ControlBody \<Rightarrow> bool" where
  "well_formed_body t (BodyKeycode k) \<longleftrightarrow> t = CONTROL_MSG_TYPE_INJECT_KEYCODE"
| "well_formed_body t (BodyText None) \<longleftrightarrow> False"
| "well_formed_body t (BodyText (Some s)) \<longleftrightarrow>
     (t = CONTROL_MSG_TYPE_INJECT_TEXT \<or> t = CONTROL_MSG_TYPE_SET_CLIPBOARD) \<and> utf8_string s"
| "well_formed_body t (BodyTouch e) \<longleftrightarrow>
     t = CONTROL_MSG_TYPE_INJECT_TOUCH_EVENT \<and> float_ge (it_pressure e) 0 \<and> float_le (it_pressure e) 1"
| "well_formed_body t (BodyScroll e) \<longleftrightarrow> t = CONTROL_MSG_TYPE_INJECT_SCROLL_EVENT"
| "well_formed_body t (BodyPower p) \<longleftrightarrow> t = CONTROL_MSG_TYPE_SET_SCREEN_POWER_MODE"
| "well_formed_body t Unwritten \<longleftrightarrow>
     t \<in> {CONTROL_MSG_TYPE_BACK_OR_SCREEN_ON, CONTROL_MSG_TYPE_EXPAND_NOTIFICATION_PANEL,
          CONTROL_MSG_TYPE_COLLAPSE_NOTIFICATION_PANEL, CONTROL_MSG_TYPE_GET_CLIPBOARD,
          CONTROL_MSG_TYPE_ROTATE_DEVICE}"

definition well_formed :: "ControlMessage \<Rightarrow> bool" where
  "well_formed m \<longleftrightarrow> well_formed_body (cm_type m) (cm_body m)"

lemma utf8_truncation_defined:
  assumes "utf8_string s"
  shows "utf8_truncation_index s m = Some (length (truncated m s))"
    and "truncated m s = take (length (truncated m s)) s"
    and "length (truncated m s) \<le> m"
    and "utf8_string (truncated m s)"
proof -
  obtain css where css: "s = concat css" "\<forall>c \<in> set css. utf8_char c"
    using assms by (auto simp: utf8_string_def)
  obtain ps rs where p: "css = ps @ rs" "utf8_truncation_index s m = Some (length (concat ps))"
    "length (concat ps) \<le> m"
    using utf8_truncation_index_chars [OF css(2), of m] unfolding css(1) by metis
  have t: "truncated m s = concat ps" unfolding truncated_def p(2) by (simp add: css(1) p(1))
  show "utf8_truncation_index s m = Some (length (truncated m s))" by (simp add: t p(2))
  show "truncated m s = take (length (truncated m s)) s" unfolding t by (simp add: css(1) p(1))
  show "length (truncated m s) \<le> m" by (simp add: t p(3))
  show "utf8_string (truncated m s)"
    using css(2) by (auto simp: t utf8_string_def p(1))
qed

lemma truncated_again: "utf8_string s \<Longrightarrow> truncated m (truncated m s) = truncated m s"
  using utf8_truncation_defined [of s m]
  by (subst truncated_def) (simp add: utf8_truncation_index_def)

lemma length_wire_position [simp, wire_simps]: "length (wire_position p) = 12"
  by (simp add: wire_position_def)

lemma ToFixedPoint16_fixed16:
  "ToFixedPoint16 f = (if float_ge f 0 \<and> float_le f 1 then Some (fixed16 f) else None)"
  by (simp add: ToFixedPoint16_def fixed16_def Let_def c_assert_bind)

lemma WritePosition_block: "WritePosition buf i p = store_block buf i (wire_position p)"
  by (simp add: WritePosition_def wire_position_def buffer_write_block store_block_append)
    (simp add: add.commute)

lemma WriteString_block:
  assumes "utf8_string s"
  shows "WriteString (Some s) m buf i =
    map_option (\<lambda>b. (b, length (wire_text m s))) (store_block buf i (wire_text m s))"
proof -
  note u = utf8_truncation_defined [OF assms, of m]
  have "take (length (truncated m s)) (bytes_of s) = bytes_of (truncated m s)"
    using u(2) by (metis bytes_of_def take_map)
  then show ?thesis
    by (cases "store_block buf i (be16 (of_nat (length (truncated m s))))")
      (auto simp: WriteString_def u(1) wire_text_def buffer_write_block store_block_append map_option_bind
        split: option.splits bind_split)
qed

lemma length_wire:
  assumes "well_formed m"
  shows "length (wire m) \<le> CONTROL_MSG_SERIALIZED_MAX_SIZE"
proof -
  have "length (wire_text k s) \<le> k + 2" if "utf8_string s" for k s
    using utf8_truncation_defined(3) [OF that, of k] by (simp add: wire_text_def)
  from this [of _ 300] this [of _ 4093] show ?thesis
    using assms unfolding well_formed_def
    by (cases "cm_type m"; cases "(cm_type m, cm_body m)" rule: wire_body.cases)
      (auto simp: wire_def CONTROL_MSG_SERIALIZED_MAX_SIZE_def
        CONTROL_MSG_CLIPBOARD_TEXT_MAX_LENGTH_def CONTROL_MSG_TEXT_MAX_LENGTH_def
        intro: order_trans [where y = 302])
qed

lemma wire_nonempty [simp]: "wire m \<noteq> []" "length (wire m) \<noteq> 0"
  by (simp_all add: wire_def)

lemma Serialize_wire:
  assumes "well_formed m" and "length (wire m) \<le> length buf"
  shows "ControlMessage_Serialize m buf = Some (written (wire m) buf, length (wire m))"
  using assms unfolding well_formed_def
  by (cases "cm_type m"; cases "(cm_type m, cm_body m)" rule: wire_body.cases)
    (auto simp: ControlMessage_Serialize_def wire_def store_as_block buffer_write_block mem_simps
      WritePosition_block WriteString_block ToFixedPoint16_fixed16)

text \<open>The types without a wire format: one byte is written, and a length of 0 is returned.\<close>

lemma Serialize_unknown:
  assumes "cm_type m \<in> {CONTROL_MSG_TYPE_START_RECORDING, CONTROL_MSG_TYPE_END_RECORDING,
      CONTROL_MSG_TYPE_UNKNOWN}" and "buf \<noteq> []"
  shows "ControlMessage_Serialize m buf = Some (written [msg_type_code (cm_type m)] buf, 0)"
  using assms by (cases "cm_type m")
    (auto simp: ControlMessage_Serialize_def store_as_block mem_simps Suc_le_eq)

subsection \<open>Reading the wire format back\<close>

definition take_bytes :: "nat \<Rightarrow> u8 list \<Rightarrow> (u8 list \<times> u8 list) option" where
  "take_bytes n bs = (if n \<le> length bs then Some (take n bs, drop n bs) else None)"

definition get8 :: "u8 list \<Rightarrow> (u8 \<times> u8 list) option" where
  "get8 bs = do { b \<leftarrow> load bs 0; Some (b, drop 1 bs) }"

definition get16 :: "u8 list \<Rightarrow> (u16 \<times> u8 list) option" where
  "get16 bs = do { v \<leftarrow> buffer_read16be bs 0; Some (v, drop 2 bs) }"

definition get32 :: "u8 list \<Rightarrow> (u32 \<times> u8 list) option" where
  "get32 bs = do { v \<leftarrow> buffer_read32be bs 0; Some (v, drop 4 bs) }"

definition get64 :: "u8 list \<Rightarrow> (u64 \<times> u8 list) option" where
  "get64 bs = do { v \<leftarrow> buffer_read64be bs 0; Some (v, drop 8 bs) }"

definition get_position :: "u8 list \<Rightarrow> (Position \<times> u8 list) option" where
  "get_position bs = do {
     (x, bs) \<leftarrow> get32 bs; (y, bs) \<leftarrow> get32 bs; (w, bs) \<leftarrow> get16 bs; (h, bs) \<leftarrow> get16 bs;
     Some (\<lparr>screen_size = \<lparr>width = w, height = h\<rparr>, point = \<lparr>pt_x = x, pt_y = y\<rparr>\<rparr>, bs) }"

definition get_text :: "u8 list \<Rightarrow> (ControlBody \<times> u8 list) option" where
  "get_text bs = do {
     (n, bs) \<leftarrow> get16 bs; (t, bs) \<leftarrow> take_bytes (unat n) bs;
     Some (BodyText (Some (string_of_bytes t)), bs) }"

definition get_touch :: "u8 list \<Rightarrow> (ControlBody \<times> u8 list) option" where
  "get_touch bs = do {
     (a, bs) \<leftarrow> get8 bs; (i, bs) \<leftarrow> get64 bs; (p, bs) \<leftarrow> get_position bs;
     (f, bs) \<leftarrow> get16 bs; (b, bs) \<leftarrow> get32 bs;
     Some (BodyTouch \<lparr>it_action = ucast a, it_buttons = b, it_pointer_id = i, it_position = p,
       it_pressure = Fin (of_int (uint f) / 65536)\<rparr>, bs) }"

text \<open>
  The decoder of a message at the head of a byte stream, with what follows it. The low byte
  of an action is what travels, and the pressure travels as a multiple of 2^-16.
\<close>

definition decode_body :: "ControlMessageType \<Rightarrow> u8 list \<Rightarrow> (ControlBody \<times> u8 list) option" where
  "decode_body t bs =
     (case t of
        CONTROL_MSG_TYPE_INJECT_KEYCODE \<Rightarrow> do {
          (a, bs) \<leftarrow> get8 bs; (k, bs) \<leftarrow> get32 bs; (s, bs) \<leftarrow> get32 bs;
          Some (BodyKeycode \<lparr>ik_action = ucast a, ik_keycode = k, ik_metastate = s\<rparr>, bs) }
      | CONTROL_MSG_TYPE_INJECT_TEXT \<Rightarrow> get_text bs
      | CONTROL_MSG_TYPE_SET_CLIPBOARD \<Rightarrow> get_text bs
      | CONTROL_MSG_TYPE_INJECT_TOUCH_EVENT \<Rightarrow> get_touch bs
      | CONTROL_MSG_TYPE_INJECT_SCROLL_EVENT \<Rightarrow> do {
          (p, bs) \<leftarrow> get_position bs; (h, bs) \<leftarrow> get32 bs; (v, bs) \<leftarrow> get32 bs;
          Some (BodyScroll \<lparr>is_position = p, is_hscroll = h, is_vscroll = v\<rparr>, bs) }
      | CONTROL_MSG_TYPE_SET_SCREEN_POWER_MODE \<Rightarrow> do {
          (p, bs) \<leftarrow> get8 bs;
          if p = 0 then Some (BodyPower SCREEN_POWER_MODE_OFF, bs)
          else if p = 2 then Some (BodyPower SCREEN_POWER_MODE_NORMAL, bs) else None }
      | CONTROL_MSG_TYPE_START_RECORDING \<Rightarrow> None
      | CONTROL_MSG_TYPE_END_RECORDING \<Rightarrow> None
      | CONTROL_MSG_TYPE_UNKNOWN \<Rightarrow> None
      | _ \<Rightarrow> Some (Unwritten, bs))"

definition msg_types :: "ControlMessageType list" where
  "msg_types = [CONTROL_MSG_TYPE_INJECT_KEYCODE, CONTROL_MSG_TYPE_INJECT_TEXT,
     CONTROL_MSG_TYPE_INJECT_TOUCH_EVENT, CONTROL_MSG_TYPE_INJECT_SCROLL_EVENT,
     CONTROL_MSG_TYPE_BACK_OR_SCREEN_ON, CONTROL_MSG_TYPE_EXPAND_NOTIFICATION_PANEL,
     CONTROL_MSG_TYPE_COLLAPSE_NOTIFICATION_PANEL, CONTROL_MSG_TYPE_GET_CLIPBOARD,
     CONTROL_MSG_TYPE_SET_CLIPBOARD, CONTROL_MSG_TYPE_SET_SCREEN_POWER_MODE,
     CONTROL_MSG_TYPE_ROTATE_DEVICE]"

definition decode :: "u8 list \<Rightarrow> (ControlMessage \<times> u8 list) option" where
  "decode bs = do {
     (c, bs) \<leftarrow> get8 bs;
     t \<leftarrow> List.find (\<lambda>t. msg_type_code t = c) msg_types;
     (b, bs) \<leftarrow> decode_body t bs;
     Some (\<lparr>cm_type = t, cm_body = b\<rparr>, bs) }"

text \<open>What of a message the wire carries.\<close>

fun carried_body :: "ControlMessageType \<Rightarrow> ControlBody \<Rightarrow> ControlBody" where
  "carried_body _ (BodyKeycode k) = BodyKeycode (k\<lparr>ik_action := ucast (ucast (ik_action k) :: u8)\<rparr>)"
| "carried_body t (BodyText (Some s)) =
     BodyText (Some (truncated (if t = CONTROL_MSG_TYPE_INJECT_TEXT then CONTROL_MSG_TEXT_MAX_LENGTH
                                else CONTROL_MSG_CLIPBOARD_TEXT_MAX_LENGTH) s))"
| "carried_body _ (BodyTouch e) = BodyTouch (e\<lparr>it_action := ucast (ucast (it_action e) :: u8),
     it_pressure := Fin (of_int (uint (fixed16 (it_pressure e))) / 65536)\<rparr>)"
| "carried_body _ b = b"

definition carried :: "ControlMessage \<Rightarrow> ControlMessage" where
  "carried m = m\<lparr>cm_body := carried_body (cm_type m) (cm_body m)\<rparr>"

lemma power_mode_code_iff:
  "power_mode_code p = 0 \<longleftrightarrow> p = SCREEN_POWER_MODE_OFF"
  "power_mode_code p = 2 \<longleftrightarrow> p = SCREEN_POWER_MODE_NORMAL"
  "p \<noteq> SCREEN_POWER_MODE_NORMAL \<longleftrightarrow> p = SCREEN_POWER_MODE_OFF"
  by (cases p; simp)+

lemma ucast_up_down [simp]: "ucast (ucast (a :: u8) :: u32) = a"
  by (rule bit_word_eqI) (auto simp: bit_simps dest: byte_bit)

lemma get8_Cons [wire_simps]: "get8 (b # bs) = Some (b, bs)"
  by (simp add: get8_def load_def)

lemma get16_be16 [wire_simps]: "get16 (be16 v @ bs) = Some (v, bs)"
  using buffer_read16be_iff [of "be16 v @ bs" 0 v] by (simp add: get16_def)

lemma get32_be32 [wire_simps]: "get32 (be32 v @ bs) = Some (v, bs)"
  using buffer_read32be_iff [of "be32 v @ bs" 0 v] by (simp add: get32_def)

lemma get64_be64 [wire_simps]: "get64 (be64 v @ bs) = Some (v, bs)"
  using buffer_read64be_iff [of "be64 v @ bs" 0 v] by (simp add: get64_def)

lemma get_position_wire [wire_simps]: "get_position (wire_position p @ bs) = Some (p, bs)"
  by (simp add: get_position_def wire_position_def wire_simps)

lemma get_text_wire [wire_simps]:
  assumes "utf8_string s" and "m < 2 ^ 16"
  shows "get_text (wire_text m s @ bs) = Some (BodyText (Some (truncated m s)), bs)"
proof -
  have "length (truncated m s) < 2 ^ 16"
    using utf8_truncation_defined(3) [OF assms(1), of m] assms(2) by linarith
  then have "unat (of_nat (length (truncated m s)) :: u16) = length (truncated m s)"
    by (simp add: unat_of_nat take_bit_eq_mod)
  then show ?thesis
    by (simp add: get_text_def wire_text_def wire_simps take_bytes_def)
qed

lemma decode_wire:
  assumes "well_formed m"
  shows "decode (wire m @ bs) = Some (carried m, bs)"
  using assms unfolding well_formed_def
  by (cases m; cases "cm_type m"; cases "(cm_type m, cm_body m)" rule: wire_body.cases)
    (auto simp: decode_def decode_body_def wire_def wire_simps get_touch_def carried_def msg_types_def
      CONTROL_MSG_CLIPBOARD_TEXT_MAX_LENGTH_def CONTROL_MSG_TEXT_MAX_LENGTH_def
      power_mode_code_iff)

text \<open>Serializing what was carried changes nothing: the encoding is stable.\<close>

lemma fixed16_multiple: "fixed16 (Fin (unsigned k / 65536)) = k"
proof -
  have "\<lfloor>unsigned k :: rat\<rfloor> = uint k"
    using floor_of_int [of "uint k", where ?'a = rat] by (simp only: of_int_uint)
  then have f: "float_to_fixed (Fin (unsigned k / 65536)) = ucast k"
    by simp
  have "k = 0xffff" if "0xffff \<le> (ucast k :: u32)"
  proof -
    have "unat k < 2 ^ 16" using unsigned_less [of k, where ?'a = nat] by simp
    moreover from this have "unat (ucast k :: u32) = unat k"
      by (simp add: unsigned_ucast_eq take_bit_nat_eq_self_iff)
    ultimately have "unat k = 65535" using that by (simp add: word_le_nat_alt)
    then show ?thesis by (simp add: word_unat_eq_iff)
  qed
  moreover have "(ucast (ucast k :: u32) :: u16) = k"
    by (rule bit_word_eqI) (auto simp: bit_simps dest: word16_bit)
  ultimately show ?thesis
    by (auto simp: fixed16_def f Let_def simp del: float_to_fixed.simps)
qed

lemma wire_carried:
  assumes "well_formed m"
  shows "wire (carried m) = wire m"
  using assms unfolding well_formed_def
  by (cases "cm_type m"; cases "(cm_type m, cm_body m)" rule: wire_body.cases)
    (auto simp: wire_def carried_def wire_text_def truncated_again fixed16_multiple
      simp del: float_to_fixed.simps)

text \<open>A stream of messages is read back one message after the other.\<close>

fun decode_all :: "nat \<Rightarrow> u8 list \<Rightarrow> ControlMessage list option" where
  "decode_all n [] = Some []"
| "decode_all 0 (b # bs) = None"
| "decode_all (Suc n) (b # bs) =
     (case decode (b # bs) of
        None \<Rightarrow> None
      | Some (m, rest) \<Rightarrow> map_option ((#) m) (decode_all n rest))"

lemma decode_all_wire:
  assumes "\<forall>m \<in> set ms. well_formed m" and "length ms \<le> n"
  shows "decode_all n (concat (map wire ms)) = Some (map carried ms)"
  using assms
proof (induction ms arbitrary: n)
  case (Cons m ms)
  then obtain k where n: "n = Suc k" by (cases n) auto
  have w: "wire m @ concat (map wire ms) = hd (wire m) # tl (wire m) @ concat (map wire ms)"
    by (simp add: wire_def)
  from Cons have "decode (wire m @ concat (map wire ms)) = Some (carried m, concat (map wire ms))"
    by (simp add: decode_wire)
  with Cons n show ?case by (simp add: w)
qed simp

lemma fixed16_value:
  assumes "0 \<le> q" and "q \<le> 1"
  shows "uint (fixed16 (Fin q)) = min \<lfloor>q * 65536\<rfloor> 65535"
proof -
  define n where "n = \<lfloor>q * 65536\<rfloor>"
  have n: "0 \<le> n" "n \<le> 65536"
    using assms by (simp_all add: n_def floor_le_iff)
  then have u: "uint (of_int n :: u32) = n"
    by (simp add: uint_word_of_int)
  have f: "float_to_fixed (Fin q) = of_int n" by (simp add: n_def)
  show ?thesis
  proof (cases "n \<ge> 65535")
    case True
    then have "(0xffff :: u32) \<le> of_int n" using u by (simp add: word_le_def)
    with True show ?thesis
      by (simp add: fixed16_def f n_def [symmetric] del: float_to_fixed.simps)
  next
    case False
    then have "\<not> (0xffff :: u32) \<le> of_int n" using u by (simp add: word_le_def)
    moreover have "uint (ucast (of_int n :: u32) :: u16) = n"
      using u n False by (simp add: unsigned_ucast_eq take_bit_int_eq_self)
    ultimately show ?thesis
      using False by (simp add: fixed16_def f n_def [symmetric] del: float_to_fixed.simps)
  qed
qed

subsection \<open>Properties\<close>

text \<open>C5. Serialization of a well-formed message into a buffer of
  \<open>CONTROL_MSG_SERIALIZED_MAX_SIZE\<close> bytes stays inside the buffer, writes exactly the wire
  format of the message, leaves the rest of the buffer alone, and returns the number of bytes
  written, which is at most that size.\<close>

theorem control_serialize_exact:
  assumes "well_formed m" and "CONTROL_MSG_SERIALIZED_MAX_SIZE \<le> length buf"
  shows "ControlMessage_Serialize m buf = Some (wire m @ drop (length (wire m)) buf, length (wire m)) \<and>
    0 < length (wire m) \<and> length (wire m) \<le> CONTROL_MSG_SERIALIZED_MAX_SIZE"
  using Serialize_wire [OF assms(1), of buf] length_wire [OF assms(1)] assms(2)
  by (simp add: written_def)

theorem control_serialize_exact_witness:
  "ControlMessage_Serialize
     \<lparr>cm_type = CONTROL_MSG_TYPE_INJECT_TEXT, cm_body = BodyText (Some ''hi'')\<rparr> (replicate 4096 7) =
   Some ([1, 0, 2, 0x68, 0x69] @ replicate 4091 7, 5)"
proof -
  let ?m = "\<lparr>cm_type = CONTROL_MSG_TYPE_INJECT_TEXT, cm_body = BodyText (Some ''hi'')\<rparr>"
  have "utf8_string ''hi''"
    unfolding utf8_string_def
    by (rule exI [of _ "[''h'', ''i'']"]) (auto simp: utf8_char_def utf8_continues_def byte_of_def)
  then have wf: "well_formed ?m" by (simp add: well_formed_def)
  have w: "wire ?m = [1, 0, 2, 0x68, 0x69]" by code_simp
  show ?thesis
    using control_serialize_exact [OF wf, of "replicate 4096 7"]
    by (simp add: w CONTROL_MSG_SERIALIZED_MAX_SIZE_def CONTROL_MSG_CLIPBOARD_TEXT_MAX_LENGTH_def)
qed

text \<open>C6. What serialization writes, followed by any bytes, is read back by the decoder as the
  message it carries (texts cut to their maximum at a character boundary, actions as one byte,
  the pressure as a multiple of 2^-16) and exactly the bytes that follow: messages on the
  control socket need no further framing.\<close>

theorem control_roundtrip:
  assumes "well_formed m" and "CONTROL_MSG_SERIALIZED_MAX_SIZE \<le> length buf"
  shows "\<exists>buf' n. ControlMessage_Serialize m buf = Some (buf', n) \<and> length buf' = length buf \<and>
    decode (take n buf' @ rest) = Some (carried m, rest)"
  using control_serialize_exact [OF assms] decode_wire [OF assms(1), of rest] assms(2) by simp

theorem control_roundtrip_witness:
  "\<exists>buf' n. ControlMessage_Serialize
     \<lparr>cm_type = CONTROL_MSG_TYPE_INJECT_KEYCODE,
      cm_body = BodyKeycode \<lparr>ik_action = 1, ik_keycode = 66, ik_metastate = 0x41\<rparr>\<rparr> (replicate 4096 0)
       = Some (buf', n) \<and> length buf' = 4096 \<and>
     decode (take n buf' @ [4]) =
       Some (\<lparr>cm_type = CONTROL_MSG_TYPE_INJECT_KEYCODE,
              cm_body = BodyKeycode \<lparr>ik_action = 1, ik_keycode = 66, ik_metastate = 0x41\<rparr>\<rparr>, [4])"
proof -
  let ?m = "\<lparr>cm_type = CONTROL_MSG_TYPE_INJECT_KEYCODE,
    cm_body = BodyKeycode \<lparr>ik_action = 1, ik_keycode = 66, ik_metastate = 0x41\<rparr>\<rparr>"
  have c: "carried ?m = ?m" by (simp add: carried_def)
  show ?thesis
    using control_roundtrip [of ?m "replicate 4096 0" "[4]"] unfolding c
    by (simp add: well_formed_def CONTROL_MSG_SERIALIZED_MAX_SIZE_def
        CONTROL_MSG_CLIPBOARD_TEXT_MAX_LENGTH_def)
qed

text \<open>The fixed-point conversion of a pressure is defined exactly for values from 0 to 1,
  and loses at most 2^-16: 1.0 itself is carried as 0xffff.\<close>

theorem fixed_point_error:
  "case ToFixedPoint16 (Fin q) of
     None \<Rightarrow> q < 0 \<or> 1 < q
   | Some k \<Rightarrow> 0 \<le> q \<and> q \<le> 1 \<and> of_int (uint k) / 65536 \<le> q \<and> q \<le> (of_int (uint k) + 1) / 65536"
proof (cases "0 \<le> q \<and> q \<le> 1")
  case True
  define n where "n = \<lfloor>q * 65536\<rfloor>"
  have n: "of_int n \<le> q * 65536" "q * 65536 < of_int n + 1"
    using floor_correct [of "q * 65536"] by (simp_all only: n_def of_int_add of_int_1)
  have k: "uint (fixed16 (Fin q)) = min n 65535" using fixed16_value [of q] True by (simp add: n_def)
  have "(of_int (min n 65535) :: rat) / 65536 \<le> q"
    using n(1) by (simp add: min_def divide_le_eq)
  moreover have "q \<le> (of_int (min n 65535) + 1) / 65536"
    using n(2) True by (simp add: min_def le_divide_eq)
  ultimately show ?thesis using True by (simp add: ToFixedPoint16_fixed16 k del: of_int_uint)
qed (auto simp: ToFixedPoint16_fixed16)

end
