(* ===== verification/Control_Json.thy ===== *)
theory Control_Json
  imports Control_Msg
begin

section \<open>Control messages as JSON text (src/src/message/control_msg.cpp)\<close>

text \<open>
  \<open>JsonSerialize\<close> prints a message into two fixed buffers, \<open>temp\<close> for one line and \<open>buffer\<close>
  for the whole text; every \<open>sprintf\<close> and \<open>strcat\<close> is checked against the size of its buffer.
  \<open>JsonDeserialize\<close> reads a message through the JSON library, which is not code of the
  repository: its operations are the fields of a record \<open>json_lib\<close>.
\<close>

subsection \<open>Printing\<close>

definition NL :: string where
  "NL = [CHR 0x0A]"

text \<open>One statement of the printer: a \<open>sprintf\<close> to \<open>temp\<close> and its \<open>strcat\<close>, or a \<open>strcat\<close>.\<close>

datatype piece = Temp string | Lit string

definition TEMP_SIZE :: nat where "TEMP_SIZE = 256"

definition strcat :: "nat \<Rightarrow> string \<Rightarrow> string \<Rightarrow> string option" where
  "strcat sz b s = (if length b + length s + 1 \<le> sz then Some (b @ s) else None)"

fun print :: "nat \<Rightarrow> string \<Rightarrow> piece list \<Rightarrow> string option" where
  "print sz b [] = Some b"
| "print sz b (Temp s # ps) =
     (if length s + 1 \<le> TEMP_SIZE
      then (case strcat sz b s of None \<Rightarrow> None | Some b \<Rightarrow> print sz b ps)
      else None)"
| "print sz b (Lit s # ps) =
     (case strcat sz b s of None \<Rightarrow> None | Some b \<Rightarrow> print sz b ps)"

text \<open>
  The time of day: \<open>tv\<close> is what \<open>gettimeofday\<close> returned, \<open>local_time\<close> the text \<open>strftime\<close> makes
  of a second, which depends on the time zone.
\<close>

definition event_time :: "(int \<Rightarrow> string) \<Rightarrow> int \<times> int \<Rightarrow> piece list option" where
  "event_time local_time tv =
     (let (tv_sec, tv_usec) = tv;
          milli_seconds = round_half_even (of_int tv_usec / 1000);
          (milli_seconds, tv_sec) =
            (if milli_seconds \<ge> 1000 then (milli_seconds - 1000, tv_sec + 1)
             else (milli_seconds, tv_sec));
          t = local_time tv_sec
      in if length t + 1 \<le> TEMP_SIZE - 1 then
           Some [Lit t, Lit ''.'', Temp (pad_left 3 (dec_int milli_seconds)), Lit (CHR 0x22 # '','' @ NL)]
         else None)"

definition msg_type_line :: "string \<Rightarrow> string \<Rightarrow> piece" where
  \<open>msg_type_line t e = Temp (''    "msg_type" : "'' @ t @ ''"'' @ e @ NL)\<close>

definition position_pieces :: "Position \<Rightarrow> piece list" where
  \<open>position_pieces p =
    [Temp (''        "position" : {'' @ NL),
     Temp (''            "screen_size" : {'' @ NL),
     Temp (''                "width" : '' @ dec_int (uint (width (screen_size p))) @ '','' @ NL),
     Temp (''                "height" : '' @ dec_int (uint (height (screen_size p))) @ NL),
     Lit (''            },'' @ NL),
     Temp (''            "point" : {'' @ NL),
     Temp (''                "x" : '' @ dec_int (sint (pt_x (point p))) @ '','' @ NL),
     Temp (''                "y" : '' @ dec_int (sint (pt_y (point p))) @ NL),
     Lit (''            }'' @ NL),
     Lit (''        }'' @ NL),
     Lit (''    }'' @ NL)]\<close>

definition json_body :: "ControlMessage \<Rightarrow> piece list option" where
  \<open>json_body m =
    (case cm_type m of
       CONTROL_MSG_TYPE_INJECT_KEYCODE \<Rightarrow> do {
         k \<leftarrow> inject_keycode (cm_body m);
         Some [msg_type_line ''CONTROL_MSG_TYPE_INJECT_KEYCODE'' '','',
           Temp (''    "key_code" : {'' @ NL),
           Temp (''        "action" : '' @ dec_int (sint (ik_action k)) @ '','' @ NL),
           Temp (''        "key_code" : '' @ dec_int (sint (ik_keycode k)) @ '','' @ NL),
           Temp (''        "meta_state" : '' @ dec_int (sint (ik_metastate k)) @ NL),
           Lit (''    }'' @ NL)] }
     | CONTROL_MSG_TYPE_INJECT_TEXT \<Rightarrow> do {
         t \<leftarrow> text_member (cm_body m);
         t \<leftarrow> t;
         Some [msg_type_line ''CONTROL_MSG_TYPE_INJECT_TEXT'' '','',
           Temp (''    "inject_text" : {'' @ NL),
           Temp (''        "text" : "'' @ t @ ''"'' @ NL),
           Lit (''    }'' @ NL)] }
     | CONTROL_MSG_TYPE_EXPAND_NOTIFICATION_PANEL \<Rightarrow>
         Some [msg_type_line ''CONTROL_MSG_TYPE_EXPAND_NOTIFICATION_PANEL'' []]
     | CONTROL_MSG_TYPE_COLLAPSE_NOTIFICATION_PANEL \<Rightarrow>
         Some [msg_type_line ''CONTROL_MSG_TYPE_COLLAPSE_NOTIFICATION_PANEL'' []]
     | CONTROL_MSG_TYPE_ROTATE_DEVICE \<Rightarrow>
         Some [msg_type_line ''CONTROL_MSG_TYPE_ROTATE_DEVICE'' []]
     | CONTROL_MSG_TYPE_INJECT_TOUCH_EVENT \<Rightarrow> do {
         e \<leftarrow> inject_touch_event (cm_body m);
         Some ([msg_type_line ''CONTROL_MSG_TYPE_INJECT_TOUCH_EVENT'' '','',
           Temp (''    "touch_event" : {'' @ NL),
           Temp (''        "action" : '' @ dec_int (sint (it_action e)) @ '','' @ NL),
           Temp (''        "buttons" : '' @ dec_int (sint (it_buttons e)) @ '','' @ NL),
           Temp (''        "pointer" : '' @ dec_int (sint (it_pointer_id e)) @ '','' @ NL),
           Temp (''        "pressure" : '' @ fmt_f (it_pressure e) @ '','' @ NL)]
           @ position_pieces (it_position e)) }
     | CONTROL_MSG_TYPE_INJECT_SCROLL_EVENT \<Rightarrow> do {
         s \<leftarrow> inject_scroll_event (cm_body m);
         Some ([msg_type_line ''CONTROL_MSG_TYPE_INJECT_SCROLL_EVENT'' '','',
           Temp (''    "scroll_event" : {'' @ NL),
           Temp (''        "h_scroll" : '' @ dec_int (sint (is_hscroll s)) @ '','' @ NL),
           Temp (''        "v_scroll" : '' @ dec_int (sint (is_vscroll s)) @ '','' @ NL)]
           @ position_pieces (is_position s)) }
     | _ \<Rightarrow> Some [])\<close>

definition JsonSerialize :: "(int \<Rightarrow> string) \<Rightarrow> int \<times> int \<Rightarrow> ControlMessage \<Rightarrow> string option" where
  \<open>JsonSerialize local_time tv m = do {
     time \<leftarrow> event_time local_time tv;
     body \<leftarrow> json_body m;
     print (2 * CONTROL_MSG_SERIALIZED_MAX_SIZE) (''{'' @ NL)
       (Temp (''    "event_time" : "'') # time @ body @ [Lit ''}''])
   }\<close>

subsection \<open>The printed text\<close>

fun piece_text :: "piece \<Rightarrow> string" where
  "piece_text (Temp s) = s"
| "piece_text (Lit s) = s"

fun piece_fits :: "piece \<Rightarrow> bool" where
  "piece_fits (Temp s) \<longleftrightarrow> length s + 1 \<le> TEMP_SIZE"
| "piece_fits (Lit s) \<longleftrightarrow> True"

definition text_of :: "piece list \<Rightarrow> string" where
  "text_of ps = concat (map piece_text ps)"

lemma print_iff:
  "print sz b ps = Some t \<longleftrightarrow>
     list_all piece_fits ps \<and> t = b @ text_of ps \<and> (ps \<noteq> [] \<longrightarrow> length t + 1 \<le> sz)"
proof (induction sz b ps rule: print.induct)
  case (2 sz b s ps)
  then show ?case
    by (cases "ps = []") (auto simp: strcat_def text_of_def split: option.splits if_splits)
next
  case (3 sz b s ps)
  then show ?case
    by (cases "ps = []") (auto simp: strcat_def text_of_def split: option.splits if_splits)
qed (auto simp: text_of_def)
text \<open>
  The object the printer means, and its layout: one field on a line, four spaces for each
  level, a comma after every field but the last.
\<close>

datatype jtext = JNumber string | JText string | JObject "(string \<times> jtext) list"

fun layout :: "nat \<Rightarrow> jtext \<Rightarrow> string" and layout_fields :: "nat \<Rightarrow> (string \<times> jtext) list \<Rightarrow> string" where
  "layout n (JNumber s) = s"
| "layout n (JText s) = CHR 0x22 # s @ [CHR 0x22]"
| "layout n (JObject fs) = ''{'' @ NL @ layout_fields (n + 4) fs @ replicate n (CHR '' '') @ ''}''"
| "layout_fields n [] = []"
| "layout_fields n ((k, v) # fs) =
     replicate n (CHR '' '') @ [CHR 0x22] @ k @ [CHR 0x22] @ '' : '' @ layout n v
       @ (if fs = [] then [] else '','') @ NL @ layout_fields n fs"

definition json_position :: "Position \<Rightarrow> jtext" where
  "json_position p = JObject
     [(''screen_size'', JObject
        [(''width'', JNumber (dec_int (uint (width (screen_size p))))),
         (''height'', JNumber (dec_int (uint (height (screen_size p)))))]),
      (''point'', JObject
        [(''x'', JNumber (dec_int (sint (pt_x (point p))))),
         (''y'', JNumber (dec_int (sint (pt_y (point p)))))])]"

fun json_fields :: "ControlMessageType \<Rightarrow> ControlBody \<Rightarrow> (string \<times> jtext) list" where
  "json_fields _ (BodyKeycode k) =
     [(''msg_type'', JText ''CONTROL_MSG_TYPE_INJECT_KEYCODE''),
      (''key_code'', JObject
        [(''action'', JNumber (dec_int (sint (ik_action k)))),
         (''key_code'', JNumber (dec_int (sint (ik_keycode k)))),
         (''meta_state'', JNumber (dec_int (sint (ik_metastate k))))])]"
| "json_fields _ (BodyText (Some t)) =
     [(''msg_type'', JText ''CONTROL_MSG_TYPE_INJECT_TEXT''),
      (''inject_text'', JObject [(''text'', JText t)])]"
| "json_fields _ (BodyTouch e) =
     [(''msg_type'', JText ''CONTROL_MSG_TYPE_INJECT_TOUCH_EVENT''),
      (''touch_event'', JObject
        [(''action'', JNumber (dec_int (sint (it_action e)))),
         (''buttons'', JNumber (dec_int (sint (it_buttons e)))),
         (''pointer'', JNumber (dec_int (sint (it_pointer_id e)))),
         (''pressure'', JNumber (fmt_f (it_pressure e))),
         (''position'', json_position (it_position e))])]"
| "json_fields _ (BodyScroll s) =
     [(''msg_type'', JText ''CONTROL_MSG_TYPE_INJECT_SCROLL_EVENT''),
      (''scroll_event'', JObject
        [(''h_scroll'', JNumber (dec_int (sint (is_hscroll s)))),
         (''v_scroll'', JNumber (dec_int (sint (is_vscroll s)))),
         (''position'', json_position (is_position s))])]"
| "json_fields CONTROL_MSG_TYPE_EXPAND_NOTIFICATION_PANEL _ =
     [(''msg_type'', JText ''CONTROL_MSG_TYPE_EXPAND_NOTIFICATION_PANEL'')]"
| "json_fields CONTROL_MSG_TYPE_COLLAPSE_NOTIFICATION_PANEL _ =
     [(''msg_type'', JText ''CONTROL_MSG_TYPE_COLLAPSE_NOTIFICATION_PANEL'')]"
| "json_fields CONTROL_MSG_TYPE_ROTATE_DEVICE _ =
     [(''msg_type'', JText ''CONTROL_MSG_TYPE_ROTATE_DEVICE'')]"
| "json_fields _ _ = []"

definition json_printable :: "ControlMessageType set" where
  "json_printable = {CONTROL_MSG_TYPE_INJECT_KEYCODE, CONTROL_MSG_TYPE_INJECT_TEXT,
     CONTROL_MSG_TYPE_INJECT_TOUCH_EVENT, CONTROL_MSG_TYPE_INJECT_SCROLL_EVENT,
     CONTROL_MSG_TYPE_EXPAND_NOTIFICATION_PANEL, CONTROL_MSG_TYPE_COLLAPSE_NOTIFICATION_PANEL,
     CONTROL_MSG_TYPE_ROTATE_DEVICE}"

definition stamp :: "(int \<Rightarrow> string) \<Rightarrow> int \<times> int \<Rightarrow> string" where
  "stamp local_time tv =
     (let ms = round_half_even (of_int (snd tv) / 1000) in
      if ms \<ge> 1000 then local_time (fst tv + 1) @ ''.'' @ pad_left 3 (dec_int (ms - 1000))
      else local_time (fst tv) @ ''.'' @ pad_left 3 (dec_int ms))"

text \<open>What fits: a text of at most 235 bytes, since its line goes through \<open>temp\<close>.\<close>

fun json_fits :: "ControlBody \<Rightarrow> bool" where
  "json_fits (BodyText (Some t)) \<longleftrightarrow> length t \<le> 235"
| "json_fits _ \<longleftrightarrow> True"

lemma event_time_ok:
  assumes "\<forall>s. length (local_time s) \<le> 100" and "0 \<le> snd tv" and "snd tv < 1000000"
  shows "\<exists>ps. event_time local_time tv = Some ps \<and> list_all piece_fits ps \<and>
    text_of ps = stamp local_time tv @ CHR 0x22 # '','' @ NL \<and> length (text_of ps) \<le> 200"
proof -
  obtain sec usec where tv: "tv = (sec, usec)" by (cases tv)
  define ms where "ms = round_half_even (of_int usec / 1000)"
  have ms: "0 \<le> ms" "ms \<le> 1000"
  proof -
    have q: "0 \<le> (of_int usec / 1000 :: rat)" "(of_int usec / 1000 :: rat) < 1000"
      using assms(2,3) by (simp_all add: divide_less_eq tv)
    then have "0 \<le> \<lfloor>of_int usec / 1000 :: rat\<rfloor>" "\<lfloor>of_int usec / 1000 :: rat\<rfloor> < 1000"
      by (simp_all add: floor_less_iff)
    then show "0 \<le> ms" "ms \<le> 1000" by (auto simp: ms_def round_half_even_def Let_def)
  qed
  have len: "length (dec_int i) \<le> 4" if "0 \<le> i" "i < 1000" for i
    using length_dec_int_le [of i 2] that by simp
  have t: "length (local_time s) < 255" "length (local_time s) \<le> 100" for s
    using assms(1) [rule_format, of s] by simp_all
  show ?thesis
    using ms len [of ms] len [of "ms - 1000"] t [of sec] t [of "sec + 1"]
    by (auto simp: event_time_def stamp_def Let_def ms_def [symmetric] TEMP_SIZE_def
      text_of_def pad_left_def NL_def tv)
qed

lemma fmt_f_unit: "0 \<le> q \<Longrightarrow> q \<le> 1 \<Longrightarrow> length (fmt_f (Fin q)) \<le> 20"
proof -
  assume q: "0 \<le> q" "q \<le> 1"
  define m where "m = nat (round_half_even (q * 1000000))"
  have r: "0 \<le> q * 1000000" "q * 1000000 \<le> 1000000" using q by simp_all
  define n where "n = \<lfloor>q * 1000000\<rfloor>"
  have "n \<le> 1000000" using r by (simp add: n_def floor_le_iff)
  moreover have "m \<le> nat (n + 1)"
    using q by (simp add: m_def n_def round_half_even_def Let_def nat_mono)
  ultimately have m: "m \<le> 1000001" by linarith
  have "m div 1000000 < 10 ^ Suc 0" using m by auto
  then have "length (dec_nat (m div 1000000)) \<le> 1" using length_dec_nat_le by fastforce
  moreover have "m mod 1000000 < 10 ^ Suc 5" by simp
  then have "length (dec_nat (m mod 1000000)) \<le> 6" using length_dec_nat_le by fastforce
  ultimately show ?thesis using q by (simp add: Let_def m_def [symmetric] pad_left_def)
qed

lemma length_text_of:
  assumes "list_all (\<lambda>p. length (piece_text p) \<le> k) ps"
  shows "length (text_of ps) \<le> k * length ps"
  using assms by (induction ps) (auto simp: text_of_def)

lemma text_of_append [simp]: "text_of (ps @ qs) = text_of ps @ text_of qs"
  by (simp add: text_of_def)

text \<open>The statements for a body print its fields.\<close>

lemma json_body_layout:
  assumes "well_formed m" and "cm_type m \<in> json_printable"
  shows "\<exists>ps. json_body m = Some ps \<and> length ps \<le> 20 \<and>
    text_of ps = layout_fields 4 (json_fields (cm_type m) (cm_body m))"
  using assms unfolding well_formed_def
  by (cases "cm_type m"; cases "(cm_type m, cm_body m)" rule: wire_body.cases)
    (auto simp: json_body_def json_printable_def text_of_def msg_type_line_def position_pieces_def
      json_position_def NL_def numeral_eq_Suc)

lemma json_body_fits:
  assumes "well_formed m" and "json_body m = Some ps" and "cm_type m \<noteq> CONTROL_MSG_TYPE_INJECT_TEXT"
  shows "list_all (\<lambda>p. length (piece_text p) \<le> 100) ps"
proof -
  have f: "length (fmt_f f) \<le> 20" if "float_ge f 0" "float_le f 1" for f
    using that fmt_f_unit by (cases f) auto
  have le: "length (dec_int (sint (w :: u32))) \<le> 70" "length (dec_int (sint (v :: u64))) \<le> 70"
    "length (dec_int (uint (u :: u16))) \<le> 70" for w v u
    using length_dec_int_32 [of w] length_dec_int_64 [of v] length_dec_int_16 [of u] by linarith+
  show ?thesis
    using assms unfolding well_formed_def
    by (cases "cm_type m"; cases "(cm_type m, cm_body m)" rule: wire_body.cases)
      (auto simp: json_body_def msg_type_line_def position_pieces_def NL_def
        f order_trans [OF le(1)] order_trans [OF le(2)] order_trans [OF le(3)] order_trans [OF f])
qed

lemma json_body_text_fits:
  assumes "cm_type m = CONTROL_MSG_TYPE_INJECT_TEXT" and "cm_body m = BodyText (Some t)"
    and "json_body m = Some ps"
  shows "list_all piece_fits ps \<longleftrightarrow> length t \<le> 235"
    and "length t \<le> 235 \<Longrightarrow> list_all (\<lambda>p. length (piece_text p) \<le> 255) ps"
  using assms by (auto simp: json_body_def msg_type_line_def NL_def TEMP_SIZE_def)

lemma piece_fits_le: "list_all (\<lambda>p. length (piece_text p) \<le> 255) ps \<Longrightarrow> list_all piece_fits ps"
proof (induction ps)
  case (Cons p ps)
  then show ?case by (cases p) (auto simp: TEMP_SIZE_def)
qed simp

text \<open>
  The printer of a well-formed message: its text is the object with the time stamp, the type
  and the fields, laid out; it stays within its buffers, a text of more than 235 bytes excepted.
\<close>

lemma JsonSerialize_layout:
  assumes m: "well_formed m" "cm_type m \<in> json_printable"
    and time: "\<forall>s. length (local_time s) \<le> 100" "0 \<le> snd tv" "snd tv < 1000000"
  shows "JsonSerialize local_time tv m =
    (if json_fits (cm_body m)
     then Some (layout 0 (JObject ((''event_time'', JText (stamp local_time tv))
                 # json_fields (cm_type m) (cm_body m))))
     else None)"
proof -
  obtain ts where ts: "event_time local_time tv = Some ts" "list_all piece_fits ts"
    "text_of ts = stamp local_time tv @ CHR 0x22 # '','' @ NL" "length (text_of ts) \<le> 200"
    using event_time_ok [OF time] by auto
  obtain ps where ps: "json_body m = Some ps" "length ps \<le> 20"
    "text_of ps = layout_fields 4 (json_fields (cm_type m) (cm_body m))"
    using json_body_layout [OF m] by auto
  have fits: "list_all piece_fits ps \<longleftrightarrow> json_fits (cm_body m)"
    and len: "json_fits (cm_body m) \<Longrightarrow> list_all (\<lambda>p. length (piece_text p) \<le> 255) ps"
  proof -
    have "(list_all piece_fits ps \<longleftrightarrow> json_fits (cm_body m)) \<and>
      (json_fits (cm_body m) \<longrightarrow> list_all (\<lambda>p. length (piece_text p) \<le> 255) ps)"
    proof (cases "cm_type m = CONTROL_MSG_TYPE_INJECT_TEXT")
      case True
      then obtain t where "cm_body m = BodyText (Some t)"
        using m(1) unfolding well_formed_def
        by (cases "(cm_type m, cm_body m)" rule: wire_body.cases) auto
      with json_body_text_fits [OF True _ ps(1)] show ?thesis by simp
    next
      case False
      have l: "list_all (\<lambda>p. length (piece_text p) \<le> 255) ps"
        using json_body_fits [OF m(1) ps(1) False] by (rule list.pred_mono_strong) simp
      moreover have "json_fits (cm_body m)"
        using m False unfolding well_formed_def
        by (cases "(cm_type m, cm_body m)" rule: wire_body.cases) (auto simp: json_printable_def)
      ultimately show ?thesis using piece_fits_le by blast
    qed
    then show "list_all piece_fits ps \<longleftrightarrow> json_fits (cm_body m)"
      "json_fits (cm_body m) \<Longrightarrow> list_all (\<lambda>p. length (piece_text p) \<le> 255) ps" by auto
  qed
  let ?head = "Temp (''    '' @ CHR 0x22 # ''event_time'' @ CHR 0x22 # '' : '' @ [CHR 0x22])"
  let ?ps = "?head # ts @ ps @ [Lit ''}'']"
  have js: "JsonSerialize local_time tv m = print 8192 (''{'' @ NL) ?ps"
    by (simp add: JsonSerialize_def ts(1) ps(1) CONTROL_MSG_SERIALIZED_MAX_SIZE_def
        CONTROL_MSG_CLIPBOARD_TEXT_MAX_LENGTH_def)
  show ?thesis
  proof (cases "json_fits (cm_body m)")
    case True
    have "length (text_of ps) \<le> 255 * length ps"
      using length_text_of [OF len [OF True]] .
    with ps(2) have l: "length (text_of ps) \<le> 5100" by linarith
    have fields: "json_fields (cm_type m) (cm_body m) \<noteq> []"
      using m unfolding well_formed_def
      by (cases "(cm_type m, cm_body m)" rule: wire_body.cases) (auto simp: json_printable_def)
    have "print 8192 (''{'' @ NL) ?ps = Some (''{'' @ NL @ text_of ?ps)"
      using l ts(2,4) fits True by (subst print_iff) (auto simp: TEMP_SIZE_def NL_def text_of_def)
    moreover have "''{'' @ NL @ text_of ?ps = layout 0 (JObject ((''event_time'',
        JText (stamp local_time tv)) # json_fields (cm_type m) (cm_body m)))"
      using fields ts(3) ps(3) by (simp add: text_of_def numeral_eq_Suc)
    ultimately show ?thesis using js True by simp
  next
    case False
    have "print 8192 (''{'' @ NL) ?ps = None"
    proof (rule ccontr)
      assume "\<not> ?thesis"
      then show False using fits False by (auto simp: print_iff simp del: print.simps)
    qed
    with js False show ?thesis by simp
  qed
qed

subsection \<open>Reading\<close>

text \<open>
  The operations of the JSON library the reader uses, over its own type of values. \<open>None\<close> is
  an exception of the library: a value that is no object is indexed, or a value is converted
  to a type it does not have. An absent key indexes to the null value.
\<close>

record 'j json_lib =
  j_accept :: "string \<Rightarrow> bool"
  j_parse :: "string \<Rightarrow> 'j option"
  j_index :: "'j \<Rightarrow> string \<Rightarrow> 'j option"
  j_string :: "'j \<Rightarrow> string option"
  j_int :: "'j \<Rightarrow> u32 option"
  j_enum :: "'j \<Rightarrow> u32 option"
  j_float :: "'j \<Rightarrow> c_float option"
  j_is_null :: "'j \<Rightarrow> bool"

datatype json_error = JsonException

definition msg_type_of :: "string \<Rightarrow> ControlMessageType" where
  "msg_type_of s =
     (if s = ''CONTROL_MSG_TYPE_INJECT_KEYCODE'' then CONTROL_MSG_TYPE_INJECT_KEYCODE
      else if s = ''CONTROL_MSG_TYPE_INJECT_TEXT'' then CONTROL_MSG_TYPE_INJECT_TEXT
      else if s = ''CONTROL_MSG_TYPE_INJECT_TOUCH_EVENT'' then CONTROL_MSG_TYPE_INJECT_TOUCH_EVENT
      else if s = ''CONTROL_MSG_TYPE_INJECT_SCROLL_EVENT'' then CONTROL_MSG_TYPE_INJECT_SCROLL_EVENT
      else if s = ''CONTROL_MSG_TYPE_BACK_OR_SCREEN_ON'' then CONTROL_MSG_TYPE_BACK_OR_SCREEN_ON
      else if s = ''CONTROL_MSG_TYPE_EXPAND_NOTIFICATION_PANEL''
        then CONTROL_MSG_TYPE_EXPAND_NOTIFICATION_PANEL
      else if s = ''CONTROL_MSG_TYPE_COLLAPSE_NOTIFICATION_PANEL''
        then CONTROL_MSG_TYPE_COLLAPSE_NOTIFICATION_PANEL
      else if s = ''CONTROL_MSG_TYPE_GET_CLIPBOARD'' then CONTROL_MSG_TYPE_GET_CLIPBOARD
      else if s = ''CONTROL_MSG_TYPE_SET_CLIPBOARD'' then CONTROL_MSG_TYPE_SET_CLIPBOARD
      else if s = ''CONTROL_MSG_TYPE_SET_SCREEN_POWER_MODE''
        then CONTROL_MSG_TYPE_SET_SCREEN_POWER_MODE
      else if s = ''CONTROL_MSG_TYPE_ROTATE_DEVICE'' then CONTROL_MSG_TYPE_ROTATE_DEVICE
      else if s = ''CONTROL_MSG_TYPE_START_RECORDING'' then CONTROL_MSG_TYPE_START_RECORDING
      else if s = ''CONTROL_MSG_TYPE_END_RECORDING'' then CONTROL_MSG_TYPE_END_RECORDING
      else CONTROL_MSG_TYPE_UNKNOWN)"

definition read_keycode :: "('j, 'x) json_lib_scheme \<Rightarrow> 'j \<Rightarrow> InjectKeycode option" where
  "read_keycode lib j = do {
     key_code \<leftarrow> j_index lib j ''key_code'';
     action \<leftarrow> j_index lib key_code ''action''; action \<leftarrow> j_enum lib action;
     keycode \<leftarrow> j_index lib key_code ''key_code''; keycode \<leftarrow> j_enum lib keycode;
     metastate \<leftarrow> j_index lib key_code ''meta_state''; metastate \<leftarrow> j_enum lib metastate;
     Some \<lparr>ik_action = action, ik_keycode = keycode, ik_metastate = metastate\<rparr>
   }"

definition read_position :: "('j, 'x) json_lib_scheme \<Rightarrow> 'j \<Rightarrow> Position option" where
  "read_position lib position = do {
     size \<leftarrow> j_index lib position ''screen_size'';
     w \<leftarrow> j_index lib size ''width''; w \<leftarrow> j_int lib w;
     h \<leftarrow> j_index lib size ''height''; h \<leftarrow> j_int lib h;
     pt \<leftarrow> j_index lib position ''point'';
     x \<leftarrow> j_index lib pt ''x''; x \<leftarrow> j_int lib x;
     y \<leftarrow> j_index lib pt ''y''; y \<leftarrow> j_int lib y;
     Some \<lparr>screen_size = \<lparr>width = ucast w, height = ucast h\<rparr>, point = \<lparr>pt_x = x, pt_y = y\<rparr>\<rparr>
   }"

definition read_touch :: "('j, 'x) json_lib_scheme \<Rightarrow> 'j \<Rightarrow> InjectTouch option" where
  "read_touch lib j = do {
     touch_event \<leftarrow> j_index lib j ''touch_event'';
     action \<leftarrow> j_index lib touch_event ''action''; action \<leftarrow> j_enum lib action;
     buttons \<leftarrow> j_index lib touch_event ''buttons''; buttons \<leftarrow> j_enum lib buttons;
     pointer \<leftarrow> j_index lib touch_event ''pointer''; pointer \<leftarrow> j_int lib pointer;
     pressure \<leftarrow> j_index lib touch_event ''pressure''; pressure \<leftarrow> j_float lib pressure;
     position \<leftarrow> j_index lib touch_event ''position''; position \<leftarrow> read_position lib position;
     Some \<lparr>it_action = action, it_buttons = buttons, it_pointer_id = scast pointer,
       it_position = position, it_pressure = pressure\<rparr>
   }"

definition read_scroll :: "('j, 'x) json_lib_scheme \<Rightarrow> 'j \<Rightarrow> InjectScroll option" where
  "read_scroll lib j = do {
     scroll_event \<leftarrow> j_index lib j ''scroll_event'';
     position \<leftarrow> j_index lib scroll_event ''position''; position \<leftarrow> read_position lib position;
     h \<leftarrow> j_index lib scroll_event ''h_scroll''; h \<leftarrow> j_int lib h;
     v \<leftarrow> j_index lib scroll_event ''v_scroll''; v \<leftarrow> j_int lib v;
     Some \<lparr>is_position = position, is_hscroll = h, is_vscroll = v\<rparr>
   }"

text \<open>The text of an \<open>inject_text\<close> object, when the value is not null.\<close>

definition read_text :: "('j, 'x) json_lib_scheme \<Rightarrow> 'j \<Rightarrow> string option option" where
  "read_text lib j = do {
     inject_text \<leftarrow> j_index lib j ''inject_text'';
     if j_is_null lib inject_text then Some None
     else do {
       t \<leftarrow> j_index lib inject_text ''text''; t \<leftarrow> j_string lib t; Some (Some t)
     }
   }"

text \<open>The copy of a text to the heap: \<open>SDL_malloc\<close>, the bytes, and the terminating NUL.\<close>

definition copy_text :: "char allocator \<Rightarrow> string \<Rightarrow> string option" where
  "copy_text SDL_malloc message = do {
     text \<leftarrow> SDL_malloc (length message + 1);
     text \<leftarrow> store_block text 0 message;
     text \<leftarrow> store text (length message) NUL;
     Some (cstr text)
   }"

definition thrown :: "'a option \<Rightarrow> ('a \<Rightarrow> (json_error + 'b) option) \<Rightarrow> (json_error + 'b) option" where
  "thrown x f = (case x of None \<Rightarrow> Some (Inl JsonException) | Some a \<Rightarrow> f a)"

definition JsonDeserialize ::
  "('j, 'x) json_lib_scheme \<Rightarrow> char allocator \<Rightarrow> ControlMessage \<Rightarrow> u8 list
    \<Rightarrow> (json_error + ControlMessage \<times> nat) option" where
  "JsonDeserialize lib SDL_malloc m buf =
     (let content = string_of_bytes buf; len = length buf in
      if \<not> j_accept lib content then Some (Inr (m, 0))
      else thrown (do { j \<leftarrow> j_parse lib content; t \<leftarrow> j_index lib j ''msg_type'';
                        msg_type \<leftarrow> j_string lib t; Some (j, msg_type) })
        (\<lambda>(j, msg_type).
          let m = m\<lparr>cm_type := msg_type_of msg_type\<rparr> in
          case cm_type m of
            CONTROL_MSG_TYPE_INJECT_KEYCODE \<Rightarrow>
              thrown (read_keycode lib j) (\<lambda>k. Some (Inr (m\<lparr>cm_body := BodyKeycode k\<rparr>, len)))
          | CONTROL_MSG_TYPE_INJECT_TEXT \<Rightarrow>
              thrown (read_text lib j) (\<lambda>t.
                case t of
                  None \<Rightarrow> Some (Inr (m, len))
                | Some message \<Rightarrow> do {
                    text \<leftarrow> copy_text SDL_malloc message;
                    Some (Inr (m\<lparr>cm_body := BodyText (Some text)\<rparr>, len)) })
          | CONTROL_MSG_TYPE_INJECT_TOUCH_EVENT \<Rightarrow>
              thrown (read_touch lib j) (\<lambda>e. Some (Inr (m\<lparr>cm_body := BodyTouch e\<rparr>, len)))
          | CONTROL_MSG_TYPE_INJECT_SCROLL_EVENT \<Rightarrow>
              thrown (read_scroll lib j) (\<lambda>s. Some (Inr (m\<lparr>cm_body := BodyScroll s\<rparr>, len)))
          | CONTROL_MSG_TYPE_UNKNOWN \<Rightarrow> Some (Inr (m, 0))
          | _ \<Rightarrow> Some (Inr (m, len))))"

subsection \<open>Printing and reading back\<close>

text \<open>
  What the reader relies on of the library, for one text \<open>t\<close> that lays out the object \<open>v\<close>:
  the text is accepted and parses to that object, fields are found by name, and values
  convert to what was printed. \<open>as_float\<close> is the library's reading of a printed fraction.
\<close>

definition library_reads ::
  "('j, 'x) json_lib_scheme \<Rightarrow> (jtext \<Rightarrow> 'j) \<Rightarrow> (string \<Rightarrow> c_float) \<Rightarrow> string \<Rightarrow> jtext \<Rightarrow> bool" where
  "library_reads lib emb as_float t v \<longleftrightarrow>
     j_accept lib t \<and> j_parse lib t = Some (emb v) \<and>
     (\<forall>fs k x. map_of fs k = Some x \<longrightarrow> j_index lib (emb (JObject fs)) k = Some (emb x)) \<and>
     (\<forall>fs. \<not> j_is_null lib (emb (JObject fs))) \<and>
     (\<forall>s. j_string lib (emb (JText s)) = Some s) \<and>
     (\<forall>i. j_int lib (emb (JNumber (dec_int i))) = Some (of_int i)) \<and>
     (\<forall>i. j_enum lib (emb (JNumber (dec_int i))) = Some (of_int i)) \<and>
     (\<forall>f. j_float lib (emb (JNumber (fmt_f f))) = Some (as_float (fmt_f f)))"

text \<open>What survives: a pointer id as a 32-bit integer, a pressure to six digits.\<close>

fun reread_body :: "(string \<Rightarrow> c_float) \<Rightarrow> ControlBody \<Rightarrow> ControlBody" where
  "reread_body as_float (BodyTouch e) =
     BodyTouch (e\<lparr>it_pointer_id := scast (ucast (it_pointer_id e) :: u32),
       it_pressure := as_float (fmt_f (it_pressure e))\<rparr>)"
| "reread_body as_float b = b"

definition json_object :: "(int \<Rightarrow> string) \<Rightarrow> int \<times> int \<Rightarrow> ControlMessage \<Rightarrow> jtext" where
  "json_object local_time tv m = JObject ((''event_time'', JText (stamp local_time tv))
     # json_fields (cm_type m) (cm_body m))"

lemma copy_text_ok:
  assumes "malloc_ok SDL_malloc" and "SDL_malloc (length t + 1) = Some b"
  shows "copy_text SDL_malloc t = Some (cstr (t @ [NUL]))"
proof -
  have "length b = length t + 1" using malloc_okD [OF assms] .
  then show ?thesis
    using assms(2) by (simp add: copy_text_def store_as_block store_block_def)
qed

lemma word_of_sint_pointer: "(scast (p :: u64) :: u32) = ucast p"
  by (rule bit_word_eqI) (auto simp: bit_simps min_def)

lemma word_of_uint16: "(ucast (ucast (w :: u16) :: u32) :: u16) = w"
  by (rule bit_word_eqI) (auto simp: bit_simps dest: word16_bit)

lemma JsonDeserialize_fields:
  assumes lib: "library_reads lib emb as_float t (json_object local_time tv m)"
    and m: "well_formed m" "cm_type m \<in> json_printable"
    and plain: "\<And>s. cm_body m = BodyText (Some s) \<Longrightarrow> cstring s \<and> copy_text SDL_malloc s = Some s"
    and m0: "m0 = \<lparr>cm_type = t0, cm_body = Unwritten\<rparr>"
  shows "JsonDeserialize lib SDL_malloc m0 (bytes_of t) =
    Some (Inr (m0\<lparr>cm_type := cm_type m, cm_body := reread_body as_float (cm_body m)\<rparr>, length t))"
proof -
  have a: "j_accept lib t" "j_parse lib t = Some (emb (json_object local_time tv m))"
    using lib by (auto simp: library_reads_def)
  have idx: "\<And>fs k x. map_of fs k = Some x \<Longrightarrow> j_index lib (emb (JObject fs)) k = Some (emb x)"
    and nn: "\<And>fs. \<not> j_is_null lib (emb (JObject fs))"
    and str: "\<And>s. j_string lib (emb (JText s)) = Some s"
    and int: "\<And>i. j_int lib (emb (JNumber (dec_int i))) = Some (of_int i)"
    and enum: "\<And>i. j_enum lib (emb (JNumber (dec_int i))) = Some (of_int i)"
    and flt: "\<And>f. j_float lib (emb (JNumber (fmt_f f))) = Some (as_float (fmt_f f))"
    using lib by (auto simp: library_reads_def)
  note rules = JsonDeserialize_def thrown_def a json_object_def idx nn str int enum flt
    read_keycode_def read_touch_def read_scroll_def read_text_def read_position_def
    json_position_def json_printable_def m0 msg_type_of_def Let_def word_of_sint_pointer word_of_uint16
  show ?thesis
    using m plain unfolding well_formed_def
    by (cases "cm_type m"; cases "(cm_type m, cm_body m)" rule: wire_body.cases)
      (auto simp: rules intro!: InjectTouch.equality InjectScroll.equality Position.equality
        Size.equality Point.equality)
qed

subsection \<open>Properties\<close>

text \<open>C19. For the seven printable types, the JSON printer produces the laid-out object with
  the time stamp, the type and the fields of the message and stays inside its two buffers, with
  one exception: a text of more than 235 bytes, which an injected text may have, overruns the
  256 bytes of the line buffer.\<close>

theorem json_serialize_object:
  assumes "well_formed m" and "cm_type m \<in> json_printable"
    and "\<forall>s. length (local_time s) \<le> 100" and "0 \<le> snd tv" and "snd tv < 1000000"
  shows "JsonSerialize local_time tv m =
    (if json_fits (cm_body m) then Some (layout 0 (json_object local_time tv m)) else None)"
  using JsonSerialize_layout [OF assms] by (simp add: json_object_def)

theorem json_serialize_object_witness:
  "JsonSerialize (\<lambda>s. ''2020-03-25 10:00:00'') (0, 999500)
     \<lparr>cm_type = CONTROL_MSG_TYPE_INJECT_TEXT, cm_body = BodyText (Some (replicate 236 (CHR ''a'')))\<rparr> = None"
proof -
  have "\<forall>c \<in> set (replicate 236 ''a''). utf8_char c"
    by (simp add: utf8_char_def utf8_continues_def byte_of_def)
  moreover have "concat (replicate n ''a'') = replicate n (CHR ''a'')" for n
    by (induction n) auto
  ultimately have "utf8_string (replicate 236 (CHR ''a''))"
    unfolding utf8_string_def by (intro exI [of _ "replicate 236 ''a''"]) simp
  then show ?thesis
    using json_serialize_object [of "\<lparr>cm_type = CONTROL_MSG_TYPE_INJECT_TEXT,
        cm_body = BodyText (Some (replicate 236 (CHR ''a'')))\<rparr>" "\<lambda>s. ''2020-03-25 10:00:00''" "(0, 999500)"]
    by (simp add: well_formed_def json_printable_def)
qed

text \<open>C20. Provided the JSON library reads the printed object, the reader returns the message
  the printer was given: every field, the pointer id as a 32-bit integer and the pressure to
  six digits, and it consumes the whole text.\<close>

theorem json_roundtrip:
  assumes "well_formed m" and "cm_type m \<in> json_printable" and "json_fits (cm_body m)"
    and "\<forall>s. length (local_time s) \<le> 100" and "0 \<le> snd tv" and "snd tv < 1000000"
    and "library_reads lib emb as_float (layout 0 (json_object local_time tv m)) (json_object local_time tv m)"
    and "\<forall>s. cm_body m = BodyText (Some s) \<longrightarrow>
      cstring s \<and> malloc_ok SDL_malloc \<and> (\<exists>b. SDL_malloc (length s + 1) = Some b)"
  shows "\<exists>t. JsonSerialize local_time tv m = Some t \<and>
    JsonDeserialize lib SDL_malloc \<lparr>cm_type = t0, cm_body = Unwritten\<rparr> (bytes_of t) =
    Some (Inr (m\<lparr>cm_body := reread_body as_float (cm_body m)\<rparr>, length t))"
proof -
  let ?t = "layout 0 (json_object local_time tv m)"
  have c: "cstring s \<and> copy_text SDL_malloc s = Some s" if "cm_body m = BodyText (Some s)" for s
    using assms(8) that copy_text_ok [of SDL_malloc s] by (auto simp: cstr_cstring)
  have "JsonSerialize local_time tv m = Some ?t"
    using JsonSerialize_layout [OF assms(1,2,4,5,6)] assms(3) by (simp add: json_object_def)
  moreover have "JsonDeserialize lib SDL_malloc \<lparr>cm_type = t0, cm_body = Unwritten\<rparr> (bytes_of ?t) =
      Some (Inr (m\<lparr>cm_body := reread_body as_float (cm_body m)\<rparr>, length ?t))"
    using JsonDeserialize_fields [OF assms(7,1,2) c refl] by (cases m) simp
  ultimately show ?thesis by blast
qed

text \<open>A library over the layout's own values, for the instance below.\<close>

definition dec_value :: "string \<Rightarrow> int" where
  "dec_value s = (let (neg, ds) = strtol_sign s; v = int (fst (read_digits 10 0 ds)) in if neg then - v else v)"

fun jtext_index :: "jtext \<Rightarrow> string \<Rightarrow> jtext option" where
  "jtext_index (JObject fs) k = map_of fs k"
| "jtext_index _ k = None"

fun jtext_string :: "jtext \<Rightarrow> string option" where
  "jtext_string (JText s) = Some s"
| "jtext_string _ = None"

fun jtext_number :: "(string \<Rightarrow> 'a) \<Rightarrow> jtext \<Rightarrow> 'a option" where
  "jtext_number f (JNumber s) = Some (f s)"
| "jtext_number f _ = None"

definition jtext_lib :: "jtext \<Rightarrow> jtext json_lib" where
  "jtext_lib v = \<lparr>j_accept = (\<lambda>_. True), j_parse = (\<lambda>_. Some v), j_index = jtext_index,
     j_string = jtext_string, j_int = jtext_number (\<lambda>s. of_int (dec_value s)),
     j_enum = jtext_number (\<lambda>s. of_int (dec_value s)),
     j_float = jtext_number (\<lambda>s. Fin (of_int (dec_value s))), j_is_null = (\<lambda>_. False)\<rparr>"

lemma dec_value_dec_int: "dec_value (dec_int i) = i"
proof -
  have s: "strtol_sign (dec_nat n) = (False, dec_nat n)" for n
  proof (cases "dec_nat n")
    case (Cons c cs)
    then have "is_digit 10 c" using dec_nat_is_digit [of n] by simp
    then have "c \<noteq> CHR ''-''" "c \<noteq> CHR ''+''" by (auto simp: is_digit_def digit_val_def Let_def)
    with Cons show ?thesis by simp
  qed simp
  show ?thesis
    by (simp add: dec_value_def dec_int_def s read_digits_dec_nat Let_def)
qed

lemma jtext_lib_reads: "library_reads (jtext_lib v) (\<lambda>x. x) (\<lambda>s. Fin (of_int (dec_value s))) t v"
  by (simp add: library_reads_def jtext_lib_def dec_value_dec_int)

theorem json_roundtrip_witness:
  "\<exists>t. JsonSerialize (\<lambda>s. ''2020-03-25 10:00:00'') (0, 0)
      \<lparr>cm_type = CONTROL_MSG_TYPE_INJECT_TEXT, cm_body = BodyText (Some ''hi'')\<rparr> = Some t \<and>
    JsonDeserialize (jtext_lib (json_object (\<lambda>s. ''2020-03-25 10:00:00'') (0, 0)
        \<lparr>cm_type = CONTROL_MSG_TYPE_INJECT_TEXT, cm_body = BodyText (Some ''hi'')\<rparr>))
      (\<lambda>n. Some (replicate n NUL)) \<lparr>cm_type = CONTROL_MSG_TYPE_UNKNOWN, cm_body = Unwritten\<rparr> (bytes_of t) =
    Some (Inr (\<lparr>cm_type = CONTROL_MSG_TYPE_INJECT_TEXT, cm_body = BodyText (Some ''hi'')\<rparr>, length t))"
proof -
  let ?m = "\<lparr>cm_type = CONTROL_MSG_TYPE_INJECT_TEXT, cm_body = BodyText (Some ''hi'')\<rparr>"
  have "utf8_string ''hi''"
    unfolding utf8_string_def
    by (rule exI [of _ "[''h'', ''i'']"]) (auto simp: utf8_char_def utf8_continues_def byte_of_def)
  then have 1: "well_formed ?m" "cm_type ?m \<in> json_printable" "json_fits (cm_body ?m)"
    by (simp_all add: well_formed_def json_printable_def)
  have 2: "\<forall>s. length ((\<lambda>s. ''2020-03-25 10:00:00'') (s :: int)) \<le> 100" "0 \<le> snd (0 :: int, 0 :: int)"
    "snd (0 :: int, 0 :: int) < 1000000" by simp_all
  have 3: "\<forall>s. cm_body ?m = BodyText (Some s) \<longrightarrow>
      cstring s \<and> malloc_ok (\<lambda>n. Some (replicate n NUL)) \<and> (\<exists>b. (\<lambda>n. Some (replicate n NUL)) (length s + 1) = Some b)"
    by (simp add: malloc_ok_def NUL_def)
  show ?thesis
    using json_roundtrip [OF 1 2 jtext_lib_reads 3, of CONTROL_MSG_TYPE_UNKNOWN] by simp
qed

end
