(* ===== verification/Net.thy ===== *)
theory Net
  imports C_Stdlib
begin

section \<open>Sockets (src/src/platform/net.cpp, src/src/platform/unix/net.cpp)\<close>

text \<open>
  The wrappers around the socket calls of the operating system. The system is not code of the
  repository: it is a \<open>net_world\<close> that holds the open descriptors, the bytes the peer has sent
  and those it has been sent, and a list of answers, one for each system call to come, that
  decides how the call ends. A theorem for every list of answers is therefore a theorem for
  every behaviour of the system. When no answer is left, every call fails. \<open>nw_stray\<close> counts the
  calls that close a descriptor which is not open, \<open>nw_failed\<close> the failures to close an open one.
\<close>

type_synonym socket_t = int

abbreviation INVALID_SOCKET :: socket_t where
  "INVALID_SOCKET \<equiv> - 1"

definition IPV4_LOCALHOST :: u32 where
  "IPV4_LOCALHOST = 0x7F000001"

record net_world =
  nw_open :: "socket_t set"
  nw_next :: nat
  nw_answers :: "int list"
  nw_incoming :: "u8 list"
  nw_sent :: "u8 list"
  nw_bound :: "(socket_t \<times> u32 \<times> u16) list"
  nw_stray :: nat
  nw_failed :: nat

definition answer :: "net_world \<Rightarrow> int \<times> net_world" where
  "answer w = (case nw_answers w of
     [] \<Rightarrow> (- 1, w)
   | a # as \<Rightarrow> (a, w\<lparr>nw_answers := as\<rparr>))"

text \<open>
  \<open>socket\<close> and \<open>accept\<close> return a descriptor that is not in use. \<open>close\<close> releases its own, also when it
  reports a failure; of a descriptor that is not open it always reports one.
\<close>

definition sys_socket :: "net_world \<Rightarrow> socket_t \<times> net_world" where
  "sys_socket w =
     (let (a, w) = answer w in
      if a < 0 then (INVALID_SOCKET, w)
      else (int (nw_next w), w\<lparr>nw_open := insert (int (nw_next w)) (nw_open w), nw_next := nw_next w + 1\<rparr>))"

definition sys_close :: "socket_t \<Rightarrow> net_world \<Rightarrow> int \<times> net_world" where
  "sys_close s w =
     (if s \<notin> nw_open w then (- 1, w\<lparr>nw_stray := nw_stray w + 1\<rparr>)
      else let (a, w) = answer w; w = w\<lparr>nw_open := nw_open w - {s}\<rparr> in
        if a < 0 then (- 1, w\<lparr>nw_failed := nw_failed w + 1\<rparr>) else (0, w))"

definition sys_status :: "net_world \<Rightarrow> int \<times> net_world" where
  "sys_status w = (let (a, w) = answer w in (if a < 0 then - 1 else 0, w))"

definition sys_bind :: "socket_t \<Rightarrow> u32 \<Rightarrow> u16 \<Rightarrow> net_world \<Rightarrow> int \<times> net_world" where
  "sys_bind s addr port w =
     (let (r, w) = sys_status w in
      (r, if r = 0 then w\<lparr>nw_bound := (s, addr, port) # nw_bound w\<rparr> else w))"

text \<open>
  \<open>send\<close> transmits the number of bytes it returns, at most all of them; \<open>recv\<close> returns the
  number of bytes it received, 0 at the end of the stream.
\<close>

definition sys_send :: "u8 list \<Rightarrow> net_world \<Rightarrow> int \<times> net_world" where
  "sys_send bs w =
     (let (a, w) = answer w in
      if a < 0 then (- 1, w)
      else let n = min (nat a) (length bs) in (int n, w\<lparr>nw_sent := nw_sent w @ take n bs\<rparr>))"

definition sys_recv :: "nat \<Rightarrow> net_world \<Rightarrow> int \<times> u8 list \<times> net_world" where
  "sys_recv len w =
     (let (a, w) = answer w in
      if a < 0 then (- 1, [], w)
      else let n = min (nat a) (min len (length (nw_incoming w)))
           in (int n, take n (nw_incoming w), w\<lparr>nw_incoming := drop n (nw_incoming w)\<rparr>))"

subsection \<open>The wrappers\<close>

definition net_close :: "socket_t \<Rightarrow> net_world \<Rightarrow> bool \<times> net_world" where
  "net_close socket w = (let (r, w) = sys_close socket w in (r = 0, w))"

definition net_connect :: "u32 \<Rightarrow> u16 \<Rightarrow> net_world \<Rightarrow> socket_t \<times> net_world" where
  "net_connect addr port w =
     (let (sock, w) = sys_socket w in
      if sock = INVALID_SOCKET then (INVALID_SOCKET, w)
      else let (r, w) = sys_status w in
        if r = - 1 then let (_, w) = net_close sock w in (INVALID_SOCKET, w)
        else (sock, w))"

definition net_listen :: "u32 \<Rightarrow> u16 \<Rightarrow> int \<Rightarrow> net_world \<Rightarrow> socket_t \<times> net_world" where
  "net_listen addr port backlog w =
     (let (sock, w) = sys_socket w in
      if sock = INVALID_SOCKET then (INVALID_SOCKET, w)
      else let (_, w) = sys_status w; (r, w) = sys_bind sock addr port w in
        if r = - 1 then let (_, w) = net_close sock w in (INVALID_SOCKET, w)
        else let (r, w) = sys_status w in
          if r = - 1 then let (_, w) = net_close sock w in (INVALID_SOCKET, w)
          else (sock, w))"

definition net_accept :: "socket_t \<Rightarrow> net_world \<Rightarrow> socket_t \<times> net_world" where
  "net_accept server_socket w = sys_socket w"

text \<open>A receive into \<open>buf\<close> at offset \<open>i\<close>.\<close>

definition net_recv :: "socket_t \<Rightarrow> u8 list \<Rightarrow> nat \<Rightarrow> nat \<Rightarrow> net_world \<Rightarrow> (int \<times> u8 list \<times> net_world) option" where
  "net_recv socket buf i len w =
     (let (r, bs, w) = sys_recv len w in do {
        buf \<leftarrow> store_block buf i bs;
        Some (r, buf, w)
      })"

text \<open>With \<open>MSG_WAITALL\<close> a call may still return less: a signal, an error or the end of the stream.\<close>

definition net_recv_all :: "socket_t \<Rightarrow> u8 list \<Rightarrow> nat \<Rightarrow> nat \<Rightarrow> net_world \<Rightarrow> (int \<times> u8 list \<times> net_world) option" where
  "net_recv_all socket buf i len w =
     (let (r, bs, w) = sys_recv len w in do {
        buf \<leftarrow> store_block buf i bs;
        Some (r, buf, w)
      })"

definition net_send :: "socket_t \<Rightarrow> u8 list \<Rightarrow> net_world \<Rightarrow> int \<times> net_world" where
  "net_send socket bs w = sys_send bs w"

text \<open>
  The sending loop. It ends because the answers do: a system whose \<open>send\<close> accepts nothing for
  ever is one whose list of answers does not end.
\<close>

function net_send_all_loop :: "socket_t \<Rightarrow> u8 list \<Rightarrow> int \<Rightarrow> net_world \<Rightarrow> int \<times> net_world" where
  "net_send_all_loop socket bs w0 w =
     (if bs = [] then (w0, w)
      else let (r, w') = net_send socket bs w in
        if r = - 1 then (- 1, w')
        else net_send_all_loop socket (drop (nat r) bs) r w')"
  by pat_completeness auto
termination
  by (relation "measure (\<lambda>(socket, bs, w0, w). length (nw_answers w))")
    (auto simp: net_send_def sys_send_def answer_def Let_def split: list.splits if_splits prod.splits)

declare net_send_all_loop.simps [simp del]

definition net_send_all :: "socket_t \<Rightarrow> u8 list \<Rightarrow> net_world \<Rightarrow> int \<times> net_world" where
  "net_send_all socket bs w = net_send_all_loop socket bs 0 w"

definition net_shutdown :: "socket_t \<Rightarrow> net_world \<Rightarrow> bool \<times> net_world" where
  "net_shutdown socket w = (let (r, w) = sys_status w in (r = 0, w))"

definition listen_on_port :: "u16 \<Rightarrow> net_world \<Rightarrow> socket_t \<times> net_world" where
  "listen_on_port port w = net_listen IPV4_LOCALHOST port 1 w"

definition close_socket :: "socket_t \<Rightarrow> net_world \<Rightarrow> socket_t \<times> net_world" where
  "close_socket socket w =
     (if socket \<noteq> INVALID_SOCKET then
        let (_, w) = net_shutdown socket w; (ok, w) = net_close socket w in
        if \<not> ok then (socket, w) else (INVALID_SOCKET, w)
      else (socket, w))"

text \<open>\<open>net_try_recv\<close> looks at the error number the call leaves.\<close>

definition net_try_recv :: "int \<Rightarrow> bool" where
  "net_try_recv errno \<longleftrightarrow> 34 < errno \<and> errno < 45"

subsection \<open>Descriptors\<close>

text \<open>The numbers in use lie below the next one.\<close>

definition net_inv :: "net_world \<Rightarrow> bool" where
  "net_inv w \<longleftrightarrow> (\<forall>s \<in> nw_open w. s < int (nw_next w))"

lemma answer_simps [simp]:
  "answer w = (a, w') \<Longrightarrow> nw_open w' = nw_open w \<and> nw_next w' = nw_next w \<and>
     nw_sent w' = nw_sent w \<and> nw_incoming w' = nw_incoming w \<and> nw_bound w' = nw_bound w \<and>
     nw_stray w' = nw_stray w \<and> nw_failed w' = nw_failed w"
  by (auto simp: answer_def split: list.splits)

lemma sys_recv_answers:
  assumes "sys_recv len w = (r, bs, w')"
  shows "length (nw_answers w') \<le> length (nw_answers w)"
    and "0 \<le> r \<Longrightarrow> length (nw_answers w') < length (nw_answers w)"
proof -
  have "length (nw_answers w') \<le> length (nw_answers w) \<and>
      (0 \<le> r \<longrightarrow> length (nw_answers w') < length (nw_answers w))"
  proof (cases "nw_answers w")
    case Nil
    with assms show ?thesis by (simp add: sys_recv_def answer_def)
  next
    case (Cons a as)
    with assms show ?thesis by (auto simp: sys_recv_def answer_def Let_def split: if_splits)
  qed
  then show "length (nw_answers w') \<le> length (nw_answers w)"
    and "0 \<le> r \<Longrightarrow> length (nw_answers w') < length (nw_answers w)" by blast+
qed

lemma sys_socket_open:
  assumes "net_inv w" and "sys_socket w = (s, w')"
  shows "net_inv w' \<and> nw_sent w' = nw_sent w \<and> nw_incoming w' = nw_incoming w \<and>
    nw_stray w' = nw_stray w \<and> nw_failed w' = nw_failed w \<and>
    (if s = INVALID_SOCKET then nw_open w' = nw_open w
     else s \<notin> nw_open w \<and> nw_open w' = insert s (nw_open w))"
  using assms by (auto simp: sys_socket_def net_inv_def Let_def split: prod.splits if_splits; fastforce)

lemma sys_status_open:
  "sys_status w = (r, w') \<Longrightarrow> nw_open w' = nw_open w \<and> nw_next w' = nw_next w \<and>
     nw_sent w' = nw_sent w \<and> nw_incoming w' = nw_incoming w \<and>
     nw_stray w' = nw_stray w \<and> nw_failed w' = nw_failed w"
  by (auto simp: sys_status_def Let_def split: prod.splits)

lemma net_close_open:
  "net_close s w = (ok, w') \<Longrightarrow> nw_open w' = nw_open w - {s} \<and> nw_next w' = nw_next w \<and>
     nw_sent w' = nw_sent w \<and> nw_incoming w' = nw_incoming w \<and>
     nw_stray w' = nw_stray w + (if s \<in> nw_open w then 0 else 1) \<and>
     nw_failed w' = nw_failed w + (if s \<in> nw_open w \<and> \<not> ok then 1 else 0) \<and> (s \<notin> nw_open w \<longrightarrow> \<not> ok)"
  by (auto simp: net_close_def sys_close_def Let_def split: prod.splits if_splits)

lemma sys_bind_open:
  "sys_bind s a p w = (r, w') \<Longrightarrow> nw_open w' = nw_open w \<and> nw_next w' = nw_next w \<and>
     nw_sent w' = nw_sent w \<and> nw_incoming w' = nw_incoming w \<and>
     nw_stray w' = nw_stray w \<and> nw_failed w' = nw_failed w"
  by (cases "sys_status w"; cases "r = 0") (auto simp: sys_bind_def Let_def dest: sys_status_open)

text \<open>
  From one world to the next a descriptor is opened, or none; what is closed in between was open.
\<close>

definition acquires :: "net_world \<Rightarrow> socket_t \<Rightarrow> net_world \<Rightarrow> bool" where
  "acquires w s w' \<longleftrightarrow> net_inv w' \<and> nw_stray w' = nw_stray w \<and> nw_failed w \<le> nw_failed w' \<and>
     (if s = INVALID_SOCKET then nw_open w' = nw_open w
      else s \<notin> nw_open w \<and> nw_open w' = insert s (nw_open w))"

lemma net_connect_acquires:
  assumes inv: "net_inv w" and c: "net_connect addr port w = (s, w')"
  shows "acquires w s w'"
proof -
  obtain s1 w1 where 1: "sys_socket w = (s1, w1)" by fastforce
  obtain r w2 where 2: "sys_status w1 = (r, w2)" by fastforce
  obtain ok w3 where 3: "net_close s1 w2 = (ok, w3)" by fastforce
  note f = sys_socket_open [OF inv 1] sys_status_open [OF 2] net_close_open [OF 3]
  show ?thesis
    using c f by (auto simp: net_connect_def 1 2 3 acquires_def net_inv_def split: if_splits)
qed

lemma close_acquires:
  assumes "net_inv w" and "s \<notin> nw_open w" and "nw_open w1 = insert s (nw_open w)"
    and "\<forall>x \<in> nw_open w1. x < int (nw_next w1)" and "net_close s w1 = (ok, w2)"
    and "nw_stray w1 = nw_stray w" "nw_failed w1 = nw_failed w"
  shows "acquires w INVALID_SOCKET w2"
  using net_close_open [OF assms(5)] assms by (auto simp: acquires_def net_inv_def)

lemma net_listen_acquires:
  assumes inv: "net_inv w" and c: "net_listen addr port backlog w = (s, w')"
  shows "acquires w s w'"
proof -
  obtain s1 w1 where 1: "sys_socket w = (s1, w1)" by fastforce
  obtain r w2 where 2: "sys_status w1 = (r, w2)" by fastforce
  obtain b w3 where 3: "sys_bind s1 addr port w2 = (b, w3)" by fastforce
  obtain l w4 where 4: "sys_status w3 = (l, w4)" by fastforce
  note o1 = sys_socket_open [OF inv 1]
  note o4 = sys_status_open [OF 2] sys_bind_open [OF 3] sys_status_open [OF 4]
  show ?thesis
  proof (cases "s1 = INVALID_SOCKET")
    case True
    with c o1 show ?thesis by (simp add: net_listen_def 1 acquires_def)
  next
    case False
    with o1 have s1: "s1 \<notin> nw_open w" "nw_open w1 = insert s1 (nw_open w)" "net_inv w1" by auto
    then have w3: "nw_open w3 = insert s1 (nw_open w)" "\<forall>x \<in> nw_open w3. x < int (nw_next w3)"
      and w4: "nw_open w4 = insert s1 (nw_open w)" "\<forall>x \<in> nw_open w4. x < int (nw_next w4)"
      using o4 by (simp_all add: net_inv_def)
    have k3: "nw_stray w3 = nw_stray w" "nw_failed w3 = nw_failed w"
      and k4: "nw_stray w4 = nw_stray w" "nw_failed w4 = nw_failed w"
      using o1 o4 by simp_all
    obtain ok w5 where 5: "net_close s1 w3 = (ok, w5)" by fastforce
    obtain ok' w6 where 6: "net_close s1 w4 = (ok', w6)" by fastforce
    have e: "(s, w') = (if b = - 1 then (INVALID_SOCKET, w5)
        else if l = - 1 then (INVALID_SOCKET, w6) else (s1, w4))"
      using c False by (auto simp: net_listen_def Let_def 1 2 3 4 5 6 split: if_splits)
    consider "b = - 1" | "b \<noteq> - 1" "l = - 1" | "b \<noteq> - 1" "l \<noteq> - 1" by blast
    then show ?thesis
    proof cases
      case 1
      with e close_acquires [OF inv s1(1) w3 5 k3] show ?thesis by simp
    next
      case 2
      with e close_acquires [OF inv s1(1) w4 6 k4] show ?thesis by simp
    next
      case 3
      with e False s1(1) w4 k4 show ?thesis by (simp add: acquires_def net_inv_def)
    qed
  qed
qed

subsection \<open>Sending\<close>

text \<open>
  The loop either fails, having sent a prefix, or has sent everything. What it then returns is
  the size of the last chunk.
\<close>

lemma net_send_all_loop_sends:
  assumes "net_send_all_loop s bs r0 w = (r, w')"
  shows "(r = - 1 \<and> r0 \<noteq> - 1 \<longrightarrow> (\<exists>n < length bs. nw_sent w' = nw_sent w @ take n bs)) \<and>
    (r \<noteq> - 1 \<longrightarrow> nw_sent w' = nw_sent w @ bs)"
  using assms
proof (induction s bs r0 w arbitrary: r w' rule: net_send_all_loop.induct)
  case (1 s bs r0 w)
  show ?case
  proof (cases "bs = []")
    case True
    with "1.prems" show ?thesis by (auto simp: net_send_all_loop.simps)
  next
    case False
    obtain a w1 where s: "net_send s bs w = (a, w1)" by fastforce
    have sent: "(a = - 1 \<and> nw_sent w1 = nw_sent w) \<or>
        (0 \<le> a \<and> a \<le> int (length bs) \<and> nw_sent w1 = nw_sent w @ take (nat a) bs)"
      using s by (auto simp: net_send_def sys_send_def Let_def split: prod.splits if_splits)
    show ?thesis
    proof (cases "a = - 1")
      case True
      with sent s False "1.prems" show ?thesis
        by (auto simp: net_send_all_loop.simps [of s bs] intro!: exI [of _ 0])
    next
      case ok: False
      with sent have a: "0 \<le> a" "nat a \<le> length bs" "nw_sent w1 = nw_sent w @ take (nat a) bs" by auto
      have l: "net_send_all_loop s (drop (nat a) bs) a w1 = (r, w')"
        using "1.prems" False s ok by (simp add: net_send_all_loop.simps [of s bs])
      have ih: "(r = - 1 \<and> a \<noteq> - 1 \<longrightarrow>
            (\<exists>n < length (drop (nat a) bs). nw_sent w' = nw_sent w1 @ take n (drop (nat a) bs))) \<and>
          (r \<noteq> - 1 \<longrightarrow> nw_sent w' = nw_sent w1 @ drop (nat a) bs)"
        using "1.IH" [OF False s [symmetric] refl ok l] .
      show ?thesis
      proof (intro conjI impI)
        assume "r = - 1 \<and> r0 \<noteq> - 1"
        with ih ok obtain n where n: "n < length bs - nat a"
          "nw_sent w' = nw_sent w1 @ take n (drop (nat a) bs)" by auto
        have "take (nat a) bs @ take n (drop (nat a) bs) = take (nat a + n) bs"
          by (simp add: take_add)
        with n a show "\<exists>n < length bs. nw_sent w' = nw_sent w @ take n bs"
          by (intro exI [of _ "nat a + n"]) (simp add: less_diff_conv add.commute)
      next
        assume "r \<noteq> - 1"
        with ih a show "nw_sent w' = nw_sent w @ bs" by simp
      qed
    qed
  qed
qed

lemma net_send_all_sends:
  assumes "net_send_all s bs w = (r, w')"
  shows "(r = - 1 \<longrightarrow> (\<exists>n < length bs. nw_sent w' = nw_sent w @ take n bs)) \<and>
    (r \<noteq> - 1 \<longrightarrow> nw_sent w' = nw_sent w @ bs)"
  using net_send_all_loop_sends [of s bs 0 w r w'] assms by (simp add: net_send_all_def)

subsection \<open>Properties\<close>

text \<open>\<open>net_send_all\<close> never loses or duplicates a byte, however the system splits the
  transfer: when it does not return -1 the peer has been sent exactly the bytes of the buffer,
  and when it does, a proper prefix of them.\<close>

theorem net_send_all_complete:
  "case net_send_all s bs w of (r, w') \<Rightarrow>
     if r = - 1 then \<exists>n < length bs. nw_sent w' = nw_sent w @ take n bs
     else nw_sent w' = nw_sent w @ bs"
  using net_send_all_sends [of s bs w] by (cases "net_send_all s bs w") auto

text \<open>What \<open>net_send_all\<close> returns is the size of the last chunk and not the number of bytes
  sent: a transfer of more than one byte that the system completes in two chunks returns less
  than its length, although everything has been sent. The callers compare the result with the
  length and take such a transfer for a failure.\<close>

theorem net_send_all_result:
  assumes "0 < k" and "k < length bs" and "length bs < k + n"
  shows "\<exists>w'. net_send_all s bs (w\<lparr>nw_answers := int k # int n # as\<rparr>) = (int (length bs - k), w') \<and>
    nw_sent w' = nw_sent w @ bs \<and> int (length bs - k) < int (length bs)"
proof -
  have d: "drop k bs \<noteq> []" "bs \<noteq> []" using assms by auto
  show ?thesis
    using assms d by (simp add: net_send_all_def net_send_all_loop.simps [of s bs]
        net_send_all_loop.simps [of s "drop k bs"] net_send_all_loop.simps [of s "[]"]
        net_send_def sys_send_def answer_def min_def)
qed

theorem net_send_all_result_witness:
  "\<exists>w'. net_send_all 3 [1, 2, 3]
      \<lparr>nw_open = {3}, nw_next = 4, nw_answers = [2, 2], nw_incoming = [], nw_sent = [], nw_bound = [], nw_stray = 0, nw_failed = 0\<rparr>
    = (1, w') \<and> nw_sent w' = [1, 2, 3]"
  using net_send_all_result [where k = 2 and bs = "[1, 2, 3]" and n = 2 and s = 3 and as = "[]" and w = "\<lparr>nw_open = {3}, nw_next = 4, nw_answers = [], nw_incoming = [], nw_sent = [], nw_bound = [], nw_stray = 0, nw_failed = 0\<rparr>"]
  by simp

text \<open>Opening a client or a server socket leaks no descriptor: on success exactly one new
  descriptor is open, on every failure path (of \<open>socket\<close>, \<open>connect\<close>, \<open>bind\<close> or \<open>listen\<close>) the
  open descriptors are those from before.\<close>

theorem net_open_no_leak:
  assumes "net_inv w"
  shows "(case net_connect addr port w of (s, w') \<Rightarrow> acquires w s w') \<and>
    (case net_listen addr port backlog w of (s, w') \<Rightarrow> acquires w s w')"
  using net_connect_acquires [OF assms, of addr port] net_listen_acquires [OF assms, of addr port backlog]
  by (auto split: prod.splits)

theorem net_open_no_leak_witness:
  "case net_listen IPV4_LOCALHOST 27183 1
      \<lparr>nw_open = {3}, nw_next = 4, nw_answers = [0, 0, 0, -1, 0], nw_incoming = [], nw_sent = [], nw_bound = [], nw_stray = 0, nw_failed = 0\<rparr>
   of (s, w') \<Rightarrow> s = INVALID_SOCKET \<and> nw_open w' = {3}"
proof -
  let ?w = "\<lparr>nw_open = {3 :: int}, nw_next = 4, nw_answers = [0, 0, 0, -1, 0], nw_incoming = [],
    nw_sent = [], nw_bound = [], nw_stray = 0, nw_failed = 0\<rparr>"
  have "net_inv ?w" by (simp add: net_inv_def)
  moreover have "fst (net_listen IPV4_LOCALHOST 27183 1 ?w) = INVALID_SOCKET"
    by (simp add: net_listen_def sys_socket_def sys_status_def sys_bind_def net_close_def sys_close_def
        answer_def)
  ultimately show ?thesis
    using net_open_no_leak [of ?w, where addr = IPV4_LOCALHOST and port = 27183 and backlog = 1]
    by (auto simp: acquires_def split: prod.splits)
qed

end
