(* ===== verification/Device_Msg.thy ===== *)
theory Device_Msg
  imports Buffer_Util C_Stdlib Net
begin

section \<open>Messages from the device (src/src/message/device_msg.cpp, src/src/android/receiver.cpp)\<close>

text \<open>
  The decoding of device messages, the loop that handles every complete message of a buffer,
  the receiver thread that fills the buffer from the control socket, and the device
  information read when the stream starts. \<open>clipboard\<close> lists the texts passed to
  \<open>SDL_SetClipboardText\<close>.
\<close>

definition DEVICE_MSG_TEXT_MAX_LENGTH :: nat where
  "DEVICE_MSG_TEXT_MAX_LENGTH = 4093"

definition DEVICE_MSG_SERIALIZED_MAX_SIZE :: nat where
  "DEVICE_MSG_SERIALIZED_MAX_SIZE = 3 + DEVICE_MSG_TEXT_MAX_LENGTH"

definition DEVICE_MSG_TYPE_CLIPBOARD :: u8 where
  "DEVICE_MSG_TYPE_CLIPBOARD = 0"

record DeviceMessage =
  dm_type :: u8
  dm_text :: "string option"

text \<open>
  \<open>buf\<close> and \<open>i\<close> are the pointer, \<open>len\<close> the number of bytes that may be read from it. The result
  is what the function returns and the message it leaves.
\<close>

definition DeviceMessage_Deserialize ::
  "u8 allocator \<Rightarrow> DeviceMessage \<Rightarrow> u8 list \<Rightarrow> nat \<Rightarrow> nat \<Rightarrow> (int \<times> DeviceMessage) option" where
  "DeviceMessage_Deserialize SDL_malloc msg buf i len =
     (if len < 3 then Some (0, msg)
      else do {
        t \<leftarrow> load buf i;
        let msg = msg\<lparr>dm_type := t\<rparr>;
        if t = DEVICE_MSG_TYPE_CLIPBOARD then do {
          clipboard_len \<leftarrow> buffer_read16be buf (i + 1);
          if unat clipboard_len > len - 3 then Some (0, msg)
          else (case SDL_malloc (unat clipboard_len + 1) of
              None \<Rightarrow> Some (- 1, msg)
            | Some text \<Rightarrow> do {
                c_assert (i + 3 + unat clipboard_len \<le> length buf);
                text \<leftarrow> store_block text 0 (take (unat clipboard_len) (drop (i + 3) buf));
                text \<leftarrow> store text (unat clipboard_len) 0;
                Some (3 + int (unat clipboard_len), msg\<lparr>dm_text := Some (cstr (string_of_bytes text))\<rparr>)
              })
        } else Some (- 1, msg)
      })"

text \<open>The pointers \<open>Destroy\<close> passes to \<open>SDL_free\<close>.\<close>

definition DeviceMessage_Destroy :: "DeviceMessage \<Rightarrow> string option list" where
  "DeviceMessage_Destroy msg =
     (if dm_type msg = DEVICE_MSG_TYPE_CLIPBOARD then [dm_text msg] else [])"

text \<open>A null text clears the clipboard, which SDL does for an empty string as well.\<close>

definition ProcessDeviceMessage :: "string list \<Rightarrow> DeviceMessage \<Rightarrow> string list" where
  "ProcessDeviceMessage clipboard msg =
     (if dm_type msg = DEVICE_MSG_TYPE_CLIPBOARD
      then clipboard @ [case dm_text msg of None \<Rightarrow> [] | Some t \<Rightarrow> t] else clipboard)"

lemma Deserialize_result:
  assumes "DeviceMessage_Deserialize SDL_malloc msg0 buf i len = Some (r, msg)"
  shows "r = - 1 \<or> r = 0 \<or> (3 \<le> r \<and> nat r \<le> len)"
proof -
  have "nat (3 + int (unat c)) \<le> len" if "\<not> len < 3" "\<not> len - 3 < unat c" for c :: u16
    using that by linarith
  with assms show ?thesis
    by (auto simp: DeviceMessage_Deserialize_def Let_def bind_Some_iff simp del: of_nat_unat
        split: if_splits option.splits)
qed

text \<open>
  The loop over the messages of a buffer. The result is what the function returns and the
  clipboard.
\<close>

function ProcessMessages_loop ::
  "u8 allocator \<Rightarrow> u8 list \<Rightarrow> nat \<Rightarrow> nat \<Rightarrow> string list \<Rightarrow> (int \<times> string list) option" where
  "ProcessMessages_loop SDL_malloc buf len head clipboard =
     (case DeviceMessage_Deserialize SDL_malloc \<lparr>dm_type = 0, dm_text = None\<rparr> buf head (len - head) of
        None \<Rightarrow> None
      | Some (r, msg) \<Rightarrow>
          if r = - 1 then Some (- 1, clipboard)
          else if r = 0 then Some (int head, clipboard)
          else
            let clipboard = ProcessDeviceMessage clipboard msg; head' = head + nat r in
            if \<not> head' \<le> len then None
            else if head' = len then Some (int head', clipboard)
            else ProcessMessages_loop SDL_malloc buf len head' clipboard)"
  by pat_completeness auto

termination
proof (relation "measure (\<lambda>(SDL_malloc, buf, len, head, clipboard). len - head)")
  fix SDL_malloc buf len head clipboard x r msg clipboard' head'
  assume a: "DeviceMessage_Deserialize SDL_malloc \<lparr>dm_type = 0, dm_text = None\<rparr> buf head (len - head) = Some x"
    "(r, msg) = x" "r \<noteq> - 1" "r \<noteq> 0" "head' = head + nat r" "\<not> \<not> head' \<le> len" "head' \<noteq> len"
  then have "3 \<le> r" using Deserialize_result by blast
  with a show "((SDL_malloc, buf, len, head', clipboard'), SDL_malloc, buf, len, head, clipboard)
    \<in> measure (\<lambda>(SDL_malloc, buf, len, head, clipboard). len - head)" by auto
qed simp

declare ProcessMessages_loop.simps [simp del]

definition ProcessMessages :: "u8 allocator \<Rightarrow> u8 list \<Rightarrow> nat \<Rightarrow> string list \<Rightarrow> (int \<times> string list) option" where
  "ProcessMessages SDL_malloc buf len clipboard = ProcessMessages_loop SDL_malloc buf len 0 clipboard"

lemma net_recv_answers:
  assumes "net_recv s buf i len w = Some (r, buf', w')" and "0 < r"
  shows "length (nw_answers w') < length (nw_answers w)"
proof -
  obtain bs where "sys_recv len w = (r, bs, w')"
    using assms(1) by (cases "sys_recv len w") (auto simp: net_recv_def bind_Some_iff)
  from sys_recv_answers(2) [OF this] assms(2) show ?thesis by simp
qed

text \<open>
  The receiver thread. \<open>buf\<close> and \<open>head\<close> are its local variables; each turn consumes an answer
  of the system.
\<close>

function RunReceiver_loop ::
  "u8 allocator \<Rightarrow> socket_t \<Rightarrow> u8 list \<Rightarrow> nat \<Rightarrow> string list \<Rightarrow> net_world \<Rightarrow> (string list \<times> net_world) option" where
  "RunReceiver_loop SDL_malloc socket buf head clipboard w =
     (if \<not> head < DEVICE_MSG_SERIALIZED_MAX_SIZE then None
      else case net_recv socket buf 0 (DEVICE_MSG_SERIALIZED_MAX_SIZE - head) w of
        None \<Rightarrow> None
      | Some (r, buf, w') \<Rightarrow>
          if r \<le> 0 then Some (clipboard, w')
          else case ProcessMessages SDL_malloc buf (nat r) clipboard of
            None \<Rightarrow> None
          | Some (consumed, clipboard) \<Rightarrow>
              if consumed = - 1 then Some (clipboard, w')
              else if consumed \<noteq> 0 then
                case store_block buf 0 (take (nat r - nat consumed) (drop (nat consumed) buf)) of
                  None \<Rightarrow> None
                | Some buf \<Rightarrow> RunReceiver_loop SDL_malloc socket buf (nat r - nat consumed) clipboard w'
              else RunReceiver_loop SDL_malloc socket buf head clipboard w')"
  by pat_completeness auto

termination
proof (relation "measure (\<lambda>(SDL_malloc, socket, buf, head, clipboard, w). length (nw_answers w))", goal_cases)
  case 1
  show ?case by simp
next
  case (2 SDL_malloc socket buf head clipboard w x2 r y buf' w')
  with net_recv_answers [of socket buf 0 _ w r buf' w'] show ?case by auto
next
  case (3 SDL_malloc socket buf head clipboard w x2 r y buf' w')
  with net_recv_answers [of socket buf 0 _ w r buf' w'] show ?case by auto
qed

declare RunReceiver_loop.simps [simp del]

definition RunReceiver :: "u8 allocator \<Rightarrow> socket_t \<Rightarrow> u8 list \<Rightarrow> net_world \<Rightarrow> (string list \<times> net_world) option" where
  "RunReceiver SDL_malloc socket buf w = RunReceiver_loop SDL_malloc socket buf 0 [] w"

subsection \<open>Device information\<close>

definition DEVICE_NAME_FIELD_LENGTH :: nat where
  "DEVICE_NAME_FIELD_LENGTH = 64"

text \<open>
  The name and the size, or no information. \<open>buf[i] << 8\<close> is an \<open>int\<close>, and the cast to
  \<open>unsigned char\<close> applies to the shifted value.
\<close>

definition shifted_byte :: "u8 \<Rightarrow> u8" where
  "shifted_byte b = ucast (push_bit 8 (ucast b :: u32))"

definition ReadDeviceInfomation ::
  "socket_t \<Rightarrow> u8 list \<Rightarrow> net_world \<Rightarrow> ((string \<times> u16 \<times> u16) option \<times> net_world) option" where
  "ReadDeviceInfomation device_socket buf w = do {
     (r, buf, w) \<leftarrow> net_recv_all device_socket buf 0 (DEVICE_NAME_FIELD_LENGTH + 4) w;
     if r < int (DEVICE_NAME_FIELD_LENGTH + 4) then Some (None, w)
     else do {
       buf \<leftarrow> store buf (DEVICE_NAME_FIELD_LENGTH - 1) 0;
       let device_name = cstr (string_of_bytes buf);
       w1 \<leftarrow> load buf DEVICE_NAME_FIELD_LENGTH;
       w0 \<leftarrow> load buf (DEVICE_NAME_FIELD_LENGTH + 1);
       h1 \<leftarrow> load buf (DEVICE_NAME_FIELD_LENGTH + 2);
       h0 \<leftarrow> load buf (DEVICE_NAME_FIELD_LENGTH + 3);
       Some (Some (device_name, ucast (ucast (shifted_byte w1) OR ucast w0 :: u32),
                   ucast (ucast (shifted_byte h1) OR ucast h0 :: u32)), w)
     }
   }"

subsection \<open>Memory safety\<close>

lemma buffer_read16be_defined: "i + 2 \<le> length buf \<Longrightarrow> \<exists>v. buffer_read16be buf i = Some v"
  by (simp add: buffer_read16be_def load_Some)

lemma Deserialize_safe:
  assumes "malloc_ok SDL_malloc" and "i + len \<le> length buf"
  shows "\<exists>r msg. DeviceMessage_Deserialize SDL_malloc msg0 buf i len = Some (r, msg)"
proof (cases "len < 3")
  case False
  then obtain n where n: "buffer_read16be buf (i + 1) = Some n"
    using buffer_read16be_defined [of "i + 1" buf] assms(2) by auto
  show ?thesis
  proof (cases "buf ! i = DEVICE_MSG_TYPE_CLIPBOARD \<and> unat n \<le> len - 3")
    case fits: True
    show ?thesis
    proof (cases "SDL_malloc (unat n + 1)")
      case (Some blk)
      have "length blk = unat n + 1" using malloc_okD [OF assms(1) Some] .
      moreover have "i + 3 + unat n \<le> length buf" using fits False assms(2) by linarith
      ultimately show ?thesis
        using Some fits False n assms(2) by (simp add: DeviceMessage_Deserialize_def load_Some store_block_def store_def c_assert_bind
            del: of_nat_unat)
    qed (use fits False n assms(2) in \<open>simp add: DeviceMessage_Deserialize_def load_Some\<close>)
  qed (use False n assms(2) in \<open>auto simp: DeviceMessage_Deserialize_def load_Some Let_def\<close>)
qed (simp add: DeviceMessage_Deserialize_def)

lemma ProcessMessages_loop_safe:
  assumes "malloc_ok SDL_malloc" and "len \<le> length buf" and "head \<le> len"
  shows "\<exists>r cl. ProcessMessages_loop SDL_malloc buf len head clipboard = Some (r, cl) \<and>
    - 1 \<le> r \<and> r \<le> int len"
  using assms(3)
proof (induction "len - head" arbitrary: head clipboard rule: less_induct)
  case less
  obtain r msg where d: "DeviceMessage_Deserialize SDL_malloc \<lparr>dm_type = 0, dm_text = None\<rparr> buf head (len - head) = Some (r, msg)"
    using Deserialize_safe [OF assms(1), of head "len - head" buf "\<lparr>dm_type = 0, dm_text = None\<rparr>"]
      assms(2) less.prems by auto
  note b = Deserialize_result [OF d]
  show ?case
  proof (cases "r = - 1 \<or> r = 0 \<or> head + nat r = len")
    case True
    with d b less.prems show ?thesis by (subst ProcessMessages_loop.simps) auto
  next
    case False
    with b less.prems have h: "head + nat r \<le> len" "len - (head + nat r) < len - head" by auto
    have "ProcessMessages_loop SDL_malloc buf len head clipboard =
        ProcessMessages_loop SDL_malloc buf len (head + nat r) (ProcessDeviceMessage clipboard msg)"
      using d False h by (subst ProcessMessages_loop.simps) simp
    with less.hyps [OF h(2,1)] show ?thesis by simp
  qed
qed

lemma net_recv_result:
  assumes "i + len \<le> length buf"
  shows "\<exists>r buf' w'. net_recv s buf i len w = Some (r, buf', w') \<and> length buf' = length buf \<and>
    - 1 \<le> r \<and> r \<le> int len"
proof -
  obtain r bs w' where s: "sys_recv len w = (r, bs, w')" by (cases "sys_recv len w")
  then have b: "length bs \<le> len" "- 1 \<le> r" "r \<le> int len"
    by (auto simp: sys_recv_def Let_def split: prod.splits if_splits)
  with assms show ?thesis
    by (auto simp: net_recv_def s store_block_def)
qed

lemma RunReceiver_loop_safe:
  assumes "malloc_ok SDL_malloc" and "length buf = DEVICE_MSG_SERIALIZED_MAX_SIZE"
    and "head < DEVICE_MSG_SERIALIZED_MAX_SIZE"
  shows "\<exists>cl w'. RunReceiver_loop SDL_malloc s buf head clipboard w = Some (cl, w')"
  using assms(2,3)
proof (induction "length (nw_answers w)" arbitrary: w buf head clipboard rule: less_induct)
  case less
  obtain r buf' w' where n: "net_recv s buf 0 (DEVICE_MSG_SERIALIZED_MAX_SIZE - head) w = Some (r, buf', w')"
    and l: "length buf' = length buf" and r: "- 1 \<le> r" "r \<le> int (DEVICE_MSG_SERIALIZED_MAX_SIZE - head)"
    using net_recv_result [of 0 "DEVICE_MSG_SERIALIZED_MAX_SIZE - head" buf s w] less.prems by auto
  show ?case
  proof (cases "r \<le> 0")
    case True
    with n less.prems show ?thesis by (subst RunReceiver_loop.simps) simp
  next
    case False
    note dec = net_recv_answers [OF n]
    have nr: "nat r \<le> length buf'" "0 < nat r" "nat r \<le> DEVICE_MSG_SERIALIZED_MAX_SIZE"
      using r l less.prems False by auto
    obtain c cl where p: "ProcessMessages SDL_malloc buf' (nat r) clipboard = Some (c, cl)"
      and c: "- 1 \<le> c" "c \<le> int (nat r)"
      using ProcessMessages_loop_safe [OF assms(1) nr(1), of 0 clipboard]
      by (auto simp: ProcessMessages_def)
    consider "c = - 1" | "c = 0" | "0 < c" using c by linarith
    then show ?thesis
    proof cases
      case 1
      with n p False less.prems show ?thesis by (subst RunReceiver_loop.simps) simp
    next
      case 2
      with less.hyps [OF dec _ less.prems(2)] l n p False less.prems show ?thesis
        by (subst RunReceiver_loop.simps) simp
    next
      case 3
      have "0 + length (take (nat r - nat c) (drop (nat c) buf')) \<le> length buf'" by simp
      from store_block_defined [OF this]
      obtain b2 where st: "store_block buf' 0 (take (nat r - nat c) (drop (nat c) buf')) = Some b2"
        by blast
      have l2: "length b2 = DEVICE_MSG_SERIALIZED_MAX_SIZE"
        using length_store_block [OF st] l less.prems by simp
      have "nat r - nat c < DEVICE_MSG_SERIALIZED_MAX_SIZE" using nr 3 by linarith
      with less.hyps [OF dec l2] st n p 3 False less.prems show ?thesis
        by (subst RunReceiver_loop.simps) simp
    qed
  qed
qed

subsection \<open>Complete messages\<close>

definition device_wire :: "string \<Rightarrow> u8 list" where
  "device_wire t = [DEVICE_MSG_TYPE_CLIPBOARD] @ be16 (of_nat (length t)) @ bytes_of t"

lemma length_device_wire [simp]: "length (device_wire t) = 3 + length t"
  by (simp add: device_wire_def)

lemma device_wire_not_Nil [simp]: "device_wire t \<noteq> []"
  by (simp add: device_wire_def)

lemma unat_u16_of_nat: "n < 2 ^ 16 \<Longrightarrow> unat (of_nat n :: u16) = n"
  by (simp add: unat_of_nat take_bit_nat_eq_self_iff)

text \<open>What the first bytes of a message determine.\<close>

lemma Deserialize_device_wire:
  assumes m: "malloc_ok SDL_malloc" "\<forall>n. SDL_malloc n \<noteq> None" and t: "length t < 2 ^ 16"
    and buf: "take len (drop i buf) = take len (device_wire t @ rest)" "i + len \<le> length buf"
    and len: "len \<le> length (device_wire t @ rest)"
  shows "DeviceMessage_Deserialize SDL_malloc msg buf i len =
    (if 3 + length t \<le> len then Some (3 + int (length t), \<lparr>dm_type = 0, dm_text = Some (cstr t)\<rparr>)
     else Some (0, if len < 3 then msg else msg\<lparr>dm_type := 0\<rparr>))"
proof (cases "len < 3")
  case False
  have hd: "buf ! i = 0"
  proof -
    have "take len (drop i buf) ! 0 = take len (device_wire t @ rest) ! 0" using buf by simp
    then show ?thesis using False buf(2) by (simp add: device_wire_def DEVICE_MSG_TYPE_CLIPBOARD_def)
  qed
  have "take 2 (drop (i + 1) buf) = take 2 (drop 1 (take len (drop i buf)))"
    using False by (simp add: drop_take min_def add.commute)
  also have "\<dots> = be16 (of_nat (length t))"
    using False unfolding buf(1) by (simp add: device_wire_def drop_take be16_def numeral_2_eq_2 take_Cons')
  finally have n: "buffer_read16be buf (i + 1) = Some (of_nat (length t))"
    using False buf(2) by (simp add: buffer_read16be_iff)
  show ?thesis
  proof (cases "3 + length t \<le> len")
    case fits: True
    obtain blk where a: "SDL_malloc (length t + 1) = Some blk" using m(2) by blast
    have l: "length blk = length t + 1" using malloc_okD [OF m(1) a] .
    have "take (length t) (drop (i + 3) buf) = take (length t) (drop 3 (take len (drop i buf)))"
      using fits by (simp add: drop_take min_def add.commute)
    also have "\<dots> = bytes_of t"
      using fits unfolding buf(1) by (simp add: device_wire_def drop_take min_def be16_def)
    finally have b: "take (length t) (drop (i + 3) buf) = bytes_of t" .
    have n0: "char_of_byte 0 = NUL" by code_simp
    have "cstr (string_of_bytes (bytes_of t @ [0])) = cstr (t @ [NUL])"
      by (simp add: string_of_bytes_def bytes_of_def comp_def n0)
    moreover have "cstr (t @ [NUL]) = cstr t" by simp
    moreover have "(drop (length t) blk)[0 := 0] = [0]"
      using l by (cases "drop (length t) blk") (auto dest: arg_cong [where f = length])
    ultimately show ?thesis
      using False fits hd n a l b t buf(2) len
      by (simp add: DeviceMessage_Deserialize_def load_Some store_block_def store_def c_assert_bind
          unat_u16_of_nat DEVICE_MSG_TYPE_CLIPBOARD_def list_update_append Let_def del: of_nat_unat)
  next
    case False
    with \<open>\<not> len < 3\<close> have "len - 3 < length t" by linarith
    with False \<open>\<not> len < 3\<close> hd n t buf(2) show ?thesis
      by (simp add: DeviceMessage_Deserialize_def load_Some unat_u16_of_nat Let_def
          DEVICE_MSG_TYPE_CLIPBOARD_def)
  qed
qed (simp add: DeviceMessage_Deserialize_def)

definition proper_start :: "u8 list \<Rightarrow> bool" where
  "proper_start p \<longleftrightarrow> (\<exists>t. length t < 2 ^ 16 \<and> length p < length (device_wire t) \<and>
     p = take (length p) (device_wire t))"

lemma ProcessMessages_loop_complete:
  assumes m: "malloc_ok SDL_malloc" "\<forall>n. SDL_malloc n \<noteq> None"
    and ts: "\<forall>t \<in> set ts. length t < 2 ^ 16" and p: "proper_start p"
    and buf: "take len buf = pre @ concat (map device_wire ts) @ p"
      "len = length pre + length (concat (map device_wire ts)) + length p" "len \<le> length buf"
  shows "ProcessMessages_loop SDL_malloc buf len (length pre) clipboard =
    Some (int (length pre + length (concat (map device_wire ts))), clipboard @ map cstr ts)"
  using ts buf
proof (induction ts arbitrary: pre clipboard)
  case Nil
  obtain t where t: "length t < 2 ^ 16" "length p < length (device_wire t)"
    "p = take (length p) (device_wire t)" using p by (auto simp: proper_start_def)
  have "length p = len - length pre" using Nil.prems by simp
  then have "take (length p) (drop (length pre) buf) = drop (length pre) (take len buf)"
    by (simp only: drop_take)
  also have "\<dots> = p" using Nil.prems by simp
  finally have b: "take (length p) (drop (length pre) buf) = take (length p) (device_wire t @ [])"
    using t(3) by simp
  have "DeviceMessage_Deserialize SDL_malloc \<lparr>dm_type = 0, dm_text = None\<rparr> buf (length pre) (length p) =
    Some (0, \<lparr>dm_type = 0, dm_text = None\<rparr>)"
    using Deserialize_device_wire [OF m t(1) b, of "\<lparr>dm_type = 0, dm_text = None\<rparr>"] Nil.prems t(2) by auto
  then show ?case
    using Nil.prems by (subst ProcessMessages_loop.simps) simp
next
  case (Cons t ts)
  let ?rest = "concat (map device_wire ts) @ p" and ?n = "len - length pre"
  have n: "?n = length (device_wire t @ ?rest)" using Cons.prems(3) by simp
  have "take ?n (drop (length pre) buf) = drop (length pre) (take len buf)"
    by (simp add: drop_take)
  also have "\<dots> = device_wire t @ ?rest" using Cons.prems(2) by simp
  finally have b: "take ?n (drop (length pre) buf) = take ?n (device_wire t @ ?rest)"
    using n by simp
  have d: "DeviceMessage_Deserialize SDL_malloc \<lparr>dm_type = 0, dm_text = None\<rparr> buf (length pre) ?n =
    Some (3 + int (length t), \<lparr>dm_type = 0, dm_text = Some (cstr t)\<rparr>)"
    using Deserialize_device_wire [OF m _ b, of "\<lparr>dm_type = 0, dm_text = None\<rparr>"] Cons.prems n by simp
  have step: "ProcessDeviceMessage clipboard \<lparr>dm_type = 0, dm_text = Some (cstr t)\<rparr> = clipboard @ [cstr t]"
    by (simp add: ProcessDeviceMessage_def DEVICE_MSG_TYPE_CLIPBOARD_def)
  have r: "nat (3 + int (length t)) = 3 + length t" by linarith
  show ?case
  proof (cases "?rest = []")
    case True
    then have "ts = []" by (cases ts) (auto simp: device_wire_def)
    with True d step r Cons.prems(3) show ?thesis
      by (subst ProcessMessages_loop.simps) simp
  next
    case False
    have "ProcessMessages_loop SDL_malloc buf len (length (pre @ device_wire t)) (clipboard @ [cstr t]) =
      Some (int (length (pre @ device_wire t) + length (concat (map device_wire ts))),
        (clipboard @ [cstr t]) @ map cstr ts)"
      using Cons.prems by (intro Cons.IH) auto
    moreover have "0 < length ?rest" using False unfolding length_greater_0_conv .
    ultimately show ?thesis
      using d step r Cons.prems(3) by (subst ProcessMessages_loop.simps) (simp add: add.assoc Let_def)
  qed
qed

text \<open>A receive that delivers a chunk of the incoming bytes.\<close>

lemma net_recv_chunk:
  assumes "nw_answers w = int (length c) # as" and "nw_incoming w = c @ rest"
    and "length c \<le> len" and "len \<le> length buf"
  shows "net_recv s buf 0 len w =
    Some (int (length c), c @ drop (length c) buf, w\<lparr>nw_answers := as, nw_incoming := rest\<rparr>)"
  using assms by (simp add: net_recv_def sys_recv_def answer_def store_block_def min_def)

text \<open>
  Whole messages in, whole messages out: when every receive delivers complete messages, all
  their texts reach the clipboard in order.
\<close>

lemma RunReceiver_loop_whole:
  assumes m: "malloc_ok SDL_malloc" "\<forall>n. SDL_malloc n \<noteq> None"
    and tss: "\<forall>ts \<in> set tss. ts \<noteq> [] \<and> length (concat (map device_wire ts)) \<le> DEVICE_MSG_SERIALIZED_MAX_SIZE"
    and buf: "length buf = DEVICE_MSG_SERIALIZED_MAX_SIZE"
    and w: "nw_answers w = map (\<lambda>ts. int (length (concat (map device_wire ts)))) tss"
      "nw_incoming w = concat (map (\<lambda>ts. concat (map device_wire ts)) tss)"
  shows "\<exists>w'. RunReceiver_loop SDL_malloc s buf 0 clipboard w = Some (clipboard @ map cstr (concat tss), w')"
  using tss buf w
proof (induction tss arbitrary: buf clipboard w)
  case Nil
  then show ?case
    by (subst RunReceiver_loop.simps)
      (simp add: net_recv_def sys_recv_def answer_def store_block_def DEVICE_MSG_SERIALIZED_MAX_SIZE_def)
next
  case (Cons ts tss)
  let ?c = "concat (map device_wire ts)"
  define n where "n = length ?c"
  have n: "3 \<le> n" "n \<le> DEVICE_MSG_SERIALIZED_MAX_SIZE"
    using Cons.prems(1) by (cases ts; simp add: n_def)+
  have small: "\<forall>t \<in> set ts. length t < 2 ^ 16"
  proof
    fix t
    assume "t \<in> set ts"
    then have "length (device_wire t) \<le> n"
      unfolding n_def by (auto simp: length_concat comp_def intro!: member_le_sum_list)
    with n(2) show "length t < 2 ^ 16"
      by (simp add: DEVICE_MSG_SERIALIZED_MAX_SIZE_def DEVICE_MSG_TEXT_MAX_LENGTH_def)
  qed
  define b1 where "b1 = ?c @ drop n buf"
  obtain w1 where r: "net_recv s buf 0 (DEVICE_MSG_SERIALIZED_MAX_SIZE - 0) w = Some (int n, b1, w1)"
    and w1: "nw_answers w1 = map (\<lambda>ts. int (length (concat (map device_wire ts)))) tss"
      "nw_incoming w1 = concat (map (\<lambda>ts. concat (map device_wire ts)) tss)"
    using net_recv_chunk [of w ?c _ _ "DEVICE_MSG_SERIALIZED_MAX_SIZE - 0" buf s] Cons.prems n
    by (simp add: b1_def n_def)
  have ps: "proper_start []" by (auto simp: proper_start_def intro: exI [of _ "[]"])
  have "ProcessMessages SDL_malloc b1 n clipboard = Some (int n, clipboard @ map cstr ts)"
    using ProcessMessages_loop_complete [OF m small ps, of n b1 "[]" clipboard] Cons.prems(2) n
    by (simp add: ProcessMessages_def b1_def n_def)
  moreover have "store_block b1 0 (take (n - n) (drop n b1)) = Some b1"
    by (simp add: store_block_def)
  moreover have "length b1 = DEVICE_MSG_SERIALIZED_MAX_SIZE"
    using Cons.prems(2) n by (simp add: b1_def n_def [symmetric])
  ultimately show ?case
    using Cons.IH [of b1 w1 "clipboard @ map cstr ts"] Cons.prems(1) w1 r n
    by (subst RunReceiver_loop.simps) simp
qed

text \<open>
  A message that arrives in two receives is lost: the second receive overwrites the start of the
  buffer instead of continuing after the bytes already there. When the second part starts with a
  character, it is taken for an unknown message type and the receiver stops.
\<close>

lemma receiver_split_message_lost:
  assumes m: "malloc_ok SDL_malloc" "\<forall>n. SDL_malloc n \<noteq> None"
    and t: "length t \<le> DEVICE_MSG_TEXT_MAX_LENGTH" and k: "0 < k" "k + 3 \<le> length (device_wire t)"
    and c: "device_wire t ! k \<noteq> DEVICE_MSG_TYPE_CLIPBOARD"
    and buf: "length buf = DEVICE_MSG_SERIALIZED_MAX_SIZE"
    and w: "nw_answers w = [int k, int (length (device_wire t) - k)]" "nw_incoming w = device_wire t"
  shows "\<exists>w'. RunReceiver SDL_malloc s buf w = Some ([], w')"
proof -
  let ?m = "device_wire t" and ?n = "length (device_wire t) - k"
  have len: "length ?m \<le> DEVICE_MSG_SERIALIZED_MAX_SIZE" "length t < 2 ^ 16"
    using t by (simp_all add: DEVICE_MSG_SERIALIZED_MAX_SIZE_def DEVICE_MSG_TEXT_MAX_LENGTH_def)
  define b1 where "b1 = take k ?m @ drop k buf"
  define b2 where "b2 = drop k ?m @ drop ?n b1"
  define w1 where "w1 = w\<lparr>nw_answers := [int ?n], nw_incoming := drop k ?m\<rparr>"
  define w2 where "w2 = w1\<lparr>nw_answers := [], nw_incoming := []\<rparr>"
  have r1: "net_recv s buf 0 DEVICE_MSG_SERIALIZED_MAX_SIZE w = Some (int k, b1, w1)"
    using net_recv_chunk [of w "take k ?m" "[int ?n]" "drop k ?m" DEVICE_MSG_SERIALIZED_MAX_SIZE buf s]
      w k len buf by (simp add: b1_def w1_def min_def)
  have r2: "net_recv s b1 0 DEVICE_MSG_SERIALIZED_MAX_SIZE w1 = Some (int ?n, b2, w2)"
    using net_recv_chunk [of w1 "drop k ?m" "[]" "[]" DEVICE_MSG_SERIALIZED_MAX_SIZE b1 s]
      k len buf by (simp add: b2_def w1_def w2_def b1_def)
  have p1: "ProcessMessages SDL_malloc b1 k [] = Some (0, [])"
  proof -
    have "proper_start (take k ?m)"
      using k len unfolding proper_start_def by (intro exI [of _ t]) (simp add: min_def)
    from ProcessMessages_loop_complete [OF m _ this, of "[]" k b1 "[]" "[]"] show ?thesis
      using k len buf by (simp add: ProcessMessages_def b1_def min_def)
  qed
  have "b2 ! 0 \<noteq> DEVICE_MSG_TYPE_CLIPBOARD" "3 \<le> ?n" "0 < length b2"
    using c k by (simp_all add: b2_def nth_append)
  then have p2: "ProcessMessages SDL_malloc b2 ?n [] = Some (- 1, [])"
    unfolding ProcessMessages_def by (subst ProcessMessages_loop.simps)
      (auto simp: DeviceMessage_Deserialize_def load_Some Let_def)
  have e: "RunReceiver_loop SDL_malloc s b1 0 [] w1 = Some ([], w2)"
  proof -
    have "nat (3 + int (length t) - int k) = 3 + length t - k" using k by simp
    with r2 p2 k show ?thesis
      by (subst RunReceiver_loop.simps) (simp add: DEVICE_MSG_SERIALIZED_MAX_SIZE_def)
  qed
  show ?thesis
    using r1 p1 e k by (simp add: RunReceiver_def RunReceiver_loop.simps [of SDL_malloc s buf]
        DEVICE_MSG_SERIALIZED_MAX_SIZE_def)
qed

subsection \<open>Properties\<close>

text \<open>C17. Whatever the device sends, and however the system splits and ends the transfer, the
  receiver thread stays inside its buffer, passes its assertions and returns, also when the
  allocator fails.\<close>

theorem receiver_safe:
  assumes "malloc_ok SDL_malloc" and "length buf = DEVICE_MSG_SERIALIZED_MAX_SIZE"
  shows "\<exists>clipboard w'. RunReceiver SDL_malloc s buf w = Some (clipboard, w')"
  using RunReceiver_loop_safe [OF assms, of 0 s "[]" w]
  by (simp add: RunReceiver_def DEVICE_MSG_SERIALIZED_MAX_SIZE_def)

theorem receiver_safe_witness:
  "\<exists>clipboard w'. RunReceiver (\<lambda>n. None) 3 (replicate 4096 0)
     \<lparr>nw_open = {3}, nw_next = 4, nw_answers = [5, 7, 2], nw_incoming = [0, 0, 2, 104, 105, 0, 1],
      nw_sent = [], nw_bound = [], nw_stray = 0, nw_failed = 0\<rparr> = Some (clipboard, w')"
  using receiver_safe [of "\<lambda>n. None" "replicate 4096 0"]
  by (simp add: malloc_ok_def DEVICE_MSG_SERIALIZED_MAX_SIZE_def DEVICE_MSG_TEXT_MAX_LENGTH_def)

text \<open>C25. When every receive delivers whole messages, the receiver copies the text of every
  message to the clipboard, in the order the device sent them.\<close>

theorem receiver_delivers_all:
  assumes "malloc_ok SDL_malloc" and "\<forall>n. SDL_malloc n \<noteq> None"
    and "\<forall>ts \<in> set tss. ts \<noteq> [] \<and> length (concat (map device_wire ts)) \<le> DEVICE_MSG_SERIALIZED_MAX_SIZE"
    and "length buf = DEVICE_MSG_SERIALIZED_MAX_SIZE"
    and "nw_answers w = map (\<lambda>ts. int (length (concat (map device_wire ts)))) tss"
    and "nw_incoming w = concat (map (\<lambda>ts. concat (map device_wire ts)) tss)"
  shows "\<exists>w'. RunReceiver SDL_malloc s buf w = Some (map cstr (concat tss), w')"
  using RunReceiver_loop_whole [OF assms, of s "[]"] by (simp add: RunReceiver_def)

theorem receiver_delivers_all_witness:
  "\<exists>w'. RunReceiver (\<lambda>n. Some (replicate n 0)) 3 (replicate 4096 0)
     \<lparr>nw_open = {3}, nw_next = 4, nw_answers = [9, 3],
      nw_incoming = device_wire ''hi'' @ device_wire ''x'' @ device_wire [],
      nw_sent = [], nw_bound = [], nw_stray = 0, nw_failed = 0\<rparr> = Some ([''hi'', ''x'', []], w')"
  using receiver_delivers_all [of "\<lambda>n. Some (replicate n 0)" "[[''hi'', ''x''], [[]]]" "replicate 4096 0"
      "\<lparr>nw_open = {3}, nw_next = 4, nw_answers = [9, 3],
        nw_incoming = device_wire ''hi'' @ device_wire ''x'' @ device_wire [],
        nw_sent = [], nw_bound = [], nw_stray = 0, nw_failed = 0\<rparr>" 3]
  by (simp add: malloc_ok_def DEVICE_MSG_SERIALIZED_MAX_SIZE_def DEVICE_MSG_TEXT_MAX_LENGTH_def
      cstr_def NUL_def)

text \<open>The device information is read only when all of its 68 bytes arrived. The name is the
  string in the first 64 bytes, cut to 63 characters. Of the two big-endian sizes only the low
  bytes are used: shifting before the cast to a byte discards the high bytes, so a width or
  height of 256 or more is read modulo 256.\<close>

theorem device_information:
  assumes "length name = 64" and "length buf = 68"
    and "nw_answers w = [68]" and "nw_incoming w = name @ be16 wd @ be16 ht"
  shows "\<exists>w'. ReadDeviceInfomation s buf w =
    Some (Some (cstr (string_of_bytes (take 63 name)), wd AND 0xff, ht AND 0xff), w')"
proof -
  have z: "shifted_byte b = 0" for b
    by (rule bit_word_eqI) (auto simp: shifted_byte_def bit_simps dest: byte_bit)
  have low: "(ucast (ucast (ucast v :: u8) :: u32) :: u16) = v AND 0xff" for v :: u16
  proof -
    have "v AND 0xff = take_bit 8 v" by (simp add: take_bit_eq_mask mask_eq_exp_minus_1)
    then show ?thesis by (auto intro!: bit_word_eqI simp: bit_simps dest: word16_bit)
  qed
  have c: "cstr (string_of_bytes (name[63 := 0] @ be16 wd @ be16 ht)) = cstr (string_of_bytes (take 63 name))"
  proof -
    have n0: "char_of_byte 0 = NUL" by code_simp
    have "name[63 := 0] = take 63 name @ [0]" using assms(1) by (simp add: upd_conv_take_nth_drop)
    then show ?thesis by (simp add: string_of_bytes_def n0)
  qed
  define w' where "w' = w\<lparr>nw_answers := [], nw_incoming := []\<rparr>"
  have r: "net_recv_all s buf 0 68 w = Some (68, name @ be16 wd @ be16 ht, w')"
    using assms by (simp add: net_recv_all_def sys_recv_def answer_def store_block_def w'_def)
  show ?thesis
    using assms(1) r by (simp add: ReadDeviceInfomation_def DEVICE_NAME_FIELD_LENGTH_def store_def
        load_def list_update_append nth_append be16_def c [unfolded be16_def, simplified] z low)
qed

lemma name_P: "cstr (string_of_bytes (80 # replicate 62 0)) = ''P''"
  by code_simp

theorem device_information_witness:
  "\<exists>w'. ReadDeviceInfomation 3 (replicate 68 0)
     \<lparr>nw_open = {3}, nw_next = 4, nw_answers = [68],
      nw_incoming = (0x50 # replicate 63 0) @ be16 1080 @ be16 1920, nw_sent = [], nw_bound = [], nw_stray = 0, nw_failed = 0\<rparr> =
   Some (Some (''P'', 56, 128), w')"
  using device_information [of "0x50 # replicate 63 0" "replicate 68 0"
      "\<lparr>nw_open = {3}, nw_next = 4, nw_answers = [68],
        nw_incoming = (0x50 # replicate 63 0) @ be16 1080 @ be16 1920, nw_sent = [], nw_bound = [], nw_stray = 0, nw_failed = 0\<rparr>" 1080 1920 3]
    name_P by simp

end
