(* ===== verification/Blob_Msg.thy ===== *)
theory Blob_Msg
  imports Buffer_Util C_Stdlib
begin

section \<open>Image messages (src/src/message/blob_msg.hpp, blob_msg.cpp, agent/agent_manager.cpp)\<close>

text \<open>
  The messages that carry images to the agent: their serialization, their destruction, and the
  construction of the two-image message of \<open>SendOpenCVImage\<close>. The image library is not code of
  the repository: an image is its width, its height and its bytes.
\<close>

definition BLOB_MSG_DATA_MAX_COUNT :: nat where
  "BLOB_MSG_DATA_MAX_COUNT = 16"

datatype BlobMessageType =
  BLOB_MSG_TYPE_UNKNOWN | BLOB_MSG_TYPE_SCREEN_SHOT | BLOB_MSG_TYPE_OPENCV_MAT

fun blob_type_code :: "BlobMessageType \<Rightarrow> u64" where
  "blob_type_code BLOB_MSG_TYPE_UNKNOWN = 0"
| "blob_type_code BLOB_MSG_TYPE_SCREEN_SHOT = 1"
| "blob_type_code BLOB_MSG_TYPE_OPENCV_MAT = 2"

text \<open>A buffer of a message; \<open>bb_data = None\<close> is the null pointer.\<close>

record BlobBuffer =
  bb_length :: u64
  bb_data :: "u8 list option"

record BlobMessage =
  bm_type :: BlobMessageType
  bm_timestamp :: u64
  bm_id :: u64
  bm_count :: u64
  bm_total_length :: u64
  bm_buffers :: "BlobBuffer list"

definition blob_empty :: BlobMessage where
  "blob_empty = \<lparr>bm_type = BLOB_MSG_TYPE_UNKNOWN, bm_timestamp = 0, bm_id = 0, bm_count = 0,
     bm_total_length = 0,
     bm_buffers = replicate BLOB_MSG_DATA_MAX_COUNT \<lparr>bb_length = 0, bb_data = None\<rparr>\<rparr>"

text \<open>
  One turn of the loop of \<open>Serialize\<close>: the length as an \<open>int\<close>, and the copy of \<open>length + 16\<close>
  bytes of the data. The index is an \<open>int\<close> too, and so is each of its new values.
\<close>

definition serialize_buffer :: "BlobBuffer \<Rightarrow> u8 list \<Rightarrow> nat \<Rightarrow> (u8 list \<times> nat) option" where
  "serialize_buffer b buf index = do {
     let len = (ucast (bb_length b) :: u32);
     buf \<leftarrow> buffer_write64be buf index (scast len);
     checked_int (int index + 8);
     n \<leftarrow> checked_int (sint len + 16);
     c_assert (0 \<le> n);
     data \<leftarrow> bb_data b;
     c_assert (nat n \<le> length data);
     buf \<leftarrow> store_block buf (index + 8) (take (nat n) data);
     checked_int (int index + 8 + n);
     Some (buf, index + 8 + nat n)
   }"

function serialize_buffers :: "BlobMessage \<Rightarrow> nat \<Rightarrow> u8 list \<Rightarrow> nat \<Rightarrow> (u8 list \<times> nat) option" where
  "serialize_buffers m i buf index =
     (if i < unat (bm_count m) then
        (case load (bm_buffers m) i of
           None \<Rightarrow> None
         | Some b \<Rightarrow>
             (case serialize_buffer b buf index of
                None \<Rightarrow> None
              | Some (buf, index) \<Rightarrow> serialize_buffers m (i + 1) buf index))
      else Some (buf, index))"
  by pat_completeness auto
termination
  by (relation "measure (\<lambda>(m, i, buf, index). unat (bm_count m) - i)") auto

declare serialize_buffers.simps [simp del]

definition BlobMessage_Serialize :: "BlobMessage \<Rightarrow> u8 list \<Rightarrow> (u8 list \<times> nat) option" where
  "BlobMessage_Serialize m buf = do {
     buf \<leftarrow> buffer_write64be buf 0 (blob_type_code (bm_type m));
     buf \<leftarrow> buffer_write64be buf 8 (bm_timestamp m);
     buf \<leftarrow> buffer_write64be buf 16 (bm_id m);
     buf \<leftarrow> buffer_write64be buf 24 (bm_count m);
     buf \<leftarrow> buffer_write64be buf 32 (bm_total_length m);
     serialize_buffers m 0 buf 40
   }"

text \<open>Destruction frees the data of the first \<open>count\<close> buffers and clears their pointers.\<close>

function destroy_buffers :: "BlobMessage \<Rightarrow> nat \<Rightarrow> u8 list list \<Rightarrow> (BlobMessage \<times> u8 list list) option" where
  "destroy_buffers m i freed =
     (if i < unat (bm_count m) then
        (case load (bm_buffers m) i of
           None \<Rightarrow> None
         | Some b \<Rightarrow>
             (case bb_data b of
                None \<Rightarrow> destroy_buffers m (i + 1) freed
              | Some d \<Rightarrow>
                  destroy_buffers (m\<lparr>bm_buffers := (bm_buffers m)[i := b\<lparr>bb_data := None\<rparr>]\<rparr>) (i + 1) (freed @ [d])))
      else Some (m, freed))"
  by pat_completeness auto
termination
  by (relation "measure (\<lambda>(m, i, freed). unat (bm_count m) - i)") auto

declare destroy_buffers.simps [simp del]

definition BlobMessage_Destroy :: "BlobMessage \<Rightarrow> (BlobMessage \<times> u8 list list) option" where
  "BlobMessage_Destroy m = destroy_buffers m 0 []"

subsection \<open>The two-image message\<close>

record image =
  im_width :: "32 word"
  im_height :: "32 word"
  im_bytes :: "u8 list"

text \<open>
  One of the two blocks of \<open>SendOpenCVImage\<close>: allocate, write width, height and bytes. \<open>None\<close>
  as second result is a failed allocation.
\<close>

definition image_block :: "u8 allocator \<Rightarrow> image \<Rightarrow> BlobBuffer \<Rightarrow> (BlobBuffer \<times> bool) option" where
  "image_block SDL_malloc im b =
     (let len = length (im_bytes im) in
      case SDL_malloc (len + 16) of
        None \<Rightarrow> Some (b\<lparr>bb_data := None\<rparr>, False)
      | Some blk \<Rightarrow> do {
          blk \<leftarrow> buffer_write64be blk 0 (scast (im_width im));
          blk \<leftarrow> buffer_write64be blk 8 (scast (im_height im));
          blk \<leftarrow> store_block blk 16 (im_bytes im);
          Some (b\<lparr>bb_data := Some blk, bb_length := of_nat len\<rparr>, True)
        })"

text \<open>
  The message and whether it is pushed. \<open>now_ms\<close> is the time of day; an image has less than
  2^31 - 16 bytes, as the \<open>int\<close> arithmetic of the code requires.
\<close>

definition BuildImageMessage ::
  "u8 allocator \<Rightarrow> u64 \<Rightarrow> BlobMessageType \<Rightarrow> image \<Rightarrow> image \<Rightarrow> (BlobMessage \<times> bool) option" where
  "BuildImageMessage SDL_malloc now_ms t mat hash_image = do {
     let m = blob_empty\<lparr>bm_type := t, bm_timestamp := now_ms, bm_id := 0, bm_count := 2, bm_total_length := 0\<rparr>;
     checked_int (int (length (im_bytes mat)) + 24);
     b0 \<leftarrow> load (bm_buffers m) 0;
     (b0, ok0) \<leftarrow> image_block SDL_malloc mat b0;
     let m = m\<lparr>bm_buffers := (bm_buffers m)[0 := b0],
               bm_total_length := bm_total_length m + of_nat (length (im_bytes mat) + 24)\<rparr>;
     checked_int (int (length (im_bytes hash_image)) + 24);
     b1 \<leftarrow> load (bm_buffers m) 1;
     (b1, ok1) \<leftarrow> image_block SDL_malloc hash_image b1;
     let m = m\<lparr>bm_buffers := (bm_buffers m)[1 := b1],
               bm_total_length := bm_total_length m + of_nat (length (im_bytes hash_image) + 24)\<rparr>;
     Some (m, ok0 \<and> ok1)
   }"

subsection \<open>The wire format\<close>

definition blob_header :: "BlobMessage \<Rightarrow> u8 list" where
  "blob_header m = be64 (blob_type_code (bm_type m)) @ be64 (bm_timestamp m) @ be64 (bm_id m)
     @ be64 (bm_count m) @ be64 (bm_total_length m)"

definition wire_buffer :: "BlobBuffer \<Rightarrow> u8 list" where
  "wire_buffer b = be64 (bb_length b) @ (case bb_data b of None \<Rightarrow> [] | Some d \<Rightarrow> take (unat (bb_length b) + 16) d)"

definition blob_wire :: "BlobMessage \<Rightarrow> u8 list" where
  "blob_wire m = blob_header m @ concat (map wire_buffer (take (unat (bm_count m)) (bm_buffers m)))"

text \<open>The contract of \<open>Serialize\<close>: the counted buffers exist and hold the bytes copied.\<close>

definition buffer_ok :: "BlobBuffer \<Rightarrow> bool" where
  "buffer_ok b \<longleftrightarrow> int (unat (bb_length b)) + 16 \<le> INT_MAX \<and>
     (\<exists>d. bb_data b = Some d \<and> unat (bb_length b) + 16 \<le> length d)"

definition blob_ok :: "BlobMessage \<Rightarrow> bool" where
  "blob_ok m \<longleftrightarrow> unat (bm_count m) \<le> length (bm_buffers m) \<and>
     (\<forall>b \<in> set (take (unat (bm_count m)) (bm_buffers m)). buffer_ok b)"

lemma small_length:
  assumes "int (unat (l :: u64)) + 16 \<le> INT_MAX"
  shows "sint (ucast l :: u32) = int (unat l)" and "(scast (ucast l :: u32) :: u64) = l"
proof -
  have l: "uint l < 2 ^ 31" using assms by (simp add: INT_MAX_def)
  then have u: "uint (ucast l :: u32) = uint l" "uint l < 2 ^ 31"
    by (simp_all add: unsigned_ucast_eq take_bit_int_eq_self)
  then show s: "sint (ucast l :: u32) = int (unat l)"
    using signed_take_bit_int_eq_self [of 31 "uint l"] uint_ge_0 [of l] by (simp add: sint_uint)
  have "(scast (ucast l :: u32) :: u64) = of_int (sint (ucast l :: u32))" by simp
  then show "(scast (ucast l :: u32) :: u64) = l" unfolding s by simp
qed

lemma length_blob_header [simp]: "length (blob_header m) = 40"
  by (simp add: blob_header_def)

lemma length_wire_buffer: "buffer_ok b \<Longrightarrow> length (wire_buffer b) = unat (bb_length b) + 24"
  by (auto simp: wire_buffer_def buffer_ok_def)

lemma serialize_buffer_block:
  assumes "buffer_ok b" and "int (index + length (wire_buffer b)) \<le> INT_MAX"
  shows "serialize_buffer b buf index =
    map_option (\<lambda>d. (d, index + length (wire_buffer b))) (store_block buf index (wire_buffer b))"
proof -
  obtain d where d: "bb_data b = Some d" "unat (bb_length b) + 16 \<le> length d"
    "int (unat (bb_length b)) + 16 \<le> INT_MAX"
    using assms by (auto simp: buffer_ok_def)
  have c: "checked_int (int (unat (bb_length b)) + 16) = Some (int (unat (bb_length b)) + 16)"
    using d(3) by (simp add: checked_int_def INT_MIN_def INT_MAX_def)
  have i: "checked_int (int index + 8) = Some (int index + 8)"
    "checked_int (int index + 8 + (int (unat (bb_length b)) + 16)) = Some (int index + 8 + (int (unat (bb_length b)) + 16))"
    "checked_int (24 + (int index + int (unat (bb_length b)))) = Some (24 + (int index + int (unat (bb_length b))))"
    using assms(2) length_wire_buffer [OF assms(1)] by (simp_all add: checked_int_def INT_MIN_def del: of_nat_unat)
  have n: "nat (int (unat (bb_length b)) + 16) = unat (bb_length b) + 16" by linarith
  have "buffer_write64be buf index (scast (ucast (bb_length b) :: u32)) = store_block buf index (be64 (bb_length b))"
    unfolding small_length(2) [OF d(3)] by (simp add: buffer_write_block)
  then show ?thesis
    using d(1,2) length_wire_buffer [OF assms(1)] unfolding serialize_buffer_def Let_def small_length(1) [OF d(3)] c i
    by (cases "store_block buf index (be64 (bb_length b))")
      (auto simp: n i(3) wire_buffer_def store_block_append map_option_bind split: bind_split
        simp del: of_nat_unat)
qed

lemma serialize_buffers_block:
  assumes "unat (bm_count m) \<le> length (bm_buffers m)" and "i \<le> unat (bm_count m)"
    and "\<forall>b \<in> set (take (unat (bm_count m)) (bm_buffers m)). buffer_ok b"
    and "w = concat (map wire_buffer (drop i (take (unat (bm_count m)) (bm_buffers m))))"
    and "index + length w \<le> length buf" and "int (index + length w) \<le> INT_MAX"
  shows "serialize_buffers m i buf index =
    map_option (\<lambda>d. (d, index + length w)) (store_block buf index w)"
  using assms(2,4-6)
proof (induction "unat (bm_count m) - i" arbitrary: i w buf index)
  case 0
  then show ?case by (subst serialize_buffers.simps) (simp add: store_block_def)
next
  case (Suc k)
  let ?bs = "take (unat (bm_count m)) (bm_buffers m)"
  have i: "i < unat (bm_count m)" using Suc.hyps(2) by simp
  then have li: "i < length ?bs" "load (bm_buffers m) i = Some (?bs ! i)"
    using assms(1) by (simp_all add: load_Some)
  have ok: "buffer_ok (?bs ! i)" using assms(3) li(1) nth_mem by blast
  define w2 where "w2 = concat (map wire_buffer (drop (i + 1) ?bs))"
  have w: "w = wire_buffer (?bs ! i) @ w2"
    unfolding Suc.prems(2) w2_def using li(1) by (simp add: Cons_nth_drop_Suc [symmetric])
  obtain b1 where b1: "store_block buf index (wire_buffer (?bs ! i)) = Some b1"
    using store_block_defined [of index "wire_buffer (?bs ! i)" buf] Suc.prems(3) w by auto
  have "serialize_buffers m (i + 1) b1 (index + length (wire_buffer (?bs ! i))) =
      map_option (\<lambda>d. (d, index + length (wire_buffer (?bs ! i)) + length w2))
        (store_block b1 (index + length (wire_buffer (?bs ! i))) w2)"
    using Suc.prems(3,4) w length_store_block [OF b1] i Suc.hyps(2)
    by (intro Suc.hyps(1)) (auto simp: w2_def)
  moreover have "int (index + length (wire_buffer (?bs ! i))) \<le> INT_MAX" using Suc.prems(4) w by simp
  ultimately show ?case using b1 i li(2) ok
    by (subst serialize_buffers.simps) (simp add: serialize_buffer_block w store_block_append add.assoc)
qed

lemma Serialize_blob_wire:
  assumes "blob_ok m" and "length (blob_wire m) \<le> length buf" and "int (length (blob_wire m)) \<le> INT_MAX"
  shows "BlobMessage_Serialize m buf = Some (written (blob_wire m) buf, length (blob_wire m))"
proof -
  let ?w = "concat (map wire_buffer (take (unat (bm_count m)) (bm_buffers m)))"
  have len: "40 + length ?w \<le> length buf" using assms(2) by (simp add: blob_wire_def)
  have "BlobMessage_Serialize m buf = serialize_buffers m 0 (written (blob_header m) buf) 40"
    using len by (simp add: BlobMessage_Serialize_def buffer_write_block mem_simps blob_header_def)
  also have "\<dots> = map_option (\<lambda>d. (d, 40 + length ?w)) (store_block (written (blob_header m) buf) 40 ?w)"
    using assms(1,3) len by (intro serialize_buffers_block) (auto simp: blob_ok_def length_written blob_wire_def)
  finally show ?thesis
    using len by (simp add: store_block_written blob_wire_def)
qed

subsection \<open>Destruction\<close>

definition clear_buffer :: "BlobBuffer \<Rightarrow> BlobBuffer" where
  "clear_buffer b = b\<lparr>bb_data := None\<rparr>"

definition buffer_data :: "BlobBuffer list \<Rightarrow> u8 list list" where
  "buffer_data bs = List.map_filter bb_data bs"

lemma clear_buffer_None: "bb_data b = None \<Longrightarrow> clear_buffer b = b"
  by (cases b) (simp add: clear_buffer_def)

lemma destroy_buffers_clears:
  assumes "unat (bm_count m) = length pre + length bs" and "bm_buffers m = pre @ bs @ post"
  shows "destroy_buffers m (length pre) freed =
    Some (m\<lparr>bm_buffers := pre @ map clear_buffer bs @ post\<rparr>, freed @ buffer_data bs)"
  using assms
proof (induction bs arbitrary: m pre freed)
  case Nil
  then show ?case by (subst destroy_buffers.simps) (simp add: buffer_data_def map_filter_simps)
next
  case (Cons b bs)
  have ld: "load (bm_buffers m) (length pre) = Some b"
    using Cons.prems(2) by (simp add: load_def nth_append)
  show ?case
  proof (cases "bb_data b")
    case None
    have "destroy_buffers m (length (pre @ [b])) freed =
        Some (m\<lparr>bm_buffers := (pre @ [b]) @ map clear_buffer bs @ post\<rparr>, freed @ buffer_data bs)"
      using Cons.prems by (intro Cons.IH) auto
    then show ?thesis
      using ld None Cons.prems by (subst destroy_buffers.simps)
        (simp add: clear_buffer_None buffer_data_def map_filter_simps)
  next
    case (Some d)
    let ?m = "m\<lparr>bm_buffers := (bm_buffers m)[length pre := clear_buffer b]\<rparr>"
    have "destroy_buffers ?m (length (pre @ [clear_buffer b])) (freed @ [d]) =
        Some (?m\<lparr>bm_buffers := (pre @ [clear_buffer b]) @ map clear_buffer bs @ post\<rparr>,
          (freed @ [d]) @ buffer_data bs)"
      using Cons.prems by (intro Cons.IH) auto
    then show ?thesis
      using ld Some Cons.prems by (subst destroy_buffers.simps)
        (simp add: clear_buffer_def buffer_data_def map_filter_simps)
  qed
qed

lemma BlobMessage_Destroy_frees:
  assumes "unat (bm_count m) \<le> length (bm_buffers m)"
  shows "BlobMessage_Destroy m =
    Some (m\<lparr>bm_buffers := map clear_buffer (take (unat (bm_count m)) (bm_buffers m))
             @ drop (unat (bm_count m)) (bm_buffers m)\<rparr>,
          buffer_data (take (unat (bm_count m)) (bm_buffers m)))"
  using destroy_buffers_clears [of m "[]" "take (unat (bm_count m)) (bm_buffers m)"
      "drop (unat (bm_count m)) (bm_buffers m)" "[]"] assms
  by (simp add: BlobMessage_Destroy_def)

lemma image_block_ok:
  assumes m: "malloc_ok SDL_malloc" and s: "SDL_malloc (length (im_bytes im) + 16) \<noteq> None"
    and l: "int (length (im_bytes im)) + 16 \<le> INT_MAX"
  shows "\<exists>b'. image_block SDL_malloc im b = Some (b', True) \<and> buffer_ok b' \<and>
    bb_length b' = of_nat (length (im_bytes im)) \<and>
    wire_buffer b' = be64 (of_nat (length (im_bytes im))) @ be64 (scast (im_width im))
      @ be64 (scast (im_height im)) @ im_bytes im"
proof -
  obtain blk where blk: "SDL_malloc (length (im_bytes im) + 16) = Some blk" using s by blast
  have len: "length blk = length (im_bytes im) + 16" using malloc_okD [OF m blk] .
  define d where "d = be64 (scast (im_width im)) @ be64 (scast (im_height im)) @ im_bytes im"
  have ld: "length d = length (im_bytes im) + 16" by (simp add: d_def)
  have w: "written d blk = d" using len ld by (simp add: written_def)
  have u: "unat (of_nat (length (im_bytes im)) :: u64) = length (im_bytes im)"
    using l by (simp add: INT_MAX_def unat_of_nat take_bit_nat_eq_self_iff)
  let ?b = "b\<lparr>bb_data := Some d, bb_length := of_nat (length (im_bytes im))\<rparr>"
  have "image_block SDL_malloc im b = Some (?b, True)"
    using blk len w by (simp add: image_block_def buffer_write_block mem_simps d_def Let_def)
  moreover have "buffer_ok ?b" using l ld by (simp add: buffer_ok_def u del: of_nat_unat)
  moreover have "wire_buffer ?b = be64 (of_nat (length (im_bytes im))) @ d"
    using ld by (simp add: wire_buffer_def u)
  ultimately show ?thesis by (auto simp: d_def)
qed

subsection \<open>Properties\<close>

text \<open>C26. The message built from two images is pushed when both allocations succeed, its
  serialization is the 40-byte header followed by length, width, height and bytes of each image,
  and \<open>total_length\<close> is exactly what follows the header, so the reader can frame the stream by it;
  provided that the message fits in the buffer and its length is an \<^verbatim>\<open>int\<close>.\<close>

theorem image_message_framing:
  assumes "malloc_ok SDL_malloc" and "\<forall>n. SDL_malloc n \<noteq> None"
    and "int (length (im_bytes mat)) + 24 \<le> INT_MAX" and "int (length (im_bytes hash)) + 24 \<le> INT_MAX"
    and "88 + length (im_bytes mat) + length (im_bytes hash) \<le> length buf"
    and "88 + int (length (im_bytes mat)) + int (length (im_bytes hash)) \<le> INT_MAX"
  shows "\<exists>m w. BuildImageMessage SDL_malloc now t mat hash = Some (m, True) \<and>
    w = blob_header m
      @ be64 (of_nat (length (im_bytes mat))) @ be64 (scast (im_width mat)) @ be64 (scast (im_height mat)) @ im_bytes mat
      @ be64 (of_nat (length (im_bytes hash))) @ be64 (scast (im_width hash)) @ be64 (scast (im_height hash)) @ im_bytes hash \<and>
    length w = 40 + unat (bm_total_length m) \<and>
    BlobMessage_Serialize m buf = Some (w @ drop (length w) buf, length w)"
proof -
  let ?e = "\<lparr>bb_length = 0, bb_data = None\<rparr>"
  obtain b0 where b0: "image_block SDL_malloc mat ?e = Some (b0, True)" "buffer_ok b0"
    "wire_buffer b0 = be64 (of_nat (length (im_bytes mat))) @ be64 (scast (im_width mat))
      @ be64 (scast (im_height mat)) @ im_bytes mat"
    using image_block_ok [OF assms(1) _, of mat ?e] assms(2,3) by auto
  obtain b1 where b1: "image_block SDL_malloc hash ?e = Some (b1, True)" "buffer_ok b1"
    "wire_buffer b1 = be64 (of_nat (length (im_bytes hash))) @ be64 (scast (im_width hash))
      @ be64 (scast (im_height hash)) @ im_bytes hash"
    using image_block_ok [OF assms(1) _, of hash ?e] assms(2,4) by auto
  define m where "m = \<lparr>bm_type = t, bm_timestamp = now, bm_id = 0, bm_count = 2,
    bm_total_length = of_nat (length (im_bytes mat) + 24) + of_nat (length (im_bytes hash) + 24),
    bm_buffers = b0 # b1 # replicate 14 ?e\<rparr>"
  have c: "checked_int (int (length (im_bytes mat)) + 24) = Some (int (length (im_bytes mat)) + 24)"
    "checked_int (int (length (im_bytes hash)) + 24) = Some (int (length (im_bytes hash)) + 24)"
    using assms(3,4) by (simp_all add: checked_int_def INT_MIN_def INT_MAX_def)
  have e: "bm_buffers blob_empty = ?e # ?e # replicate 14 ?e"
    by (simp add: blob_empty_def BLOB_MSG_DATA_MAX_COUNT_def numeral_eq_Suc)
  have build: "BuildImageMessage SDL_malloc now t mat hash = Some (m, True)"
    using b0(1) b1(1) by (simp add: BuildImageMessage_def c e load_def m_def)
  have ok: "blob_ok m"
    using b0(2) b1(2) by (simp add: blob_ok_def m_def)
  have w: "blob_wire m = blob_header m @ wire_buffer b0 @ wire_buffer b1"
    by (simp add: blob_wire_def m_def)
  have t: "unat (bm_total_length m) = length (im_bytes mat) + 24 + (length (im_bytes hash) + 24)"
  proof -
    have "length (im_bytes mat) + 24 + (length (im_bytes hash) + 24) < 2 ^ 64"
      using assms(3,4) by (simp add: INT_MAX_def)
    moreover have "bm_total_length m =
        of_nat (length (im_bytes mat) + 24 + (length (im_bytes hash) + 24))"
      by (simp add: m_def)
    ultimately show ?thesis by (simp only: unat_of_nat) (simp add: take_bit_nat_eq_self_iff)
  qed
  have l: "length (blob_wire m) = 40 + unat (bm_total_length m)"
    unfolding w t by (simp add: b0(3) b1(3))
  have "BlobMessage_Serialize m buf = Some (written (blob_wire m) buf, length (blob_wire m))"
  proof (rule Serialize_blob_wire [OF ok])
    have "length (blob_wire m) = 88 + length (im_bytes mat) + length (im_bytes hash)" using l t by simp
    with assms(5,6) show "length (blob_wire m) \<le> length buf" "int (length (blob_wire m)) \<le> INT_MAX" by simp_all
  qed
  with build l show ?thesis
    by (intro exI [of _ m] exI [of _ "blob_wire m"]) (simp add: w b0(3) b1(3) written_def)
qed

theorem image_message_framing_witness:
  "\<exists>m w. BuildImageMessage (\<lambda>n. Some (replicate n 0)) 5 BLOB_MSG_TYPE_SCREEN_SHOT
      \<lparr>im_width = 2, im_height = 1, im_bytes = [7, 8]\<rparr> \<lparr>im_width = 1, im_height = 1, im_bytes = [9]\<rparr> = Some (m, True) \<and>
    length w = 91 \<and> BlobMessage_Serialize m (replicate 100 0) = Some (w @ replicate 9 0, 91)"
  using image_message_framing [of "\<lambda>n. Some (replicate n 0)" "\<lparr>im_width = 2, im_height = 1, im_bytes = [7, 8]\<rparr>"
      "\<lparr>im_width = 1, im_height = 1, im_bytes = [9]\<rparr>" "replicate 100 0" 5 BLOB_MSG_TYPE_SCREEN_SHOT]
  by (auto simp: malloc_ok_def INT_MAX_def)

text \<open>Destroying a message frees the data of each counted buffer exactly once and clears the
  pointers, so destroying it again frees nothing.\<close>

theorem blob_destroy_once:
  assumes "unat (bm_count m) \<le> length (bm_buffers m)"
  shows "\<exists>m'. BlobMessage_Destroy m = Some (m', buffer_data (take (unat (bm_count m)) (bm_buffers m))) \<and>
    BlobMessage_Destroy m' = Some (m', [])"
proof -
  let ?bs = "take (unat (bm_count m)) (bm_buffers m)" and ?post = "drop (unat (bm_count m)) (bm_buffers m)"
  let ?m = "m\<lparr>bm_buffers := map clear_buffer ?bs @ ?post\<rparr>"
  have 1: "BlobMessage_Destroy m = Some (?m, buffer_data ?bs)"
    by (rule BlobMessage_Destroy_frees [OF assms])
  have "buffer_data (map clear_buffer bs) = []" for bs
    by (induction bs) (auto simp: buffer_data_def map_filter_simps clear_buffer_def)
  moreover have "map clear_buffer (map clear_buffer bs) = map clear_buffer bs" for bs
    by (simp add: clear_buffer_def)
  ultimately have "BlobMessage_Destroy ?m = Some (?m, [])"
    using BlobMessage_Destroy_frees [of ?m] assms by simp
  with 1 show ?thesis by blast
qed

theorem blob_destroy_once_witness:
  "\<exists>m'. BlobMessage_Destroy (blob_empty\<lparr>bm_count := 2,
      bm_buffers := [\<lparr>bb_length = 1, bb_data = Some [1]\<rparr>, \<lparr>bb_length = 0, bb_data = None\<rparr>]\<rparr>) = Some (m', [[1]]) \<and>
    BlobMessage_Destroy m' = Some (m', [])"
  using blob_destroy_once [of "blob_empty\<lparr>bm_count := 2,
      bm_buffers := [\<lparr>bb_length = 1, bb_data = Some [1]\<rparr>, \<lparr>bb_length = 0, bb_data = None\<rparr>]\<rparr>"]
  by (simp add: buffer_data_def map_filter_simps)

end
