(* ===== verification/Worker.thy ===== *)
theory Worker
  imports Cbuf
begin

section \<open>Actors with a message queue (src/src/core/actor.cpp and its subclasses)\<close>

text \<open>
  The pattern that the controller, the agent recorder and the agent stream share: a bounded
  queue and a flag under a mutex, a condition variable, and a thread that sleeps while there is
  nothing to do, takes one message at a time and processes it outside the lock.

  A critical section is one atomic step, because the mutex is held throughout; the theory \<open>Locks\<close>
  takes the sections apart and proves that nothing is lost by this. \<open>cond_wait\<close>
  releases the mutex and sleeps in one step; a signal moves a sleeping thread back to the loop
  head, where it takes the mutex again and re-evaluates the condition. There is one thread that
  waits, so a signal has at most one thread to wake. \<open>wk_accepted\<close> and \<open>wk_handled\<close> record the
  history: the messages the queue accepted and those the thread has processed.
\<close>

datatype 'm pc = W_Loop | W_Sleep | W_Process 'm | W_Done

record ('m, 'e) worker =
  wk_queue :: "'m cbuf"
  wk_stopped :: bool
  wk_pc :: "'m pc"
  wk_env :: 'e
  wk_accepted :: "'m list"
  wk_handled :: "'m list"

definition cond_signal :: "('m, 'e) worker \<Rightarrow> ('m, 'e) worker" where
  "cond_signal s = (if wk_pc s = W_Sleep then s\<lparr>wk_pc := W_Loop\<rparr> else s)"

definition Actor_Stop :: "('m, 'e) worker \<Rightarrow> ('m, 'e) worker" where
  "Actor_Stop s = cond_signal (s\<lparr>wk_stopped := True\<rparr>)"

definition worker_push :: "('m, 'e) worker \<Rightarrow> 'm \<Rightarrow> (bool \<times> ('m, 'e) worker) option" where
  "worker_push s m =
     (let was_empty = cbuf_is_empty (wk_queue s) in do {
        (res, q) \<leftarrow> cbuf_push (wk_queue s) m;
        let s = s\<lparr>wk_queue := q, wk_accepted := wk_accepted s @ (if res then [m] else [])\<rparr>;
        let s = (if was_empty then cond_signal s else s);
        Some (res, s)
      })"

text \<open>
  One step of the thread: the critical section at the head of the loop, or the processing of
  the message it holds. A thread that sleeps or has returned does nothing.
\<close>

definition worker_turn ::
  "('m \<Rightarrow> 'e \<Rightarrow> (bool \<times> 'e) option) \<Rightarrow> ('m, 'e) worker \<Rightarrow> ('m, 'e) worker option" where
  "worker_turn process s =
     (case wk_pc s of
        W_Loop \<Rightarrow>
          if \<not> wk_stopped s \<and> cbuf_is_empty (wk_queue s) then Some (s\<lparr>wk_pc := W_Sleep\<rparr>)
          else if wk_stopped s then Some (s\<lparr>wk_pc := W_Done\<rparr>)
          else do {
            (r, q) \<leftarrow> cbuf_take (wk_queue s);
            c_assert (r \<noteq> None);
            m \<leftarrow> r;
            Some (s\<lparr>wk_queue := q, wk_pc := W_Process m\<rparr>)
          }
      | W_Process m \<Rightarrow> do {
          (ok, e) \<leftarrow> process m (wk_env s);
          Some (s\<lparr>wk_env := e, wk_handled := wk_handled s @ [m],
                  wk_pc := (if ok then W_Loop else W_Done)\<rparr>)
        }
      | _ \<Rightarrow> Some s)"

text \<open>
  The steps of the system: a client pushes a message that satisfies the client's contract
  \<open>good\<close>, a client stops the actor, the thread takes a turn, or it wakes up spuriously.
\<close>

inductive worker_step ::
  "('m \<Rightarrow> 'e \<Rightarrow> (bool \<times> 'e) option) \<Rightarrow> ('m \<Rightarrow> bool) \<Rightarrow> ('m, 'e) worker \<Rightarrow> ('m, 'e) worker \<Rightarrow> bool"
  for process good where
  step_push: "good m \<Longrightarrow> worker_push s m = Some (res, s') \<Longrightarrow> worker_step process good s s'"
| step_stop: "worker_step process good s (Actor_Stop s)"
| step_turn: "worker_turn process s = Some s' \<Longrightarrow> worker_step process good s s'"
| step_spurious: "wk_pc s = W_Sleep \<Longrightarrow> worker_step process good s (s\<lparr>wk_pc := W_Loop\<rparr>)"

inductive_cases worker_stepE: "worker_step process good s s'"

definition worker_start :: "'m \<Rightarrow> nat \<Rightarrow> 'e \<Rightarrow> ('m, 'e) worker" where
  "worker_start d capacity e = \<lparr>wk_queue = CBUF d capacity, wk_stopped = False, wk_pc = W_Loop,
     wk_env = e, wk_accepted = [], wk_handled = []\<rparr>"

subsection \<open>The invariant\<close>

definition in_flight :: "'m pc \<Rightarrow> 'm list" where
  "in_flight p = (case p of W_Process m \<Rightarrow> [m] | _ \<Rightarrow> [])"

lemma in_flight_simps [simp]:
  "in_flight W_Loop = []" "in_flight W_Sleep = []" "in_flight W_Done = []" "in_flight (W_Process m) = [m]"
  by (simp_all add: in_flight_def)

text \<open>
  A sleeping thread has nothing to do (no wake-up is lost); the messages handled, the one in
  processing and those in the queue are, in this order, the messages accepted.
\<close>

definition worker_inv :: "('m \<Rightarrow> bool) \<Rightarrow> nat \<Rightarrow> ('m, 'e) worker \<Rightarrow> bool" where
  "worker_inv good capacity s \<longleftrightarrow>
     cbuf_inv (wk_queue s) \<and> cbuf_capacity (wk_queue s) = capacity \<and>
     (wk_pc s = W_Sleep \<longrightarrow> cbuf_items (wk_queue s) = [] \<and> \<not> wk_stopped s) \<and>
     wk_accepted s = wk_handled s @ in_flight (wk_pc s) @ cbuf_items (wk_queue s) \<and>
     (\<forall>m \<in> set (wk_accepted s). good m)"

lemma worker_inv_start: "worker_inv good capacity (worker_start d capacity e)"
  by (simp add: worker_inv_def worker_start_def)

lemma worker_push_result:
  assumes "worker_inv good capacity s"
  shows "\<exists>s'. worker_push s m = Some (length (cbuf_items (wk_queue s)) < capacity, s')"
proof -
  have q: "cbuf_inv (wk_queue s)" "cbuf_capacity (wk_queue s) = capacity"
    using assms by (auto simp: worker_inv_def)
  from cb.push_decides [OF q(1), of m] q(2) obtain q' where
    "cbuf_push (wk_queue s) m = Some (length (cbuf_items (wk_queue s)) < capacity, q')" by auto
  then show ?thesis by (simp add: worker_push_def Let_def)
qed

lemma worker_push_fields:
  assumes "worker_push s m = Some (res, s')"
  shows "wk_env s' = wk_env s" and "wk_stopped s' = wk_stopped s" and "wk_handled s' = wk_handled s"
    and "wk_accepted s' = wk_accepted s @ (if res then [m] else [])"
    and "wk_pc s \<noteq> W_Sleep \<Longrightarrow> wk_pc s' = wk_pc s"
proof -
  obtain q where "cbuf_push (wk_queue s) m = Some (res, q)"
    using assms by (auto simp: worker_push_def Let_def bind_Some_iff)
  with assms show "wk_env s' = wk_env s" "wk_stopped s' = wk_stopped s" "wk_handled s' = wk_handled s"
    "wk_accepted s' = wk_accepted s @ (if res then [m] else [])"
    "wk_pc s \<noteq> W_Sleep \<Longrightarrow> wk_pc s' = wk_pc s"
    by (auto simp: worker_push_def cond_signal_def Let_def split: if_splits)
qed

lemma worker_push_inv:
  assumes inv: "worker_inv good capacity s" and good: "good m" and p: "worker_push s m = Some (res, s')"
  shows "worker_inv good capacity s'"
proof -
  have q: "cbuf_inv (wk_queue s)" using inv by (simp add: worker_inv_def)
  obtain q' where q': "cbuf_push (wk_queue s) m = Some (res, q')"
    using p by (auto simp: worker_push_def Let_def bind_Some_iff)
  have items: "cbuf_inv q'" "cbuf_items q' = cbuf_items (wk_queue s) @ (if res then [m] else [])"
    using cb.push_result [OF q, of m] q' q by auto
  note cap = cb.push_capacity [OF q q']
  note e = cb.is_empty [OF q]
  show ?thesis
    using p q' inv items cap good e
    by (cases "wk_pc s") (auto simp: worker_push_def Let_def worker_inv_def cond_signal_def)
qed

lemma worker_room:
  assumes "worker_inv good capacity s"
  shows "length (cbuf_items (wk_queue s)) \<le> capacity"
proof -
  from assms have "cbuf_inv (wk_queue s)" "cbuf_capacity (wk_queue s) = capacity" by (auto simp: worker_inv_def)
  with cb.within [OF this(1)] show ?thesis by simp
qed

lemma Actor_Stop_inv: "worker_inv good capacity s \<Longrightarrow> worker_inv good capacity (Actor_Stop s)"
  by (cases "wk_pc s") (auto simp: worker_inv_def Actor_Stop_def cond_signal_def)

lemma worker_turn_loop:
  assumes inv: "worker_inv good capacity s" and pc: "wk_pc s = W_Loop"
  shows "worker_turn process s =
    (if wk_stopped s then Some (s\<lparr>wk_pc := W_Done\<rparr>)
     else if cbuf_items (wk_queue s) = [] then Some (s\<lparr>wk_pc := W_Sleep\<rparr>)
     else Some (s\<lparr>wk_queue := snd (the (cbuf_take (wk_queue s))),
                  wk_pc := W_Process (hd (cbuf_items (wk_queue s)))\<rparr>))"
proof -
  have q: "cbuf_inv (wk_queue s)" using inv by (simp add: worker_inv_def)
  show ?thesis
  proof (cases "cbuf_items (wk_queue s)")
    case Nil
    with pc cb.is_empty [OF q] show ?thesis by (simp add: worker_turn_def)
  next
    case (Cons m ms)
    from cb.tke_some [OF q Cons] obtain q' where "cbuf_take (wk_queue s) = Some (Some m, q')" by auto
    with pc cb.is_empty [OF q] Cons show ?thesis by (simp add: worker_turn_def)
  qed
qed

lemma worker_turn_inv:
  assumes inv: "worker_inv good capacity s" and t: "worker_turn process s = Some s'"
  shows "worker_inv good capacity s'"
proof (cases "wk_pc s")
  case W_Loop
  have q: "cbuf_inv (wk_queue s)" using inv by (simp add: worker_inv_def)
  show ?thesis
  proof (cases "cbuf_items (wk_queue s)")
    case Nil
    with W_Loop inv t show ?thesis
      by (auto simp: worker_turn_loop [OF inv W_Loop] worker_inv_def split: if_splits)
  next
    case (Cons m ms)
    from cb.tke_some [OF q Cons] obtain q' where
      q': "cbuf_take (wk_queue s) = Some (Some m, q')" "cbuf_inv q'" "cbuf_items q' = ms" by auto
    from cb.tke_capacity [OF q q'(1)] have "cbuf_capacity q' = cbuf_capacity (wk_queue s)" .
    with W_Loop inv t Cons q' show ?thesis
      by (auto simp: worker_turn_loop [OF inv W_Loop] worker_inv_def split: if_splits)
  qed
next
  case (W_Process m)
  with inv t show ?thesis
    by (auto simp: worker_turn_def worker_inv_def bind_Some_iff split: if_splits)
qed (use inv t in \<open>auto simp: worker_turn_def\<close>)

lemma worker_step_inv:
  assumes "worker_step process good s s'" and "worker_inv good capacity s"
  shows "worker_inv good capacity s'"
  using assms
proof (induction rule: worker_step.induct)
  case (step_spurious s)
  then show ?case by (simp add: worker_inv_def)
qed (auto intro: worker_push_inv worker_turn_inv Actor_Stop_inv)

lemma worker_reachable_inv:
  assumes "(worker_step process good)\<^sup>*\<^sup>* (worker_start d capacity e) s"
  shows "worker_inv good capacity s"
  using assms by (induction rule: rtranclp_induct) (auto intro: worker_inv_start worker_step_inv)

text \<open>A thread that has something to do is not asleep, and its next step is defined.\<close>

lemma worker_not_stuck:
  assumes inv: "worker_inv good capacity s" and work: "wk_stopped s \<or> cbuf_items (wk_queue s) \<noteq> []"
    and defined: "\<And>m e. good m \<Longrightarrow> process m e \<noteq> None"
  shows "wk_pc s = W_Done \<or> (\<exists>s'. worker_turn process s = Some s' \<and> wk_pc s' \<noteq> wk_pc s)"
proof (cases "wk_pc s")
  case W_Loop
  with work show ?thesis by (auto simp: worker_turn_loop [OF inv W_Loop])
next
  case W_Sleep
  with inv work show ?thesis by (simp add: worker_inv_def)
next
  case (W_Process m)
  with inv have "good m" by (simp add: worker_inv_def)
  with defined obtain ok e where "process m (wk_env s) = Some (ok, e)" by fastforce
  with W_Process show ?thesis by (auto simp: worker_turn_def)
qed simp

subsection \<open>Draining\<close>

fun worker_run ::
  "('m \<Rightarrow> 'e \<Rightarrow> (bool \<times> 'e) option) \<Rightarrow> nat \<Rightarrow> ('m, 'e) worker \<Rightarrow> ('m, 'e) worker option" where
  "worker_run process 0 s = Some s"
| "worker_run process (Suc n) s =
     (case worker_turn process s of None \<Rightarrow> None | Some s' \<Rightarrow> worker_run process n s')"

text \<open>
  Left alone, a thread whose messages are processed successfully handles everything that was
  accepted and goes to sleep: two turns for each message in the queue and one to fall asleep.
  \<open>ready n e\<close> says that the environment lets the next \<open>n\<close> messages succeed.
\<close>

lemma worker_drains_loop:
  assumes ok: "\<And>m n e. good m \<Longrightarrow> ready (Suc n) e \<Longrightarrow> \<exists>e'. process m e = Some (True, e') \<and> ready n e'"
    and inv: "worker_inv good capacity s" and go: "\<not> wk_stopped s" and pc: "wk_pc s = W_Loop"
    and ready: "ready (length (cbuf_items (wk_queue s))) (wk_env s)"
  shows "\<exists>s'. worker_run process (2 * length (cbuf_items (wk_queue s)) + 1) s = Some s' \<and>
    wk_pc s' = W_Sleep \<and> wk_handled s' = wk_accepted s \<and> wk_accepted s' = wk_accepted s"
  using inv go pc ready
proof (induction "cbuf_items (wk_queue s)" arbitrary: s)
  case Nil
  from Nil.hyps have e: "cbuf_items (wk_queue s) = []" by simp
  have "wk_handled s = wk_accepted s" using Nil.prems e by (simp add: worker_inv_def)
  with Nil.prems e show ?case by (simp add: worker_turn_loop [OF Nil.prems(1,3)])
next
  case (Cons m ms)
  from Cons.hyps(2) have items: "cbuf_items (wk_queue s) = m # ms" by simp
  have q: "cbuf_inv (wk_queue s)" using Cons.prems by (simp add: worker_inv_def)
  from cb.tke_some [OF q items] obtain q' where
    q': "cbuf_take (wk_queue s) = Some (Some m, q')" "cbuf_items q' = ms" by auto
  define s1 where "s1 = s\<lparr>wk_queue := q', wk_pc := W_Process m\<rparr>"
  have t1: "worker_turn process s = Some s1"
    using items q' Cons.prems by (simp add: worker_turn_loop [OF Cons.prems(1,3)] s1_def)
  have inv1: "worker_inv good capacity s1" by (rule worker_turn_inv [OF Cons.prems(1) t1])
  then have "good m" by (simp add: worker_inv_def s1_def)
  moreover have "ready (Suc (length ms)) (wk_env s1)"
    using Cons.prems(4) items by (simp add: s1_def)
  ultimately obtain e' where e': "process m (wk_env s1) = Some (True, e')" "ready (length ms) e'"
    using ok by blast
  define s2 where "s2 = s1\<lparr>wk_env := e', wk_handled := wk_handled s1 @ [m], wk_pc := W_Loop\<rparr>"
  have t2: "worker_turn process s1 = Some s2"
    using e' by (simp add: worker_turn_def s2_def) (simp add: s1_def)
  have inv2: "worker_inv good capacity s2" by (rule worker_turn_inv [OF inv1 t2])
  have i2: "ms = cbuf_items (wk_queue s2)" "\<not> wk_stopped s2" "wk_pc s2 = W_Loop"
    "wk_accepted s2 = wk_accepted s" "ready (length (cbuf_items (wk_queue s2))) (wk_env s2)"
    using q' e' Cons.prems by (simp_all add: s2_def s1_def)
  from Cons.hyps(1) [OF i2(1) inv2 i2(2,3,5)] obtain s' where
    "worker_run process (2 * length ms + 1) s2 = Some s'" "wk_pc s' = W_Sleep"
    "wk_handled s' = wk_accepted s" "wk_accepted s' = wk_accepted s"
    using i2 by auto
  with t1 t2 items show ?case by (intro exI [of _ s']) (simp add: numeral_2_eq_2)
qed

lemma worker_run_steps: "worker_run process n s = Some s' \<Longrightarrow> (worker_step process good)\<^sup>*\<^sup>* s s'"
  by (induction n arbitrary: s) (auto split: option.splits intro: step_turn converse_rtranclp_into_rtranclp)

subsection \<open>Messages that go to a stream\<close>

text \<open>
  The interface of a processing function that writes the encoding of each message to a byte
  stream: it is defined on good messages, it writes a prefix of the encoding, and all of it when
  it succeeds. The client's theorem is that the stream carries the accepted messages in order.
\<close>

locale message_sink =
  fixes process :: "'m \<Rightarrow> 'e \<Rightarrow> (bool \<times> 'e) option"
    and good :: "'m \<Rightarrow> bool"
    and enc :: "'m \<Rightarrow> 'b list"
    and sent :: "'e \<Rightarrow> 'b list"
  assumes process_writes: "good m \<Longrightarrow> \<exists>ok e' n. process m e = Some (ok, e') \<and>
    sent e' = sent e @ take n (enc m) \<and> (ok \<longrightarrow> length (enc m) \<le> n)"
begin

definition stream_inv :: "'e \<Rightarrow> ('m, 'e) worker \<Rightarrow> bool" where
  "stream_inv e0 s \<longleftrightarrow>
     (wk_pc s \<noteq> W_Done \<longrightarrow> sent (wk_env s) = sent e0 @ concat (map enc (wk_handled s))) \<and>
     (\<exists>hs n m. sent (wk_env s) = sent e0 @ concat (map enc hs) @ take n (enc m) \<and>
       (wk_handled s = hs @ [m] \<or> (wk_handled s = hs \<and> n = 0)))"

lemma process_defined: "good m \<Longrightarrow> process m e \<noteq> None"
  using process_writes by fastforce

lemma stream_inv_handled:
  assumes "sent (wk_env s) = sent e0 @ concat (map enc (wk_handled s))"
  shows "stream_inv e0 s"
  unfolding stream_inv_def using assms
  by (intro conjI impI exI [of _ "wk_handled s"] exI [of _ 0]) auto

lemma stream_inv_cong:
  "wk_env s' = wk_env s \<Longrightarrow> wk_handled s' = wk_handled s \<Longrightarrow> (wk_pc s' \<noteq> W_Done \<Longrightarrow> wk_pc s \<noteq> W_Done) \<Longrightarrow>
   stream_inv e0 s \<Longrightarrow> stream_inv e0 s'"
  unfolding stream_inv_def by auto

lemma turn_stream_inv:
  assumes inv: "worker_inv good capacity s" and st: "stream_inv e0 s"
    and t: "worker_turn process s = Some s'"
  shows "stream_inv e0 s'"
proof (cases "wk_pc s")
  case W_Loop
  with t st show ?thesis
    by (auto simp: worker_turn_loop [OF inv W_Loop] split: if_splits elim!: stream_inv_cong [rotated -1])
next
  case (W_Process m)
  with inv have "good m" by (simp add: worker_inv_def)
  from process_writes [OF this, of "wk_env s"] obtain ok e' n where
    p: "process m (wk_env s) = Some (ok, e')" "sent e' = sent (wk_env s) @ take n (enc m)"
      "ok \<longrightarrow> length (enc m) \<le> n" by auto
  have s': "s' = s\<lparr>wk_env := e', wk_handled := wk_handled s @ [m], wk_pc := (if ok then W_Loop else W_Done)\<rparr>"
    using t W_Process p(1) by (simp add: worker_turn_def)
  have sent0: "sent (wk_env s) = sent e0 @ concat (map enc (wk_handled s))"
    using st W_Process by (simp add: stream_inv_def)
  show ?thesis
  proof (cases ok)
    case True
    with p sent0 show ?thesis by (intro stream_inv_handled) (simp add: s')
  next
    case False
    with p(2) sent0 show ?thesis
      unfolding stream_inv_def
      by (intro conjI impI exI [of _ "wk_handled s"] exI [of _ n] exI [of _ m]) (simp_all add: s')
  qed
qed (use t st in \<open>auto simp: worker_turn_def\<close>)

lemma step_stream_inv:
  assumes "worker_step process good s s'" and "worker_inv good capacity s" and "stream_inv e0 s"
  shows "stream_inv e0 s'"
  using assms
proof (induction rule: worker_step.induct)
  case (step_push m s res s')
  then show ?case
    by (auto simp: worker_push_def Let_def bind_Some_iff cond_signal_def split: if_splits
        elim!: stream_inv_cong [rotated -1])
next
  case (step_stop s)
  then show ?case
    by (auto simp: Actor_Stop_def cond_signal_def elim!: stream_inv_cong [rotated -1])
next
  case (step_turn s s')
  then show ?case by (blast intro: turn_stream_inv)
next
  case (step_spurious s)
  then show ?case by (auto elim!: stream_inv_cong [rotated -1])
qed

lemma reachable_stream_inv:
  assumes "(worker_step process good)\<^sup>*\<^sup>* (worker_start d capacity e0) s"
  shows "stream_inv e0 s"
proof -
  have "worker_inv good capacity s \<and> stream_inv e0 s"
    using assms
  proof (induction rule: rtranclp_induct)
    case base
    show ?case
      by (simp add: worker_inv_start stream_inv_handled) (simp add: worker_start_def stream_inv_handled)
  next
    case (step y z)
    then show ?case using worker_step_inv step_stream_inv by blast
  qed
  then show ?thesis by simp
qed

text \<open>In every reachable state the stream carries a prefix of the accepted messages, in order.\<close>

lemma stream_prefix:
  assumes "(worker_step process good)\<^sup>*\<^sup>* (worker_start d capacity e0) s"
  shows "\<exists>rest. sent e0 @ concat (map enc (wk_accepted s)) = sent (wk_env s) @ rest"
proof -
  have acc: "wk_accepted s = wk_handled s @ in_flight (wk_pc s) @ cbuf_items (wk_queue s)"
    using worker_reachable_inv [OF assms] by (simp add: worker_inv_def)
  obtain hs n m where h: "sent (wk_env s) = sent e0 @ concat (map enc hs) @ take n (enc m)"
    "wk_handled s = hs @ [m] \<or> (wk_handled s = hs \<and> n = 0)"
    using reachable_stream_inv [OF assms] unfolding stream_inv_def by blast
  from h(2) show ?thesis
  proof
    assume "wk_handled s = hs @ [m]"
    moreover have "take n (enc m) @ drop n (enc m) @ r = enc m @ r" for r
      by (metis append.assoc append_take_drop_id)
    ultimately show ?thesis
      using h(1) acc
      by (intro exI [of _ "drop n (enc m) @ concat (map enc (in_flight (wk_pc s) @ cbuf_items (wk_queue s)))"]) simp
  next
    assume "wk_handled s = hs \<and> n = 0"
    with h(1) acc show ?thesis by simp
  qed
qed

lemma stream_handled:
  assumes "(worker_step process good)\<^sup>*\<^sup>* (worker_start d capacity e0) s" and "wk_pc s \<noteq> W_Done"
  shows "sent (wk_env s) = sent e0 @ concat (map enc (wk_handled s))"
  using reachable_stream_inv [OF assms(1)] assms(2) by (simp add: stream_inv_def)

end

text \<open>
  The interface of a processing function that does one thing for every message it handles,
  such as freeing what the message owns.
\<close>

locale message_log =
  fixes process :: "'m \<Rightarrow> 'e \<Rightarrow> (bool \<times> 'e) option"
    and good :: "'m \<Rightarrow> bool"
    and entry :: "'m \<Rightarrow> 'b list"
    and log :: "'e \<Rightarrow> 'b list"
  assumes process_logs: "good m \<Longrightarrow> process m e = Some (ok, e') \<Longrightarrow> log e' = log e @ entry m"
begin

lemma turn_logs:
  assumes "worker_inv good capacity s" and "worker_turn process s = Some s'"
    and "log (wk_env s) = l0 @ concat (map entry (wk_handled s))"
  shows "log (wk_env s') = l0 @ concat (map entry (wk_handled s'))"
proof (cases "wk_pc s")
  case W_Loop
  with assms(2,3) show ?thesis by (auto simp: worker_turn_loop [OF assms(1) W_Loop] split: if_splits)
next
  case (W_Process m)
  with assms(1) have "good m" by (simp add: worker_inv_def)
  with assms(2,3) W_Process show ?thesis
    by (auto simp: worker_turn_def bind_Some_iff dest: process_logs)
qed (use assms in \<open>auto simp: worker_turn_def\<close>)

lemma step_logs:
  assumes "worker_step process good s s'" and "worker_inv good capacity s"
    and "log (wk_env s) = l0 @ concat (map entry (wk_handled s))"
  shows "log (wk_env s') = l0 @ concat (map entry (wk_handled s'))"
  using assms
proof (induction rule: worker_step.induct)
  case (step_turn s s')
  then show ?case by (blast intro: turn_logs)
qed (auto simp: worker_push_def Let_def bind_Some_iff cond_signal_def Actor_Stop_def split: if_splits)

lemma reachable_logs:
  assumes "(worker_step process good)\<^sup>*\<^sup>* (worker_start d capacity e0) s"
  shows "log (wk_env s) = log e0 @ concat (map entry (wk_handled s))"
proof -
  have "worker_inv good capacity s \<and> log (wk_env s) = log e0 @ concat (map entry (wk_handled s))"
    using assms
  proof (induction rule: rtranclp_induct)
    case base
    show ?case by (simp add: worker_inv_start) (simp add: worker_start_def)
  next
    case (step y z)
    then show ?case using worker_step_inv [OF step(2)] step_logs [OF step(2)] by blast
  qed
  then show ?thesis by simp
qed

end

end
