(* ===== verification/Controller.thy ===== *)
theory Controller
  imports Worker Control_Msg Net
begin

section \<open>The controller (src/src/core/actor.cpp, src/src/core/controller.cpp)\<close>

text \<open>
  The actor that sends control messages to the device: its synchronization objects and threads,
  the queue of 64 messages, the processing of a message and its end. The thread and its
  interleavings with the clients are the worker of the previous theory.
\<close>

subsection \<open>Starting and ending\<close>

text \<open>
  The calls of SDL that create a mutex, a condition variable or a thread, each of which may
  fail: \<open>sdl_answers\<close> says which. \<open>sdl_live\<close> counts the mutexes and conditions not destroyed,
  \<open>sdl_threads\<close> the threads not joined.
\<close>

record sdl =
  sdl_answers :: "bool list"
  sdl_live :: int
  sdl_threads :: int

definition sdl_answer :: "sdl \<Rightarrow> bool \<times> sdl" where
  "sdl_answer w = (case sdl_answers w of [] \<Rightarrow> (False, w) | a # as \<Rightarrow> (a, w\<lparr>sdl_answers := as\<rparr>))"

definition SDL_Create :: "sdl \<Rightarrow> bool \<times> sdl" where
  "SDL_Create w = (let (ok, w) = sdl_answer w in
     (ok, if ok then w\<lparr>sdl_live := sdl_live w + 1\<rparr> else w))"

definition SDL_Destroy :: "sdl \<Rightarrow> sdl" where
  "SDL_Destroy w = w\<lparr>sdl_live := sdl_live w - 1\<rparr>"

definition SDL_CreateThread :: "sdl \<Rightarrow> bool \<times> sdl" where
  "SDL_CreateThread w = (let (ok, w) = sdl_answer w in
     (ok, if ok then w\<lparr>sdl_threads := sdl_threads w + 1\<rparr> else w))"

definition SDL_WaitThread :: "sdl \<Rightarrow> sdl" where
  "SDL_WaitThread w = w\<lparr>sdl_threads := sdl_threads w - 1\<rparr>"

definition Actor_Init :: "sdl \<Rightarrow> bool \<times> sdl" where
  "Actor_Init w =
     (let (ok, w) = SDL_Create w in
      if \<not> ok then (False, w)
      else let (ok, w) = SDL_Create w in
        if \<not> ok then (False, SDL_Destroy w) else (True, w))"

definition Actor_Destroy :: "sdl \<Rightarrow> sdl" where
  "Actor_Destroy w = SDL_Destroy (SDL_Destroy w)"

definition Actor_Join :: "sdl \<Rightarrow> sdl" where
  "Actor_Join w = SDL_WaitThread w"

definition Receiver_Init :: "sdl \<Rightarrow> bool \<times> sdl" where
  "Receiver_Init w = (let (initialized, w) = Actor_Init w in if \<not> initialized then (False, w) else (True, w))"

definition Receiver_Start :: "sdl \<Rightarrow> bool \<times> sdl" where
  "Receiver_Start w = (let (ok, w) = SDL_CreateThread w in if \<not> ok then (False, w) else (True, w))"

definition Controller_Init :: "sdl \<Rightarrow> bool \<times> sdl" where
  "Controller_Init w =
     (let (ok, w) = Receiver_Init w in
      if \<not> ok then (False, w)
      else let (initialized, w) = Actor_Init w in
        if \<not> initialized then (False, Actor_Destroy w) else (True, w))"

text \<open>\<open>Start\<close> stops and joins the controller thread when the receiver does not start.\<close>

definition Controller_Start :: "sdl \<Rightarrow> ('m, 'e) worker \<Rightarrow> bool \<times> sdl \<times> ('m, 'e) worker" where
  "Controller_Start w s =
     (let (ok, w) = SDL_CreateThread w in
      if \<not> ok then (False, w, s)
      else let (ok, w) = Receiver_Start w in
        if \<not> ok then (False, SDL_WaitThread w, Actor_Stop s) else (True, w, s))"

definition Controller_Join :: "sdl \<Rightarrow> sdl" where
  "Controller_Join w = Actor_Join (Actor_Join w)"

subsection \<open>Processing messages\<close>

record control_env =
  ce_net :: net_world
  ce_freed :: "string option list"

text \<open>
  The buffer on the stack is not initialised; what it holds before serialization is never sent.
\<close>

definition Controller_ProcessMessage :: "socket_t \<Rightarrow> ControlMessage \<Rightarrow> net_world \<Rightarrow> (bool \<times> net_world) option" where
  "Controller_ProcessMessage control_socket msg w = do {
     (serialized_msg, len) \<leftarrow>
       ControlMessage_Serialize msg (replicate CONTROL_MSG_SERIALIZED_MAX_SIZE 0);
     if len = 0 then Some (False, w)
     else let (r, w) = net_send_all control_socket (take len serialized_msg) w in
       Some (r = int len, w)
   }"

text \<open>What \<open>RunController\<close> does with a message it has taken: process it, then destroy it.\<close>

definition controller_handle :: "socket_t \<Rightarrow> ControlMessage \<Rightarrow> control_env \<Rightarrow> (bool \<times> control_env) option" where
  "controller_handle control_socket msg e = do {
     (ok, w) \<leftarrow> Controller_ProcessMessage control_socket msg (ce_net e);
     freed \<leftarrow> ControlMessage_Destroy msg;
     Some (ok, e\<lparr>ce_net := w, ce_freed := ce_freed e @ freed\<rparr>)
   }"

abbreviation "controller_step s \<equiv> worker_step (controller_handle s) well_formed"

definition RunController_turn ::
  "socket_t \<Rightarrow> (ControlMessage, control_env) worker \<Rightarrow> (ControlMessage, control_env) worker option" where
  "RunController_turn control_socket = worker_turn (controller_handle control_socket)"

definition Controller_PushMessage ::
  "(ControlMessage, control_env) worker \<Rightarrow> ControlMessage
    \<Rightarrow> (bool \<times> (ControlMessage, control_env) worker) option" where
  "Controller_PushMessage = worker_push"

definition CONTROL_QUEUE_SIZE :: nat where
  "CONTROL_QUEUE_SIZE = 64"

definition controller_start :: "net_world \<Rightarrow> (ControlMessage, control_env) worker" where
  "controller_start w =
     worker_start \<lparr>cm_type = CONTROL_MSG_TYPE_INJECT_KEYCODE, cm_body = Unwritten\<rparr> CONTROL_QUEUE_SIZE
       \<lparr>ce_net = w, ce_freed = []\<rparr>"

text \<open>
  The loop of \<open>Destroy\<close> over the messages left in the queue; \<open>n\<close> bounds its turns, and the size
  of the queue is enough.
\<close>

fun destroy_queue :: "nat \<Rightarrow> ControlMessage cbuf \<Rightarrow> string option list \<Rightarrow> (ControlMessage cbuf \<times> string option list) option" where
  "destroy_queue 0 q freed = None"
| "destroy_queue (Suc n) q freed =
     (case cbuf_take q of
        None \<Rightarrow> None
      | Some (None, q) \<Rightarrow> Some (q, freed)
      | Some (Some msg, q) \<Rightarrow>
          (case ControlMessage_Destroy msg of
             None \<Rightarrow> None
           | Some f \<Rightarrow> destroy_queue n q (freed @ f)))"

definition Controller_Destroy ::
  "sdl \<Rightarrow> (ControlMessage, control_env) worker \<Rightarrow> (sdl \<times> (ControlMessage, control_env) worker) option" where
  "Controller_Destroy w s = do {
     let w = Actor_Destroy w;
     (q, freed) \<leftarrow> destroy_queue (cbuf_size (wk_queue s)) (wk_queue s) (ce_freed (wk_env s));
     Some (Actor_Destroy w, s\<lparr>wk_queue := q, wk_env := (wk_env s)\<lparr>ce_freed := freed\<rparr>\<rparr>)
   }"

subsection \<open>The controller writes a stream of messages\<close>

definition owned :: "ControlMessage \<Rightarrow> string option list" where
  "owned m = (case ControlMessage_Destroy m of None \<Rightarrow> [] | Some f \<Rightarrow> f)"

lemma Destroy_well_formed: "well_formed m \<Longrightarrow> ControlMessage_Destroy m = Some (owned m)"
  unfolding well_formed_def
  by (cases "cm_type m"; cases "(cm_type m, cm_body m)" rule: wire_body.cases)
    (auto simp: owned_def ControlMessage_Destroy_def)

lemma Controller_ProcessMessage_sends:
  assumes "well_formed m"
  shows "\<exists>ok w' n. Controller_ProcessMessage s m w = Some (ok, w') \<and>
    nw_sent w' = nw_sent w @ take n (wire m) \<and> (ok \<longrightarrow> length (wire m) \<le> n)"
proof -
  obtain r w' where r: "net_send_all s (wire m) w = (r, w')" by fastforce
  have p: "Controller_ProcessMessage s m w = Some (r = int (length (wire m)), w')"
    using Serialize_wire [OF assms, of "replicate CONTROL_MSG_SERIALIZED_MAX_SIZE 0"]
      length_wire [OF assms] r
    by (simp add: Controller_ProcessMessage_def take_written)
  show ?thesis
  proof (cases "r = - 1")
    case True
    with net_send_all_sends [OF r] obtain n where "nw_sent w' = nw_sent w @ take n (wire m)" by blast
    with p True show ?thesis by auto
  next
    case False
    with net_send_all_sends [OF r] have "nw_sent w' = nw_sent w @ take (length (wire m)) (wire m)" by simp
    with p show ?thesis by blast
  qed
qed

interpretation controller_sink: message_sink "controller_handle s" well_formed wire "\<lambda>e. nw_sent (ce_net e)"
  for s
proof
  fix m and e :: control_env
  assume m: "well_formed m"
  from Controller_ProcessMessage_sends [OF m, of s "ce_net e"] obtain ok w' n where
    p: "Controller_ProcessMessage s m (ce_net e) = Some (ok, w')"
      "nw_sent w' = nw_sent (ce_net e) @ take n (wire m)" "ok \<longrightarrow> length (wire m) \<le> n" by blast
  have "controller_handle s m e = Some (ok, e\<lparr>ce_net := w', ce_freed := ce_freed e @ owned m\<rparr>)"
    using p(1) Destroy_well_formed [OF m] by (simp add: controller_handle_def)
  with p(2,3) show "\<exists>ok e' n. controller_handle s m e = Some (ok, e') \<and>
      nw_sent (ce_net e') = nw_sent (ce_net e) @ take n (wire m) \<and> (ok \<longrightarrow> length (wire m) \<le> n)"
    by (intro exI [of _ ok] exI [of _ n] exI [of _ "e\<lparr>ce_net := w', ce_freed := ce_freed e @ owned m\<rparr>"]) simp
qed

interpretation controller_log: message_log "controller_handle s" well_formed owned ce_freed
  for s
proof
  fix m e ok e'
  assume "well_formed m" and "controller_handle s m e = Some (ok, e')"
  then show "ce_freed e' = ce_freed e @ owned m"
    using Destroy_well_formed by (auto simp: controller_handle_def bind_Some_iff)
qed

lemma destroy_queue_frees:
  assumes "cbuf_inv q" and "length (cbuf_items q) < n" and "\<forall>m \<in> set (cbuf_items q). well_formed m"
  shows "\<exists>q'. destroy_queue n q freed = Some (q', freed @ concat (map owned (cbuf_items q))) \<and>
    cbuf_items q' = []"
  using assms
proof (induction n arbitrary: q freed)
  case (Suc n)
  show ?case
  proof (cases "cbuf_items q")
    case Nil
    with cb.tke_empty [OF Suc.prems(1)] show ?thesis by simp
  next
    case (Cons m ms)
    from cb.tke_some [OF Suc.prems(1) this] obtain q' where
      q': "cbuf_take q = Some (Some m, q')" "cbuf_inv q'" "cbuf_items q' = ms" by auto
    have "ControlMessage_Destroy m = Some (owned m)"
      using Destroy_well_formed Suc.prems(3) Cons by simp
    with Suc.IH [OF q'(2), of "freed @ owned m"] Suc.prems q' Cons show ?thesis by simp
  qed
qed simp
lemma Actor_Init_live:
  "Actor_Init w = (ok, w') \<Longrightarrow> sdl_live w' = sdl_live w + (if ok then 2 else 0) \<and> sdl_threads w' = sdl_threads w"
  by (auto simp: Actor_Init_def SDL_Create_def SDL_Destroy_def sdl_answer_def Let_def
      split: prod.splits list.splits if_splits)

lemma Actor_Destroy_live [simp]:
  "sdl_live (Actor_Destroy w) = sdl_live w - 2" "sdl_threads (Actor_Destroy w) = sdl_threads w"
  by (simp_all add: Actor_Destroy_def SDL_Destroy_def)

lemma Controller_Init_live:
  assumes "Controller_Init w = (ok, w')"
  shows "sdl_live w' = sdl_live w + (if ok then 4 else 0)"
proof -
  obtain a w1 where 1: "Actor_Init w = (a, w1)" by fastforce
  obtain b w2 where 2: "Actor_Init w1 = (b, w2)" by fastforce
  show ?thesis
    using assms Actor_Init_live [OF 1] Actor_Init_live [OF 2]
    by (auto simp: Controller_Init_def Receiver_Init_def 1 2 split: if_splits)
qed

lemma Controller_Start_threads:
  assumes "Controller_Start w s = (ok, w', s')"
  shows "sdl_threads w' = sdl_threads w + (if ok then 2 else 0)"
    and "\<not> ok \<Longrightarrow> wk_stopped s' \<or> sdl_threads w' = sdl_threads w \<and> s' = s"
proof -
  obtain a w1 where 1: "SDL_CreateThread w = (a, w1)" by fastforce
  obtain b w2 where 2: "SDL_CreateThread w1 = (b, w2)" by fastforce
  have t: "sdl_threads w1 = sdl_threads w + (if a then 1 else 0)"
    "sdl_threads w2 = sdl_threads w1 + (if b then 1 else 0)"
    using 1 2 by (auto simp: SDL_CreateThread_def sdl_answer_def Let_def split: prod.splits list.splits)
  show "sdl_threads w' = sdl_threads w + (if ok then 2 else 0)"
    using assms t by (auto simp: Controller_Start_def Receiver_Start_def 1 2 SDL_WaitThread_def split: if_splits)
  show "wk_stopped s' \<or> sdl_threads w' = sdl_threads w \<and> s' = s" if "\<not> ok"
    using assms t that
    by (auto simp: Controller_Start_def Receiver_Start_def 1 2 Actor_Stop_def cond_signal_def split: if_splits)
qed

lemma Controller_ProcessMessage_ok:
  assumes m: "well_formed m" and a: "nw_answers w = a # as" "int CONTROL_MSG_SERIALIZED_MAX_SIZE \<le> a"
  shows "\<exists>w'. Controller_ProcessMessage s m w = Some (True, w') \<and> nw_answers w' = as"
proof -
  have "length (wire m) \<le> nat a" using length_wire [OF m] a(2) by linarith
  then have "net_send_all s (wire m) w = (int (length (wire m)),
      w\<lparr>nw_answers := as, nw_sent := nw_sent w @ wire m\<rparr>)"
    using a wire_nonempty [of m]
    by (auto simp: net_send_all_def net_send_all_loop.simps [of s "wire m"] net_send_all_loop.simps [of s "[]"]
        net_send_def sys_send_def answer_def min_def)
  then show ?thesis
    using Serialize_wire [OF m, of "replicate CONTROL_MSG_SERIALIZED_MAX_SIZE 0"] length_wire [OF m]
    by (simp add: Controller_ProcessMessage_def take_written)
qed

text \<open>The system accepts the next \<open>n\<close> messages whole.\<close>

definition net_ready :: "nat \<Rightarrow> control_env \<Rightarrow> bool" where
  "net_ready n e \<longleftrightarrow> n \<le> length (nw_answers (ce_net e)) \<and>
     (\<forall>a \<in> set (take n (nw_answers (ce_net e))). int CONTROL_MSG_SERIALIZED_MAX_SIZE \<le> a)"

lemma net_ready_less: "net_ready n e \<Longrightarrow> k \<le> n \<Longrightarrow> net_ready k e"
  by (auto simp: net_ready_def dest: set_take_subset_set_take [THEN subsetD])

lemma controller_handle_ready:
  assumes "well_formed m" and "net_ready (Suc n) e"
  shows "\<exists>e'. controller_handle s m e = Some (True, e') \<and> net_ready n e'"
proof -
  obtain a as where a: "nw_answers (ce_net e) = a # as"
    using assms(2) by (cases "nw_answers (ce_net e)") (auto simp: net_ready_def)
  with assms obtain w' where "Controller_ProcessMessage s m (ce_net e) = Some (True, w')" "nw_answers w' = as"
    using Controller_ProcessMessage_ok [of m "ce_net e" a as s] by (auto simp: net_ready_def)
  with assms a Destroy_well_formed show ?thesis
    by (auto simp: controller_handle_def net_ready_def)
qed

lemma RunController_turn_total:
  assumes inv: "worker_inv well_formed n s"
  shows "\<exists>s'. RunController_turn sock s = Some s'"
proof (cases "wk_pc s")
  case W_Loop
  then show ?thesis by (simp add: RunController_turn_def worker_turn_loop [OF inv])
next
  case (W_Process x)
  with inv have "well_formed x" by (simp add: worker_inv_def)
  from controller_sink.process_defined [OF this, of sock "wk_env s"] obtain r where
    "controller_handle sock x (wk_env s) = Some r" by blast
  with W_Process show ?thesis by (cases r) (simp add: RunController_turn_def worker_turn_def)
qed (auto simp: RunController_turn_def worker_turn_def)

lemma controller_prefix:
  assumes "(controller_step sock)\<^sup>*\<^sup>* (controller_start w) s" and "nw_sent w = []"
  shows "(\<exists>rest. concat (map wire (wk_accepted s)) = nw_sent (ce_net (wk_env s)) @ rest) \<and>
    (wk_pc s \<noteq> W_Done \<longrightarrow>
      decode_all (length (wk_handled s)) (nw_sent (ce_net (wk_env s))) = Some (map carried (wk_handled s)))"
proof -
  note r = assms(1) [unfolded controller_start_def]
  have inv: "worker_inv well_formed CONTROL_QUEUE_SIZE s" by (rule worker_reachable_inv [OF r])
  then have "\<forall>m \<in> set (wk_handled s). well_formed m" by (auto simp: worker_inv_def)
  moreover have "nw_sent (ce_net (wk_env s)) = concat (map wire (wk_handled s))" if "wk_pc s \<noteq> W_Done"
    using controller_sink.stream_handled [OF r that] assms(2) by simp
  ultimately show ?thesis
    using controller_sink.stream_prefix [OF r] assms(2) by (auto simp: decode_all_wire)
qed

subsection \<open>Properties\<close>

text \<open>In every interleaving of pushes, stops, turns of the thread and spurious wake-ups: no
  wake-up is lost (the thread sleeps only when the queue is empty and the actor is not stopped);
  messages are handled in the order they were accepted, each once; a push is accepted exactly
  when fewer than 64 messages wait; and the next step of the thread is always defined, so its
  assertion that the queue is not empty holds.\<close>

theorem controller_interleavings:
  assumes "(controller_step sock)\<^sup>*\<^sup>* (controller_start w) s"
  shows "(wk_pc s = W_Sleep \<longrightarrow> cbuf_items (wk_queue s) = [] \<and> \<not> wk_stopped s) \<and>
    wk_accepted s = wk_handled s @ in_flight (wk_pc s) @ cbuf_items (wk_queue s) \<and>
    (\<exists>s'. Controller_PushMessage s m = Some (length (cbuf_items (wk_queue s)) < 64, s')) \<and>
    (\<exists>s'. RunController_turn sock s = Some s')"
proof -
  have inv: "worker_inv well_formed 64 s"
    using worker_reachable_inv [OF assms [unfolded controller_start_def]]
    by (simp add: CONTROL_QUEUE_SIZE_def)
  with RunController_turn_total [OF inv] worker_push_result [OF inv] show ?thesis
    by (auto simp: worker_inv_def Controller_PushMessage_def)
qed

text \<open>The bytes the controller has written to the control socket are, in every reachable
  state, a prefix of the encodings of the accepted messages in order; and while the thread runs
  they are exactly the encodings of the messages handled, so the device decodes them to those
  messages.\<close>

theorem controller_stream:
  assumes "(controller_step sock)\<^sup>*\<^sup>* (controller_start w) s" and "nw_sent w = []"
  shows "(\<exists>rest. concat (map wire (wk_accepted s)) = nw_sent (ce_net (wk_env s)) @ rest) \<and>
    (wk_pc s \<noteq> W_Done \<longrightarrow>
      decode_all (length (wk_handled s)) (nw_sent (ce_net (wk_env s))) = Some (map carried (wk_handled s)))"
  using controller_prefix [OF assms] .

text \<open>A controller that is not stopped and whose socket accepts data makes progress: within
  two turns for each waiting message and one more, its thread has handled every accepted message
  and sleeps.\<close>

theorem controller_drains:
  assumes "(controller_step sock)\<^sup>*\<^sup>* (controller_start w) s"
    and "\<not> wk_stopped s" and "wk_pc s = W_Loop"
    and "net_ready (length (cbuf_items (wk_queue s))) (wk_env s)"
  shows "\<exists>s'. worker_run (controller_handle sock) (2 * length (cbuf_items (wk_queue s)) + 1) s = Some s' \<and>
    wk_pc s' = W_Sleep \<and> wk_handled s' = wk_accepted s"
  using worker_drains_loop [where ready = net_ready and process = "controller_handle sock",
      OF controller_handle_ready worker_reachable_inv [OF assms(1) [unfolded controller_start_def]]] assms(2-4)
  by blast

text \<open>C24. Every accepted message is destroyed exactly once: when the thread has returned and
  the controller is destroyed, the texts freed are those of the accepted messages, in order, and
  the queue is empty.\<close>

theorem controller_frees_once:
  assumes "(controller_step sock)\<^sup>*\<^sup>* (controller_start w) s" and "wk_pc s = W_Done"
  shows "\<exists>sdl' s'. Controller_Destroy sdl s = Some (sdl', s') \<and> sdl_live sdl' = sdl_live sdl - 4 \<and>
    cbuf_items (wk_queue s') = [] \<and> ce_freed (wk_env s') = concat (map owned (wk_accepted s))"
proof -
  note r = assms(1) [unfolded controller_start_def]
  have inv: "worker_inv well_formed CONTROL_QUEUE_SIZE s" by (rule worker_reachable_inv [OF r])
  then have q: "cbuf_inv (wk_queue s)" and good: "\<forall>m \<in> set (cbuf_items (wk_queue s)). well_formed m"
    and acc: "wk_accepted s = wk_handled s @ cbuf_items (wk_queue s)"
    using assms(2) by (auto simp: worker_inv_def)
  have "length (cbuf_items (wk_queue s)) < cbuf_size (wk_queue s)"
  proof -
    have "0 < cbuf_size (wk_queue s)" using q by (simp add: cbuf_inv_def)
    with cb.within [OF q] show ?thesis unfolding cbuf_capacity_def by linarith
  qed
  from destroy_queue_frees [OF q this good, of "ce_freed (wk_env s)"] obtain q' where
    "destroy_queue (cbuf_size (wk_queue s)) (wk_queue s) (ce_freed (wk_env s)) =
      Some (q', ce_freed (wk_env s) @ concat (map owned (cbuf_items (wk_queue s))))"
    "cbuf_items q' = []" by blast
  with controller_log.reachable_logs [OF r] acc show ?thesis
    by (simp add: Controller_Destroy_def)
qed

text \<open>Initialisation that fails leaves no mutex and no condition variable behind, whichever
  of the creations failed; and a start that fails leaves no thread running.\<close>

theorem controller_init_no_leak:
  "(case Controller_Init w of (ok, w') \<Rightarrow> sdl_live w' = sdl_live w + (if ok then 4 else 0)) \<and>
   (case Controller_Start w s of (ok, w', s') \<Rightarrow> sdl_threads w' = sdl_threads w + (if ok then 2 else 0))"
  using Controller_Init_live [of w] Controller_Start_threads(1) [of w s]
  by (auto split: prod.splits)

text \<open>A run for the instances: one message is pushed, the thread takes it.\<close>

definition power_off :: ControlMessage where
  "power_off = \<lparr>cm_type = CONTROL_MSG_TYPE_SET_SCREEN_POWER_MODE, cm_body = BodyPower SCREEN_POWER_MODE_OFF\<rparr>"

definition quiet_net :: "int list \<Rightarrow> net_world" where
  "quiet_net as = \<lparr>nw_open = {3}, nw_next = 4, nw_answers = as, nw_incoming = [], nw_sent = [], nw_bound = [], nw_stray = 0, nw_failed = 0\<rparr>"

lemma well_formed_power_off: "well_formed power_off"
  by (simp add: power_off_def well_formed_def)

lemma pushed_once:
  "\<exists>s. (controller_step sock)\<^sup>*\<^sup>* (controller_start w) s \<and> wk_accepted s = [power_off] \<and>
     cbuf_items (wk_queue s) = [power_off] \<and> wk_pc s = W_Loop \<and> \<not> wk_stopped s \<and>
     wk_env s = \<lparr>ce_net = w, ce_freed = []\<rparr>"
proof -
  let ?s0 = "controller_start w"
  have inv: "worker_inv well_formed CONTROL_QUEUE_SIZE ?s0"
    by (simp add: controller_start_def worker_inv_start)
  have q0: "cbuf_items (wk_queue ?s0) = []" "wk_pc ?s0 = W_Loop" "wk_accepted ?s0 = []"
    "\<not> wk_stopped ?s0" "wk_env ?s0 = \<lparr>ce_net = w, ce_freed = []\<rparr>" "wk_handled ?s0 = []"
    by (simp_all add: controller_start_def worker_start_def)
  from worker_push_result [OF inv, of power_off] q0 obtain s where
    s: "worker_push ?s0 power_off = Some (True, s)" by (auto simp: CONTROL_QUEUE_SIZE_def)
  have "controller_step sock ?s0 s"
    by (rule step_push [where m = power_off and res = True]) (rule well_formed_power_off, rule s)
  moreover have "wk_pc s = W_Loop" "wk_accepted s = [power_off]" "\<not> wk_stopped s" "wk_handled s = []"
    "wk_env s = \<lparr>ce_net = w, ce_freed = []\<rparr>"
    using worker_push_fields [OF s] q0 by simp_all
  moreover from this worker_push_inv [OF inv well_formed_power_off s]
  have "cbuf_items (wk_queue s) = [power_off]" by (simp add: worker_inv_def)
  ultimately show ?thesis by blast
qed

theorem controller_interleavings_witness:
  "\<exists>s s'. wk_accepted s = [power_off] \<and> (controller_step 3)\<^sup>*\<^sup>* (controller_start (quiet_net [5])) s \<and>
     Controller_PushMessage s power_off = Some (True, s')"
proof -
  obtain s where s: "(controller_step 3)\<^sup>*\<^sup>* (controller_start (quiet_net [5])) s"
    "wk_accepted s = [power_off]" "cbuf_items (wk_queue s) = [power_off]"
    using pushed_once by blast
  from controller_interleavings [OF s(1), of power_off] s show ?thesis by auto
qed

theorem controller_stream_witness:
  "\<exists>s. (controller_step 3)\<^sup>*\<^sup>* (controller_start (quiet_net [5])) s \<and> wk_accepted s = [power_off] \<and>
     (\<exists>rest. wire power_off = nw_sent (ce_net (wk_env s)) @ rest)"
proof -
  obtain s where s: "(controller_step 3)\<^sup>*\<^sup>* (controller_start (quiet_net [5])) s" "wk_accepted s = [power_off]"
    using pushed_once by blast
  have "\<exists>rest. wire power_off = nw_sent (ce_net (wk_env s)) @ rest"
    using controller_stream [OF s(1)] s(2) by (simp add: quiet_net_def)
  with s show ?thesis by blast
qed

theorem controller_drains_witness:
  "\<exists>s s'. wk_accepted s = [power_off] \<and> worker_run (controller_handle 3) 3 s = Some s' \<and>
     wk_pc s' = W_Sleep \<and> wk_handled s' = [power_off]"
proof -
  obtain s where s: "(controller_step 3)\<^sup>*\<^sup>* (controller_start (quiet_net [4096])) s"
    "wk_accepted s = [power_off]" "cbuf_items (wk_queue s) = [power_off]" "wk_pc s = W_Loop"
    "\<not> wk_stopped s" "wk_env s = \<lparr>ce_net = quiet_net [4096], ce_freed = []\<rparr>"
    using pushed_once by blast
  have "net_ready (length (cbuf_items (wk_queue s))) (wk_env s)"
    by (simp add: s net_ready_def quiet_net_def CONTROL_MSG_SERIALIZED_MAX_SIZE_def
        CONTROL_MSG_CLIPBOARD_TEXT_MAX_LENGTH_def)
  from controller_drains [OF s(1,5,4) this] s show ?thesis by auto
qed

theorem controller_frees_once_witness:
  "\<exists>s sdl' s'. (controller_step 3)\<^sup>*\<^sup>* (controller_start (quiet_net [])) s \<and> wk_pc s = W_Done \<and>
     Controller_Destroy \<lparr>sdl_answers = [], sdl_live = 4, sdl_threads = 0\<rparr> s = Some (sdl', s') \<and> sdl_live sdl' = 0"
proof -
  let ?s0 = "controller_start (quiet_net [])"
  define s where "s = (Actor_Stop ?s0)\<lparr>wk_pc := W_Done\<rparr>"
  have "controller_step 3 ?s0 (Actor_Stop ?s0)" by (rule step_stop)
  moreover have "worker_turn (controller_handle 3) (Actor_Stop ?s0) = Some s"
    by (simp add: worker_turn_def Actor_Stop_def cond_signal_def controller_start_def worker_start_def s_def)
  then have "controller_step 3 (Actor_Stop ?s0) s" by (rule step_turn)
  ultimately have r: "(controller_step 3)\<^sup>*\<^sup>* ?s0 s"
    by (metis converse_rtranclp_into_rtranclp rtranclp.rtrancl_refl)
  have "wk_pc s = W_Done" by (simp add: s_def)
  from controller_frees_once [OF r this, of "\<lparr>sdl_answers = [], sdl_live = 4, sdl_threads = 0\<rparr>"] r this
  show ?thesis by auto
qed

end
