(* ===== verification/Fps_Counter.thy ===== *)
theory Fps_Counter
  imports Prelude
begin

section \<open>The frame counter (src/src/video/fps_counter.cpp)\<close>

text \<open>
  The counters of rendered and skipped frames, displayed once per interval, and the thread that
  displays them when no frame arrives. Every operation runs under the mutex and is one step;
  \<open>now\<close> is what \<open>SDL_GetTicks\<close> returns. Timestamps are 32-bit milliseconds that wrap around.
  \<open>fc_log\<close> records what was displayed: frames per second and skipped frames.
\<close>

definition FPS_COUNTER_INTERVAL_MS :: u32 where
  "FPS_COUNTER_INTERVAL_MS = 1000"

record FpsCounter =
  fc_started :: bool
  fc_interrupted :: bool
  fc_stopped :: bool
  fc_thread :: bool
  fc_rendered :: u32
  fc_skipped :: u32
  fc_next :: u32
  fc_log :: "(u32 \<times> u32) list"

definition FpsCounter_Init :: "FpsCounter \<Rightarrow> FpsCounter" where
  "FpsCounter_Init c = c\<lparr>fc_started := False, fc_stopped := False, fc_thread := False\<rparr>"

definition display_fps :: "FpsCounter \<Rightarrow> FpsCounter" where
  "display_fps c =
     (let rendered_per_second = fc_rendered c * 1000 div FPS_COUNTER_INTERVAL_MS in
      c\<lparr>fc_log := fc_log c @ [(rendered_per_second, fc_skipped c)]\<rparr>)"

definition CheckIntervalExpired :: "u32 \<Rightarrow> FpsCounter \<Rightarrow> FpsCounter" where
  "CheckIntervalExpired now c =
     (if now < fc_next c then c
      else
        let c = display_fps c;
            c = c\<lparr>fc_rendered := 0, fc_skipped := 0\<rparr>;
            elapsed_slices = (now - fc_next c) div FPS_COUNTER_INTERVAL_MS + 1
        in c\<lparr>fc_next := fc_next c + FPS_COUNTER_INTERVAL_MS * elapsed_slices\<rparr>)"

text \<open>
  One turn of the thread: it returns when interrupted, waits for a signal while the counter is
  not started, and otherwise waits until the end of the interval.
\<close>

datatype fps_wait = Fps_Return | Fps_Wait | Fps_Wait_Timeout u32

definition RunFpsCounter_turn :: "u32 \<Rightarrow> FpsCounter \<Rightarrow> (FpsCounter \<times> fps_wait) option" where
  "RunFpsCounter_turn now c =
     (if fc_interrupted c then Some (c, Fps_Return)
      else if \<not> fc_started c then Some (c, Fps_Wait)
      else do {
        let c = CheckIntervalExpired now c;
        c_assert (fc_next c > now);
        let remaining = fc_next c - now;
        Some (c, Fps_Wait_Timeout remaining)
      })"

text \<open>\<open>created\<close> tells whether the thread could be created, if it does not exist yet.\<close>

definition FpsCounter_Start :: "u32 \<Rightarrow> bool \<Rightarrow> FpsCounter \<Rightarrow> bool \<times> FpsCounter" where
  "FpsCounter_Start now created c =
     (let c = c\<lparr>fc_next := now + FPS_COUNTER_INTERVAL_MS, fc_rendered := 0, fc_skipped := 0\<rparr>;
          c = c\<lparr>fc_started := True\<rparr>
      in if \<not> fc_thread c then
           let c = c\<lparr>fc_thread := created\<rparr> in
           if \<not> fc_thread c then (False, c) else (True, c)
         else (True, c))"

definition FpsCounter_Stop :: "FpsCounter \<Rightarrow> FpsCounter" where
  "FpsCounter_Stop c = (let c = c\<lparr>fc_started := False\<rparr> in c\<lparr>fc_stopped := True\<rparr>)"

definition FpsCounter_IsStarted :: "FpsCounter \<Rightarrow> bool" where
  "FpsCounter_IsStarted c \<longleftrightarrow> fc_started c"

definition FpsCounter_Interrupt :: "FpsCounter \<Rightarrow> FpsCounter" where
  "FpsCounter_Interrupt c = (if \<not> fc_thread c then c else c\<lparr>fc_interrupted := True\<rparr>)"

definition AddRenderedFrame :: "u32 \<Rightarrow> FpsCounter \<Rightarrow> FpsCounter" where
  "AddRenderedFrame now c =
     (if \<not> fc_started c then c
      else let c = CheckIntervalExpired now c in c\<lparr>fc_rendered := fc_rendered c + 1\<rparr>)"

definition AddSkippedFrame :: "u32 \<Rightarrow> FpsCounter \<Rightarrow> FpsCounter" where
  "AddSkippedFrame now c =
     (if \<not> fc_started c then c
      else let c = CheckIntervalExpired now c in c\<lparr>fc_skipped := fc_skipped c + 1\<rparr>)"

subsection \<open>The end of the interval\<close>

lemma slices_nat:
  fixes now nxt :: nat
  assumes "nxt \<le> now"
  shows "now < nxt + 1000 * ((now - nxt) div 1000 + 1)"
    and "nxt + 1000 * ((now - nxt) div 1000 + 1) \<le> now + 1000"
proof -
  define x q where "x = now - nxt" and "q = x div 1000"
  have x: "now = nxt + x" using assms by (simp add: x_def)
  obtain r where "x = 1000 * q + r" "r < 1000"
    by (rule that [of "x mod 1000"]) (simp_all add: q_def)
  then have "x < 1000 * (q + 1)" "1000 * (q + 1) \<le> x + 1000" by simp_all
  then show "now < nxt + 1000 * ((now - nxt) div 1000 + 1)"
    and "nxt + 1000 * ((now - nxt) div 1000 + 1) \<le> now + 1000"
    unfolding x_def [symmetric] q_def [symmetric] by (simp_all add: x)
qed

text \<open>
  Away from the wrap-around, an expired interval is extended by whole intervals to the first
  point after now.
\<close>

lemma CheckIntervalExpired_next:
  assumes "unat now + 1000 < 2 ^ 32"
  shows "now < fc_next (CheckIntervalExpired now c)"
    and "fc_next c \<le> now \<Longrightarrow> unat (fc_next (CheckIntervalExpired now c)) \<le> unat now + 1000"
    and "unat (fc_next (CheckIntervalExpired now c)) mod 1000 = unat (fc_next c) mod 1000"
proof -
  let ?c = "CheckIntervalExpired now c" and ?n = "unat (fc_next c)"
  have main: "now < fc_next ?c \<and> unat (fc_next ?c) \<le> unat now + 1000 \<and> unat (fc_next ?c) mod 1000 = ?n mod 1000"
    if "fc_next c \<le> now"
  proof -
    have le: "?n \<le> unat now" using that by (simp add: word_le_nat_alt)
    define k where "k = (unat now - ?n) div 1000 + 1"
    have k: "unat now < ?n + 1000 * k" "?n + 1000 * k \<le> unat now + 1000"
      unfolding k_def by (rule slices_nat [OF le])+
    have sub: "unat (now - fc_next c) = unat now - ?n" using that by (simp add: unat_sub)
    have u: "unat ((now - fc_next c) div 1000) = (unat now - ?n) div 1000"
      by (simp add: unat_div_distrib sub)
    have "(now - fc_next c) div 1000 = of_nat (unat ((now - fc_next c) div 1000))" by simp
    then have e: "(now - fc_next c) div 1000 + 1 = of_nat k"
      unfolding u by (simp add: k_def)
    have "fc_next ?c = fc_next c + 1000 * ((now - fc_next c) div 1000 + 1)"
      using that by (simp add: CheckIntervalExpired_def display_fps_def FPS_COUNTER_INTERVAL_MS_def Let_def
          leD)
    also have "\<dots> = of_nat (?n + 1000 * k)" unfolding e by simp
    finally have "fc_next ?c = of_nat (?n + 1000 * k)" .
    moreover have "unat (of_nat (?n + 1000 * k) :: u32) = ?n + 1000 * k"
    proof -
      have "?n + 1000 * k < 2 ^ 32" using k(2) assms by linarith
      then show ?thesis by (simp only: unat_of_nat take_bit_nat_eq_self_iff) simp
    qed
    ultimately have "unat (fc_next ?c) = ?n + 1000 * k" by simp
    with k show ?thesis by (simp add: word_less_nat_alt)
  qed
  show "now < fc_next ?c"
    using main by (cases "now < fc_next c") (auto simp: CheckIntervalExpired_def not_less)
  show "fc_next c \<le> now \<Longrightarrow> unat (fc_next ?c) \<le> unat now + 1000" using main by blast
  show "unat (fc_next ?c) mod 1000 = ?n mod 1000"
    using main by (cases "now < fc_next c") (auto simp: CheckIntervalExpired_def not_less)
qed

text \<open>Within the last second before the wrap-around of the clock the assertion of the thread fails.\<close>

lemma fps_assertion_fails_at_wrap:
  "RunFpsCounter_turn 0xFFFFFFFF \<lparr>fc_started = True, fc_interrupted = False, fc_stopped = False,
     fc_thread = True, fc_rendered = 60, fc_skipped = 0, fc_next = 0xFFFFFF00, fc_log = []\<rparr> = None"
  by (simp add: RunFpsCounter_turn_def CheckIntervalExpired_def display_fps_def Let_def
      FPS_COUNTER_INTERVAL_MS_def c_assert_def)

subsection \<open>No frame is lost\<close>

datatype fps_event = Rendered u32 | Skipped u32 | Tick u32

fun fps_apply :: "fps_event \<Rightarrow> FpsCounter \<Rightarrow> FpsCounter" where
  "fps_apply (Rendered now) c = AddRenderedFrame now c"
| "fps_apply (Skipped now) c = AddSkippedFrame now c"
| "fps_apply (Tick now) c = CheckIntervalExpired now c"

definition rendered_total :: "FpsCounter \<Rightarrow> nat" where
  "rendered_total c = sum_list (map (\<lambda>e. unat (fst e)) (fc_log c)) + unat (fc_rendered c)"

definition skipped_total :: "FpsCounter \<Rightarrow> nat" where
  "skipped_total c = sum_list (map (\<lambda>e. unat (snd e)) (fc_log c)) + unat (fc_skipped c)"

fun is_rendered :: "fps_event \<Rightarrow> bool" where
  "is_rendered (Rendered _) = True"
| "is_rendered _ = False"

fun is_skipped :: "fps_event \<Rightarrow> bool" where
  "is_skipped (Skipped _) = True"
| "is_skipped _ = False"

lemma per_second:
  assumes "unat r \<le> 4294967"
  shows "(r * 1000 div 1000 :: u32) = r"
proof -
  have "unat (r * 1000) = unat r * 1000"
    using assms by (simp add: unat_word_ariths)
  then have "unat (r * 1000 div 1000) = unat r" by (simp add: unat_div_distrib)
  then show ?thesis by (rule unsigned_word_eqI)
qed

lemma CheckIntervalExpired_totals:
  assumes "unat (fc_rendered c) \<le> 4294967"
  shows "rendered_total (CheckIntervalExpired now c) = rendered_total c"
    and "skipped_total (CheckIntervalExpired now c) = skipped_total c"
    and "fc_started (CheckIntervalExpired now c) = fc_started c"
    and "unat (fc_rendered (CheckIntervalExpired now c)) \<le> unat (fc_rendered c)"
    and "unat (fc_skipped (CheckIntervalExpired now c)) \<le> unat (fc_skipped c)"
  using per_second [OF assms]
  by (auto simp: CheckIntervalExpired_def display_fps_def Let_def rendered_total_def skipped_total_def
      FPS_COUNTER_INTERVAL_MS_def)

lemma unat_Suc_small: "unat (r :: u32) < 4294967295 \<Longrightarrow> unat (r + 1) = Suc (unat r)"
  by (simp add: unat_word_ariths)

lemma fps_run_totals:
  assumes "fc_started c" and "unat (fc_rendered c) + length es \<le> 4294967"
    and "unat (fc_skipped c) + length es \<le> 4294967"
  shows "fc_started (fold fps_apply es c) \<and>
    rendered_total (fold fps_apply es c) = rendered_total c + length (filter is_rendered es) \<and>
    skipped_total (fold fps_apply es c) = skipped_total c + length (filter is_skipped es)"
  using assms
proof (induction es arbitrary: c)
  case (Cons e es)
  have r: "unat (fc_rendered c) \<le> 4294967" using Cons.prems by simp
  note t = CheckIntervalExpired_totals [OF r]
  have step: "fc_started (fps_apply e c) \<and>
      rendered_total (fps_apply e c) = rendered_total c + (if is_rendered e then 1 else 0) \<and>
      skipped_total (fps_apply e c) = skipped_total c + (if is_skipped e then 1 else 0) \<and>
      unat (fc_rendered (fps_apply e c)) \<le> Suc (unat (fc_rendered c)) \<and>
      unat (fc_skipped (fps_apply e c)) \<le> Suc (unat (fc_skipped c))"
  proof (cases e)
    case (Rendered now)
    have "unat (fc_rendered (CheckIntervalExpired now c) + 1) = Suc (unat (fc_rendered (CheckIntervalExpired now c)))"
      using t(4) [of now] Cons.prems by (intro unat_Suc_small) simp
    with Rendered t [of now] Cons.prems show ?thesis
      by (simp add: AddRenderedFrame_def Let_def rendered_total_def skipped_total_def)
  next
    case (Skipped now)
    have "unat (fc_skipped (CheckIntervalExpired now c) + 1) = Suc (unat (fc_skipped (CheckIntervalExpired now c)))"
      using t(5) [of now] Cons.prems by (intro unat_Suc_small) simp
    with Skipped t [of now] Cons.prems show ?thesis
      by (simp add: AddSkippedFrame_def Let_def rendered_total_def skipped_total_def)
  next
    case (Tick now)
    with t [of now] Cons.prems show ?thesis by simp
  qed
  with Cons.IH [of "fps_apply e c"] Cons.prems show ?case by simp
qed simp

subsection \<open>Properties\<close>

text \<open>The interval logic: as long as the clock is at least a second away from its wrap-around,
  checking the interval leaves a deadline in the future, congruent to the old one modulo the
  interval, so the assertion of the counter thread holds and it waits between 1 ms and one
  interval when the deadline was at most one interval away.\<close>

theorem fps_interval:
  assumes "unat now + 1000 < 2 ^ 32" and "fc_started c" and "\<not> fc_interrupted c"
    and "unat (fc_next c) \<le> unat now + 1000"
  shows "\<exists>c' r. RunFpsCounter_turn now c = Some (c', Fps_Wait_Timeout r) \<and> 0 < r \<and> unat r \<le> 1000 \<and>
    now < fc_next c' \<and> unat (fc_next c') mod 1000 = unat (fc_next c) mod 1000"
proof -
  let ?c = "CheckIntervalExpired now c"
  note n = CheckIntervalExpired_next [OF assms(1), of c]
  have le: "unat (fc_next ?c) \<le> unat now + 1000"
    using n(2) assms(4) by (cases "now < fc_next c") (auto simp: CheckIntervalExpired_def not_less)
  have "now \<le> fc_next ?c" using n(1) by simp
  then have r: "unat (fc_next ?c - now) = unat (fc_next ?c) - unat now" by (simp add: unat_sub)
  with n(1) le have "0 < fc_next ?c - now" "unat (fc_next ?c - now) \<le> 1000"
    by (simp_all add: word_less_nat_alt)
  with n assms(2,3) show ?thesis by (simp add: RunFpsCounter_turn_def Let_def)
qed

theorem fps_interval_witness:
  "\<exists>c' r. RunFpsCounter_turn 5300 \<lparr>fc_started = True, fc_interrupted = False, fc_stopped = False,
     fc_thread = True, fc_rendered = 60, fc_skipped = 0, fc_next = 3100, fc_log = []\<rparr> =
   Some (c', Fps_Wait_Timeout r) \<and> 0 < r \<and> unat (fc_next c') mod 1000 = 100"
  using fps_interval [of 5300 "\<lparr>fc_started = True, fc_interrupted = False, fc_stopped = False,
     fc_thread = True, fc_rendered = 60, fc_skipped = 0, fc_next = 3100, fc_log = []\<rparr>"]
  by auto

text \<open>No frame is lost or counted twice: over any sequence of rendered frames, skipped frames
  and interval checks at any times, what has been displayed plus what is being counted is what
  was there before plus the frames of the sequence.\<close>

theorem fps_counts_all:
  assumes "fc_started c" and "unat (fc_rendered c) + length es \<le> 4294967"
    and "unat (fc_skipped c) + length es \<le> 4294967"
  shows "rendered_total (fold fps_apply es c) = rendered_total c + length (filter is_rendered es) \<and>
    skipped_total (fold fps_apply es c) = skipped_total c + length (filter is_skipped es)"
  using fps_run_totals [OF assms] by blast

theorem fps_counts_all_witness:
  "rendered_total (fold fps_apply [Rendered 1500, Skipped 1600, Tick 2600, Rendered 9000]
     (snd (FpsCounter_Start 1000 True \<lparr>fc_started = False, fc_interrupted = False, fc_stopped = False,
       fc_thread = False, fc_rendered = 0, fc_skipped = 0, fc_next = 0, fc_log = []\<rparr>))) = 2"
  using fps_counts_all [of "snd (FpsCounter_Start 1000 True \<lparr>fc_started = False, fc_interrupted = False,
       fc_stopped = False, fc_thread = False, fc_rendered = 0, fc_skipped = 0, fc_next = 0, fc_log = []\<rparr>)"
      "[Rendered 1500, Skipped 1600, Tick 2600, Rendered 9000]"]
  by (simp add: FpsCounter_Start_def Let_def rendered_total_def)

end
