(* ===== verification/Video_Buffer.thy ===== *)
theory Video_Buffer
  imports Fps_Counter "HOL-Library.Sublist"
begin

section \<open>Frames from the decoder to the renderer (src/src/video/video_buffer.cpp, decoder.cpp)\<close>

text \<open>
  Two frames, one written by the decoder and one read by the renderer, exchanged under a mutex;
  the decoder posts \<open>EVENT_NEW_FRAME\<close> when the renderer has consumed the frame before. The codec
  library is not code of the repository: what a call of it returns is an argument of the
  decoder's operations. A picture is a natural number, and \<open>vb_picture\<close> tells which picture a
  frame holds.
\<close>

type_synonym frame = nat

record VideoBuffer =
  vb_decoding_frame :: frame
  vb_rendering_frame :: frame
  vb_render_expired_frames :: bool
  vb_interrupted :: bool
  vb_rendering_frame_consumed :: bool
  vb_fps :: FpsCounter
  vb_frame_number :: nat
  vb_picture :: "frame \<Rightarrow> nat"

subsection \<open>Initialisation and destruction\<close>

text \<open>
  What initialisation allocates. The answers tell which of the calls succeed, in their order:
  three frames, the mutex and, when expired frames are rendered, the condition variable.
\<close>

datatype vb_object = Decoding_Frame | Rendering_Frame | Rgb_Frame | Vb_Mutex | Vb_Cond

fun VideoBuffer_Init :: "bool \<Rightarrow> bool list \<Rightarrow> bool \<times> vb_object list" where
  "VideoBuffer_Init render_expired_frames (decoding # rendering # rgb # mutex # cond) =
     (let error_0 = (False, []);
          error_1 = (\<lambda>live. (False, removeAll Decoding_Frame live));
          error_2 = (\<lambda>live. error_1 (removeAll Rendering_Frame live));
          error_3 = (\<lambda>live. error_2 (removeAll Rgb_Frame live))
      in if \<not> decoding then error_0
      else if \<not> rendering then error_1 [Decoding_Frame]
      else if \<not> rgb then error_2 [Decoding_Frame, Rendering_Frame]
      else if \<not> mutex then error_3 [Decoding_Frame, Rendering_Frame, Rgb_Frame]
      else let live = [Decoding_Frame, Rendering_Frame, Rgb_Frame, Vb_Mutex] in
        if render_expired_frames then
          (case cond of
             True # _ \<Rightarrow> (True, live @ [Vb_Cond])
           | _ \<Rightarrow> error_2 (removeAll Vb_Mutex live))
        else (True, live))"
| "VideoBuffer_Init render_expired_frames _ = (False, [])"

definition VideoBuffer_Destroy :: "bool \<Rightarrow> vb_object list \<Rightarrow> vb_object list" where
  "VideoBuffer_Destroy render_expired_frames live =
     (let live = (if render_expired_frames then removeAll Vb_Cond live else live);
          live = removeAll Vb_Mutex live;
          live = removeAll Rendering_Frame live;
          live = removeAll Decoding_Frame live
      in removeAll Rgb_Frame live)"

definition vb_start :: "bool \<Rightarrow> FpsCounter \<Rightarrow> VideoBuffer" where
  "vb_start render_expired_frames fps = \<lparr>vb_decoding_frame = 0, vb_rendering_frame = 1,
     vb_render_expired_frames = render_expired_frames, vb_interrupted = False,
     vb_rendering_frame_consumed = True, vb_fps = fps, vb_frame_number = 0, vb_picture = (\<lambda>_. 0)\<rparr>"

subsection \<open>The exchange\<close>

definition SwapFrames :: "VideoBuffer \<Rightarrow> VideoBuffer" where
  "SwapFrames b = (let tmp = vb_decoding_frame b in
     b\<lparr>vb_decoding_frame := vb_rendering_frame b, vb_rendering_frame := tmp\<rparr>)"

text \<open>
  Offering waits while expired frames must be rendered and the current one is not consumed; the
  result is \<^term>\<open>None\<close> then, and the step is not possible.
\<close>

definition OfferDecodedFrame :: "u32 \<Rightarrow> VideoBuffer \<Rightarrow> (bool \<times> VideoBuffer) option" where
  "OfferDecodedFrame now b =
     (if vb_render_expired_frames b \<and> \<not> vb_rendering_frame_consumed b \<and> \<not> vb_interrupted b then None
      else
        let b = (if \<not> vb_render_expired_frames b \<and> \<not> vb_rendering_frame_consumed b
                 then b\<lparr>vb_fps := AddSkippedFrame now (vb_fps b)\<rparr> else b);
            b = SwapFrames b;
            previous_frame_skipped = (\<not> vb_rendering_frame_consumed b)
        in Some (previous_frame_skipped, b\<lparr>vb_rendering_frame_consumed := False\<rparr>))"

definition ConsumeRenderedFrame :: "u32 \<Rightarrow> VideoBuffer \<Rightarrow> (frame \<times> VideoBuffer) option" where
  "ConsumeRenderedFrame now b = do {
     c_assert (\<not> vb_rendering_frame_consumed b);
     let b = b\<lparr>vb_rendering_frame_consumed := True\<rparr>;
     let b = b\<lparr>vb_fps := AddRenderedFrame now (vb_fps b)\<rparr>;
     Some (vb_rendering_frame b, b)
   }"

definition VideoBuffer_Interrupt :: "VideoBuffer \<Rightarrow> VideoBuffer" where
  "VideoBuffer_Interrupt b = (if vb_render_expired_frames b then b\<lparr>vb_interrupted := True\<rparr> else b)"

subsection \<open>The decoder\<close>

text \<open>
  The contexts of the decoder: \<open>d_ctx\<close> and \<open>d_cv_ctx\<close> tell whether they are allocated, \<open>d_sws\<close>
  whether the scaling context and the RGB buffer exist.
\<close>

record Decoder =
  d_ctx :: bool
  d_cv_ctx :: bool
  d_sws :: bool
  d_vb :: VideoBuffer
  d_new_frame_events :: nat
  d_opencv_events :: nat

definition Decoder_Init :: "VideoBuffer \<Rightarrow> Decoder \<Rightarrow> Decoder" where
  "Decoder_Init vb d = d\<lparr>d_vb := vb, d_sws := False\<rparr>"

text \<open>The arguments: which allocations and which openings of the codec succeed.\<close>

definition Decoder_Open :: "bool \<Rightarrow> bool \<Rightarrow> bool \<Rightarrow> bool \<Rightarrow> Decoder \<Rightarrow> bool \<times> Decoder" where
  "Decoder_Open alloc alloc_cv open open_cv d =
     (let d = d\<lparr>d_ctx := alloc\<rparr> in
      if \<not> d_ctx d then (False, d)
      else let d = d\<lparr>d_cv_ctx := alloc_cv\<rparr> in
        if \<not> d_cv_ctx d then (False, d)
        else if \<not> open then (False, d\<lparr>d_ctx := False\<rparr>)
        else if \<not> open_cv then (False, d\<lparr>d_ctx := False, d_cv_ctx := False\<rparr>)
        else (True, d))"

definition Decoder_Close :: "Decoder \<Rightarrow> Decoder" where
  "Decoder_Close d = d\<lparr>d_ctx := False, d_cv_ctx := False, d_sws := False\<rparr>"

definition PushFrame :: "u32 \<Rightarrow> Decoder \<Rightarrow> Decoder option" where
  "PushFrame now d = do {
     (previous_frame_skipped, b) \<leftarrow> OfferDecodedFrame now (d_vb d);
     let d = d\<lparr>d_vb := b\<rparr>;
     if previous_frame_skipped then Some d
     else Some (d\<lparr>d_new_frame_events := d_new_frame_events d + 1, d_opencv_events := d_opencv_events d + 1\<rparr>)
   }"

definition AVERROR_EAGAIN :: int where
  "AVERROR_EAGAIN = - 11"

text \<open>
  \<open>send_ret\<close> and \<open>recv_ret\<close> are what sending the packet and receiving a frame return, \<open>picture\<close>
  what the codec writes into the decoding frame, \<open>number\<close> its frame number, and \<open>sws_ok\<close> whether
  a scaling context is obtained.
\<close>

definition Decoder_Push ::
  "int \<Rightarrow> int \<Rightarrow> nat \<Rightarrow> nat \<Rightarrow> bool \<Rightarrow> u32 \<Rightarrow> Decoder \<Rightarrow> (bool \<times> Decoder) option" where
  "Decoder_Push send_ret recv_ret picture number sws_ok now d =
     (if send_ret < 0 then Some (False, d)
      else if recv_ret = 0 then
        let d = d\<lparr>d_vb := (d_vb d)\<lparr>vb_picture := (vb_picture (d_vb d))(vb_decoding_frame (d_vb d) := picture)\<rparr>\<rparr> in
        if \<not> d_sws d \<and> \<not> sws_ok then Some (False, d\<lparr>d_ctx := False, d_cv_ctx := False\<rparr>)
        else do {
          let d = d\<lparr>d_sws := True, d_vb := (d_vb d)\<lparr>vb_frame_number := number\<rparr>\<rparr>;
          d \<leftarrow> PushFrame now d;
          Some (True, d)
        }
      else if recv_ret \<noteq> AVERROR_EAGAIN then Some (False, d)
      else Some (True, d))"

definition Decoder_Interrupt :: "Decoder \<Rightarrow> Decoder" where
  "Decoder_Interrupt d = d\<lparr>d_vb := VideoBuffer_Interrupt (d_vb d)\<rparr>"

subsection \<open>Decoder and renderer together\<close>

text \<open>
  The two threads: the decoder pushes packets, the main thread takes a posted event and consumes
  the frame, and anybody interrupts. The history holds the pictures offered and rendered.
\<close>

record video_sys =
  vs_dec :: Decoder
  vs_offered :: "nat list"
  vs_rendered :: "nat list"

definition video_push :: "int \<Rightarrow> int \<Rightarrow> nat \<Rightarrow> nat \<Rightarrow> bool \<Rightarrow> u32 \<Rightarrow> video_sys \<Rightarrow> video_sys option" where
  "video_push send_ret recv_ret picture number sws_ok now s = do {
     (ok, d) \<leftarrow> Decoder_Push send_ret recv_ret picture number sws_ok now (vs_dec s);
     Some (s\<lparr>vs_dec := d,
        vs_offered := vs_offered s
          @ (if 0 \<le> send_ret \<and> recv_ret = 0 \<and> (d_sws (vs_dec s) \<or> sws_ok) then [picture] else [])\<rparr>)
   }"

definition video_consume :: "u32 \<Rightarrow> video_sys \<Rightarrow> video_sys option" where
  "video_consume now s =
     (let d = vs_dec s; d = d\<lparr>d_new_frame_events := d_new_frame_events d - 1\<rparr> in do {
        (f, b) \<leftarrow> ConsumeRenderedFrame now (d_vb d);
        Some (s\<lparr>vs_dec := d\<lparr>d_vb := b\<rparr>, vs_rendered := vs_rendered s @ [vb_picture b f]\<rparr>)
      })"

inductive video_step :: "video_sys \<Rightarrow> video_sys \<Rightarrow> bool" where
  decode: "video_push sr rr picture number ok now s = Some s' \<Longrightarrow> video_step s s'"
| render: "0 < d_new_frame_events (vs_dec s) \<Longrightarrow> video_consume now s = Some s' \<Longrightarrow> video_step s s'"
| interrupt: "video_step s (s\<lparr>vs_dec := Decoder_Interrupt (vs_dec s)\<rparr>)"

definition video_start :: "bool \<Rightarrow> FpsCounter \<Rightarrow> video_sys" where
  "video_start render_expired_frames fps =
     \<lparr>vs_dec = \<lparr>d_ctx = True, d_cv_ctx = True, d_sws = False, d_vb = vb_start render_expired_frames fps,
        d_new_frame_events = 0, d_opencv_events = 0\<rparr>, vs_offered = [], vs_rendered = []\<rparr>"

text \<open>
  The invariant: the two frames differ; exactly one event is pending when the frame offered last
  has not been consumed, and it is that picture the renderer will get; what has been rendered is
  a subsequence of what was offered, and all of it but the pending picture when expired frames
  are rendered and nobody interrupted.
\<close>

definition offered_before :: "video_sys \<Rightarrow> nat list" where
  "offered_before s =
     (if vb_rendering_frame_consumed (d_vb (vs_dec s)) then vs_offered s else butlast (vs_offered s))"

definition video_inv :: "bool \<Rightarrow> video_sys \<Rightarrow> bool" where
  "video_inv render_expired_frames s \<longleftrightarrow>
     (let b = d_vb (vs_dec s) in
      vb_render_expired_frames b = render_expired_frames \<and>
      vb_decoding_frame b \<noteq> vb_rendering_frame b \<and>
      d_new_frame_events (vs_dec s) = (if vb_rendering_frame_consumed b then 0 else 1) \<and>
      (\<not> vb_rendering_frame_consumed b \<longrightarrow>
         vs_offered s \<noteq> [] \<and> vb_picture b (vb_rendering_frame b) = last (vs_offered s)) \<and>
      subseq (vs_rendered s) (offered_before s) \<and>
      (render_expired_frames \<and> \<not> vb_interrupted b \<longrightarrow> vs_rendered s = offered_before s))"

lemma video_inv_start: "video_inv r (video_start r fps)"
  by (simp add: video_inv_def video_start_def vb_start_def offered_before_def)

lemma subseq_butlast: "subseq xs (butlast ys) \<Longrightarrow> subseq xs ys"
  by (metis append_butlast_last_id list_emb_prefix butlast.simps(1))

text \<open>What a decoded picture does to the buffer, when offering it does not wait.\<close>

lemma Decoder_Push_frame:
  assumes "0 \<le> sr" and "d_sws d \<or> ok" and "b = d_vb d"
  shows "case Decoder_Push sr 0 picture number ok now d of
      None \<Rightarrow> vb_render_expired_frames b \<and> \<not> vb_rendering_frame_consumed b \<and> \<not> vb_interrupted b
    | Some (r, d') \<Rightarrow>
        \<not> (vb_render_expired_frames b \<and> \<not> vb_rendering_frame_consumed b \<and> \<not> vb_interrupted b) \<and> r \<and>
        vb_render_expired_frames (d_vb d') = vb_render_expired_frames b \<and>
        vb_interrupted (d_vb d') = vb_interrupted b \<and>
        vb_decoding_frame (d_vb d') = vb_rendering_frame b \<and>
        vb_rendering_frame (d_vb d') = vb_decoding_frame b \<and>
        \<not> vb_rendering_frame_consumed (d_vb d') \<and>
        vb_picture (d_vb d') = (vb_picture b)(vb_decoding_frame b := picture) \<and>
        d_new_frame_events d' = d_new_frame_events d + (if vb_rendering_frame_consumed b then 1 else 0)"
  using assms
  by (cases "vb_rendering_frame_consumed b"; cases "vb_render_expired_frames b"; cases "vb_interrupted b")
    (auto simp: Decoder_Push_def PushFrame_def OfferDecodedFrame_def SwapFrames_def Let_def)

lemma decode_inv:
  assumes inv: "video_inv r s" and p: "video_push sr rr picture number ok now s = Some s'"
  shows "video_inv r s'"
proof -
  obtain k d where d: "Decoder_Push sr rr picture number ok now (vs_dec s) = Some (k, d)"
    and s': "s' = s\<lparr>vs_dec := d, vs_offered := vs_offered s
        @ (if 0 \<le> sr \<and> rr = 0 \<and> (d_sws (vs_dec s) \<or> ok) then [picture] else [])\<rparr>"
    using p by (auto simp: video_push_def bind_Some_iff)
  consider "sr < 0" | "0 \<le> sr" "rr \<noteq> 0" | "0 \<le> sr" "rr = 0" "\<not> d_sws (vs_dec s)" "\<not> ok"
    | "0 \<le> sr" "rr = 0" "d_sws (vs_dec s) \<or> ok" by linarith
  then show ?thesis
  proof cases
    case 4
    define b where "b = d_vb (vs_dec s)"
    have off: "vs_offered s' = vs_offered s @ [picture]" "vs_dec s' = d" "vs_rendered s' = vs_rendered s"
      using 4 by (simp_all add: s')
    note f = Decoder_Push_frame [OF 4(1,3) b_def, of picture number now, unfolded 4(2) [symmetric] d
        option.case prod.case]
    show ?thesis
    proof (cases "vb_rendering_frame_consumed b")
      case True
      with f inv show ?thesis
        by (simp add: video_inv_def Let_def b_def [symmetric] off offered_before_def)
    next
      case False
      with f inv show ?thesis
        by (simp add: video_inv_def Let_def b_def [symmetric] off offered_before_def subseq_butlast) auto
    qed
  qed (use d s' inv in \<open>auto simp: Decoder_Push_def video_inv_def offered_before_def Let_def split: if_splits\<close>)
qed

lemma render_inv:
  assumes inv: "video_inv r s" and e: "0 < d_new_frame_events (vs_dec s)"
  shows "\<exists>s'. video_consume now s = Some s' \<and> video_inv r s' \<and>
    vs_rendered s' = vs_rendered s @ [last (vs_offered s)]"
proof -
  have nc: "\<not> vb_rendering_frame_consumed (d_vb (vs_dec s))"
    using inv e by (auto simp: video_inv_def Let_def split: if_splits)
  then have o: "vs_offered s = butlast (vs_offered s) @ [last (vs_offered s)]"
    using inv by (simp add: video_inv_def Let_def)
  have sub: "subseq (vs_rendered s @ [last (vs_offered s)]) (vs_offered s)"
  proof -
    have "subseq (vs_rendered s) (butlast (vs_offered s))"
      using inv nc by (simp add: video_inv_def Let_def offered_before_def)
    then have "subseq (vs_rendered s @ [last (vs_offered s)]) (butlast (vs_offered s) @ [last (vs_offered s)])"
      by (rule list_emb_append_mono) simp
    then show ?thesis using o by simp
  qed
  show ?thesis
    using inv nc sub o by (auto simp: video_consume_def ConsumeRenderedFrame_def video_inv_def Let_def
        offered_before_def)
qed

lemma video_step_inv: "video_step s s' \<Longrightarrow> video_inv r s \<Longrightarrow> video_inv r s'"
proof (induction rule: video_step.induct)
  case (decode sr rr picture number ok now s s')
  then show ?case by (blast intro: decode_inv)
next
  case (render s now s')
  with render_inv [of r s now] show ?case by auto
next
  case (interrupt s)
  then show ?case
    by (auto simp: video_inv_def Decoder_Interrupt_def VideoBuffer_Interrupt_def offered_before_def Let_def)
qed

lemma video_reachable_inv:
  "video_step\<^sup>*\<^sup>* (video_start r fps) s \<Longrightarrow> video_inv r s"
  by (induction rule: rtranclp_induct) (auto intro: video_inv_start video_step_inv)

subsection \<open>Properties\<close>

text \<open>C15. Whatever the order in which the decoder pushes packets, the renderer takes its events and
  the buffer is interrupted, the decoder never writes the frame the renderer reads, the pictures
  rendered are among those offered and in their order, the assertion of \<open>ConsumeRenderedFrame\<close>
  holds whenever an event is pending and the picture rendered is the latest one offered; and when
  expired frames are rendered and nobody interrupted, no picture is lost: at most the last one is
  still to be rendered.\<close>

theorem video_exchange:
  assumes "video_step\<^sup>*\<^sup>* (video_start r fps) s"
  shows "vb_decoding_frame (d_vb (vs_dec s)) \<noteq> vb_rendering_frame (d_vb (vs_dec s)) \<and>
    subseq (vs_rendered s) (vs_offered s) \<and>
    (0 < d_new_frame_events (vs_dec s) \<longrightarrow>
      (\<exists>s'. video_consume now s = Some s' \<and> vs_rendered s' = vs_rendered s @ [last (vs_offered s)])) \<and>
    (r \<and> \<not> vb_interrupted (d_vb (vs_dec s)) \<longrightarrow>
      vs_offered s = vs_rendered s \<or> (\<exists>p. vs_offered s = vs_rendered s @ [p]))"
proof -
  have inv: "video_inv r s" by (rule video_reachable_inv [OF assms])
  then have "subseq (vs_rendered s) (offered_before s)" by (simp add: video_inv_def Let_def)
  then have sub: "subseq (vs_rendered s) (vs_offered s)"
    by (cases "vb_rendering_frame_consumed (d_vb (vs_dec s))")
      (simp_all add: offered_before_def subseq_butlast)
  have lossless: "vs_offered s = vs_rendered s \<or> (\<exists>p. vs_offered s = vs_rendered s @ [p])"
    if "r" "\<not> vb_interrupted (d_vb (vs_dec s))"
  proof (cases "vb_rendering_frame_consumed (d_vb (vs_dec s))")
    case True
    with inv that show ?thesis by (simp add: video_inv_def Let_def offered_before_def)
  next
    case False
    with inv that have "vs_rendered s = butlast (vs_offered s)" and "vs_offered s \<noteq> []"
      by (simp_all add: video_inv_def Let_def offered_before_def)
    then have "vs_offered s = vs_rendered s @ [last (vs_offered s)]" by (metis append_butlast_last_id)
    then show ?thesis by metis
  qed
  have "vb_decoding_frame (d_vb (vs_dec s)) \<noteq> vb_rendering_frame (d_vb (vs_dec s))"
    using inv by (simp add: video_inv_def Let_def)
  moreover have "\<exists>s'. video_consume now s = Some s' \<and> vs_rendered s' = vs_rendered s @ [last (vs_offered s)]"
    if "0 < d_new_frame_events (vs_dec s)"
    using render_inv [OF inv that, of now] by metis
  ultimately show ?thesis using sub lossless by simp
qed

theorem video_exchange_witness:
  "\<exists>s. video_step\<^sup>*\<^sup>* (video_start True \<lparr>fc_started = False, fc_interrupted = False, fc_stopped = False,
       fc_thread = False, fc_rendered = 0, fc_skipped = 0, fc_next = 0, fc_log = []\<rparr>) s \<and>
     (\<exists>s'. video_consume 5 s = Some s' \<and> vs_rendered s' = [] @ [last [7]])"
proof -
  let ?fps = "\<lparr>fc_started = False, fc_interrupted = False, fc_stopped = False,
       fc_thread = False, fc_rendered = 0, fc_skipped = 0, fc_next = 0, fc_log = []\<rparr>"
  obtain s where p: "video_push 0 0 7 1 True 4 (video_start True ?fps) = Some s"
    and e: "0 < d_new_frame_events (vs_dec s)" "vs_rendered s = []" "vs_offered s = [7]"
    by (simp add: video_push_def Decoder_Push_def PushFrame_def OfferDecodedFrame_def SwapFrames_def
        video_start_def vb_start_def Let_def)
  have r: "video_step\<^sup>*\<^sup>* (video_start True ?fps) s" by (rule r_into_rtranclp) (rule video_step.decode [OF p])
  with video_exchange [OF r, of 5] e show ?thesis by auto
qed

text \<open>What a failed initialisation leaves behind: nothing, except that the RGB frame is leaked
  when the condition variable is the call that fails (its error label frees the two other frames
  only). Destroying a buffer that was initialised releases everything.\<close>

theorem video_init_leaks:
  "fst (VideoBuffer_Init expired [dec, ren, rgb, mutex, cond]) =
     (dec \<and> ren \<and> rgb \<and> mutex \<and> \<not> (expired \<and> \<not> cond)) \<and>
   (let (ok, live) = VideoBuffer_Init expired [dec, ren, rgb, mutex, cond] in
      if ok then live \<noteq> [] \<and> VideoBuffer_Destroy expired live = []
      else live = (if dec \<and> ren \<and> rgb \<and> mutex then [Rgb_Frame] else []))"
  by (cases dec; cases ren; cases rgb; cases mutex; cases cond; cases expired)
    (simp_all add: VideoBuffer_Destroy_def)

end
