(* ===== verification/Recorder.thy ===== *)
theory Recorder
  imports Common Queue "HOL-Library.Sublist"
begin

section \<open>Recording the video to a file (src/src/video/recorder.cpp)\<close>

text \<open>
  The recorder thread takes the packets the stream pushes, gives each the duration that the next
  packet reveals, and hands it to the muxer. The packets wait in the linked queue of
  \<^theory_text>\<open>Queue\<close>, under the actor's mutex and condition variable. The muxer is not code of the
  repository: whether a call of it succeeds is an argument of the operation that makes it, and
  the rescaling of a packet's time stamps is the argument \<open>rescale\<close>. What the muxer is given is
  kept in \<open>rc_extradata\<close> and \<open>rc_written\<close>; \<open>rc_pushed\<close> is the history of the accepted packets.
\<close>

definition AV_NOPTS_VALUE :: int where
  "AV_NOPTS_VALUE = - (2 ^ 63)"

record AVPacket =
  pk_pts :: int
  pk_dts :: int
  pk_duration :: int
  pk_flags :: nat
  pk_data :: "u8 list"

datatype RecordFormat = RECORDER_FORMAT_AUTO | RECORDER_FORMAT_MP4 | RECORDER_FORMAT_MKV

text \<open>Where the thread is: at the head of its loop, asleep, with a packet in its hands, about to
  write the last one, about to give up, or at its end.\<close>

datatype recorder_pc = R_Loop | R_Sleep | R_Process AVPacket | R_Finish | R_Fail | R_Done

record Recorder =
  rc_filename :: string
  rc_format :: RecordFormat
  rc_declared_frame_size :: Size
  rc_header_written :: bool
  rc_failed :: bool
  rc_stopped :: bool
  rc_queue :: "AVPacket queue"
  rc_previous :: "AVPacket option"
  rc_held :: nat
  rc_pc :: recorder_pc
  rc_ctx :: bool
  rc_pb :: bool
  rc_extradata :: "u8 list option"
  rc_written :: "AVPacket list"
  rc_trailer :: bool
  rc_pushed :: "AVPacket list"

subsection \<open>Initialisation, opening and closing\<close>

datatype rc_object = Rc_Filename | Rc_Mutex | Rc_Cond

text \<open>\<open>dup\<close>, \<open>mutex\<close> and \<open>cond\<close> tell which of the three allocations succeed.\<close>

definition Recorder_Init ::
  "bool \<Rightarrow> bool \<Rightarrow> bool \<Rightarrow> string \<Rightarrow> RecordFormat \<Rightarrow> Size \<Rightarrow> Recorder \<Rightarrow> bool \<times> rc_object list \<times> Recorder" where
  "Recorder_Init dup mutex cond filename format frame_size r =
     (if \<not> dup then (False, [], r)
      else let live = [Rc_Filename]; r = r\<lparr>rc_filename := filename\<rparr> in
        if \<not> mutex then (False, removeAll Rc_Filename live, r)
        else let live = Rc_Mutex # live in
          if \<not> cond then (False, removeAll Rc_Filename (removeAll Rc_Mutex live), r)
          else (True, Rc_Cond # live,
                r\<lparr>rc_queue := queue_init (rc_queue r), rc_stopped := False, rc_failed := False,
                  rc_format := format, rc_declared_frame_size := frame_size, rc_header_written := False,
                  rc_previous := None\<rparr>))"

definition Recorder_Destroy :: "rc_object list \<Rightarrow> rc_object list" where
  "Recorder_Destroy live = removeAll Rc_Filename (removeAll Rc_Mutex (removeAll Rc_Cond live))"

definition RecorderGetFormatName :: "RecordFormat \<Rightarrow> string option" where
  "RecorderGetFormatName format = (case format of
     RECORDER_FORMAT_MP4 \<Rightarrow> Some ''mp4''
   | RECORDER_FORMAT_MKV \<Rightarrow> Some ''matroska''
   | _ \<Rightarrow> None)"

text \<open>The muxers of the library, in the order its iterator yields them.\<close>

fun FindMuxer :: "string list \<Rightarrow> string \<Rightarrow> string option" where
  "FindMuxer [] name = None"
| "FindMuxer (oformat # oformats) name = (if oformat = name then Some oformat else FindMuxer oformats name)"

definition Recorder_Open :: "string list \<Rightarrow> bool \<Rightarrow> bool \<Rightarrow> bool \<Rightarrow> Recorder \<Rightarrow> (bool \<times> Recorder) option" where
  "Recorder_Open muxers alloc new_stream opened r = do {
     let format_name = RecorderGetFormatName (rc_format r);
     c_assert (format_name \<noteq> None);
     name \<leftarrow> format_name;
     if FindMuxer muxers name = None then Some (False, r)
     else if \<not> alloc then Some (False, r\<lparr>rc_ctx := False\<rparr>)
     else
       let r = r\<lparr>rc_ctx := True\<rparr> in
       if \<not> new_stream then Some (False, r\<lparr>rc_ctx := False\<rparr>)
       else if \<not> opened then Some (False, r\<lparr>rc_ctx := False\<rparr>)
       else Some (True, r\<lparr>rc_pb := True\<rparr>)
   }"

definition Recorder_Close :: "bool \<Rightarrow> Recorder \<Rightarrow> Recorder" where
  "Recorder_Close trailer r =
     (let r = (if rc_header_written r
               then let r = r\<lparr>rc_trailer := trailer\<rparr> in if \<not> trailer then r\<lparr>rc_failed := True\<rparr> else r
               else r\<lparr>rc_failed := True\<rparr>)
      in r\<lparr>rc_pb := False, rc_ctx := False\<rparr>)"

subsection \<open>Writing a packet\<close>

definition WriteHeader :: "bool \<Rightarrow> bool \<Rightarrow> AVPacket \<Rightarrow> Recorder \<Rightarrow> bool \<times> Recorder" where
  "WriteHeader alloc header packet r =
     (if \<not> alloc then (False, r)
      else let r = r\<lparr>rc_extradata := Some (pk_data packet)\<rparr> in
        if \<not> header then (False, r) else (True, r))"

definition RescalePacket :: "(AVPacket \<Rightarrow> AVPacket) \<Rightarrow> AVPacket \<Rightarrow> AVPacket" where
  "RescalePacket rescale packet = rescale packet"

definition Recorder_Write ::
  "(AVPacket \<Rightarrow> AVPacket) \<Rightarrow> bool \<Rightarrow> bool \<Rightarrow> bool \<Rightarrow> AVPacket \<Rightarrow> Recorder \<Rightarrow> bool \<times> Recorder" where
  "Recorder_Write rescale alloc header write packet r =
     (if \<not> rc_header_written r then
        if pk_pts packet \<noteq> AV_NOPTS_VALUE then (False, r)
        else let (ok, r) = WriteHeader alloc header packet r in
          if \<not> ok then (False, r) else (True, r\<lparr>rc_header_written := True\<rparr>)
      else if pk_pts packet = AV_NOPTS_VALUE then (True, r)
      else let packet = RescalePacket rescale packet in
        if write then (True, r\<lparr>rc_written := rc_written r @ [packet]\<rparr>) else (False, r))"

subsection \<open>The thread and its clients\<close>

partial_function (option) RecorderQueueClear :: "AVPacket queue \<Rightarrow> AVPacket queue option" where
  "RecorderQueueClear q =
     (if queue_is_empty q then Some q
      else Option.bind (queue_get q) (\<lambda>(rec, q). RecorderQueueClear q))"

text \<open>
  \<open>rc_held\<close> counts how often the pushing thread still holds the mutex when its call has returned.
  SDL mutexes are recursive, so that thread goes on; the recorder thread waits for it. A packet is
  copied by two library calls, of which each can fail.
\<close>

definition RecordPacketNew :: "bool \<Rightarrow> bool \<Rightarrow> AVPacket \<Rightarrow> AVPacket option" where
  "RecordPacketNew alloc ref packet =
     (if \<not> alloc then None else if \<not> ref then None else Some packet)"

definition rc_signal :: "Recorder \<Rightarrow> Recorder" where
  "rc_signal r = (if rc_pc r = R_Sleep then r\<lparr>rc_pc := R_Loop\<rparr> else r)"

definition Recorder_Push :: "bool \<Rightarrow> bool \<Rightarrow> AVPacket \<Rightarrow> Recorder \<Rightarrow> (bool \<times> Recorder) option" where
  "Recorder_Push alloc ref packet r = do {
     let r = r\<lparr>rc_held := rc_held r + 1\<rparr>;
     c_assert (\<not> rc_stopped r);
     if rc_failed r then Some (False, r)
     else case RecordPacketNew alloc ref packet of
       None \<Rightarrow> Some (False, r)
     | Some rec \<Rightarrow> do {
         (_, q) \<leftarrow> queue_put (rc_queue r) rec;
         let r = rc_signal (r\<lparr>rc_queue := q, rc_pushed := rc_pushed r @ [packet]\<rparr>);
         Some (True, r\<lparr>rc_held := rc_held r - 1\<rparr>)
       }
   }"

definition Recorder_Stop :: "Recorder \<Rightarrow> Recorder" where
  "Recorder_Stop r = rc_signal (r\<lparr>rc_stopped := True\<rparr>)"

text \<open>\<open>Start\<close> creates the thread; \<open>Join\<close> returns when it has ended.\<close>

definition Recorder_Start :: "bool \<Rightarrow> Recorder \<Rightarrow> bool \<times> Recorder" where
  "Recorder_Start thread r = (if \<not> thread then (False, r) else (True, r\<lparr>rc_pc := R_Loop\<rparr>))"

definition Recorder_Join :: "Recorder \<Rightarrow> bool" where
  "Recorder_Join r \<longleftrightarrow> rc_pc r = R_Done"

text \<open>
  The duration of a packet that the next one reveals, and a turn of the thread: a critical
  section, or the work between two of them. At a critical section the thread waits while the
  mutex is held, which leaves the state as it is.
\<close>

definition checked_int64 :: "int \<Rightarrow> int option" where
  "checked_int64 i = (if - (2 ^ 63) \<le> i \<and> i < 2 ^ 63 then Some i else None)"

definition set_duration :: "AVPacket \<Rightarrow> AVPacket \<Rightarrow> AVPacket option" where
  "set_duration previous rec =
     (if pk_pts rec \<noteq> AV_NOPTS_VALUE \<and> pk_pts previous \<noteq> AV_NOPTS_VALUE
      then do {
        duration \<leftarrow> checked_int64 (pk_pts rec - pk_pts previous);
        Some (previous\<lparr>pk_duration := duration\<rparr>)
      }
      else Some previous)"

definition RunRecorder_turn ::
  "(AVPacket \<Rightarrow> AVPacket) \<Rightarrow> bool \<Rightarrow> bool \<Rightarrow> bool \<Rightarrow> Recorder \<Rightarrow> Recorder option" where
  "RunRecorder_turn rescale alloc header write r =
     (case rc_pc r of
        R_Loop \<Rightarrow>
          if 0 < rc_held r then Some r
          else if \<not> rc_stopped r \<and> queue_is_empty (rc_queue r) then Some (r\<lparr>rc_pc := R_Sleep\<rparr>)
          else if rc_stopped r \<and> queue_is_empty (rc_queue r) then Some (r\<lparr>rc_pc := R_Finish\<rparr>)
          else do {
            (rec, q) \<leftarrow> queue_get (rc_queue r);
            rec \<leftarrow> rec;
            Some (r\<lparr>rc_queue := q, rc_pc := R_Process rec\<rparr>)
          }
      | R_Finish \<Rightarrow>
          (case rc_previous r of
             Some last_rec \<Rightarrow>
               let last_rec = last_rec\<lparr>pk_duration := 100000\<rparr>;
                   (ok, r) = Recorder_Write rescale alloc header write last_rec r
               in Some (r\<lparr>rc_pc := R_Done\<rparr>)
           | None \<Rightarrow> Some (r\<lparr>rc_pc := R_Done\<rparr>))
      | R_Process rec \<Rightarrow>
          (let previous = rc_previous r; r = r\<lparr>rc_previous := Some rec\<rparr> in
           case previous of
             None \<Rightarrow> Some (r\<lparr>rc_pc := R_Loop\<rparr>)
           | Some previous \<Rightarrow> do {
               previous \<leftarrow> set_duration previous rec;
               let (ok, r) = Recorder_Write rescale alloc header write previous r;
               Some (r\<lparr>rc_pc := (if ok then R_Loop else R_Fail)\<rparr>)
             })
      | R_Fail \<Rightarrow>
          if 0 < rc_held r then Some r
          else do {
            q \<leftarrow> RecorderQueueClear (rc_queue r);
            Some (r\<lparr>rc_failed := True, rc_queue := q, rc_pc := R_Done\<rparr>)
          }
      | _ \<Rightarrow> Some r)"

text \<open>
  The time stamps that a received packet can have: none, or one whose sign bit is not set, as
  \<open>ReceivePacket\<close> asserts. With these the duration, a difference on \<^verbatim>\<open>int64_t\<close>, never overflows;
  \<open>lasting\<close> is the packet with it.
\<close>

definition time_ok :: "AVPacket \<Rightarrow> bool" where
  "time_ok p \<longleftrightarrow> pk_pts p = AV_NOPTS_VALUE \<or> 0 \<le> pk_pts p \<and> pk_pts p < 2 ^ 63"

definition lasting :: "AVPacket \<Rightarrow> AVPacket \<Rightarrow> AVPacket" where
  "lasting previous rec =
     (if pk_pts rec \<noteq> AV_NOPTS_VALUE \<and> pk_pts previous \<noteq> AV_NOPTS_VALUE
      then previous\<lparr>pk_duration := pk_pts rec - pk_pts previous\<rparr> else previous)"

lemma set_duration_ok: "time_ok previous \<Longrightarrow> time_ok rec \<Longrightarrow> set_duration previous rec = Some (lasting previous rec)"
  by (auto simp: set_duration_def lasting_def time_ok_def checked_int64_def)

text \<open>
  The steps of the system. The stream thread pushes packets as it receives them and, after its
  last push, stops; without \<open>faults\<close> every library call succeeds and the first packet is a
  configuration packet.
\<close>

inductive recorder_step :: "(AVPacket \<Rightarrow> AVPacket) \<Rightarrow> bool \<Rightarrow> Recorder \<Rightarrow> Recorder \<Rightarrow> bool"
  for rescale faults where
  rec_push: "\<not> rc_stopped r \<Longrightarrow> time_ok packet \<Longrightarrow>
      faults \<or> alloc \<and> ref \<and> (rc_pushed r = [] \<longrightarrow> pk_pts packet = AV_NOPTS_VALUE) \<Longrightarrow>
      Recorder_Push alloc ref packet r = Some (ok, r') \<Longrightarrow> recorder_step rescale faults r r'"
| rec_stop: "recorder_step rescale faults r (Recorder_Stop r)"
| rec_turn: "faults \<or> alloc \<and> header \<and> write \<Longrightarrow>
      RunRecorder_turn rescale alloc header write r = Some r' \<Longrightarrow> recorder_step rescale faults r r'"
| rec_spurious: "rc_pc r = R_Sleep \<Longrightarrow> recorder_step rescale faults r (r\<lparr>rc_pc := R_Loop\<rparr>)"

definition recorder_start :: "string \<Rightarrow> RecordFormat \<Rightarrow> Size \<Rightarrow> Recorder" where
  "recorder_start filename format frame_size =
     \<lparr>rc_filename = filename, rc_format = format, rc_declared_frame_size = frame_size,
      rc_header_written = False, rc_failed = False, rc_stopped = False, rc_queue = queue_new,
      rc_previous = None, rc_held = 0, rc_pc = R_Loop, rc_ctx = True, rc_pb = True,
      rc_extradata = None, rc_written = [], rc_trailer = False, rc_pushed = []\<rparr>"

subsection \<open>What a complete recording holds\<close>

fun timed :: "AVPacket list \<Rightarrow> AVPacket list" where
  "timed (p # q # ps) = lasting p q # timed (q # ps)"
| "timed _ = []"

definition finished :: "AVPacket list \<Rightarrow> AVPacket list" where
  "finished ps = (if ps = [] then [] else timed ps @ [(last ps)\<lparr>pk_duration := 100000\<rparr>])"

definition recorded :: "(AVPacket \<Rightarrow> AVPacket) \<Rightarrow> AVPacket list \<Rightarrow> AVPacket list" where
  "recorded rescale ws = map rescale (filter (\<lambda>p. pk_pts p \<noteq> AV_NOPTS_VALUE) (tl ws))"

definition written_as :: "(AVPacket \<Rightarrow> AVPacket) \<Rightarrow> AVPacket list \<Rightarrow> Recorder \<Rightarrow> bool" where
  "written_as rescale ws r \<longleftrightarrow>
     rc_header_written r = (ws \<noteq> []) \<and>
     (ws \<noteq> [] \<longrightarrow> pk_pts (hd ws) = AV_NOPTS_VALUE \<and> rc_extradata r = Some (pk_data (hd ws))) \<and>
     rc_written r = recorded rescale ws"

lemma pts_lasting [simp]: "pk_pts (lasting p q) = pk_pts p" "pk_data (lasting p q) = pk_data p"
  by (simp_all add: lasting_def)

lemma timed_snoc: "timed (ps @ [p, q]) = timed (ps @ [p]) @ [lasting p q]"
proof (induction ps)
  case (Cons a ps)
  then show ?case by (cases ps) auto
qed simp

lemma timed_snoc_last:
  assumes "ps \<noteq> []"
  shows "timed (ps @ [q]) = timed ps @ [lasting (last ps) q]"
proof -
  have ps: "ps = butlast ps @ [last ps]" using assms by simp
  have "timed (butlast ps @ [last ps, q]) = timed ps @ [lasting (last ps) q]"
    using timed_snoc [of "butlast ps" "last ps" q] assms by simp
  with ps show ?thesis by (metis append.assoc append_Cons append_Nil)
qed

lemma timed_single [simp]: "timed [p] = []"
  by simp

lemma finished_hd: "ps \<noteq> [] \<Longrightarrow> pk_pts (hd (finished ps)) = pk_pts (hd ps) \<and>
    pk_data (hd (finished ps)) = pk_data (hd ps) \<and> finished ps \<noteq> []"
  by (cases ps rule: timed.cases) (auto simp: finished_def)

lemma timed_append_prefix: "prefix (timed ps) (timed (ps @ qs))"
proof (induction qs rule: rev_induct)
  case (snoc q qs)
  then show ?case
    by (cases "ps @ qs = []") (auto simp: timed_snoc_last simp flip: append_assoc intro: prefix_order.trans)
qed simp

lemma prefix_tl: "prefix xs ys \<Longrightarrow> prefix (tl xs) (tl ys)"
  by (cases xs; cases ys) auto

lemma recorded_prefix:
  assumes "prefix xs ys"
  shows "prefix (recorded rescale xs) (recorded rescale ys)"
proof -
  from prefix_tl [OF assms] obtain zs where "tl ys = tl xs @ zs" by (auto simp: prefix_def)
  then show ?thesis by (simp add: recorded_def)
qed

lemma recorded_snoc:
  "ws \<noteq> [] \<Longrightarrow> recorded rescale (ws @ [p]) =
     recorded rescale ws @ (if pk_pts p = AV_NOPTS_VALUE then [] else [rescale p])"
  by (simp add: recorded_def)

lemma recorded_short [simp]: "recorded rescale [] = []" "recorded rescale [p] = []"
  by (simp_all add: recorded_def)

text \<open>Writing one more packet: it is written, or what was written stays.\<close>

lemma Recorder_Write_step:
  assumes w: "written_as rescale ws r" and e: "Recorder_Write rescale alloc header wr p r = (ok, r')"
  shows "prefix (rc_written r') (recorded rescale (ws @ [p]))"
    and "ok \<Longrightarrow> written_as rescale (ws @ [p]) r'"
    and "alloc \<Longrightarrow> header \<Longrightarrow> wr \<Longrightarrow> (ws = [] \<longrightarrow> pk_pts p = AV_NOPTS_VALUE) \<Longrightarrow> ok"
    and "rc_queue r' = rc_queue r" and "rc_pushed r' = rc_pushed r" and "rc_previous r' = rc_previous r"
    and "rc_stopped r' = rc_stopped r" and "rc_held r' = rc_held r" and "rc_failed r' = rc_failed r"
  using w e
  by (auto simp: Recorder_Write_def WriteHeader_def RescalePacket_def written_as_def recorded_snoc Let_def
      split: if_splits)

lemma RecorderQueueClear_empties:
  assumes "queue_inv q"
  shows "\<exists>q'. RecorderQueueClear q = Some q' \<and> queue_inv q' \<and> queue_items q' = []"
  using assms
proof (induction "queue_items q" arbitrary: q)
  case Nil
  then show ?case
    using lq.is_empty [OF Nil.prems] by (simp add: RecorderQueueClear.simps)
next
  case (Cons x xs)
  from lq.tke_some [OF Cons.prems Cons.hyps(2) [symmetric]] obtain q' where
    q': "queue_get q = Some (Some x, q')" "queue_inv q'" "queue_items q' = xs" by blast
  moreover have "\<not> queue_is_empty q"
    using lq.is_empty [OF Cons.prems] Cons.hyps(2) by (metis list.distinct(1))
  ultimately show ?case
    using Cons.hyps(1) [of q'] RecorderQueueClear.simps [of q] by simp
qed

subsection \<open>The invariant\<close>

text \<open>\<open>taken\<close> are the packets that became \<open>rc_previous\<close> in turn.\<close>

definition recorder_at :: "(AVPacket \<Rightarrow> AVPacket) \<Rightarrow> bool \<Rightarrow> AVPacket list \<Rightarrow> Recorder \<Rightarrow> bool" where
  "recorder_at rescale faults taken r \<longleftrightarrow>
     rc_previous r = (if taken = [] then None else Some (last taken)) \<and>
     (case rc_pc r of
        R_Process p \<Rightarrow> rc_pushed r = taken @ p # queue_items (rc_queue r) \<and> written_as rescale (timed taken) r
      | R_Finish \<Rightarrow> rc_stopped r \<and> rc_pushed r = taken \<and> written_as rescale (timed taken) r
      | R_Fail \<Rightarrow> faults \<and> (\<exists>more. rc_pushed r = taken @ more) \<and>
          prefix (rc_written r) (recorded rescale (timed taken))
      | R_Done \<Rightarrow>
          faults \<and> (\<exists>more. rc_pushed r = taken @ more) \<and>
            prefix (rc_written r) (recorded rescale (timed taken)) \<or>
          rc_stopped r \<and> rc_pushed r = taken \<and>
            prefix (rc_written r) (recorded rescale (finished taken)) \<and>
            (\<not> faults \<longrightarrow> written_as rescale (finished taken) r)
      | _ \<Rightarrow> rc_pushed r = taken @ queue_items (rc_queue r) \<and> written_as rescale (timed taken) r)"

definition recorder_inv :: "(AVPacket \<Rightarrow> AVPacket) \<Rightarrow> bool \<Rightarrow> Recorder \<Rightarrow> bool" where
  "recorder_inv rescale faults r \<longleftrightarrow>
     queue_inv (rc_queue r) \<and> (\<forall>p \<in> set (rc_pushed r). time_ok p) \<and>
     (rc_pc r = R_Sleep \<longrightarrow> queue_items (rc_queue r) = [] \<and> \<not> rc_stopped r) \<and>
     (\<not> faults \<longrightarrow> rc_held r = 0 \<and> \<not> rc_failed r \<and>
        (rc_pushed r \<noteq> [] \<longrightarrow> pk_pts (hd (rc_pushed r)) = AV_NOPTS_VALUE)) \<and>
     (\<exists>taken. recorder_at rescale faults taken r)"

lemma recorder_inv_start: "recorder_inv rescale faults (recorder_start filename format frame_size)"
  by (auto simp: recorder_inv_def recorder_start_def recorder_at_def written_as_def intro: exI [of _ "[]"])

lemma recorder_atI:
  "recorder_at rescale faults taken r \<Longrightarrow> \<exists>taken. recorder_at rescale faults taken r"
  by blast

text \<open>A packet is accepted: it is at the end of the queue, whatever the thread is doing.\<close>

lemma recorder_at_accept:
  assumes at: "recorder_at rescale faults taken r" and ns: "\<not> rc_stopped r"
    and q: "queue_items q = queue_items (rc_queue r) @ [p]"
  shows "recorder_at rescale faults taken (rc_signal (r\<lparr>rc_queue := q, rc_pushed := rc_pushed r @ [p]\<rparr>))"
  using at ns q
  by (cases "rc_pc r") (auto simp: recorder_at_def rc_signal_def written_as_def)

lemma recorder_at_held [simp]: "recorder_at rescale faults taken (r\<lparr>rc_held := n\<rparr>) = recorder_at rescale faults taken r"
  by (simp add: recorder_at_def written_as_def cong: recorder_pc.case_cong)

lemma rc_signal_fields [simp]:
  "rc_queue (rc_signal r) = rc_queue r" "rc_held (rc_signal r) = rc_held r" "rc_pushed (rc_signal r) = rc_pushed r"
  "rc_failed (rc_signal r) = rc_failed r" "rc_stopped (rc_signal r) = rc_stopped r" "rc_pc (rc_signal r) \<noteq> R_Sleep"
  by (simp_all add: rc_signal_def)

lemma Recorder_Push_result:
  assumes inv: "recorder_inv rescale faults r" and ns: "\<not> rc_stopped r"
  shows "\<exists>ok r'. Recorder_Push alloc ref p r = Some (ok, r') \<and>
    (if rc_failed r \<or> \<not> (alloc \<and> ref) then \<not> ok \<and> r' = r\<lparr>rc_held := rc_held r + 1\<rparr>
     else ok \<and> (\<exists>q. queue_inv q \<and> queue_items q = queue_items (rc_queue r) @ [p] \<and>
       r' = (rc_signal (r\<lparr>rc_queue := q, rc_pushed := rc_pushed r @ [p]\<rparr>))\<lparr>rc_held := rc_held r\<rparr>))"
proof -
  have "queue_inv (rc_queue r)" using inv by (simp add: recorder_inv_def)
  from lq.push_always [OF this, of p] obtain q where
    q: "queue_put (rc_queue r) p = Some (True, q)" "queue_inv q" "queue_items q = queue_items (rc_queue r) @ [p]"
    by blast
  then show ?thesis
    using ns by (auto simp: Recorder_Push_def RecordPacketNew_def Let_def rc_signal_def)
qed

lemma Recorder_Push_inv:
  assumes inv: "recorder_inv rescale faults r" and ns: "\<not> rc_stopped r" and time: "time_ok p"
    and good: "faults \<or> alloc \<and> ref \<and> (rc_pushed r = [] \<longrightarrow> pk_pts p = AV_NOPTS_VALUE)"
    and p: "Recorder_Push alloc ref p r = Some (ok, r')"
  shows "recorder_inv rescale faults r'"
proof (cases "rc_failed r \<or> \<not> (alloc \<and> ref)")
  case True
  then have r': "r' = r\<lparr>rc_held := rc_held r + 1\<rparr>"
    using Recorder_Push_result [OF inv ns, of alloc ref p] p by simp
  moreover have "faults" using True good inv by (auto simp: recorder_inv_def)
  ultimately show ?thesis using inv by (simp add: recorder_inv_def)
next
  case False
  then obtain q where q: "queue_inv q" "queue_items q = queue_items (rc_queue r) @ [p]"
    and r': "r' = (rc_signal (r\<lparr>rc_queue := q, rc_pushed := rc_pushed r @ [p]\<rparr>))\<lparr>rc_held := rc_held r\<rparr>"
    using Recorder_Push_result [OF inv ns, of alloc ref p] p by auto
  obtain taken where "recorder_at rescale faults taken r" using inv by (auto simp: recorder_inv_def)
  from recorder_at_accept [OF this ns q(2)] have "\<exists>taken. recorder_at rescale faults taken r'"
    unfolding r' recorder_at_held by (rule exI)
  moreover have "\<not> faults \<Longrightarrow> pk_pts (hd (rc_pushed r @ [p])) = AV_NOPTS_VALUE"
    using good inv by (cases "rc_pushed r") (auto simp: recorder_inv_def)
  ultimately show ?thesis using inv q time by (simp add: recorder_inv_def r')
qed

lemma Recorder_Stop_inv:
  assumes "recorder_inv rescale faults r"
  shows "recorder_inv rescale faults (Recorder_Stop r)"
proof -
  obtain taken where "recorder_at rescale faults taken r" using assms by (auto simp: recorder_inv_def)
  then have "recorder_at rescale faults taken (Recorder_Stop r)"
    by (cases "rc_pc r") (auto simp: recorder_at_def Recorder_Stop_def rc_signal_def written_as_def)
  with assms show ?thesis by (auto simp: recorder_inv_def Recorder_Stop_def)
qed

lemma recorder_critical:
  assumes inv: "recorder_inv rescale faults r" and pc: "rc_pc r = R_Loop"
  shows "\<exists>r'. RunRecorder_turn rescale alloc header wr r = Some r' \<and> recorder_inv rescale faults r' \<and>
    rc_pc r' = (if 0 < rc_held r then R_Loop
       else case queue_items (rc_queue r) of
         [] \<Rightarrow> if rc_stopped r then R_Finish else R_Sleep
       | p # ps \<Rightarrow> R_Process p) \<and>
    rc_stopped r' = rc_stopped r \<and> rc_held r' = rc_held r \<and> rc_pushed r' = rc_pushed r \<and>
    queue_items (rc_queue r') = (if 0 < rc_held r then queue_items (rc_queue r) else tl (queue_items (rc_queue r)))"
proof -
  have q: "queue_inv (rc_queue r)" using inv by (simp add: recorder_inv_def)
  obtain taken where at: "recorder_at rescale faults taken r" using inv by (auto simp: recorder_inv_def)
  show ?thesis
  proof (cases "0 < rc_held r")
    case True
    with inv pc show ?thesis by (simp add: RunRecorder_turn_def)
  next
    case False
    note held = this
    show ?thesis
    proof (cases "queue_items (rc_queue r)")
      case Nil
      let ?r = "r\<lparr>rc_pc := (if rc_stopped r then R_Finish else R_Sleep)\<rparr>"
      have "RunRecorder_turn rescale alloc header wr r = Some ?r"
        using pc held lq.is_empty [OF q] Nil by (simp add: RunRecorder_turn_def)
      moreover have "recorder_at rescale faults taken ?r"
        using at pc Nil by (auto simp: recorder_at_def written_as_def)
      ultimately show ?thesis using inv held Nil by (auto simp: recorder_inv_def)
    next
      case (Cons p ps)
      from lq.tke_some [OF q Cons] obtain q' where
        q': "queue_get (rc_queue r) = Some (Some p, q')" "queue_inv q'" "queue_items q' = ps" by blast
      let ?r = "r\<lparr>rc_queue := q', rc_pc := R_Process p\<rparr>"
      have "RunRecorder_turn rescale alloc header wr r = Some ?r"
        using pc held lq.is_empty [OF q] Cons q'(1) by (simp add: RunRecorder_turn_def)
      moreover have "recorder_at rescale faults taken ?r"
        using at pc Cons q'(3) by (auto simp: recorder_at_def written_as_def)
      ultimately show ?thesis using inv held Cons q' by (auto simp: recorder_inv_def)
    qed
  qed
qed

lemma recorder_process:
  assumes inv: "recorder_inv rescale faults r" and pc: "rc_pc r = R_Process p"
    and good: "faults \<or> alloc \<and> header \<and> wr"
  shows "\<exists>r'. RunRecorder_turn rescale alloc header wr r = Some r' \<and> recorder_inv rescale faults r' \<and>
    rc_pc r' \<in> {R_Loop, R_Fail} \<and> (\<not> faults \<longrightarrow> rc_pc r' = R_Loop) \<and>
    rc_stopped r' = rc_stopped r \<and> rc_held r' = rc_held r \<and> rc_pushed r' = rc_pushed r \<and>
    queue_items (rc_queue r') = queue_items (rc_queue r)"
proof -
  obtain taken where at: "recorder_at rescale faults taken r" using inv by (auto simp: recorder_inv_def)
  then have pushed: "rc_pushed r = taken @ p # queue_items (rc_queue r)"
    and w: "written_as rescale (timed taken) r"
    and prev: "rc_previous r = (if taken = [] then None else Some (last taken))"
    using pc by (auto simp: recorder_at_def)
  let ?r0 = "r\<lparr>rc_previous := Some p\<rparr>"
  show ?thesis
  proof (cases "taken = []")
    case True
    let ?r = "?r0\<lparr>rc_pc := R_Loop\<rparr>"
    have "RunRecorder_turn rescale alloc header wr r = Some ?r"
      using pc prev True by (simp add: RunRecorder_turn_def)
    moreover have "recorder_at rescale faults [p] ?r"
      using pushed w True by (auto simp: recorder_at_def written_as_def)
    ultimately show ?thesis using inv by (auto simp: recorder_inv_def)
  next
    case False
    let ?p = "lasting (last taken) p"
    obtain ok r1 where e: "Recorder_Write rescale alloc header wr ?p ?r0 = (ok, r1)" by fastforce
    have w0: "written_as rescale (timed taken) ?r0" using w by (simp add: written_as_def)
    note s = Recorder_Write_step [OF w0 e]
    let ?r = "r1\<lparr>rc_pc := (if ok then R_Loop else R_Fail)\<rparr>"
    have "last taken \<in> set (rc_pushed r)" "p \<in> set (rc_pushed r)" using pushed False by simp_all
    then have dur: "set_duration (last taken) p = Some ?p"
      using inv by (intro set_duration_ok) (simp_all add: recorder_inv_def)
    have turn: "RunRecorder_turn rescale alloc header wr r = Some ?r"
      using pc prev False e dur by (simp add: RunRecorder_turn_def)
    have timed: "timed (taken @ [p]) = timed taken @ [?p]" by (rule timed_snoc_last [OF False])
    have ok: "ok" if "\<not> faults"
    proof (rule s(3))
      show "timed taken = [] \<longrightarrow> pk_pts ?p = AV_NOPTS_VALUE"
      proof
        assume "timed taken = []"
        with False have "taken = [last taken]" by (cases taken rule: timed.cases) auto
        then have "hd (rc_pushed r) = last taken" using pushed False by (metis hd_append2 list.sel(1))
        with that inv pushed show "pk_pts ?p = AV_NOPTS_VALUE" by (auto simp: recorder_inv_def)
      qed
    qed (use good that in auto)
    have "recorder_at rescale faults (taken @ [p]) ?r"
    proof (cases ok)
      case True
      with s pushed show ?thesis by (auto simp: recorder_at_def timed written_as_def)
    next
      case no: False
      with ok have "faults" by blast
      with no s pushed show ?thesis by (auto simp: recorder_at_def timed)
    qed
    with turn s inv ok show ?thesis by (auto simp: recorder_inv_def)
  qed
qed

lemma recorder_finish:
  assumes inv: "recorder_inv rescale faults r" and pc: "rc_pc r = R_Finish"
    and good: "faults \<or> alloc \<and> header \<and> wr"
  shows "\<exists>r'. RunRecorder_turn rescale alloc header wr r = Some r' \<and> recorder_inv rescale faults r' \<and>
    rc_pc r' = R_Done \<and> rc_stopped r' \<and> rc_held r' = rc_held r \<and> rc_pushed r' = rc_pushed r"
proof -
  obtain taken where at: "recorder_at rescale faults taken r" using inv by (auto simp: recorder_inv_def)
  then have pushed: "rc_pushed r = taken" "rc_stopped r"
    and w: "written_as rescale (timed taken) r"
    and prev: "rc_previous r = (if taken = [] then None else Some (last taken))"
    using pc by (auto simp: recorder_at_def)
  show ?thesis
  proof (cases "taken = []")
    case True
    let ?r = "r\<lparr>rc_pc := R_Done\<rparr>"
    have "RunRecorder_turn rescale alloc header wr r = Some ?r"
      using pc prev True by (simp add: RunRecorder_turn_def)
    moreover have "recorder_at rescale faults taken ?r"
      using pushed w prev True by (auto simp: recorder_at_def written_as_def finished_def)
    ultimately show ?thesis using inv pushed by (auto simp: recorder_inv_def)
  next
    case False
    let ?p = "(last taken)\<lparr>pk_duration := 100000\<rparr>"
    obtain ok r1 where e: "Recorder_Write rescale alloc header wr ?p r = (ok, r1)" by fastforce
    note s = Recorder_Write_step [OF w e]
    let ?r = "r1\<lparr>rc_pc := R_Done\<rparr>"
    have turn: "RunRecorder_turn rescale alloc header wr r = Some ?r"
      using pc prev False e by (simp add: RunRecorder_turn_def)
    have fin: "finished taken = timed taken @ [?p]" using False by (simp add: finished_def)
    have ok: "ok" if "\<not> faults"
    proof (rule s(3))
      show "timed taken = [] \<longrightarrow> pk_pts ?p = AV_NOPTS_VALUE"
      proof
        assume "timed taken = []"
        with False have "taken = [last taken]" by (cases taken rule: timed.cases) auto
        then have "hd (rc_pushed r) = last taken" using pushed False by (metis list.sel(1))
        with that inv pushed False show "pk_pts ?p = AV_NOPTS_VALUE" by (auto simp: recorder_inv_def)
      qed
    qed (use good that in auto)
    have "recorder_at rescale faults taken ?r"
      using s pushed prev ok by (auto simp: recorder_at_def fin written_as_def)
    with turn s inv pushed show ?thesis by (auto simp: recorder_inv_def)
  qed
qed

lemma recorder_fail:
  assumes inv: "recorder_inv rescale faults r" and pc: "rc_pc r = R_Fail"
  shows "\<exists>r'. RunRecorder_turn rescale alloc header wr r = Some r' \<and> recorder_inv rescale faults r' \<and>
    rc_held r' = rc_held r \<and> rc_stopped r' = rc_stopped r \<and>
    (if 0 < rc_held r then r' = r else rc_pc r' = R_Done \<and> rc_failed r' \<and> queue_items (rc_queue r') = [])"
proof (cases "0 < rc_held r")
  case True
  with pc inv show ?thesis by (simp add: RunRecorder_turn_def)
next
  case False
  obtain taken where at: "recorder_at rescale faults taken r" using inv by (auto simp: recorder_inv_def)
  have "queue_inv (rc_queue r)" using inv by (simp add: recorder_inv_def)
  from RecorderQueueClear_empties [OF this] obtain q where
    q: "RecorderQueueClear (rc_queue r) = Some q" "queue_inv q" "queue_items q = []" by blast
  let ?r = "r\<lparr>rc_failed := True, rc_queue := q, rc_pc := R_Done\<rparr>"
  have "RunRecorder_turn rescale alloc header wr r = Some ?r"
    using pc False q by (simp add: RunRecorder_turn_def)
  moreover have "faults" and "recorder_at rescale faults taken ?r"
    using at pc by (auto simp: recorder_at_def)
  ultimately show ?thesis using q False inv by (auto simp: recorder_inv_def)
qed

lemma RunRecorder_turn_inv:
  assumes inv: "recorder_inv rescale faults r" and good: "faults \<or> alloc \<and> header \<and> wr"
  shows "\<exists>r'. RunRecorder_turn rescale alloc header wr r = Some r' \<and> recorder_inv rescale faults r' \<and>
    rc_held r' = rc_held r \<and> rc_stopped r' = rc_stopped r"
proof (cases "rc_pc r")
  case R_Loop
  with recorder_critical [OF inv, of alloc header wr] show ?thesis by metis
next
  case (R_Process p)
  from recorder_process [OF inv this good] show ?thesis by metis
next
  case R_Finish
  then have "rc_stopped r" using inv by (auto simp: recorder_inv_def recorder_at_def)
  with recorder_finish [OF inv R_Finish good] show ?thesis by metis
next
  case R_Fail
  with recorder_fail [OF inv, of alloc header wr] show ?thesis by metis
qed (use inv in \<open>simp_all add: RunRecorder_turn_def\<close>)

lemma recorder_step_inv:
  assumes "recorder_step rescale faults r r'" and "recorder_inv rescale faults r"
  shows "recorder_inv rescale faults r'"
  using assms
proof (induction rule: recorder_step.induct)
  case (rec_push r alloc ref packet ok r')
  then show ?case by (metis Recorder_Push_inv)
next
  case (rec_turn alloc hdr wr r r')
  then show ?case using RunRecorder_turn_inv by (metis option.inject)
next
  case (rec_spurious r)
  then obtain taken where "recorder_at rescale faults taken r" by (auto simp: recorder_inv_def)
  with rec_spurious have "recorder_at rescale faults taken (r\<lparr>rc_pc := R_Loop\<rparr>)"
    by (simp add: recorder_at_def written_as_def)
  with rec_spurious show ?case by (auto simp: recorder_inv_def)
qed (rule Recorder_Stop_inv)

lemma recorder_reachable_inv:
  assumes "(recorder_step rescale faults)\<^sup>*\<^sup>* (recorder_start filename format frame_size) r"
  shows "recorder_inv rescale faults r"
  using assms by (induction rule: rtranclp_induct) (auto intro: recorder_inv_start recorder_step_inv)

subsection \<open>The thread ends after a stop\<close>

fun recorder_turns :: "(AVPacket \<Rightarrow> AVPacket) \<Rightarrow> nat \<Rightarrow> Recorder \<Rightarrow> Recorder option" where
  "recorder_turns rescale 0 r = Some r"
| "recorder_turns rescale (Suc n) r =
     Option.bind (RunRecorder_turn rescale True True True r) (recorder_turns rescale n)"

lemma recorder_turns_end:
  assumes "recorder_inv rescale False r" and "rc_stopped r" and "rc_pc r = R_Loop"
  shows "\<exists>r'. recorder_turns rescale (2 * length (queue_items (rc_queue r)) + 2) r = Some r' \<and>
    recorder_inv rescale False r' \<and> rc_pc r' = R_Done \<and> rc_pushed r' = rc_pushed r"
  using assms
proof (induction "queue_items (rc_queue r)" arbitrary: r)
  case Nil
  then have held: "rc_held r = 0" by (simp add: recorder_inv_def)
  obtain r1 where r1: "RunRecorder_turn rescale True True True r = Some r1" "recorder_inv rescale False r1"
    "rc_pc r1 = R_Finish" "rc_pushed r1 = rc_pushed r"
    using recorder_critical [OF Nil.prems(1,3), of True True True] Nil held by auto
  obtain r2 where r2: "RunRecorder_turn rescale True True True r1 = Some r2" "recorder_inv rescale False r2"
    "rc_pc r2 = R_Done" "rc_pushed r2 = rc_pushed r1"
    using recorder_finish [OF r1(2,3), of True True True] by auto
  from r1 r2 Nil show ?case by (simp add: eval_nat_numeral)
next
  case (Cons p ps)
  have held: "rc_held r = 0" using Cons.prems(1) by (simp add: recorder_inv_def)
  have items: "queue_items (rc_queue r) = p # ps" using Cons.hyps(2) by simp
  from recorder_critical [OF Cons.prems(1,3), of True True True] items held Cons.prems(2) obtain r1 where
    r1: "RunRecorder_turn rescale True True True r = Some r1" "recorder_inv rescale False r1"
    "rc_pc r1 = R_Process p" "rc_pushed r1 = rc_pushed r" "rc_stopped r1" "queue_items (rc_queue r1) = ps"
    by auto
  from recorder_process [OF r1(2,3), of True True True] r1(5,6) obtain r2 where
    r2: "RunRecorder_turn rescale True True True r1 = Some r2" "recorder_inv rescale False r2"
    "rc_pc r2 = R_Loop" "rc_pushed r2 = rc_pushed r1" "rc_stopped r2" "queue_items (rc_queue r2) = ps"
    by auto
  from Cons.hyps(1) [OF r2(6) [symmetric] r2(2,5,3)] r2(4,6) r1(4) obtain r3 where
    "recorder_turns rescale (2 * length ps + 2) r2 = Some r3" "recorder_inv rescale False r3"
    "rc_pc r3 = R_Done" "rc_pushed r3 = rc_pushed r" by auto
  with r1(1) r2(1) show ?case unfolding items by simp
qed

text \<open>Also when its library calls failed before, if no push has kept the mutex.\<close>

lemma recorder_faulty_ends:
  assumes "recorder_inv rescale True r" and "rc_stopped r" and "rc_held r = 0" and "rc_pc r = R_Loop"
  shows "\<exists>n r'. recorder_turns rescale n r = Some r' \<and> Recorder_Join r'"
  using assms
proof (induction "queue_items (rc_queue r)" arbitrary: r)
  case Nil
  obtain r1 where r1: "RunRecorder_turn rescale True True True r = Some r1" "recorder_inv rescale True r1" "rc_pc r1 = R_Finish"
    using recorder_critical [OF Nil.prems(1,4), of True True True] Nil by auto
  obtain r2 where "RunRecorder_turn rescale True True True r1 = Some r2" "rc_pc r2 = R_Done"
    using recorder_finish [OF r1(2,3), of True True True] by auto
  with r1 show ?case by (intro exI [of _ "Suc (Suc 0)"]) (simp add: Recorder_Join_def)
next
  case (Cons p ps)
  have items: "queue_items (rc_queue r) = p # ps" using Cons.hyps(2) by simp
  from recorder_critical [OF Cons.prems(1,4), of True True True] items Cons.prems(2,3) obtain r1 where
    r1: "RunRecorder_turn rescale True True True r = Some r1" "recorder_inv rescale True r1"
    "rc_pc r1 = R_Process p" "rc_stopped r1" "rc_held r1 = 0" "queue_items (rc_queue r1) = ps"
    by auto
  from recorder_process [OF r1(2,3), of True True True] r1(4-6) obtain r2 where
    r2: "RunRecorder_turn rescale True True True r1 = Some r2" "recorder_inv rescale True r2"
    "rc_pc r2 \<in> {R_Loop, R_Fail}" "rc_stopped r2" "rc_held r2 = 0" "queue_items (rc_queue r2) = ps"
    by auto
  have "\<exists>n r'. recorder_turns rescale n r2 = Some r' \<and> Recorder_Join r'"
  proof (cases "rc_pc r2 = R_Loop")
    case True
    from Cons.hyps(1) [OF r2(6) [symmetric] r2(2,4,5) True] show ?thesis .
  next
    case False
    with r2(3) have "rc_pc r2 = R_Fail" by simp
    from recorder_fail [OF r2(2) this, of True True True] r2(5) obtain r3 where
      "RunRecorder_turn rescale True True True r2 = Some r3" "rc_pc r3 = R_Done" by auto
    then show ?thesis by (intro exI [of _ "Suc 0"]) (simp add: Recorder_Join_def)
  qed
  then obtain n r' where "recorder_turns rescale n r2 = Some r'" "Recorder_Join r'" by blast
  with r1(1) r2(1) show ?case by (intro exI [of _ "Suc (Suc n)"]) simp
qed

lemma recorder_done_written:
  assumes "recorder_inv rescale False r" and "rc_pc r = R_Done"
  shows "written_as rescale (finished (rc_pushed r)) r"
  using assms by (auto simp: recorder_inv_def recorder_at_def)

lemma recorder_stopped_ends:
  assumes inv: "recorder_inv rescale False r" and stop: "rc_stopped r"
  shows "\<exists>n r'. recorder_turns rescale n r = Some r' \<and> recorder_inv rescale False r' \<and> rc_pc r' = R_Done \<and>
    rc_pushed r' = rc_pushed r"
proof (cases "rc_pc r")
  case R_Loop
  from recorder_turns_end [OF inv stop this] show ?thesis by metis
next
  case R_Sleep
  with inv stop show ?thesis by (simp add: recorder_inv_def)
next
  case (R_Process p)
  from recorder_process [OF inv this, of True True True] stop obtain r1 where
    r1: "RunRecorder_turn rescale True True True r = Some r1" "recorder_inv rescale False r1"
    "rc_pc r1 = R_Loop" "rc_stopped r1" "rc_pushed r1 = rc_pushed r" by auto
  from recorder_turns_end [OF r1(2,4,3)] obtain n r2 where
    "recorder_turns rescale n r1 = Some r2" "recorder_inv rescale False r2" "rc_pc r2 = R_Done"
    "rc_pushed r2 = rc_pushed r" using r1(5) by metis
  with r1(1) have "recorder_turns rescale (Suc n) r = Some r2" by simp
  then show ?thesis
    using \<open>recorder_inv rescale False r2\<close> \<open>rc_pc r2 = R_Done\<close> \<open>rc_pushed r2 = rc_pushed r\<close> by metis
next
  case R_Finish
  from recorder_finish [OF inv this, of True True True] obtain r1 where
    r1: "RunRecorder_turn rescale True True True r = Some r1" "recorder_inv rescale False r1"
    "rc_pc r1 = R_Done" "rc_pushed r1 = rc_pushed r" by auto
  then have "recorder_turns rescale (Suc 0) r = Some r1" by simp
  with r1 show ?thesis by metis
next
  case R_Fail
  with inv show ?thesis by (auto simp: recorder_inv_def recorder_at_def)
next
  case R_Done
  have "recorder_turns rescale 0 r = Some r" by simp
  with inv R_Done show ?thesis by metis
qed

lemma Recorder_Push_effect:
  assumes "Recorder_Push alloc ref p r = Some (ok, r')"
  shows "rc_held r' = (if ok then rc_held r else rc_held r + 1)"
    and "rc_pc r' = (if ok \<and> rc_pc r = R_Sleep then R_Loop else rc_pc r)"
proof -
  show "rc_held r' = (if ok then rc_held r else rc_held r + 1)"
    using assms unfolding Recorder_Push_def Let_def
    by (cases "rc_failed r"; cases "RecordPacketNew alloc ref p"; cases "rc_stopped r") (auto simp: bind_Some_iff)
  show "rc_pc r' = (if ok \<and> rc_pc r = R_Sleep then R_Loop else rc_pc r)"
    using assms unfolding Recorder_Push_def Let_def
    by (cases "rc_failed r"; cases "RecordPacketNew alloc ref p"; cases "rc_stopped r")
      (auto simp: bind_Some_iff rc_signal_def)
qed

lemma Recorder_Write_held: "Recorder_Write rescale alloc header wr p r = (ok, r') \<Longrightarrow> rc_held r' = rc_held r"
  by (auto simp: Recorder_Write_def WriteHeader_def Let_def split: if_splits)

text \<open>While the mutex is held, the thread stops where it enters its next critical section.\<close>

lemma held_thread_waits:
  assumes "recorder_step rescale faults s t" and "0 < rc_held s \<and> rc_pc s \<notin> {R_Finish, R_Done}"
  shows "0 < rc_held t \<and> rc_pc t \<notin> {R_Finish, R_Done}"
  using assms
proof (cases rule: recorder_step.cases)
  case (rec_push alloc ref packet ok)
  with assms(2) Recorder_Push_effect [OF rec_push(4)] show ?thesis by auto
next
  case rec_stop
  with assms(2) show ?thesis by (auto simp: Recorder_Stop_def rc_signal_def)
next
  case (rec_turn alloc hdr wr)
  show ?thesis
  proof (cases "rc_pc s")
    case (R_Process p)
    show ?thesis
    proof (cases "rc_previous s")
      case None
      with R_Process rec_turn(2) assms(2) show ?thesis by (auto simp: RunRecorder_turn_def)
    next
      case (Some q)
      obtain d where d: "set_duration q p = Some d"
        using R_Process rec_turn(2) Some by (auto simp: RunRecorder_turn_def bind_Some_iff)
      obtain ok u where u: "Recorder_Write rescale alloc hdr wr d (s\<lparr>rc_previous := Some p\<rparr>) = (ok, u)" by fastforce
      have "t = u\<lparr>rc_pc := (if ok then R_Loop else R_Fail)\<rparr>"
        using R_Process rec_turn(2) Some d u by (simp add: RunRecorder_turn_def)
      with Recorder_Write_held [OF u] assms(2) show ?thesis by simp
    qed
  qed (use rec_turn(2) assms(2) in \<open>auto simp: RunRecorder_turn_def\<close>)
qed auto

lemma finished_prefix: "prefix (timed ps) (finished (ps @ qs))"
proof -
  have "prefix (timed (ps @ qs)) (finished (ps @ qs))" by (auto simp: finished_def)
  with timed_append_prefix [of ps qs] show ?thesis by (rule prefix_order.trans)
qed

subsection \<open>Properties\<close>

text \<open>C7. A recording is complete: when the library calls succeed and the first packet is a
  configuration packet, then after any interleaving of the pushing thread and the recorder
  thread, a stop makes the recorder thread end in finitely many turns, and by then the header
  holds the data of the first packet and the file every later packet that has a time stamp, in
  the order of the pushes, each lasting until the next packet with a time stamp that follows it
  directly, and the last one 100 ms.\<close>

theorem recording_complete:
  assumes "(recorder_step rescale False)\<^sup>*\<^sup>* (recorder_start filename format frame_size) r"
    and "rc_stopped r"
  shows "\<exists>n r'. recorder_turns rescale n r = Some r' \<and> Recorder_Join r' \<and> \<not> rc_failed r' \<and>
    rc_written r' = recorded rescale (finished (rc_pushed r)) \<and>
    rc_header_written r' = (rc_pushed r \<noteq> []) \<and>
    (rc_pushed r \<noteq> [] \<longrightarrow> rc_extradata r' = Some (pk_data (hd (rc_pushed r))))"
proof -
  from recorder_stopped_ends [OF recorder_reachable_inv [OF assms(1)] assms(2)] obtain n r' where
    r': "recorder_turns rescale n r = Some r'" "recorder_inv rescale False r'" "rc_pc r' = R_Done"
    "rc_pushed r' = rc_pushed r" by blast
  from recorder_done_written [OF r'(2,3)] have w: "written_as rescale (finished (rc_pushed r)) r'"
    by (simp add: r'(4))
  have "Recorder_Join r'" "\<not> rc_failed r'"
    using r' by (simp_all add: Recorder_Join_def recorder_inv_def)
  moreover have "finished (rc_pushed r) = [] \<longleftrightarrow> rc_pushed r = []" by (simp add: finished_def)
  moreover have "rc_pushed r \<noteq> [] \<Longrightarrow> rc_extradata r' = Some (pk_data (hd (rc_pushed r)))"
    using w finished_hd [of "rc_pushed r"] by (simp add: written_as_def)
  ultimately show ?thesis using w r'(1) by (auto simp: written_as_def)
qed

theorem recording_complete_witness:
  "\<exists>n r r'. rc_stopped r \<and> rc_pushed r = [\<lparr>pk_pts = AV_NOPTS_VALUE, pk_dts = 0, pk_duration = 0, pk_flags = 0,
       pk_data = [1, 2]\<rparr>] \<and> recorder_turns id n r = Some r' \<and> Recorder_Join r' \<and> rc_extradata r' = Some [1, 2]"
proof -
  let ?p = "\<lparr>pk_pts = AV_NOPTS_VALUE, pk_dts = 0, pk_duration = 0, pk_flags = 0, pk_data = [1, 2]\<rparr>"
  let ?s = "recorder_start ''out.mp4'' RECORDER_FORMAT_MP4 \<lparr>width = 100, height = 200\<rparr>"
  obtain r where p: "Recorder_Push True True ?p ?s = Some (True, r)" and r: "rc_pushed r = [?p]"
    using Recorder_Push_result [OF recorder_inv_start [of id False], of _ _ _ True True ?p]
    by (fastforce simp: recorder_start_def)
  have "recorder_step id False ?s r" by (rule recorder_step.rec_push [OF _ _ _ p]) (simp_all add: recorder_start_def time_ok_def)
  then have reach: "(recorder_step id False)\<^sup>*\<^sup>* ?s (Recorder_Stop r)"
    by (rule converse_rtranclp_into_rtranclp [OF _ r_into_rtranclp]) (rule recorder_step.rec_stop)
  have stop: "rc_stopped (Recorder_Stop r)" "rc_pushed (Recorder_Stop r) = [?p]"
    using r by (simp_all add: Recorder_Stop_def)
  from recording_complete [OF reach stop(1)] stop show ?thesis by (auto simp: id_def)
qed

text \<open>C27. Whatever the library calls return and whatever received packets are pushed, the recorder thread never reads
  the queue out of its memory, and the file is always an initial part of the complete recording
  of the packets accepted so far: no packet is lost, repeated or reordered in the middle of it.\<close>

theorem recorder_prefix:
  assumes "(recorder_step rescale True)\<^sup>*\<^sup>* (recorder_start filename format frame_size) r"
  shows "RunRecorder_turn rescale alloc hdr wr r \<noteq> None \<and>
    prefix (rc_written r) (recorded rescale (finished (rc_pushed r)))"
proof -
  have inv: "recorder_inv rescale True r" by (rule recorder_reachable_inv [OF assms])
  then obtain taken where at: "recorder_at rescale True taken r" by (auto simp: recorder_inv_def)
  have "prefix (recorded rescale (timed taken)) (recorded rescale (finished (taken @ more)))" for more
    by (rule recorded_prefix [OF finished_prefix])
  then have "prefix (rc_written r) (recorded rescale (finished (rc_pushed r)))"
    using at finished_prefix [of taken "[]"] recorded_prefix [of "timed taken" "finished taken" rescale]
    by (cases "rc_pc r") (auto simp: recorder_at_def written_as_def intro: prefix_order.trans)
  with RunRecorder_turn_inv [OF inv, of alloc hdr wr] show ?thesis by auto
qed

theorem recorder_prefix_witness:
  "\<exists>r. RunRecorder_turn id True False True r \<noteq> None \<and>
     rc_pushed r = [\<lparr>pk_pts = 7, pk_dts = 0, pk_duration = 0, pk_flags = 0, pk_data = [1, 2]\<rparr>] \<and> rc_written r = []"
proof -
  let ?p = "\<lparr>pk_pts = 7, pk_dts = 0, pk_duration = 0, pk_flags = 0, pk_data = [1, 2 :: u8]\<rparr>"
  let ?s = "recorder_start ''out.mkv'' RECORDER_FORMAT_MKV \<lparr>width = 100, height = 200\<rparr>"
  obtain r where p: "Recorder_Push True True ?p ?s = Some (True, r)" and r: "rc_pushed r = [?p]"
    using Recorder_Push_result [OF recorder_inv_start [of id True], of _ _ _ True True ?p]
    by (fastforce simp: recorder_start_def)
  have "recorder_step id True ?s r" by (rule recorder_step.rec_push [OF _ _ _ p]) (simp_all add: recorder_start_def time_ok_def)
  from recorder_prefix [OF r_into_rtranclp [of "recorder_step id True", OF this], of True False True]
  have "RunRecorder_turn id True False True r \<noteq> None \<and> prefix (rc_written r) (recorded id (finished [?p]))"
    unfolding r .
  moreover have "recorded id (finished [?p]) = []" by (simp add: finished_def)
  ultimately show ?thesis using r by auto
qed



text \<open>A failed initialisation of the recorder releases everything it had allocated, and a
  recorder that was initialised is released by \<open>Destroy\<close>; opening fails without a context left
  behind, and the assertion on the format name fails exactly for a format that is neither MP4
  nor MKV.\<close>

theorem recorder_init_no_leak:
  "(case Recorder_Init dup mutex cond filename format frame_size r of
      (True, live, _) \<Rightarrow> live \<noteq> [] \<and> Recorder_Destroy live = []
    | (False, live, _) \<Rightarrow> live = []) \<and>
   (case Recorder_Open muxers alloc new_stream opened (r\<lparr>rc_ctx := False\<rparr>) of
      None \<Rightarrow> rc_format r = RECORDER_FORMAT_AUTO
    | Some (ok, r') \<Rightarrow> rc_format r \<noteq> RECORDER_FORMAT_AUTO \<and> rc_ctx r' = ok)"
  by (cases dup; cases mutex; cases cond; cases "rc_format r"; cases alloc; cases new_stream; cases opened)
    (auto simp: Recorder_Init_def Recorder_Destroy_def Recorder_Open_def RecorderGetFormatName_def Let_def)

end
