(* ===== verification/Stream.thy ===== *)
theory Stream
  imports Buffer_Util Net Recorder Video_Buffer
begin

section \<open>The video stream (src/src/video/stream.cpp)\<close>

text \<open>
  The stream thread receives packets, each after a 12-byte header, and hands them to a decoder
  and to a recorder, both of them optional. What it calls of them is the record \<open>stream_ops\<close>;
  the theory ends with the interpretation of its contracts on the decoder of
  \<^theory_text>\<open>Video_Buffer\<close> and the recorder of \<^theory_text>\<open>Recorder\<close>. The codec library is the record
  \<open>stream_lib\<close>: which sizes can be allocated and grown, what the parser returns for a packet,
  and whether it calls it a key frame.
\<close>

definition HEADER_SIZE :: nat where
  "HEADER_SIZE = 12"

definition NO_PTS :: u64 where
  "NO_PTS = - 1"

definition AV_PKT_FLAG_KEY :: nat where
  "AV_PKT_FLAG_KEY = 1"

record stream_lib =
  sl_new :: "nat \<Rightarrow> bool"
  sl_grow :: "nat \<Rightarrow> nat \<Rightarrow> bool"
  sl_parse :: "AVPacket \<Rightarrow> nat \<times> nat"
  sl_key :: "AVPacket \<Rightarrow> bool"

text \<open>A packet of the library that holds \<open>n\<close> bytes not yet written.\<close>

definition av_new_packet :: "nat \<Rightarrow> AVPacket" where
  "av_new_packet n = \<lparr>pk_pts = AV_NOPTS_VALUE, pk_dts = AV_NOPTS_VALUE, pk_duration = 0, pk_flags = 0,
     pk_data = replicate n 0\<rparr>"

record ('d, 'r) stream_ops =
  dec_open :: "'d \<Rightarrow> bool \<times> 'd"
  dec_push :: "AVPacket \<Rightarrow> 'd \<Rightarrow> (bool \<times> 'd) option"
  dec_close :: "'d \<Rightarrow> 'd"
  dec_interrupt :: "'d \<Rightarrow> 'd"
  rec_open :: "'r \<Rightarrow> (bool \<times> 'r) option"
  rec_start :: "'r \<Rightarrow> bool \<times> 'r"
  rec_push :: "AVPacket \<Rightarrow> 'r \<Rightarrow> (bool \<times> 'r) option"
  rec_stop :: "'r \<Rightarrow> 'r"
  rec_join :: "'r \<Rightarrow> 'r option"
  rec_close :: "'r \<Rightarrow> 'r"

record ('d, 'r) VideoStream =
  st_video_socket :: socket_t
  st_decoder :: "'d option"
  st_recorder :: "'r option"
  st_codec_ctx :: bool
  st_parser :: bool
  st_has_pending :: bool
  st_pending :: AVPacket
  st_thread :: bool
  st_stopped_events :: nat

subsection \<open>Receiving a packet\<close>

definition ReceivePacket ::
  "stream_lib \<Rightarrow> socket_t \<Rightarrow> net_world \<Rightarrow> (AVPacket option \<times> net_world) option" where
  "ReceivePacket lib video_socket w = do {
     (r, header, w) \<leftarrow> net_recv_all video_socket (replicate HEADER_SIZE 0) 0 HEADER_SIZE w;
     if r < int HEADER_SIZE then Some (None, w)
     else do {
       pts \<leftarrow> buffer_read64be header 0;
       len \<leftarrow> buffer_read32be header 8;
       c_assert (pts = NO_PTS \<or> pts AND 0x8000000000000000 = 0);
       c_assert (len \<noteq> 0);
       if \<not> sl_new lib (unat len) then Some (None, w)
       else do {
         let packet = av_new_packet (unat len);
         (r, data, w) \<leftarrow> net_recv_all video_socket (pk_data packet) 0 (unat len) w;
         if r < 0 \<or> (of_int r :: u32) < len then Some (None, w)
         else Some (Some (packet\<lparr>pk_data := data,
                pk_pts := (if pts \<noteq> NO_PTS then sint pts else AV_NOPTS_VALUE)\<rparr>), w)
       }
     }
   }"

definition NotifyStopped :: "('d, 'r) VideoStream \<Rightarrow> ('d, 'r) VideoStream" where
  "NotifyStopped s = s\<lparr>st_stopped_events := st_stopped_events s + 1\<rparr>"

subsection \<open>Pushing a packet to the decoder and the recorder\<close>

definition stream_record :: "('d, 'r) stream_ops \<Rightarrow> AVPacket \<Rightarrow> ('d, 'r) VideoStream \<Rightarrow>
    (bool \<times> ('d, 'r) VideoStream) option" where
  "stream_record ops packet s =
     (case st_recorder s of
        None \<Rightarrow> Some (True, s)
      | Some r \<Rightarrow> do {
          (ok, r) \<leftarrow> rec_push ops packet r;
          Some (ok, s\<lparr>st_recorder := Some r\<rparr>)
        })"

definition ProcessConfigPacket :: "('d, 'r) stream_ops \<Rightarrow> AVPacket \<Rightarrow> ('d, 'r) VideoStream \<Rightarrow>
    (bool \<times> ('d, 'r) VideoStream) option" where
  "ProcessConfigPacket ops packet s = stream_record ops packet s"

definition ProcessFrame :: "('d, 'r) stream_ops \<Rightarrow> AVPacket \<Rightarrow> ('d, 'r) VideoStream \<Rightarrow>
    (bool \<times> ('d, 'r) VideoStream) option" where
  "ProcessFrame ops packet s = do {
     (ok, s) \<leftarrow> (case st_decoder s of
        None \<Rightarrow> Some (True, s)
      | Some d \<Rightarrow> do {
          (ok, d) \<leftarrow> dec_push ops packet d;
          Some (ok, s\<lparr>st_decoder := Some d\<rparr>)
        });
     if \<not> ok then Some (False, s)
     else stream_record ops (packet\<lparr>pk_dts := pk_pts packet\<rparr>) s
   }"

definition Parse :: "stream_lib \<Rightarrow> ('d, 'r) stream_ops \<Rightarrow> AVPacket \<Rightarrow> ('d, 'r) VideoStream \<Rightarrow>
    (bool \<times> ('d, 'r) VideoStream) option" where
  "Parse lib ops packet s = do {
     let in_len = length (pk_data packet);
     let (r, out_len) = sl_parse lib packet;
     c_assert (r = in_len);
     c_assert (out_len = in_len);
     let packet = (if sl_key lib packet
       then packet\<lparr>pk_flags := pk_flags packet OR AV_PKT_FLAG_KEY\<rparr> else packet);
     ProcessFrame ops packet s
   }"

text \<open>The pending packet grows by the new data; the result is \<open>Inl\<close> when it cannot.\<close>

definition extend_pending :: "stream_lib \<Rightarrow> AVPacket \<Rightarrow> ('d, 'r) VideoStream \<Rightarrow>
    (unit + ('d, 'r) VideoStream) option" where
  "extend_pending lib packet s =
     (let n = length (pk_data packet) in
      if st_has_pending s then
        let offset = length (pk_data (st_pending s)) in
        if \<not> sl_grow lib offset n then Some (Inl ())
        else do {
          d \<leftarrow> store_block (pk_data (st_pending s) @ replicate n 0) offset (pk_data packet);
          Some (Inr (s\<lparr>st_pending := (st_pending s)\<lparr>pk_data := d\<rparr>\<rparr>))
        }
      else if \<not> sl_new lib n then Some (Inl ())
      else do {
        let pending = av_new_packet n;
        d \<leftarrow> store_block (pk_data pending) 0 (pk_data packet);
        Some (Inr (s\<lparr>st_has_pending := True, st_pending := pending\<lparr>pk_data := d\<rparr>\<rparr>))
      })"

definition PushPacket :: "stream_lib \<Rightarrow> ('d, 'r) stream_ops \<Rightarrow> AVPacket \<Rightarrow> ('d, 'r) VideoStream \<Rightarrow>
    (bool \<times> ('d, 'r) VideoStream) option" where
  "PushPacket lib ops packet s = do {
     let is_config = (pk_pts packet = AV_NOPTS_VALUE);
     x \<leftarrow> (if st_has_pending s \<or> is_config then extend_pending lib packet s else Some (Inr s));
     case x of
       Inl _ \<Rightarrow> Some (False, s)
     | Inr s' \<Rightarrow> do {
         let concat = (st_has_pending s \<or> is_config) \<and> \<not> is_config;
         let s' = (if concat
            then s'\<lparr>st_pending := (st_pending s')\<lparr>pk_pts := pk_pts packet, pk_dts := pk_dts packet,
                     pk_flags := pk_flags packet\<rparr>\<rparr>
            else s');
         let packet = (if concat then st_pending s' else packet);
         if is_config then ProcessConfigPacket ops packet s'
         else do {
           (ok, s') \<leftarrow> Parse lib ops packet s';
           let s' = (if st_has_pending s' then s'\<lparr>st_has_pending := False\<rparr> else s');
           Some (ok, s')
         }
       }
   }"

subsection \<open>The thread\<close>

lemma net_recv_all_call:
  assumes "net_recv_all s buf i len w = Some (r, buf', w')"
  shows "\<exists>bs. sys_recv len w = (r, bs, w')"
  using assms by (cases "sys_recv len w") (auto simp: net_recv_all_def bind_Some_iff)

lemma net_recv_all_answers:
  assumes "net_recv_all s buf i len w = Some (r, buf', w')" and "0 \<le> r"
  shows "length (nw_answers w') < length (nw_answers w)"
  using net_recv_all_call [OF assms(1)] sys_recv_answers(2) assms(2) by blast

lemma net_recv_all_answers_le:
  assumes "net_recv_all s buf i len w = Some (r, buf', w')"
  shows "length (nw_answers w') \<le> length (nw_answers w)"
  using net_recv_all_call [OF assms(1)] sys_recv_answers(1) by blast

lemma ReceivePacket_answers:
  assumes "ReceivePacket lib sock w = Some (Some p, w')"
  shows "length (nw_answers w') < length (nw_answers w)"
proof -
  obtain r header w1 where h: "net_recv_all sock (replicate HEADER_SIZE 0) 0 HEADER_SIZE w = Some (r, header, w1)"
    and r: "\<not> r < int HEADER_SIZE"
    using assms by (auto simp: ReceivePacket_def bind_Some_iff split: if_splits)
  then have "length (nw_answers w1) < length (nw_answers w)"
    by (intro net_recv_all_answers [OF h]) (simp add: HEADER_SIZE_def)
  moreover obtain len r' data where "net_recv_all sock (pk_data (av_new_packet (unat (len :: u32)))) 0 (unat len) w1 = Some (r', data, w')"
    using assms h r by (auto simp: ReceivePacket_def bind_Some_iff Let_def split: if_splits)
  ultimately show ?thesis using net_recv_all_answers_le by fastforce
qed

function RunStream_loop :: "stream_lib \<Rightarrow> ('d, 'r) stream_ops \<Rightarrow> net_world \<Rightarrow> ('d, 'r) VideoStream \<Rightarrow>
    (net_world \<times> ('d, 'r) VideoStream) option" where
  "RunStream_loop lib ops w s =
     (case ReceivePacket lib (st_video_socket s) w of
        None \<Rightarrow> None
      | Some (None, w') \<Rightarrow> Some (w', s)
      | Some (Some packet, w') \<Rightarrow>
          (case PushPacket lib ops packet s of
             None \<Rightarrow> None
           | Some (ok, s') \<Rightarrow> if \<not> ok then Some (w', s') else RunStream_loop lib ops w' s'))"
  by pat_completeness auto
termination
  by (relation "measure (\<lambda>(lib, ops, w, s). length (nw_answers w))") (auto intro: ReceivePacket_answers)

declare RunStream_loop.simps [simp del]

text \<open>
  The labels at the end of the thread, the last one first; each falls through to the one before
  it here. Joining the recorder returns \<^term>\<open>None\<close> when it does not return.
\<close>

definition stream_end :: "('d, 'r) VideoStream \<Rightarrow> ('d, 'r) VideoStream option" where
  "stream_end s = Some (NotifyStopped s)"

definition finally_free_codec_ctx :: "('d, 'r) VideoStream \<Rightarrow> ('d, 'r) VideoStream option" where
  "finally_free_codec_ctx s = stream_end (s\<lparr>st_codec_ctx := False\<rparr>)"

definition finally_close_decoder ::
  "('d, 'r) stream_ops \<Rightarrow> ('d, 'r) VideoStream \<Rightarrow> ('d, 'r) VideoStream option" where
  "finally_close_decoder ops s =
     finally_free_codec_ctx (s\<lparr>st_decoder := map_option (dec_close ops) (st_decoder s)\<rparr>)"

definition finally_close_recorder ::
  "('d, 'r) stream_ops \<Rightarrow> ('d, 'r) VideoStream \<Rightarrow> ('d, 'r) VideoStream option" where
  "finally_close_recorder ops s =
     finally_close_decoder ops (s\<lparr>st_recorder := map_option (rec_close ops) (st_recorder s)\<rparr>)"

definition finally_stop_and_join_recorder ::
  "('d, 'r) stream_ops \<Rightarrow> ('d, 'r) VideoStream \<Rightarrow> ('d, 'r) VideoStream option" where
  "finally_stop_and_join_recorder ops s =
     (case st_recorder s of
        None \<Rightarrow> finally_close_recorder ops s
      | Some r \<Rightarrow> do {
          r \<leftarrow> rec_join ops (rec_stop ops r);
          finally_close_recorder ops (s\<lparr>st_recorder := Some r\<rparr>)
        })"

text \<open>
  The body, in three parts: the parser and the loop; before them the recorder; before it the
  codec and the decoder. \<open>codec\<close>, \<open>ctx\<close> and \<open>parser\<close> tell whether the codec is found, its
  context allocated and the parser initialised.
\<close>

definition RunStream_parser :: "bool \<Rightarrow> stream_lib \<Rightarrow> ('d, 'r) stream_ops \<Rightarrow> net_world \<Rightarrow>
    ('d, 'r) VideoStream \<Rightarrow> ('d, 'r) VideoStream option" where
  "RunStream_parser parser lib ops w s =
     (let s = s\<lparr>st_parser := parser\<rparr> in
      if \<not> parser then finally_stop_and_join_recorder ops s
      else do {
        (w, s) \<leftarrow> RunStream_loop lib ops w s;
        let s = (if st_has_pending s then s\<lparr>st_pending := (st_pending s)\<lparr>pk_data := []\<rparr>\<rparr> else s);
        finally_stop_and_join_recorder ops (s\<lparr>st_parser := False\<rparr>)
      })"

definition RunStream_recorder :: "bool \<Rightarrow> stream_lib \<Rightarrow> ('d, 'r) stream_ops \<Rightarrow> net_world \<Rightarrow>
    ('d, 'r) VideoStream \<Rightarrow> ('d, 'r) VideoStream option" where
  "RunStream_recorder parser lib ops w s =
     (case st_recorder s of
        None \<Rightarrow> RunStream_parser parser lib ops w s
      | Some r \<Rightarrow> do {
          (opened, r) \<leftarrow> rec_open ops r;
          if \<not> opened then finally_close_decoder ops (s\<lparr>st_recorder := Some r\<rparr>)
          else
            let (started, r) = rec_start ops r; s = s\<lparr>st_recorder := Some r\<rparr> in
            if \<not> started then finally_close_recorder ops s
            else RunStream_parser parser lib ops w s
        })"

definition RunStream :: "bool \<Rightarrow> bool \<Rightarrow> bool \<Rightarrow> stream_lib \<Rightarrow> ('d, 'r) stream_ops \<Rightarrow> net_world \<Rightarrow>
    ('d, 'r) VideoStream \<Rightarrow> ('d, 'r) VideoStream option" where
  "RunStream codec ctx parser lib ops w s =
     (if \<not> codec then stream_end s
      else let s = s\<lparr>st_codec_ctx := ctx\<rparr> in
      if \<not> ctx then stream_end s
      else case st_decoder s of
          None \<Rightarrow> RunStream_recorder parser lib ops w s
        | Some d \<Rightarrow>
            (let (opened, d) = dec_open ops d; s = s\<lparr>st_decoder := Some d\<rparr> in
             if \<not> opened then finally_free_codec_ctx s
             else RunStream_recorder parser lib ops w s))"

definition VideoStream_Init :: "socket_t \<Rightarrow> 'd option \<Rightarrow> 'r option \<Rightarrow> ('d, 'r) VideoStream \<Rightarrow> ('d, 'r) VideoStream" where
  "VideoStream_Init socket pDecoder pRecorder s =
     s\<lparr>st_video_socket := socket, st_decoder := pDecoder, st_recorder := pRecorder, st_has_pending := False\<rparr>"

definition VideoStream_Start :: "bool \<Rightarrow> ('d, 'r) VideoStream \<Rightarrow> bool \<times> ('d, 'r) VideoStream" where
  "VideoStream_Start thread s =
     (let s = s\<lparr>st_thread := thread\<rparr> in if \<not> st_thread s then (False, s) else (True, s))"

definition VideoStream_Stop :: "('d, 'r) stream_ops \<Rightarrow> ('d, 'r) VideoStream \<Rightarrow> ('d, 'r) VideoStream" where
  "VideoStream_Stop ops s = s\<lparr>st_decoder := map_option (dec_interrupt ops) (st_decoder s)\<rparr>"

subsection \<open>What the sinks are given\<close>

text \<open>
  A sink accepts every received packet in a state that is \<open>good\<close>, and \<open>log\<close> is the list of packets it
  has accepted.
\<close>

locale packet_sink =
  fixes push :: "AVPacket \<Rightarrow> 's \<Rightarrow> (bool \<times> 's) option"
    and log :: "'s \<Rightarrow> AVPacket list"
    and good :: "'s \<Rightarrow> bool"
  assumes push_ok: "good s \<Longrightarrow> time_ok p \<Longrightarrow> \<exists>s'. push p s = Some (True, s') \<and> good s' \<and> log s' = log s @ [p]"

text \<open>The packet that is given to the decoder: the configuration data that waits and the frame.\<close>

definition joined :: "stream_lib \<Rightarrow> u8 list \<Rightarrow> AVPacket \<Rightarrow> AVPacket" where
  "joined lib acc p =
     (let q = p\<lparr>pk_data := acc @ pk_data p\<rparr>
      in if sl_key lib q then q\<lparr>pk_flags := pk_flags q OR AV_PKT_FLAG_KEY\<rparr> else q)"

definition is_config :: "AVPacket \<Rightarrow> bool" where
  "is_config p \<longleftrightarrow> pk_pts p = AV_NOPTS_VALUE"

fun decoded :: "stream_lib \<Rightarrow> u8 list \<Rightarrow> AVPacket list \<Rightarrow> AVPacket list" where
  "decoded lib acc [] = []"
| "decoded lib acc (p # ps) =
     (if is_config p then decoded lib (acc @ pk_data p) ps else joined lib acc p # decoded lib [] ps)"

fun saved :: "stream_lib \<Rightarrow> u8 list \<Rightarrow> AVPacket list \<Rightarrow> AVPacket list" where
  "saved lib acc [] = []"
| "saved lib acc (p # ps) =
     (if is_config p then p # saved lib (acc @ pk_data p) ps
      else (joined lib acc p)\<lparr>pk_dts := pk_pts p\<rparr> # saved lib [] ps)"

text \<open>What the library promises when it is told that packets hold complete frames, and memory for all.\<close>

definition complete_frames :: "stream_lib \<Rightarrow> bool" where
  "complete_frames lib \<longleftrightarrow> (\<forall>p. sl_parse lib p = (length (pk_data p), length (pk_data p)))"

definition enough_memory :: "stream_lib \<Rightarrow> bool" where
  "enough_memory lib \<longleftrightarrow> (\<forall>n. sl_new lib n) \<and> (\<forall>m n. sl_grow lib m n)"

definition waiting :: "('d, 'r) VideoStream \<Rightarrow> u8 list" where
  "waiting s = (if st_has_pending s then pk_data (st_pending s) else [])"

definition pending_ok :: "('d, 'r) VideoStream \<Rightarrow> bool" where
  "pending_ok s \<longleftrightarrow> (st_has_pending s \<longrightarrow> pk_duration (st_pending s) = 0)"

locale stream_sinks =
  dec: packet_sink "dec_push ops" dec_log dec_good + rec: packet_sink "rec_push ops" rec_log rec_good
  for ops :: "('d, 'r) stream_ops" and dec_log dec_good rec_log rec_good
begin

definition ready :: "('d, 'r) VideoStream \<Rightarrow> AVPacket list \<Rightarrow> AVPacket list \<Rightarrow> u8 list \<Rightarrow> bool" where
  "ready s dl rl acc \<longleftrightarrow> pending_ok s \<and> waiting s = acc \<and>
     (\<exists>d r. st_decoder s = Some d \<and> dec_good d \<and> dec_log d = dl \<and>
            st_recorder s = Some r \<and> rec_good r \<and> rec_log r = rl)"

lemma record_ready:
  assumes "ready s dl rl acc" and "time_ok p"
  shows "\<exists>s'. stream_record ops p s = Some (True, s') \<and> ready s' dl (rl @ [p]) acc \<and>
    st_has_pending s' = st_has_pending s \<and> st_video_socket s' = st_video_socket s"
proof -
  obtain r where r: "st_recorder s = Some r" "rec_good r" "rec_log r = rl"
    using assms by (auto simp: ready_def)
  from rec.push_ok [OF r(2) assms(2)] obtain r' where
    "rec_push ops p r = Some (True, r')" "rec_good r'" "rec_log r' = rl @ [p]" using r(3) by blast
  with r assms show ?thesis
    by (auto simp: stream_record_def ready_def pending_ok_def waiting_def)
qed

lemma frame_ready:
  assumes "ready s dl rl acc" and "time_ok p"
  shows "\<exists>s'. ProcessFrame ops p s = Some (True, s') \<and>
    ready s' (dl @ [p]) (rl @ [p\<lparr>pk_dts := pk_pts p\<rparr>]) acc \<and>
    st_has_pending s' = st_has_pending s \<and> st_video_socket s' = st_video_socket s"
proof -
  obtain d where d: "st_decoder s = Some d" "dec_good d" "dec_log d = dl"
    using assms by (auto simp: ready_def)
  from dec.push_ok [OF d(2) assms(2)] obtain d' where
    d': "dec_push ops p d = Some (True, d')" "dec_good d'" "dec_log d' = dl @ [p]" using d(3) by blast
  let ?s = "s\<lparr>st_decoder := Some d'\<rparr>"
  have "ready ?s (dl @ [p]) rl acc"
    using assms d' by (auto simp: ready_def pending_ok_def waiting_def)
  moreover have "time_ok (p\<lparr>pk_dts := pk_pts p\<rparr>)" using assms(2) by (simp add: time_ok_def)
  ultimately show ?thesis using record_ready [of ?s _ _ _ "p\<lparr>pk_dts := pk_pts p\<rparr>"] d d'
    by (auto simp: ProcessFrame_def)
qed

lemma parse_ready:
  assumes "ready s dl rl acc" and "complete_frames lib" and "joined lib [] q = p" and "time_ok q"
  shows "\<exists>s'. Parse lib ops q s = Some (True, s') \<and>
    ready s' (dl @ [p]) (rl @ [p\<lparr>pk_dts := pk_pts p\<rparr>]) acc \<and>
    st_has_pending s' = st_has_pending s \<and> st_video_socket s' = st_video_socket s"
  using frame_ready [OF assms(1), of p] assms(2-4)
  by (auto simp: Parse_def complete_frames_def joined_def Let_def time_ok_def)

lemma extend_pending_ready:
  assumes "ready s dl rl acc" and "enough_memory lib"
  shows "\<exists>s'. extend_pending lib p s = Some (Inr s') \<and> ready s' dl rl (acc @ pk_data p) \<and>
    st_has_pending s' \<and> st_video_socket s' = st_video_socket s"
  using assms
  by (auto simp: extend_pending_def Let_def enough_memory_def ready_def waiting_def pending_ok_def
      store_block_def av_new_packet_def)

lemma push_config_ready:
  assumes "ready s dl rl acc" and "enough_memory lib" and "is_config p"
  shows "\<exists>s'. PushPacket lib ops p s = Some (True, s') \<and> ready s' dl (rl @ [p]) (acc @ pk_data p) \<and>
    st_video_socket s' = st_video_socket s"
proof -
  from extend_pending_ready [OF assms(1,2), of p] obtain s1 where
    s1: "extend_pending lib p s = Some (Inr s1)" "ready s1 dl rl (acc @ pk_data p)"
    "st_video_socket s1 = st_video_socket s" by blast
  from record_ready [OF s1(2), of p] s1 assms(3) show ?thesis
    by (auto simp: PushPacket_def ProcessConfigPacket_def is_config_def time_ok_def)
qed

lemma push_frame_ready:
  assumes rd: "ready s dl rl acc" and lib: "enough_memory lib" "complete_frames lib"
    and p: "\<not> is_config p" "pk_duration p = 0" and time: "time_ok p"
  shows "\<exists>s'. PushPacket lib ops p s = Some (True, s') \<and>
    ready s' (dl @ [joined lib acc p]) (rl @ [(joined lib acc p)\<lparr>pk_dts := pk_pts p\<rparr>]) [] \<and>
    st_video_socket s' = st_video_socket s"
proof (cases "st_has_pending s")
  case False
  then have acc: "acc = []" using rd by (simp add: ready_def waiting_def)
  have pts: "pk_pts (joined lib [] p) = pk_pts p" by (simp add: joined_def Let_def)
  from parse_ready [OF rd lib(2) refl time] obtain s' where
    "Parse lib ops p s = Some (True, s')" "ready s' (dl @ [joined lib [] p])
       (rl @ [(joined lib [] p)\<lparr>pk_dts := pk_pts p\<rparr>]) acc" "\<not> st_has_pending s'"
    "st_video_socket s' = st_video_socket s"
    using False pts by auto
  with False p(1) acc show ?thesis by (simp add: PushPacket_def is_config_def)
next
  case True
  from extend_pending_ready [OF rd lib(1), of p] obtain s1 where
    s1: "extend_pending lib p s = Some (Inr s1)" "ready s1 dl rl (acc @ pk_data p)" "st_has_pending s1"
    "st_video_socket s1 = st_video_socket s" by blast
  let ?q = "(st_pending s1)\<lparr>pk_pts := pk_pts p, pk_dts := pk_dts p, pk_flags := pk_flags p\<rparr>"
  let ?s = "s1\<lparr>st_pending := ?q\<rparr>"
  have q: "?q = p\<lparr>pk_data := acc @ pk_data p\<rparr>"
    using s1(2,3) p(2) by (cases p; cases "st_pending s1") (auto simp: ready_def waiting_def pending_ok_def)
  have rd2: "ready ?s dl rl (acc @ pk_data p)"
    using s1(2,3) by (auto simp: ready_def waiting_def pending_ok_def)
  have j: "joined lib [] ?q = joined lib acc p" by (simp add: q joined_def)
  have pts: "pk_pts (joined lib acc p) = pk_pts p" by (simp add: joined_def Let_def)
  have "time_ok ?q" using time by (simp add: time_ok_def)
  from parse_ready [OF rd2 lib(2) j this] obtain s' where
    s': "Parse lib ops ?q ?s = Some (True, s')" "ready s' (dl @ [joined lib acc p])
       (rl @ [(joined lib acc p)\<lparr>pk_dts := pk_pts p\<rparr>]) (acc @ pk_data p)" "st_has_pending s'"
    "st_video_socket s' = st_video_socket s"
    using s1(3,4) pts by auto
  have "ready (s'\<lparr>st_has_pending := False\<rparr>) (dl @ [joined lib acc p])
      (rl @ [(joined lib acc p)\<lparr>pk_dts := pk_pts p\<rparr>]) []"
    using s'(2) by (auto simp: ready_def waiting_def pending_ok_def)
  with True p(1) s1(1) s' show ?thesis by (simp add: PushPacket_def is_config_def)
qed

lemma push_ready:
  assumes "ready s dl rl acc" and "enough_memory lib" "complete_frames lib" and "pk_duration p = 0" and "time_ok p"
  shows "\<exists>s' acc'. PushPacket lib ops p s = Some (True, s') \<and>
    ready s' (dl @ decoded lib acc [p]) (rl @ saved lib acc [p]) acc' \<and>
    decoded lib acc (p # ps) = decoded lib acc [p] @ decoded lib acc' ps \<and>
    saved lib acc (p # ps) = saved lib acc [p] @ saved lib acc' ps \<and>
    st_video_socket s' = st_video_socket s"
  using push_config_ready [OF assms(1,2), of p] push_frame_ready [OF assms(1-3) _ assms(4,5)]
  by (cases "is_config p") auto

end

subsection \<open>The wire\<close>

text \<open>A packet as the server sends it: time stamp, length and data.\<close>

definition packet_wire :: "AVPacket \<Rightarrow> u8 list" where
  "packet_wire p = be64 (if is_config p then NO_PTS else of_int (pk_pts p)) @
     be32 (of_nat (length (pk_data p))) @ pk_data p"

definition received :: "AVPacket \<Rightarrow> bool" where
  "received p \<longleftrightarrow> (is_config p \<or> 0 \<le> pk_pts p \<and> pk_pts p < 2 ^ 63) \<and>
     pk_data p \<noteq> [] \<and> length (pk_data p) < 2 ^ 32 \<and>
     pk_dts p = AV_NOPTS_VALUE \<and> pk_duration p = 0 \<and> pk_flags p = 0"

text \<open>A peer from which every call receives all it asks for.\<close>

definition waits_all :: "net_world \<Rightarrow> bool" where
  "waits_all w \<longleftrightarrow> (\<forall>a \<in> set (nw_answers w). 2 ^ 32 \<le> a)"

lemma net_recv_all_waits:
  assumes "waits_all w" and "nw_answers w \<noteq> []" and "nw_incoming w = bs @ rest"
    and "length bs = n" and "n < 2 ^ 32" and "length buf = n"
  shows "\<exists>w'. net_recv_all s buf 0 n w = Some (int n, bs, w') \<and> waits_all w' \<and>
    nw_incoming w' = rest \<and> length (nw_answers w') = length (nw_answers w) - 1"
proof -
  obtain a as where a: "nw_answers w = a # as" using assms(2) by (cases "nw_answers w") auto
  have "int n < 2 ^ 32" using assms(5) by simp
  then have "n \<le> nat a" using a assms(1) by (simp add: waits_all_def le_nat_iff)
  with a assms show ?thesis
    by (auto simp: net_recv_all_def sys_recv_def answer_def Let_def store_block_def waits_all_def)
qed

lemma no_pts_bit: "0 \<le> v \<Longrightarrow> v < 2 ^ 63 \<Longrightarrow> (of_int v :: u64) AND 0x8000000000000000 = 0"
proof -
  assume v: "0 \<le> v" "v < 2 ^ 63"
  have "(0x8000000000000000 :: u64) = 2 ^ 63" by simp
  moreover have "\<not> bit (of_int v :: u64) 63"
    using v by (auto simp: bit_of_int_iff bit_int_def zdiv_eq_0_iff)
  ultimately show ?thesis
    by (metis and_exp_eq_0_iff_not_bit)
qed

lemma sint_of_small: "0 \<le> v \<Longrightarrow> v < 2 ^ 63 \<Longrightarrow> sint (of_int v :: u64) = v"
  by (simp add: signed_of_int signed_take_bit_int_eq_self)

lemma not_NO_PTS: "0 \<le> v \<Longrightarrow> v < 2 ^ 63 \<Longrightarrow> (of_int v :: u64) \<noteq> NO_PTS"
proof
  assume v: "0 \<le> v" "v < 2 ^ 63" and e: "(of_int v :: u64) = NO_PTS"
  from sint_of_small [OF v] have "v = sint NO_PTS" by (simp add: e)
  then show False using v by (simp add: NO_PTS_def)
qed

lemma unat_length_data: "length xs < 2 ^ 32 \<Longrightarrow> unat (of_nat (length xs) :: u32) = length xs"
  by (simp add: unat_of_nat take_bit_nat_eq_self)

lemma ReceivePacket_packet:
  assumes p: "received p" and lib: "enough_memory lib"
    and w: "waits_all w" "nw_incoming w = packet_wire p @ rest" "2 \<le> length (nw_answers w)"
  shows "\<exists>w'. ReceivePacket lib sock w = Some (Some p, w') \<and> waits_all w' \<and> nw_incoming w' = rest \<and>
    length (nw_answers w') = length (nw_answers w) - 2"
proof -
  define pts :: u64 where "pts = (if is_config p then NO_PTS else of_int (pk_pts p))"
  define len :: u32 where "len = of_nat (length (pk_data p))"
  have n: "unat len = length (pk_data p)"
    using p unat_length_data [of "pk_data p"] by (simp add: received_def len_def)
  moreover have "length (pk_data p) \<noteq> 0" using p by (simp add: received_def)
  ultimately have n0: "len \<noteq> 0" by (metis unat_0)
  have in1: "nw_incoming w = (be64 pts @ be32 len) @ pk_data p @ rest"
    using w(2) by (simp add: packet_wire_def pts_def len_def)
  have "nw_answers w \<noteq> []" using w(3) by auto
  moreover have "length (be64 pts @ be32 len) = HEADER_SIZE" "HEADER_SIZE < 2 ^ 32"
    "length (replicate HEADER_SIZE (0 :: u8)) = HEADER_SIZE"
    by (simp_all add: HEADER_SIZE_def)
  ultimately obtain w1 where
    r1: "net_recv_all sock (replicate HEADER_SIZE 0) 0 HEADER_SIZE w =
        Some (int HEADER_SIZE, be64 pts @ be32 len, w1)"
    and w1: "waits_all w1" "nw_incoming w1 = pk_data p @ rest"
      "length (nw_answers w1) = length (nw_answers w) - 1"
    using net_recv_all_waits [OF w(1) _ in1] by metis
  have "nw_answers w1 \<noteq> []" using w1(3) w(3) by auto
  moreover have "length (pk_data p) < 2 ^ 32" using p by (simp add: received_def)
  ultimately obtain w2 where
    r2: "net_recv_all sock (replicate (length (pk_data p)) 0) 0 (length (pk_data p)) w1 =
        Some (int (length (pk_data p)), pk_data p, w2)"
    and w2: "waits_all w2" "nw_incoming w2 = rest" "length (nw_answers w2) = length (nw_answers w) - 2"
    using net_recv_all_waits [OF w1(1) _ w1(2) refl _ length_replicate] w1(3)
    by (metis diff_diff_left one_add_one)
  have rd: "buffer_read64be (be64 pts @ be32 len) 0 = Some pts" "buffer_read32be (be64 pts @ be32 len) 8 = Some len"
    by (simp_all add: buffer_read_iff)
  have bit: "pts = NO_PTS \<or> pts AND 0x8000000000000000 = 0"
    using p no_pts_bit [of "pk_pts p"] by (auto simp: pts_def received_def)
  have rts: "(if pts \<noteq> NO_PTS then sint pts else AV_NOPTS_VALUE) = pk_pts p"
    using p sint_of_small [of "pk_pts p"] not_NO_PTS [of "pk_pts p"]
    by (auto simp: pts_def received_def is_config_def)
  have full: "\<not> (of_int (int (length (pk_data p))) :: u32) < len" by (simp add: len_def)
  have pk: "\<lparr>pk_pts = pk_pts p, pk_dts = AV_NOPTS_VALUE, pk_duration = 0, pk_flags = 0, pk_data = pk_data p\<rparr> = p"
    using p by (cases p) (simp add: received_def)
  show ?thesis
    using r1 r2 rd bit rts full pk lib w2 n n0
    by (simp add: ReceivePacket_def HEADER_SIZE_def av_new_packet_def enough_memory_def c_assert_def)
qed

lemma ReceivePacket_end:
  assumes "nw_incoming w = []"
  shows "\<exists>w'. ReceivePacket lib sock w = Some (None, w')"
proof -
  obtain a w1 where a: "answer w = (a, w1)" by fastforce
  with assms have "nw_incoming w1 = []" by simp
  with a have "\<exists>r w'. sys_recv HEADER_SIZE w = (r, [], w') \<and> r \<le> 0"
    by (simp add: sys_recv_def)
  then obtain r w' where "net_recv_all sock (replicate HEADER_SIZE 0) 0 HEADER_SIZE w =
      Some (r, replicate HEADER_SIZE 0, w')" and "r \<le> 0"
    by (auto simp: net_recv_all_def store_block_def)
  then show ?thesis by (simp add: ReceivePacket_def HEADER_SIZE_def)
qed

context stream_sinks
begin

lemma loop_delivers:
  assumes lib: "enough_memory lib" "complete_frames lib"
    and "ready s dl rl acc" and "\<forall>p \<in> set ps. received p"
    and "waits_all w" and "nw_incoming w = concat (map packet_wire ps)"
    and "2 * length ps \<le> length (nw_answers w)"
  shows "\<exists>w' s' acc'. RunStream_loop lib ops w s = Some (w', s') \<and>
    ready s' (dl @ decoded lib acc ps) (rl @ saved lib acc ps) acc'"
  using assms(3-)
proof (induction ps arbitrary: w s dl rl acc)
  case Nil
  from ReceivePacket_end obtain w' where "ReceivePacket lib (st_video_socket s) w = Some (None, w')"
    using Nil.prems(4) by (metis concat.simps(1) list.simps(8))
  with Nil.prems(1) show ?case by (subst RunStream_loop.simps) auto
next
  case (Cons p ps)
  have p: "received p" "nw_incoming w = packet_wire p @ concat (map packet_wire ps)"
    "2 \<le> length (nw_answers w)"
    using Cons.prems by simp_all
  from ReceivePacket_packet [OF p(1) lib(1) Cons.prems(3) p(2,3)] obtain w1 where
    w1: "ReceivePacket lib (st_video_socket s) w = Some (Some p, w1)" "waits_all w1"
    "nw_incoming w1 = concat (map packet_wire ps)" "length (nw_answers w1) = length (nw_answers w) - 2"
    by metis
  have "pk_duration p = 0" "time_ok p" using p(1) by (auto simp: received_def is_config_def time_ok_def)
  from push_ready [OF Cons.prems(1) lib this, of ps] obtain s1 acc1 where
    s1: "PushPacket lib ops p s = Some (True, s1)"
    "ready s1 (dl @ decoded lib acc [p]) (rl @ saved lib acc [p]) acc1"
    "decoded lib acc (p # ps) = decoded lib acc [p] @ decoded lib acc1 ps"
    "saved lib acc (p # ps) = saved lib acc [p] @ saved lib acc1 ps" by blast
  have "\<forall>p \<in> set ps. received p" "2 * length ps \<le> length (nw_answers w1)"
    using Cons.prems w1(4) by auto
  from Cons.IH [OF s1(2) this(1) w1(2,3) this(2)] obtain w' s' acc' where
    "RunStream_loop lib ops w1 s1 = Some (w', s')"
    "ready s' ((dl @ decoded lib acc [p]) @ decoded lib acc1 ps) ((rl @ saved lib acc [p]) @ saved lib acc1 ps) acc'"
    by metis
  moreover have "RunStream_loop lib ops w s = RunStream_loop lib ops w1 s1"
    using w1(1) s1(1) by (subst RunStream_loop.simps) simp
  ultimately show ?case unfolding s1(3,4) append_assoc by metis
qed

end

subsection \<open>The stream with the program's decoder and recorder\<close>

text \<open>
  What the codec does with a packet: it asks for more, or it yields a picture with a frame
  number; the clock is read when the picture is offered. The history \<open>sd_packets\<close> are the packets
  decoded.
\<close>

type_synonym codec = "AVPacket \<Rightarrow> (nat \<times> nat \<times> u32) option"

record stream_decoder =
  sd_dec :: Decoder
  sd_packets :: "AVPacket list"

definition decode_packet :: "codec \<Rightarrow> AVPacket \<Rightarrow> stream_decoder \<Rightarrow> (bool \<times> stream_decoder) option" where
  "decode_packet codec p sd = do {
     (ok, d) \<leftarrow> (case codec p of
        None \<Rightarrow> Decoder_Push 0 AVERROR_EAGAIN 0 0 True 0 (sd_dec sd)
      | Some (picture, number, now) \<Rightarrow> Decoder_Push 0 0 picture number True now (sd_dec sd));
     Some (ok, sd\<lparr>sd_dec := d, sd_packets := sd_packets sd @ [p]\<rparr>)
   }"

text \<open>Joining waits for the recorder thread, whose turns are made here; it may wait for ever.\<close>

partial_function (option) recorder_wait :: "(AVPacket \<Rightarrow> AVPacket) \<Rightarrow> Recorder \<Rightarrow> Recorder option" where
  "recorder_wait rescale r =
     (if Recorder_Join r then Some r
      else Option.bind (RunRecorder_turn rescale True True True r) (recorder_wait rescale))"

definition irobot_ops :: "codec \<Rightarrow> (AVPacket \<Rightarrow> AVPacket) \<Rightarrow> string list \<Rightarrow> (stream_decoder, Recorder) stream_ops" where
  "irobot_ops codec rescale muxers = \<lparr>
     dec_open = (\<lambda>sd. let (ok, d) = Decoder_Open True True True True (sd_dec sd) in (ok, sd\<lparr>sd_dec := d\<rparr>)),
     dec_push = decode_packet codec,
     dec_close = (\<lambda>sd. sd\<lparr>sd_dec := Decoder_Close (sd_dec sd)\<rparr>),
     dec_interrupt = (\<lambda>sd. sd\<lparr>sd_dec := Decoder_Interrupt (sd_dec sd)\<rparr>),
     rec_open = Recorder_Open muxers True True True,
     rec_start = Recorder_Start True,
     rec_push = Recorder_Push True True,
     rec_stop = Recorder_Stop,
     rec_join = recorder_wait rescale,
     rec_close = Recorder_Close True\<rparr>"

definition decoder_ready :: "stream_decoder \<Rightarrow> bool" where
  "decoder_ready sd \<longleftrightarrow> \<not> vb_render_expired_frames (d_vb (sd_dec sd))"

text \<open>A recorder whose first packet is no configuration packet is going to fail.\<close>

definition bad_start :: "AVPacket list \<Rightarrow> bool" where
  "bad_start ps \<longleftrightarrow> ps \<noteq> [] \<and> \<not> is_config (hd ps)"

definition recorder_ready :: "(AVPacket \<Rightarrow> AVPacket) \<Rightarrow> Recorder \<Rightarrow> bool" where
  "recorder_ready rescale r \<longleftrightarrow>
     recorder_inv rescale (bad_start (rc_pushed r)) r \<and> \<not> rc_failed r \<and> \<not> rc_stopped r"

lemma Recorder_Push_format: "Recorder_Push alloc ref p r = Some (ok, r') \<Longrightarrow> rc_format r' = rc_format r"
  unfolding Recorder_Push_def Let_def
  by (cases "rc_failed r"; cases "RecordPacketNew alloc ref p"; cases "rc_stopped r")
    (auto simp: bind_Some_iff rc_signal_def)

lemma recorder_inv_mono: "recorder_inv rescale False r \<Longrightarrow> recorder_inv rescale faults r"
  by (cases "rc_pc r") (auto simp: recorder_inv_def recorder_at_def)

lemma recorder_ready_start [simp]: "recorder_ready rescale (recorder_start filename format frame_size)"
  using recorder_inv_start by (simp add: recorder_ready_def bad_start_def recorder_start_def)

lemma Recorder_Push_ready:
  assumes "recorder_ready rescale r" and time: "time_ok p"
  shows "\<exists>r'. Recorder_Push True True p r = Some (True, r') \<and> recorder_ready rescale r' \<and>
    rc_pushed r' = rc_pushed r @ [p] \<and> rc_held r' = rc_held r"
proof -
  let ?f = "bad_start (rc_pushed r)" and ?f' = "bad_start (rc_pushed r @ [p])"
  have inv: "recorder_inv rescale ?f r" and ns: "\<not> rc_stopped r" and nf: "\<not> rc_failed r"
    using assms(1) by (auto simp: recorder_ready_def)
  have inv': "recorder_inv rescale ?f' r"
  proof (cases "rc_pushed r")
    case Nil
    with inv have "recorder_inv rescale False r" by (simp add: bad_start_def)
    then show ?thesis by (rule recorder_inv_mono)
  next
    case (Cons a as)
    with inv show ?thesis by (simp add: bad_start_def)
  qed
  obtain r' where p: "Recorder_Push True True p r = Some (True, r')" and
    fields: "rc_pushed r' = rc_pushed r @ [p]" "rc_failed r' = rc_failed r" "rc_stopped r' = rc_stopped r"
      "rc_held r' = rc_held r"
    using Recorder_Push_result [OF inv ns, of True True p] nf by auto
  have "?f' \<or> True \<and> True \<and> (rc_pushed r = [] \<longrightarrow> pk_pts p = AV_NOPTS_VALUE)"
    by (auto simp: bad_start_def is_config_def)
  from Recorder_Push_inv [OF inv' ns time this p] have "recorder_ready rescale r'"
    using fields nf ns by (simp add: recorder_ready_def)
  with p fields show ?thesis by blast
qed

interpretation decoder_sink: packet_sink "decode_packet codec" sd_packets decoder_ready
proof
  fix sd p
  assume "decoder_ready sd" and "time_ok p"
  then show "\<exists>sd'. decode_packet codec p sd = Some (True, sd') \<and> decoder_ready sd' \<and>
      sd_packets sd' = sd_packets sd @ [p]"
    by (auto simp: decode_packet_def decoder_ready_def Decoder_Push_def PushFrame_def OfferDecodedFrame_def
        SwapFrames_def AVERROR_EAGAIN_def Let_def split: option.splits)
qed

interpretation recorder_sink: packet_sink "Recorder_Push True True" rc_pushed "recorder_ready rescale"
proof
  fix r p
  assume "recorder_ready rescale r" and "time_ok p"
  from Recorder_Push_ready [OF this] show "\<exists>r'. Recorder_Push True True p r = Some (True, r') \<and>
      recorder_ready rescale r' \<and> rc_pushed r' = rc_pushed r @ [p]" by blast
qed

interpretation st: stream_sinks "irobot_ops codec rescale muxers" sd_packets decoder_ready rc_pushed
  "recorder_ready rescale"
proof
  fix sd p
  assume "decoder_ready sd" and "time_ok p"
  then show "\<exists>sd'. dec_push (irobot_ops codec rescale muxers) p sd = Some (True, sd') \<and> decoder_ready sd' \<and>
      sd_packets sd' = sd_packets sd @ [p]"
    using decoder_sink.push_ok [of sd p codec] by (simp add: irobot_ops_def)
next
  fix r p
  assume "recorder_ready rescale r" and "time_ok p"
  then show "\<exists>r'. rec_push (irobot_ops codec rescale muxers) p r = Some (True, r') \<and>
      recorder_ready rescale r' \<and> rc_pushed r' = rc_pushed r @ [p]"
    using recorder_sink.push_ok [of rescale r p] by (simp add: irobot_ops_def)
qed

subsection \<open>The whole thread\<close>

lemma recorder_wait_turns:
  "recorder_turns rescale n r = Some r' \<Longrightarrow> Recorder_Join r' \<Longrightarrow> recorder_wait rescale r = Some r'"
proof (induction n arbitrary: r)
  case 0
  then show ?case by (simp add: recorder_wait.simps)
next
  case (Suc n)
  show ?case
  proof (cases "Recorder_Join r")
    case True
    then have "RunRecorder_turn rescale True True True r = Some r"
      by (simp add: Recorder_Join_def RunRecorder_turn_def)
    with Suc.prems(1) have "recorder_turns rescale n r = Some r'" by simp
    from Suc.IH [OF this Suc.prems(2)] show ?thesis .
  next
    case False
    from Suc.prems(1) obtain r1 where
      r1: "RunRecorder_turn rescale True True True r = Some r1" "recorder_turns rescale n r1 = Some r'"
      by (auto simp: bind_Some_iff)
    with Suc.IH [OF r1(2) Suc.prems(2)] False show ?thesis by (simp add: recorder_wait.simps [of _ r])
  qed
qed

lemma recorder_wait_stopped:
  assumes "recorder_inv rescale False r" and "rc_stopped r"
  shows "\<exists>r'. recorder_wait rescale r = Some r' \<and> rc_written r' = recorded rescale (finished (rc_pushed r)) \<and>
    rc_header_written r' = (rc_pushed r \<noteq> []) \<and> \<not> rc_failed r'"
proof -
  from recorder_stopped_ends [OF assms] obtain n r' where
    r': "recorder_turns rescale n r = Some r'" "recorder_inv rescale False r'" "rc_pc r' = R_Done"
    "rc_pushed r' = rc_pushed r" by blast
  from recorder_wait_turns [OF r'(1)] r'(3) have "recorder_wait rescale r = Some r'"
    by (simp add: Recorder_Join_def)
  moreover have "\<not> rc_failed r'" using r'(2) by (simp add: recorder_inv_def)
  moreover have "finished (rc_pushed r) = [] \<longleftrightarrow> rc_pushed r = []" by (simp add: finished_def)
  ultimately show ?thesis
    using recorder_done_written [OF r'(2,3)] r'(4) by (simp add: written_as_def)
qed

lemma bad_start_saved:
  assumes "ps \<noteq> [] \<longrightarrow> is_config (hd ps)"
  shows "\<not> bad_start (saved lib [] ps)" and "saved lib acc ps = [] \<longleftrightarrow> ps = []"
  using assms by (cases ps; simp add: bad_start_def)+

lemma FindMuxer_found: "name \<in> set muxers \<Longrightarrow> FindMuxer muxers name = Some name"
  by (induction muxers) auto

text \<open>The loop leaves alone what the thread's other parts own.\<close>

lemma stream_record_frame:
  "stream_record ops p s = Some (ok, s') \<Longrightarrow>
     st_codec_ctx s' = st_codec_ctx s \<and> st_parser s' = st_parser s \<and> st_stopped_events s' = st_stopped_events s \<and>
     st_decoder s' = st_decoder s \<and> (st_recorder s' = None \<longleftrightarrow> st_recorder s = None)"
  by (auto simp: stream_record_def bind_Some_iff split: option.splits)

lemma ProcessFrame_frame:
  "ProcessFrame ops p s = Some (ok, s') \<Longrightarrow>
     st_codec_ctx s' = st_codec_ctx s \<and> st_parser s' = st_parser s \<and> st_stopped_events s' = st_stopped_events s \<and>
     (st_decoder s' = None \<longleftrightarrow> st_decoder s = None) \<and> (st_recorder s' = None \<longleftrightarrow> st_recorder s = None)"
  by (cases "st_decoder s") (auto simp: ProcessFrame_def bind_Some_iff split: if_splits dest: stream_record_frame)

lemma extend_pending_frame:
  "extend_pending lib p s = Some (Inr s') \<Longrightarrow>
     st_codec_ctx s' = st_codec_ctx s \<and> st_parser s' = st_parser s \<and> st_stopped_events s' = st_stopped_events s \<and>
     st_decoder s' = st_decoder s \<and> st_recorder s' = st_recorder s"
  by (auto simp: extend_pending_def Let_def bind_Some_iff split: if_splits)

definition same_parts :: "('d, 'r) VideoStream \<Rightarrow> ('d, 'r) VideoStream \<Rightarrow> bool" where
  "same_parts s s' \<longleftrightarrow> st_codec_ctx s' = st_codec_ctx s \<and> st_parser s' = st_parser s \<and>
     st_stopped_events s' = st_stopped_events s \<and>
     (st_decoder s' = None \<longleftrightarrow> st_decoder s = None) \<and> (st_recorder s' = None \<longleftrightarrow> st_recorder s = None)"

lemma same_parts_refl [simp]: "same_parts s s"
  by (simp add: same_parts_def)

lemma same_parts_trans: "same_parts s t \<Longrightarrow> same_parts t u \<Longrightarrow> same_parts s u"
  by (simp add: same_parts_def)

lemma Parse_same: "Parse lib ops p s = Some (ok, s') \<Longrightarrow> same_parts s s'"
  by (auto simp: Parse_def same_parts_def Let_def bind_Some_iff split: prod.splits dest: ProcessFrame_frame)

lemma extend_same: "extend_pending lib p s = Some (Inr s') \<Longrightarrow> same_parts s s'"
  by (auto simp: same_parts_def dest: extend_pending_frame)

lemma record_same: "stream_record ops p s = Some (ok, s') \<Longrightarrow> same_parts s s'"
  by (auto simp: same_parts_def dest: stream_record_frame)

lemma PushPacket_same:
  assumes "PushPacket lib ops p s = Some (ok, s')"
  shows "same_parts s s'"
proof -
  obtain x where x: "(if st_has_pending s \<or> pk_pts p = AV_NOPTS_VALUE then extend_pending lib p s else Some (Inr s)) = Some x"
    using assms by (auto simp: PushPacket_def Let_def bind_Some_iff)
  show ?thesis
  proof (cases x)
    case (Inl u)
    with assms x show ?thesis by (simp add: PushPacket_def same_parts_def)
  next
    case (Inr s1)
    with x have s1: "same_parts s s1"
      by (auto split: if_splits intro: extend_same)
    show ?thesis
    proof (cases "pk_pts p = AV_NOPTS_VALUE")
      case True
      with assms x Inr have "stream_record ops p s1 = Some (ok, s')"
        by (simp add: PushPacket_def ProcessConfigPacket_def)
      with s1 show ?thesis by (blast intro: same_parts_trans record_same)
    next
      case False
      then obtain q s2 s3 where p: "Parse lib ops q s2 = Some (ok, s3)"
        and s2: "same_parts s1 s2" and s3: "same_parts s3 s'"
        using assms x Inr
        by (cases "st_has_pending s") (auto simp: PushPacket_def bind_Some_iff Let_def same_parts_def split: if_splits)
      from s1 s2 Parse_same [OF p] s3 show ?thesis by (blast intro: same_parts_trans)
    qed
  qed
qed

lemma RunStream_loop_same: "RunStream_loop lib ops w s = Some (w', s') \<Longrightarrow> same_parts s s'"
proof (induction lib ops w s rule: RunStream_loop.induct)
  case (1 lib ops w s)
  obtain x w1 where r: "ReceivePacket lib (st_video_socket s) w = Some (x, w1)"
    using 1(2) by (subst (asm) RunStream_loop.simps) (auto split: option.splits)
  show ?case
  proof (cases x)
    case None
    with 1(2) r show ?thesis by (subst (asm) RunStream_loop.simps) (simp add: same_parts_def)
  next
    case (Some p)
    obtain ok s1 where p: "PushPacket lib ops p s = Some (ok, s1)"
      using 1(2) r Some by (subst (asm) RunStream_loop.simps) (auto split: option.splits)
    show ?thesis
    proof (cases ok)
      case True
      then have "RunStream_loop lib ops w1 s1 = Some (w', s')"
        using 1(2) r Some p by (subst (asm) RunStream_loop.simps) simp
      from 1(1) [OF r _ Some p] this True have "same_parts s1 s'" by simp
      with PushPacket_same [OF p] show ?thesis by (rule same_parts_trans)
    next
      case False
      then have "s' = s1" using 1(2) r Some p by (subst (asm) RunStream_loop.simps) simp
      with PushPacket_same [OF p] show ?thesis by simp
    qed
  qed
qed

lemmas stream_labels = stream_end_def finally_free_codec_ctx_def finally_close_decoder_def
  finally_close_recorder_def NotifyStopped_def

lemma RunStream_running:
  assumes dec: "st_decoder s = Some d" "dec_open ops d = (True, d1)"
    and rec: "st_recorder s = Some r" "rec_open ops r = Some (True, r1)" "rec_start ops r1 = (True, r2)"
    and loop: "RunStream_loop lib ops w
      (s\<lparr>st_codec_ctx := True, st_decoder := Some d1, st_recorder := Some r2, st_parser := True\<rparr>) = Some (w', s')"
  shows "\<exists>s''. RunStream True True True lib ops w s = finally_stop_and_join_recorder ops s'' \<and>
    s'' = s'\<lparr>st_pending := st_pending s'', st_parser := False\<rparr>"
proof -
  let ?s = "(if st_has_pending s' then s'\<lparr>st_pending := (st_pending s')\<lparr>pk_data := []\<rparr>\<rparr> else s')\<lparr>st_parser := False\<rparr>"
  have "RunStream True True True lib ops w s = finally_stop_and_join_recorder ops ?s"
    using assms by (simp add: RunStream_def RunStream_recorder_def RunStream_parser_def)
  moreover have "?s = s'\<lparr>st_pending := st_pending ?s, st_parser := False\<rparr>" by simp
  ultimately show ?thesis by blast
qed

text \<open>
  When the thread returns. Reading fails no assertion when every header that is read is one the
  server sends; a sink need not accept a packet, but its calls return.
\<close>

function receives :: "stream_lib \<Rightarrow> socket_t \<Rightarrow> net_world \<Rightarrow> bool" where
  "receives lib sock w =
     (case ReceivePacket lib sock w of
        None \<Rightarrow> False
      | Some (None, w') \<Rightarrow> True
      | Some (Some packet, w') \<Rightarrow> receives lib sock w')"
  by pat_completeness auto
termination
  by (relation "measure (\<lambda>(lib, sock, w). length (nw_answers w))") (auto intro: ReceivePacket_answers)

declare receives.simps [simp del]

lemma pts_not_negative: "(pts :: u64) AND 0x8000000000000000 = 0 \<Longrightarrow> 0 \<le> sint pts \<and> sint pts < 2 ^ 63"
proof -
  assume a: "pts AND 0x8000000000000000 = 0"
  have "bit (pts AND 2 ^ 63) 63 = bit pts 63" by (simp add: bit_and_iff bit_exp_iff)
  with a have "\<not> bit pts 63" by simp
  then show ?thesis using sint_lt [of pts] bit_last_iff [of pts] by simp
qed

lemma ReceivePacket_time:
  assumes "ReceivePacket lib sock w = Some (Some p, w')"
  shows "time_ok p"
proof -
  obtain r header w1 where h: "net_recv_all sock (replicate HEADER_SIZE 0) 0 HEADER_SIZE w = Some (r, header, w1)"
    "\<not> r < int HEADER_SIZE"
    using assms by (auto simp: ReceivePacket_def bind_Some_iff split: if_splits)
  then obtain pts where pts: "buffer_read64be header 0 = Some pts" "pts = NO_PTS \<or> pts AND 0x8000000000000000 = 0"
    using assms by (auto simp: ReceivePacket_def bind_Some_iff c_assert_def split: if_splits)
  then have "pk_pts p = (if pts \<noteq> NO_PTS then sint pts else AV_NOPTS_VALUE)"
    using assms h by (auto simp: ReceivePacket_def bind_Some_iff c_assert_def Let_def split: if_splits)
  with pts(2) pts_not_negative [of pts] show ?thesis by (auto simp: time_ok_def)
qed

locale stream_returns =
  fixes ops :: "('d, 'r) stream_ops" and okd :: "'d \<Rightarrow> bool" and okr :: "'r \<Rightarrow> bool"
  assumes dec_opens: "okd d \<Longrightarrow> okd (snd (dec_open ops d))"
    and dec_pushes: "okd d \<Longrightarrow> time_ok p \<Longrightarrow> defined (\<lambda>(ok, d'). okd d') (dec_push ops p d)"
    and rec_opens: "okr r \<Longrightarrow> defined (\<lambda>(ok, r'). okr r') (rec_open ops r)"
    and rec_starts: "okr r \<Longrightarrow> okr (snd (rec_start ops r))"
    and rec_pushes: "okr r \<Longrightarrow> time_ok p \<Longrightarrow> defined (\<lambda>(ok, r'). okr r') (rec_push ops p r)"
    and rec_joins: "okr r \<Longrightarrow> rec_join ops (rec_stop ops r) \<noteq> None"
begin

definition parts_ok :: "('d, 'r) VideoStream \<Rightarrow> bool" where
  "parts_ok s \<longleftrightarrow> (\<forall>d. st_decoder s = Some d \<longrightarrow> okd d) \<and> (\<forall>r. st_recorder s = Some r \<longrightarrow> okr r)"

abbreviation still_ok :: "('d, 'r) VideoStream \<Rightarrow> bool \<times> ('d, 'r) VideoStream \<Rightarrow> bool" where
  "still_ok s \<equiv> \<lambda>(ok, s'). parts_ok s' \<and> st_video_socket s' = st_video_socket s"

lemma record_defined:
  assumes "parts_ok s" and "time_ok p"
  shows "defined (still_ok s) (stream_record ops p s)"
proof (cases "st_recorder s")
  case None
  with assms show ?thesis by (simp add: stream_record_def)
next
  case (Some r)
  with assms have "okr r" by (simp add: parts_ok_def)
  from rec_pushes [OF this assms(2)] Some assms(1) show ?thesis
    by (auto simp: stream_record_def parts_ok_def elim!: definedE)
qed

lemma frame_defined:
  assumes "parts_ok s" and "time_ok p"
  shows "defined (still_ok s) (ProcessFrame ops p s)"
proof -
  have p: "time_ok (p\<lparr>pk_dts := pk_pts p\<rparr>)" using assms(2) by (simp add: time_ok_def)
  have "defined (still_ok s) (case st_decoder s of
        None \<Rightarrow> Some (True, s)
      | Some d \<Rightarrow> do { (ok, d) \<leftarrow> dec_push ops p d; Some (ok, s\<lparr>st_decoder := Some d\<rparr>) })"
  proof (cases "st_decoder s")
    case (Some d)
    with assms(1) have "okd d" by (simp add: parts_ok_def)
    from dec_pushes [OF this assms(2)] Some assms(1) show ?thesis
      by (auto simp: parts_ok_def elim!: definedE)
  qed (use assms in simp)
  then obtain ok s1 where s1: "(case st_decoder s of
        None \<Rightarrow> Some (True, s)
      | Some d \<Rightarrow> do { (ok, d) \<leftarrow> dec_push ops p d; Some (ok, s\<lparr>st_decoder := Some d\<rparr>) }) = Some (ok, s1)"
    "still_ok s (ok, s1)"
    by (rule definedE) auto
  with record_defined [OF _ p, of s1] show ?thesis by (cases ok) (auto simp: ProcessFrame_def)
qed

lemma parse_defined:
  assumes "complete_frames lib" and "parts_ok s" and "time_ok p"
  shows "defined (still_ok s) (Parse lib ops p s)"
proof -
  let ?p = "if sl_key lib p then p\<lparr>pk_flags := pk_flags p OR AV_PKT_FLAG_KEY\<rparr> else p"
  have "time_ok ?p" using assms(3) by (simp add: time_ok_def)
  from frame_defined [OF assms(2) this] assms(1) show ?thesis
    by (simp add: Parse_def complete_frames_def Let_def)
qed

lemma extend_defined:
  assumes "parts_ok s"
  shows "defined (\<lambda>x. case x of Inl u \<Rightarrow> True | Inr s' \<Rightarrow> parts_ok s' \<and> st_video_socket s' = st_video_socket s)
    (extend_pending lib p s)"
  using assms by (auto simp: extend_pending_def parts_ok_def store_block_def av_new_packet_def Let_def)

lemma push_defined:
  assumes lib: "complete_frames lib" and ok: "parts_ok s" and p: "time_ok p"
  shows "defined (still_ok s) (PushPacket lib ops p s)"
proof -
  let ?is = "pk_pts p = AV_NOPTS_VALUE"
  have "defined (\<lambda>x. case x of Inl u \<Rightarrow> True | Inr s' \<Rightarrow> parts_ok s' \<and> st_video_socket s' = st_video_socket s)
      (if st_has_pending s \<or> ?is then extend_pending lib p s else Some (Inr s))"
    using extend_defined [OF ok, of lib p] ok by simp
  then obtain x where x: "(if st_has_pending s \<or> ?is then extend_pending lib p s else Some (Inr s)) = Some x"
    "case x of Inl u \<Rightarrow> True | Inr s' \<Rightarrow> parts_ok s' \<and> st_video_socket s' = st_video_socket s"
    by (rule definedE)
  show ?thesis
  proof (cases x)
    case (Inl u)
    with x ok show ?thesis by (simp add: PushPacket_def)
  next
    case (Inr s1)
    with x(2) have s1: "parts_ok s1" "st_video_socket s1 = st_video_socket s" by simp_all
    show ?thesis
    proof (cases ?is)
      case True
      with record_defined [OF s1(1) p] s1(2) x(1) Inr show ?thesis
        by (simp add: PushPacket_def ProcessConfigPacket_def)
    next
      case False
      define s2 where "s2 = (if st_has_pending s then s1\<lparr>st_pending := (st_pending s1)\<lparr>pk_pts := pk_pts p,
          pk_dts := pk_dts p, pk_flags := pk_flags p\<rparr>\<rparr> else s1)"
      define q where "q = (if st_has_pending s then st_pending s2 else p)"
      have s2: "parts_ok s2" "st_video_socket s2 = st_video_socket s" using s1 by (simp_all add: s2_def parts_ok_def)
      have "time_ok q" using p by (simp add: q_def s2_def time_ok_def)
      from parse_defined [OF lib s2(1) this] obtain ok s3 where
        s3: "Parse lib ops q s2 = Some (ok, s3)" "parts_ok s3" "st_video_socket s3 = st_video_socket s"
        using s2(2) by (auto elim!: definedE)
      have "PushPacket lib ops p s =
          Some (ok, if st_has_pending s3 then s3\<lparr>st_has_pending := False\<rparr> else s3)"
        using False x(1) Inr s3(1) [unfolded q_def s2_def]
        by (cases "st_has_pending s") (simp_all add: PushPacket_def Let_def)
      then show ?thesis using s3(2,3) by (simp add: parts_ok_def)
    qed
  qed
qed

lemma loop_defined:
  assumes "complete_frames lib" and "parts_ok s" and "receives lib (st_video_socket s) w"
  shows "defined (\<lambda>(w', s'). parts_ok s') (RunStream_loop lib ops w s)"
  using assms(2,3)
proof (induction w arbitrary: s rule: measure_induct_rule [of "\<lambda>w. length (nw_answers w)"])
  case (less w)
  obtain x w1 where r: "ReceivePacket lib (st_video_socket s) w = Some (x, w1)"
    using less.prems(2) by (subst (asm) receives.simps) (auto split: option.splits)
  show ?case
  proof (cases x)
    case None
    with r less.prems(1) show ?thesis by (subst RunStream_loop.simps) simp
  next
    case (Some p)
    with r have "time_ok p" by (auto intro: ReceivePacket_time)
    from push_defined [OF assms(1) less.prems(1) this] obtain ok s1 where
      s1: "PushPacket lib ops p s = Some (ok, s1)" "parts_ok s1" "st_video_socket s1 = st_video_socket s"
      by (auto elim!: definedE)
    show ?thesis
    proof (cases ok)
      case False
      with r Some s1 show ?thesis by (subst RunStream_loop.simps) simp
    next
      case True
      have "length (nw_answers w1) < length (nw_answers w)" using r Some by (auto intro: ReceivePacket_answers)
      moreover have "receives lib (st_video_socket s1) w1"
        using less.prems(2) r Some s1(3) by (subst (asm) receives.simps) simp
      ultimately have "defined (\<lambda>(w', s'). parts_ok s') (RunStream_loop lib ops w1 s1)"
        using less.IH s1(2) by blast
      moreover have "RunStream_loop lib ops w s = RunStream_loop lib ops w1 s1"
        using r Some s1(1) True by (subst RunStream_loop.simps) simp
      ultimately show ?thesis by simp
    qed
  qed
qed

lemma join_defined: "parts_ok s \<Longrightarrow> finally_stop_and_join_recorder ops s \<noteq> None"
proof (cases "st_recorder s")
  case (Some r)
  assume "parts_ok s"
  with Some have "okr r" by (simp add: parts_ok_def)
  from rec_joins [OF this] obtain r' where "rec_join ops (rec_stop ops r) = Some r'" by blast
  with Some show ?thesis by (simp add: finally_stop_and_join_recorder_def stream_labels)
qed (simp add: finally_stop_and_join_recorder_def stream_labels)

lemma parser_defined:
  assumes "complete_frames lib" and "parts_ok s" and "receives lib (st_video_socket s) w"
  shows "RunStream_parser parser lib ops w s \<noteq> None"
proof (cases parser)
  case False
  have "parts_ok (s\<lparr>st_parser := False\<rparr>)" using assms(2) by (simp add: parts_ok_def)
  with False join_defined show ?thesis by (simp add: RunStream_parser_def)
next
  case True
  have "parts_ok (s\<lparr>st_parser := True\<rparr>)" using assms(2) by (simp add: parts_ok_def)
  with loop_defined [OF assms(1) this, of w] assms(3) obtain w1 s1 where
    s1: "RunStream_loop lib ops w (s\<lparr>st_parser := True\<rparr>) = Some (w1, s1)" "parts_ok s1" by (auto elim!: definedE)
  let ?s = "(if st_has_pending s1 then s1\<lparr>st_pending := (st_pending s1)\<lparr>pk_data := []\<rparr>\<rparr> else s1)\<lparr>st_parser := False\<rparr>"
  have "parts_ok ?s" using s1(2) by (simp add: parts_ok_def)
  from join_defined [OF this] True s1(1) show ?thesis by (simp add: RunStream_parser_def)
qed

lemma recorder_defined:
  assumes "complete_frames lib" and "parts_ok s" and "receives lib (st_video_socket s) w"
  shows "RunStream_recorder parser lib ops w s \<noteq> None"
proof (cases "st_recorder s")
  case None
  with parser_defined [OF assms] show ?thesis by (simp add: RunStream_recorder_def)
next
  case (Some r)
  with assms(2) have "okr r" by (simp add: parts_ok_def)
  from rec_opens [OF this] obtain ok r1 where o: "rec_open ops r = Some (ok, r1)" "okr r1" by (auto elim!: definedE)
  obtain started r2 where st: "rec_start ops r1 = (started, r2)" by fastforce
  with rec_starts [OF o(2)] have "okr r2" by simp
  with assms(2) have "parts_ok (s\<lparr>st_recorder := Some r2\<rparr>)" by (simp add: parts_ok_def)
  from parser_defined [OF assms(1) this, of w parser] assms(3) Some o(1) st show ?thesis
    by (cases ok; cases started) (simp_all add: RunStream_recorder_def stream_labels)
qed

lemma RunStream_defined:
  assumes "complete_frames lib" and "parts_ok s" and "receives lib (st_video_socket s) w"
  shows "RunStream codec ctx parser lib ops w s \<noteq> None"
proof (cases "codec \<and> ctx")
  case False
  then show ?thesis by (auto simp: RunStream_def stream_labels)
next
  case True
  show ?thesis
  proof (cases "st_decoder s")
    case None
    have "parts_ok (s\<lparr>st_codec_ctx := True\<rparr>)" using assms(2) by (simp add: parts_ok_def)
    from recorder_defined [OF assms(1) this, of w parser] assms(3) True None show ?thesis by (simp add: RunStream_def)
  next
    case (Some d)
    obtain opened d1 where o: "dec_open ops d = (opened, d1)" by fastforce
    have "okd d" using Some assms(2) by (simp add: parts_ok_def)
    from dec_opens [OF this] o have "okd d1" by simp
    with assms(2) have "parts_ok (s\<lparr>st_codec_ctx := True, st_decoder := Some d1\<rparr>)" by (simp add: parts_ok_def)
    from recorder_defined [OF assms(1) this, of w parser] assms(3) True Some o show ?thesis
      by (cases opened) (simp_all add: RunStream_def stream_labels)
  qed
qed

end

text \<open>The decoder and the recorder of the program are such parts.\<close>

definition recorder_able :: "(AVPacket \<Rightarrow> AVPacket) \<Rightarrow> Recorder \<Rightarrow> bool" where
  "recorder_able rescale r \<longleftrightarrow> recorder_ready rescale r \<and> rc_held r = 0 \<and> rc_pc r = R_Loop \<and>
     rc_format r \<noteq> RECORDER_FORMAT_AUTO"

lemma recorder_able_ctx [simp]:
  "recorder_able rescale (r\<lparr>rc_ctx := b\<rparr>) = recorder_able rescale r"
  "recorder_able rescale (r\<lparr>rc_pb := b\<rparr>) = recorder_able rescale r"
  "recorder_able rescale (r\<lparr>rc_pc := R_Loop\<rparr>) = recorder_able rescale r" if "rc_pc r = R_Loop"
  using that by (simp_all add: recorder_able_def recorder_ready_def recorder_inv_def recorder_at_def written_as_def
    cong: recorder_pc.case_cong)

lemma recorder_wait_able:
  assumes "recorder_able rescale r"
  shows "recorder_wait rescale (Recorder_Stop r) \<noteq> None"
proof -
  have "recorder_inv rescale True r"
    using assms recorder_inv_mono by (cases "bad_start (rc_pushed r)") (auto simp: recorder_able_def recorder_ready_def)
  from Recorder_Stop_inv [OF this] have "recorder_inv rescale True (Recorder_Stop r)" .
  moreover have "rc_stopped (Recorder_Stop r)" "rc_held (Recorder_Stop r) = 0" "rc_pc (Recorder_Stop r) = R_Loop"
    using assms by (simp_all add: recorder_able_def Recorder_Stop_def rc_signal_def)
  ultimately obtain n r' where "recorder_turns rescale n (Recorder_Stop r) = Some r'" "Recorder_Join r'"
    using recorder_faulty_ends by blast
  from recorder_wait_turns [OF this] show ?thesis by simp
qed

interpretation ret: stream_returns "irobot_ops codec rescale muxers" decoder_ready "recorder_able rescale"
proof
  fix d p
  assume "decoder_ready d"
  then show "decoder_ready (snd (dec_open (irobot_ops codec rescale muxers) d))"
    by (simp add: irobot_ops_def decoder_ready_def Decoder_Open_def Let_def)
  assume "time_ok p"
  with \<open>decoder_ready d\<close> show "defined (\<lambda>(ok, d'). decoder_ready d') (dec_push (irobot_ops codec rescale muxers) p d)"
    using decoder_sink.push_ok [of d p codec] by (auto simp: irobot_ops_def)
next
  fix r p
  assume r: "recorder_able rescale r"
  show "defined (\<lambda>(ok, r'). recorder_able rescale r') (rec_open (irobot_ops codec rescale muxers) r)"
  proof -
    have pc: "rc_pc r = R_Loop" and "rc_format r \<noteq> RECORDER_FORMAT_AUTO" using r by (simp_all add: recorder_able_def)
    then obtain name where name: "RecorderGetFormatName (rc_format r) = Some name"
      by (cases "rc_format r") (simp_all add: RecorderGetFormatName_def)
    show ?thesis
    proof (cases "FindMuxer muxers name")
      case None
      with name r show ?thesis by (simp add: irobot_ops_def Recorder_Open_def c_assert_def)
    next
      case (Some m)
      with name r pc show ?thesis by (simp add: irobot_ops_def Recorder_Open_def c_assert_def Let_def)
    qed
  qed
  show "recorder_able rescale (snd (rec_start (irobot_ops codec rescale muxers) r))"
  proof -
    have "rc_pc r = R_Loop" using r by (simp add: recorder_able_def)
    with r show ?thesis by (simp add: irobot_ops_def Recorder_Start_def)
  qed
  show "rec_join (irobot_ops codec rescale muxers) (rec_stop (irobot_ops codec rescale muxers) r) \<noteq> None"
    using recorder_wait_able [OF r] by (simp add: irobot_ops_def)
  assume "time_ok p"
  with Recorder_Push_ready [of rescale r p] r obtain r' where
    p: "Recorder_Push True True p r = Some (True, r')" "recorder_ready rescale r'" "rc_held r' = 0"
    by (auto simp: recorder_able_def)
  then have "rc_pc r' = R_Loop" "rc_format r' = rc_format r"
    using Recorder_Push_effect [OF p(1)] Recorder_Push_format [OF p(1)] r by (auto simp: recorder_able_def)
  with p r show "defined (\<lambda>(ok, r'). recorder_able rescale r') (rec_push (irobot_ops codec rescale muxers) p r)"
    by (simp add: irobot_ops_def recorder_able_def)
qed

text \<open>What the labels ensure.\<close>

lemma finally_close_recorder_ends:
  "finally_close_recorder ops s = Some s' \<Longrightarrow> \<not> st_codec_ctx s' \<and> st_parser s' = st_parser s \<and>
     st_stopped_events s' = st_stopped_events s + 1 \<and>
     st_decoder s' = map_option (dec_close ops) (st_decoder s) \<and>
     st_recorder s' = map_option (rec_close ops) (st_recorder s)"
  by (auto simp: stream_labels)

lemma finally_join_ends:
  "finally_stop_and_join_recorder ops s = Some s' \<Longrightarrow> \<not> st_codec_ctx s' \<and> st_parser s' = st_parser s \<and>
     st_stopped_events s' = st_stopped_events s + 1 \<and>
     st_decoder s' = map_option (dec_close ops) (st_decoder s) \<and>
     (case st_recorder s of
        None \<Rightarrow> st_recorder s' = None
      | Some r \<Rightarrow> \<exists>r1. rec_join ops (rec_stop ops r) = Some r1 \<and> st_recorder s' = Some (rec_close ops r1))"
  by (cases "st_recorder s")
    (auto simp: finally_stop_and_join_recorder_def bind_Some_iff dest: finally_close_recorder_ends)

lemma RunStream_parser_ends:
  assumes "RunStream_parser parser lib ops w s = Some s'"
  shows "\<not> st_codec_ctx s' \<and> \<not> st_parser s' \<and> st_stopped_events s' = st_stopped_events s + 1 \<and>
     (st_decoder s \<noteq> None \<longrightarrow> (\<exists>d. st_decoder s' = Some (dec_close ops d))) \<and>
     (st_recorder s \<noteq> None \<longrightarrow> (\<exists>r r1. rec_join ops (rec_stop ops r) = Some r1 \<and> st_recorder s' = Some (rec_close ops r1)))"
proof (cases parser)
  case False
  with assms have "finally_stop_and_join_recorder ops (s\<lparr>st_parser := False\<rparr>) = Some s'"
    by (simp add: RunStream_parser_def)
  from finally_join_ends [OF this] show ?thesis by (auto split: option.splits)
next
  case True
  then obtain w1 s1 where loop: "RunStream_loop lib ops w (s\<lparr>st_parser := True\<rparr>) = Some (w1, s1)"
    and "finally_stop_and_join_recorder ops
      ((if st_has_pending s1 then s1\<lparr>st_pending := (st_pending s1)\<lparr>pk_data := []\<rparr>\<rparr> else s1)\<lparr>st_parser := False\<rparr>) = Some s'"
    using assms by (auto simp: RunStream_parser_def bind_Some_iff Let_def)
  from finally_join_ends [OF this(2)] RunStream_loop_same [OF loop] show ?thesis
    by (cases "st_has_pending s1") (auto simp: same_parts_def split: option.splits)
qed

lemma RunStream_recorder_ends:
  assumes "RunStream_recorder parser lib ops w s = Some s'" and "\<not> st_parser s"
  shows "\<not> st_codec_ctx s' \<and> \<not> st_parser s' \<and> st_stopped_events s' = st_stopped_events s + 1 \<and>
     (st_decoder s \<noteq> None \<longrightarrow> (\<exists>d. st_decoder s' = Some (dec_close ops d))) \<and>
     (st_recorder s = Some r \<and> rec_open ops r = Some (True, r1) \<longrightarrow>
        (\<exists>r2. st_recorder s' = Some (rec_close ops r2) \<and>
          (fst (rec_start ops r1) \<longrightarrow> (\<exists>r3. rec_join ops (rec_stop ops r3) = Some r2))))"
proof (cases "st_recorder s")
  case None
  with assms(1) have "RunStream_parser parser lib ops w s = Some s'" by (simp add: RunStream_recorder_def)
  from RunStream_parser_ends [OF this] None show ?thesis by simp
next
  case (Some q)
  then obtain opened q1 where o: "rec_open ops q = Some (opened, q1)"
    using assms(1) by (auto simp: RunStream_recorder_def bind_Some_iff)
  show ?thesis
  proof (cases opened)
    case False
    with Some o assms show ?thesis by (auto simp: RunStream_recorder_def stream_labels)
  next
    case True
    obtain started q2 where st: "rec_start ops q1 = (started, q2)" by fastforce
    let ?s = "s\<lparr>st_recorder := Some q2\<rparr>"
    show ?thesis
    proof (cases started)
      case False
      with Some o True st assms(1) have "finally_close_recorder ops ?s = Some s'"
        by (simp add: RunStream_recorder_def)
      from finally_close_recorder_ends [OF this] Some o True st False assms(2) show ?thesis by auto
    next
      case True
      with Some o \<open>opened\<close> st assms(1) have "RunStream_parser parser lib ops w ?s = Some s'"
        by (simp add: RunStream_recorder_def)
      from RunStream_parser_ends [OF this] show ?thesis by auto
    qed
  qed
qed

lemma RunStream_ends:
  assumes "RunStream codec ctx parser lib ops w s = Some s'" and "\<not> st_codec_ctx s" and "\<not> st_parser s"
  shows "\<not> st_codec_ctx s' \<and> \<not> st_parser s' \<and> st_stopped_events s' = st_stopped_events s + 1 \<and>
      (codec \<and> ctx \<and> (\<forall>d. st_decoder s = Some d \<longrightarrow> fst (dec_open ops d)) \<longrightarrow>
        (st_decoder s \<noteq> None \<longrightarrow> (\<exists>d2. st_decoder s' = Some (dec_close ops d2))) \<and>
        (\<forall>r r1. st_recorder s = Some r \<and> rec_open ops r = Some (True, r1) \<longrightarrow>
          (\<exists>r2. st_recorder s' = Some (rec_close ops r2) \<and>
            (fst (rec_start ops r1) \<longrightarrow> (\<exists>r3. rec_join ops (rec_stop ops r3) = Some r2))))) \<and>
      (\<not> (codec \<and> ctx \<and> (\<forall>d. st_decoder s = Some d \<longrightarrow> fst (dec_open ops d))) \<longrightarrow>
        st_recorder s' = st_recorder s \<and>
        st_decoder s' = (if codec \<and> ctx then map_option (snd \<circ> dec_open ops) (st_decoder s) else st_decoder s))"
proof (cases "codec \<and> ctx")
  case False
  with assms show ?thesis by (auto simp: RunStream_def stream_labels split: if_splits)
next
  case True
  show ?thesis
  proof (cases "st_decoder s")
    case None
    with True assms(1) have run: "RunStream_recorder parser lib ops w (s\<lparr>st_codec_ctx := True\<rparr>) = Some s'"
      by (simp add: RunStream_def)
    note ends = RunStream_recorder_ends [OF run]
    from ends assms(3) True None show ?thesis by auto
  next
    case (Some e)
    obtain opened e1 where e: "dec_open ops e = (opened, e1)" by fastforce
    let ?s = "s\<lparr>st_codec_ctx := True, st_decoder := Some e1\<rparr>"
    show ?thesis
    proof (cases opened)
      case False
      with True Some e assms show ?thesis by (auto simp: RunStream_def stream_labels)
    next
      case o: True
      with True Some e assms(1) have run: "RunStream_recorder parser lib ops w ?s = Some s'"
        by (simp add: RunStream_def)
      note ends = RunStream_recorder_ends [OF run]
      from ends assms(3) True Some e o show ?thesis by auto
    qed
  qed
qed

subsection \<open>Properties\<close>

text \<open>C2. From the wire to the file and the decoder: when the peer sends packets of which the first
  is a configuration packet, and nothing fails, the stream thread ends with the stream; by then
  the decoder has been given every frame, each with the configuration data that precedes it, and
  the recorder thread has been joined with every packet recorded in order; decoder, recorder and
  contexts are closed and the program is notified once.\<close>

theorem stream_to_file:
  assumes "enough_memory lib" and "complete_frames lib" and "\<forall>p \<in> set ps. received p"
    and "waits_all w" and "nw_incoming w = concat (map packet_wire ps)"
    and "2 * length ps \<le> length (nw_answers w)" and "ps \<noteq> [] \<longrightarrow> is_config (hd ps)"
    and "RecorderGetFormatName format = Some name" and "name \<in> set muxers"
    and "st_decoder s = Some sd" and "\<not> vb_render_expired_frames (d_vb (sd_dec sd))" and "sd_packets sd = []"
    and "st_recorder s = Some (recorder_start filename format frame_size)" and "\<not> st_has_pending s"
  shows "\<exists>s' sd' r'. RunStream True True True lib (irobot_ops codec rescale muxers) w s = Some s' \<and>
    st_decoder s' = Some sd' \<and> sd_packets sd' = decoded lib [] ps \<and> \<not> d_ctx (sd_dec sd') \<and>
    st_recorder s' = Some r' \<and> rc_written r' = recorded rescale (finished (saved lib [] ps)) \<and>
    \<not> rc_ctx r' \<and> rc_failed r' = (ps = []) \<and>
    \<not> st_codec_ctx s' \<and> \<not> st_parser s' \<and> st_stopped_events s' = st_stopped_events s + 1"
proof -
  let ?ops = "irobot_ops codec rescale muxers" and ?r = "recorder_start filename format frame_size"
  let ?d = "(sd_dec sd)\<lparr>d_ctx := True, d_cv_ctx := True\<rparr>"
  let ?s = "s\<lparr>st_codec_ctx := True, st_decoder := Some (sd\<lparr>sd_dec := ?d\<rparr>), st_recorder := Some ?r, st_parser := True\<rparr>"
  have dec: "dec_open ?ops sd = (True, sd\<lparr>sd_dec := ?d\<rparr>)"
    by (simp add: irobot_ops_def Decoder_Open_def Let_def)
  have ropen: "rec_open ?ops ?r = Some (True, ?r)"
    using assms(8) FindMuxer_found [OF assms(9)]
    by (simp add: irobot_ops_def Recorder_Open_def recorder_start_def c_assert_def Let_def)
  have rstart: "rec_start ?ops ?r = (True, ?r)"
    by (simp add: irobot_ops_def Recorder_Start_def recorder_start_def)
  have ready: "st.ready rescale ?s [] [] []"
    using assms(11,12,14)
    by (simp add: st.ready_def pending_ok_def waiting_def decoder_ready_def)
      (simp add: recorder_start_def)
  from st.loop_delivers [OF assms(1,2) ready assms(3-6)] obtain w' s1 acc where
    loop: "RunStream_loop lib ?ops w ?s = Some (w', s1)"
    and r1: "st.ready rescale s1 (decoded lib [] ps) (saved lib [] ps) acc" by (metis append_Nil)
  obtain d1 rr where s1: "st_decoder s1 = Some d1" "sd_packets d1 = decoded lib [] ps"
      "st_recorder s1 = Some rr" "recorder_ready rescale rr" "rc_pushed rr = saved lib [] ps"
    using r1 by (auto simp: st.ready_def)
  have inv: "recorder_inv rescale False rr"
    using s1(4,5) bad_start_saved(1) [OF assms(7), of lib] by (simp add: recorder_ready_def)
  from recorder_wait_stopped [OF Recorder_Stop_inv [OF inv]] s1(5) obtain r' where
    r': "recorder_wait rescale (Recorder_Stop rr) = Some r'"
    "rc_written r' = recorded rescale (finished (saved lib [] ps))"
    "rc_header_written r' = (saved lib [] ps \<noteq> [])" "\<not> rc_failed r'"
    by (auto simp: Recorder_Stop_def)
  from RunStream_running [OF assms(10) dec assms(13) ropen rstart loop] obtain s2 where
    s2: "RunStream True True True lib ?ops w s = finally_stop_and_join_recorder ?ops s2"
    "s2 = s1\<lparr>st_pending := st_pending s2, st_parser := False\<rparr>" by blast
  have fields: "st_decoder s2 = Some d1" "st_recorder s2 = Some rr" "\<not> st_parser s2"
    "st_stopped_events s2 = st_stopped_events s"
    using s1 RunStream_loop_same [OF loop] by (subst s2(2), simp add: same_parts_def)+
  have "finally_stop_and_join_recorder ?ops s2 = Some (NotifyStopped (s2\<lparr>st_recorder := Some (Recorder_Close True r'),
      st_decoder := Some (d1\<lparr>sd_dec := Decoder_Close (sd_dec d1)\<rparr>), st_codec_ctx := False\<rparr>))"
    using fields r'(1) by (simp add: finally_stop_and_join_recorder_def stream_labels irobot_ops_def)
  then show ?thesis
    using s2(1) fields s1(2) r' bad_start_saved(2) [OF assms(7), of lib "[]"]
    by (simp add: NotifyStopped_def Decoder_Close_def Recorder_Close_def Let_def)
qed

theorem stream_to_file_witness:
  "\<exists>w s s' sd'. RunStream True True True
       \<lparr>sl_new = \<lambda>n. True, sl_grow = \<lambda>m n. True, sl_parse = \<lambda>p. (length (pk_data p), length (pk_data p)),
        sl_key = \<lambda>p. False\<rparr>
       (irobot_ops (\<lambda>p. Some (0, 1, 10)) id [''mp4'']) w s = Some s' \<and>
     st_decoder s' = Some sd' \<and> map pk_data (sd_packets sd') = [[1, 2]] \<and> st_stopped_events s' = 1"
proof -
  let ?lib = "\<lparr>sl_new = \<lambda>n. True, sl_grow = \<lambda>m n. True,
      sl_parse = \<lambda>p. (length (pk_data p), length (pk_data p)), sl_key = \<lambda>p. False\<rparr>"
  let ?c = "\<lparr>pk_pts = AV_NOPTS_VALUE, pk_dts = AV_NOPTS_VALUE, pk_duration = 0, pk_flags = 0, pk_data = [1 :: u8]\<rparr>"
  let ?f = "\<lparr>pk_pts = 7, pk_dts = AV_NOPTS_VALUE, pk_duration = 0, pk_flags = 0, pk_data = [2 :: u8]\<rparr>"
  let ?w = "\<lparr>nw_open = {}, nw_next = 3, nw_answers = replicate 4 (2 ^ 32),
      nw_incoming = concat (map packet_wire [?c, ?f]), nw_sent = [], nw_bound = [], nw_stray = 0, nw_failed = 0\<rparr>"
  let ?fps = "\<lparr>fc_started = False, fc_interrupted = False, fc_stopped = False,
       fc_thread = False, fc_rendered = 0, fc_skipped = 0, fc_next = 0, fc_log = []\<rparr>"
  let ?d = "\<lparr>d_ctx = False, d_cv_ctx = False, d_sws = False, d_vb = vb_start False ?fps,
        d_new_frame_events = 0, d_opencv_events = 0\<rparr>"
  let ?s = "\<lparr>st_video_socket = 3, st_decoder = Some \<lparr>sd_dec = ?d, sd_packets = []\<rparr>,
      st_recorder = Some (recorder_start ''f'' RECORDER_FORMAT_MP4 \<lparr>width = 1, height = 1\<rparr>),
      st_codec_ctx = False, st_parser = False, st_has_pending = False, st_pending = av_new_packet 0,
      st_thread = True, st_stopped_events = 0\<rparr>"
  have c: "is_config ?c" "\<not> is_config ?f" by (simp_all add: is_config_def AV_NOPTS_VALUE_def)
  have "\<exists>s' sd' r'. RunStream True True True ?lib (irobot_ops (\<lambda>p. Some (0, 1, 10)) id [''mp4'']) ?w ?s = Some s' \<and>
    st_decoder s' = Some sd' \<and> sd_packets sd' = decoded ?lib [] [?c, ?f] \<and> \<not> d_ctx (sd_dec sd') \<and>
    st_recorder s' = Some r' \<and> rc_written r' = recorded id (finished (saved ?lib [] [?c, ?f])) \<and>
    \<not> rc_ctx r' \<and> rc_failed r' = ([?c, ?f] = []) \<and>
    \<not> st_codec_ctx s' \<and> \<not> st_parser s' \<and> st_stopped_events s' = st_stopped_events ?s + 1"
    by (rule stream_to_file [where filename = "''f''" and format = RECORDER_FORMAT_MP4 and name = "''mp4''"
          and frame_size = "\<lparr>width = 1, height = 1\<rparr>" and sd = "\<lparr>sd_dec = ?d, sd_packets = []\<rparr>"])
      (simp_all add: enough_memory_def complete_frames_def received_def c waits_all_def
        RecorderGetFormatName_def vb_start_def)
  then show ?thesis using c by (force simp: joined_def)
qed



end
