(* ===== verification/Command.thy ===== *)
theory Command
  imports Net Common
begin

section \<open>Processes and adb (src/src/platform/command.cpp, src/src/platform/unix/command.cpp)\<close>

text \<open>
  Running \<^verbatim>\<open>adb\<close>. The operating system is a \<open>proc_world\<close>: the sockets of \<^theory_text>\<open>Net\<close>, the
  environment, the regular files, the children not yet waited for, the open pipe ends, and lists
  of answers for the calls to come: one \<open>exec_answer\<close> for each process started, the exit status of
  each process waited for (\<^term>\<open>None\<close> when it was killed or the wait fails), and whether each
  signal can be sent. \<open>pw_commands\<close> is the history of the command lines that were executed.
  \<open>pw_ndebug\<close> tells whether the program was compiled with \<^verbatim>\<open>NDEBUG\<close>.
\<close>

abbreviation PROCESS_NONE :: int where
  "PROCESS_NONE \<equiv> - 1"

abbreviation NO_EXIT_CODE :: int where
  "NO_EXIT_CODE \<equiv> - 1"

datatype ProcessResult = PROCESS_SUCCESS | PROCESS_ERROR_GENERIC | PROCESS_ERROR_MISSING_BINARY

record exec_answer =
  ex_pipe :: bool
  ex_fork :: bool
  ex_fcntl :: bool
  ex_exec :: "int option"
  ex_write :: bool
  ex_read :: bool

record proc_world =
  pw_net :: net_world
  pw_ndebug :: bool
  pw_env :: "string \<Rightarrow> string option"
  pw_adb_command :: "string option"
  pw_regular :: "string \<Rightarrow> bool"
  pw_exec :: "exec_answer list"
  pw_exits :: "int option list"
  pw_kills :: "bool list"
  pw_next :: int
  pw_children :: "int set"
  pw_fds :: nat
  pw_commands :: "string list list"

subsection \<open>Starting, terminating and waiting for a process\<close>

definition ENOENT :: int where
  "ENOENT = 2"

text \<open>
  What the child writes into the pipe; a successful \<open>exec\<close> closes it instead. The parent reads
  the end of the pipe when nothing was written, and then the result keeps its initial value.
\<close>

definition child_message :: "exec_answer \<Rightarrow> ProcessResult option" where
  "child_message a =
     (if ex_fcntl a then
        (case ex_exec a of
           None \<Rightarrow> None
         | Some errno \<Rightarrow>
             let ret = (if errno = ENOENT then PROCESS_ERROR_MISSING_BINARY else PROCESS_ERROR_GENERIC)
             in if ex_write a then Some ret else None)
      else if ex_write a then Some PROCESS_ERROR_GENERIC else None)"

definition cmd_execute :: "string list \<Rightarrow> proc_world \<Rightarrow> ProcessResult \<times> int \<times> proc_world" where
  "cmd_execute argv w =
     (case pw_exec w of
        [] \<Rightarrow> (PROCESS_ERROR_GENERIC, PROCESS_NONE, w)
      | a # as \<Rightarrow>
          let w = w\<lparr>pw_exec := as\<rparr> in
          if \<not> ex_pipe a then (PROCESS_ERROR_GENERIC, PROCESS_NONE, w)
          else
            let w = w\<lparr>pw_fds := pw_fds w + 2\<rparr> in
            if \<not> ex_fork a then (PROCESS_ERROR_GENERIC, - 1, w\<lparr>pw_fds := pw_fds w - 2\<rparr>)
            else
              let pid = pw_next w;
                  w = w\<lparr>pw_next := pid + 1, pw_children := insert pid (pw_children w)\<rparr>;
                  w = (if ex_fcntl a \<and> ex_exec a = None
                       then w\<lparr>pw_commands := pw_commands w @ [argv]\<rparr> else w);
                  w = w\<lparr>pw_fds := pw_fds w - 1\<rparr>;
                  ret = (if \<not> ex_read a then PROCESS_ERROR_GENERIC
                         else case child_message a of None \<Rightarrow> PROCESS_SUCCESS | Some r \<Rightarrow> r)
              in (ret, pid, w\<lparr>pw_fds := pw_fds w - 1\<rparr>))"

definition cmd_terminate :: "int \<Rightarrow> proc_world \<Rightarrow> (bool \<times> proc_world) option" where
  "cmd_terminate pid w = do {
     c_assert (0 < pid);
     case pw_kills w of
       [] \<Rightarrow> Some (False, w)
     | k # ks \<Rightarrow> Some (k, w\<lparr>pw_kills := ks\<rparr>)
   }"

text \<open>Compiled without \<^verbatim>\<open>NDEBUG\<close>, waiting reports success whatever the exit code is.\<close>

definition cmd_simple_wait :: "int \<Rightarrow> proc_world \<Rightarrow> bool \<times> int \<times> proc_world" where
  "cmd_simple_wait pid w =
     (let (status, w') = (if pid \<notin> pw_children w then (None, w)
            else case pw_exits w of
                [] \<Rightarrow> (None, w\<lparr>pw_children := pw_children w - {pid}\<rparr>)
              | s # ss \<Rightarrow> (s, w\<lparr>pw_children := pw_children w - {pid}, pw_exits := ss\<rparr>));
          code = (case status of None \<Rightarrow> - 1 | Some c \<Rightarrow> c)
      in (if \<not> pw_ndebug w then True else code = 0, code, w'))"

definition process_check_success :: "int \<Rightarrow> proc_world \<Rightarrow> bool \<times> proc_world" where
  "process_check_success process w =
     (if process = PROCESS_NONE then (False, w)
      else let (ok, exit_code, w) = cmd_simple_wait process w in (ok, w))"

definition is_regular_file :: "string \<Rightarrow> proc_world \<Rightarrow> bool" where
  "is_regular_file path w = pw_regular w path"

subsection \<open>Error messages\<close>

text \<open>The subtraction \<open>bufsize - 4\<close> is on \<open>size_t\<close>.\<close>

fun argv_to_string_loop :: "string list \<Rightarrow> nat \<Rightarrow> bool \<Rightarrow> string \<Rightarrow> (nat \<times> string) option" where
  "argv_to_string_loop [] idx first buf = Some (idx, buf)"
| "argv_to_string_loop (arg # argv) idx first buf =
     (let len = length arg; bufsize = length buf in
      if bufsize \<le> idx + len + 8 then do {
        c_assert (idx < (bufsize + 2 ^ 64 - 4) mod 2 ^ 64);
        buf \<leftarrow> store_block buf idx ''...'';
        Some (idx + 3, buf)
      }
      else do {
        (idx, buf) \<leftarrow> (if first then Some (idx, buf)
          else do {
            buf \<leftarrow> store buf idx (CHR '','');
            buf \<leftarrow> store buf (idx + 1) (CHR '' '');
            Some (idx + 2, buf)
          });
        buf \<leftarrow> store buf idx (CHR ''['');
        buf \<leftarrow> store_block buf (idx + 1) arg;
        buf \<leftarrow> store buf (idx + 1 + len) (CHR '']'');
        argv_to_string_loop argv (idx + 1 + len + 1) False buf
      })"

definition argv_to_string :: "string list \<Rightarrow> string \<Rightarrow> (nat \<times> string) option" where
  "argv_to_string argv buf = do {
     (idx, buf) \<leftarrow> argv_to_string_loop argv 0 True buf;
     c_assert (idx < length buf);
     buf \<leftarrow> store buf idx NUL;
     Some (idx, buf)
   }"

text \<open>The message logged; \<open>buf\<close> is the local array, of 512 characters.\<close>

definition show_adb_err_msg :: "ProcessResult \<Rightarrow> string list \<Rightarrow> string \<Rightarrow> string option" where
  "show_adb_err_msg err argv buf =
     (case err of
        PROCESS_ERROR_GENERIC \<Rightarrow> do {
          (_, buf) \<leftarrow> argv_to_string argv buf;
          Some (''Failed to execute: '' @ cstr buf)
        }
      | PROCESS_ERROR_MISSING_BINARY \<Rightarrow> do {
          (_, buf) \<leftarrow> argv_to_string argv buf;
          Some (''Command not found: '' @ cstr buf)
        }
      | PROCESS_SUCCESS \<Rightarrow> Some [])"

subsection \<open>adb commands\<close>

definition get_adb_command :: "proc_world \<Rightarrow> string \<times> proc_world" where
  "get_adb_command w =
     (case pw_adb_command w of
        Some c \<Rightarrow> (c, w)
      | None \<Rightarrow>
          let c = (case pw_env w ''ADB'' of Some c \<Rightarrow> c | None \<Rightarrow> ''adb'')
          in (c, w\<lparr>pw_adb_command := Some c\<rparr>))"

definition adb_execute :: "string option \<Rightarrow> string list \<Rightarrow> proc_world \<Rightarrow> (int \<times> proc_world) option" where
  "adb_execute serial adb_cmd w =
     (let (adb, w) = get_adb_command w;
          cmd = adb # (case serial of Some s \<Rightarrow> [''-s'', s] | None \<Rightarrow> []) @ adb_cmd;
          (r, process, w) = cmd_execute cmd w
      in if r \<noteq> PROCESS_SUCCESS then do {
           _ \<leftarrow> show_adb_err_msg r cmd (replicate 512 NUL);
           Some (PROCESS_NONE, w)
         }
         else Some (process, w))"

text \<open>
  \<open>sprintf\<close> into an array of \<open>n\<close> characters is defined when the text and its NUL fit;
  \<open>snprintf\<close> cuts the text.
\<close>

definition sprintf_into :: "nat \<Rightarrow> string \<Rightarrow> string option" where
  "sprintf_into n s = (if length s < n then Some s else None)"

definition snprintf_into :: "nat \<Rightarrow> string \<Rightarrow> string" where
  "snprintf_into n s = take (n - 1) s"

definition tcp_port :: "u16 \<Rightarrow> string option" where
  "tcp_port local_port = sprintf_into (4 + 5 + 1) (''tcp:'' @ dec_nat (unat local_port))"

definition localabstract :: "string \<Rightarrow> string" where
  "localabstract name = snprintf_into (108 + 14 + 1) (''localabstract:'' @ name)"

definition adb_forward :: "string option \<Rightarrow> u16 \<Rightarrow> string \<Rightarrow> proc_world \<Rightarrow> (int \<times> proc_world) option" where
  "adb_forward serial local_port device_socket_name w = do {
     local \<leftarrow> tcp_port local_port;
     let remote = localabstract device_socket_name;
     adb_execute serial [''forward'', local, remote] w
   }"

definition adb_forward_remove :: "string option \<Rightarrow> u16 \<Rightarrow> proc_world \<Rightarrow> (int \<times> proc_world) option" where
  "adb_forward_remove serial local_port w = do {
     local \<leftarrow> tcp_port local_port;
     adb_execute serial [''forward'', ''--remove'', local] w
   }"

definition adb_reverse :: "string option \<Rightarrow> string \<Rightarrow> u16 \<Rightarrow> proc_world \<Rightarrow> (int \<times> proc_world) option" where
  "adb_reverse serial device_socket_name local_port w = do {
     local \<leftarrow> tcp_port local_port;
     let remote = localabstract device_socket_name;
     adb_execute serial [''reverse'', remote, local] w
   }"

definition adb_reverse_remove :: "string option \<Rightarrow> string \<Rightarrow> proc_world \<Rightarrow> (int \<times> proc_world) option" where
  "adb_reverse_remove serial device_socket_name w =
     (let remote = localabstract device_socket_name
      in adb_execute serial [''reverse'', ''--remove'', remote] w)"

definition adb_push :: "string option \<Rightarrow> string \<Rightarrow> string \<Rightarrow> proc_world \<Rightarrow> (int \<times> proc_world) option" where
  "adb_push serial local remote w = adb_execute serial [''push'', local, remote] w"

definition adb_install :: "string option \<Rightarrow> string \<Rightarrow> proc_world \<Rightarrow> (int \<times> proc_world) option" where
  "adb_install serial local w = adb_execute serial [''install'', ''-r'', local] w"

subsection \<open>The text of a command line\<close>

text \<open>The arguments in brackets, separated by commas.\<close>

fun show_args :: "bool \<Rightarrow> string list \<Rightarrow> string" where
  "show_args first [] = []"
| "show_args first (a # as) = (if first then [] else '', '') @ ''['' @ a @ '']'' @ show_args False as"

lemma argv_to_string_loop_shows:
  assumes "length ws + 4 < length buf" and "length buf < 2 ^ 64"
  shows "\<exists>k \<le> length argv. let r = ws @ show_args first (take k argv) @ (if k < length argv then ''...'' else [])
    in argv_to_string_loop argv (length ws) first (written ws buf) = Some (length r, written r buf) \<and>
       length r < length buf"
  using assms
proof (induction argv arbitrary: ws first)
  case Nil
  then show ?case by simp
next
  case (Cons arg argv)
  have n: "length (written ws buf) = length buf" using Cons.prems by (simp add: length_written)
  show ?case
  proof (cases "length buf \<le> length ws + length arg + 8")
    case True
    have "(length buf + 2 ^ 64 - 4) mod 2 ^ 64 = length buf - 4"
    proof -
      obtain m where m: "length buf = m + 4" using Cons.prems(1) by (metis add.commute less_imp_add_positive add.assoc)
      then have "length buf + 2 ^ 64 - 4 = m + 2 ^ 64" by simp
      then have "(length buf + 2 ^ 64 - 4) mod 2 ^ 64 = m mod 2 ^ 64" by (simp only: mod_add_self2)
      then show ?thesis using Cons.prems(2) m by simp
    qed
    moreover have "store_block (written ws buf) (length ws) ''...'' = Some (written (ws @ ''...'') buf)"
      using Cons.prems by (intro store_block_written) simp_all
    ultimately have "argv_to_string_loop (arg # argv) (length ws) first (written ws buf) =
        Some (length ws + 3, written (ws @ ''...'') buf)"
      using True n Cons.prems by (simp add: Let_def c_assert_def less_diff_conv)
    then show ?thesis using Cons.prems by (intro exI [of _ 0]) (simp add: Let_def)
  next
    case False
    let ?sep = "if first then [] else '', ''"
    let ?p = "?sep @ ''['' @ arg @ '']''"
    have sep: "(if first then Some (length ws, written ws buf)
          else do {
            buf \<leftarrow> store (written ws buf) (length ws) (CHR '','');
            buf \<leftarrow> store buf (length ws + 1) (CHR '' '');
            Some (length ws + 2, buf)
          }) = Some (length (ws @ ?sep), written (ws @ ?sep) buf)"
      using False by (auto simp: store_as_block mem_simps)
    have "argv_to_string_loop (arg # argv) (length ws) first (written ws buf) =
        argv_to_string_loop argv (length (ws @ ?p)) False (written (ws @ ?p) buf)"
      using False n
      by (simp add: Let_def sep del: One_nat_def) (auto simp: store_as_block mem_simps)
    moreover have "length (ws @ ?p) + 4 < length buf" using False by auto
    from Cons.IH [OF this Cons.prems(2), of False] obtain k where k: "k \<le> length argv"
      "argv_to_string_loop argv (length (ws @ ?p)) False (written (ws @ ?p) buf) =
         Some (length ((ws @ ?p) @ show_args False (take k argv) @ (if k < length argv then ''...'' else [])),
               written ((ws @ ?p) @ show_args False (take k argv) @ (if k < length argv then ''...'' else [])) buf)"
      "length ((ws @ ?p) @ show_args False (take k argv) @ (if k < length argv then ''...'' else [])) < length buf"
      by (auto simp only: Let_def)
    ultimately show ?thesis
      by (intro exI [of _ "Suc k"]) (simp add: Let_def)
  qed
qed

lemma cstring_show_args: "\<forall>a \<in> set as. cstring a \<Longrightarrow> cstring (show_args f as)"
  by (induction as arbitrary: f) (auto simp: NUL_def)

lemma argv_to_string_shows:
  assumes "4 < length buf" and "length buf < 2 ^ 64"
  shows "\<exists>k \<le> length argv. let r = show_args True (take k argv) @ (if k < length argv then ''...'' else [])
    in argv_to_string argv buf = Some (length r, written (r @ [NUL]) buf) \<and> length r < length buf"
proof -
  have "length [] + 4 < length buf" using assms(1) by simp
  from argv_to_string_loop_shows [OF this assms(2), of argv True] obtain k where k: "k \<le> length argv"
    "let r = show_args True (take k argv) @ (if k < length argv then ''...'' else [])
     in argv_to_string_loop argv 0 True buf = Some (length r, written r buf) \<and> length r < length buf"
    by (auto simp: Let_def written_Nil)
  then have "let r = show_args True (take k argv) @ (if k < length argv then ''...'' else [])
    in argv_to_string argv buf = Some (length r, written (r @ [NUL]) buf) \<and> length r < length buf"
    by (auto simp: argv_to_string_def Let_def store_as_block mem_simps)
  with k(1) show ?thesis by blast
qed

lemma show_adb_err_msg_defined: "\<exists>t. show_adb_err_msg err argv (replicate 512 NUL) = Some t"
proof -
  have "\<exists>x. argv_to_string argv (replicate 512 NUL) = Some x"
    using argv_to_string_shows [of "replicate 512 NUL" argv] by (auto simp: Let_def)
  then show ?thesis by (cases err) (auto simp: show_adb_err_msg_def)
qed

lemma tcp_port_defined: "tcp_port p = Some (''tcp:'' @ dec_nat (unat p))"
proof -
  have "unat p < 10 ^ Suc 4" using unsigned_less [of p, where ?'a = nat] by simp
  from length_dec_nat_le [OF this] show ?thesis by (simp add: tcp_port_def sprintf_into_def)
qed

subsection \<open>What running a command changes\<close>

definition proc_inv :: "proc_world \<Rightarrow> bool" where
  "proc_inv w \<longleftrightarrow> 0 < pw_next w \<and> (\<forall>p \<in> pw_children w. 0 < p \<and> p < pw_next w)"

text \<open>Everything but the processes, the answers and the name of the adb program stays.\<close>

definition proc_frame :: "proc_world \<Rightarrow> proc_world \<Rightarrow> bool" where
  "proc_frame w w' \<longleftrightarrow> pw_net w' = pw_net w \<and> pw_ndebug w' = pw_ndebug w \<and> pw_regular w' = pw_regular w \<and>
     pw_env w' = pw_env w \<and> pw_fds w' = pw_fds w \<and> pw_next w \<le> pw_next w' \<and>
     (\<forall>p \<in> pw_children w'. p \<in> pw_children w \<or> pw_next w \<le> p)"

lemma proc_frame_refl [simp]: "proc_frame w w"
  by (simp add: proc_frame_def)

lemma proc_frame_trans:
  assumes a: "proc_frame w w1" and b: "proc_frame w1 w2"
  shows "proc_frame w w2"
proof -
  have "p \<in> pw_children w \<or> pw_next w \<le> p" if "p \<in> pw_children w2" for p
    using a b that unfolding proc_frame_def by (meson order_trans)
  with a b show ?thesis by (simp add: proc_frame_def)
qed

lemma cmd_execute_frame:
  assumes "cmd_execute argv w = (r, p, w')" and "proc_inv w"
  shows "proc_inv w' \<and> proc_frame w w' \<and>
    (r = PROCESS_SUCCESS \<longrightarrow> p \<in> pw_children w' \<and> pw_next w \<le> p) \<and> pw_children w \<subseteq> pw_children w'"
proof -
  have "case cmd_execute argv w of (r, p, w') \<Rightarrow> proc_inv w' \<and> proc_frame w w' \<and>
      (r = PROCESS_SUCCESS \<longrightarrow> p \<in> pw_children w' \<and> pw_next w \<le> p) \<and> pw_children w \<subseteq> pw_children w'"
  proof (cases "pw_exec w")
    case Nil
    with assms(2) show ?thesis by (simp add: cmd_execute_def)
  next
    case (Cons a as)
    have old: "\<forall>p \<in> pw_children w. 0 < p \<and> p < pw_next w + 1" "0 < pw_next w + 1"
      using assms(2) by (fastforce simp: proc_inv_def)+
    with assms(2) Cons show ?thesis
      by (cases "ex_pipe a"; cases "ex_fork a")
        (simp_all add: cmd_execute_def Let_def proc_inv_def proc_frame_def subset_insertI)
  qed
  with assms(1) show ?thesis by simp
qed

lemma get_adb_command_frame:
  assumes "get_adb_command w = (c, w')" and "proc_inv w"
  shows "proc_inv w' \<and> proc_frame w w' \<and> pw_next w' = pw_next w \<and> pw_children w' = pw_children w"
proof -
  have "w' = w \<or> (\<exists>x. w' = w\<lparr>pw_adb_command := x\<rparr>)"
    using assms(1) by (cases "pw_adb_command w") (auto simp: get_adb_command_def Let_def)
  with assms(2) show ?thesis by (auto simp: proc_inv_def proc_frame_def)
qed

lemma adb_execute_frame:
  assumes "proc_inv w"
  shows "\<exists>p w'. adb_execute serial cmd w = Some (p, w') \<and> proc_inv w' \<and> proc_frame w w' \<and>
    (p \<noteq> PROCESS_NONE \<longrightarrow> p \<in> pw_children w' \<and> pw_next w \<le> p) \<and> pw_children w \<subseteq> pw_children w'"
proof -
  obtain adb w1 where a: "get_adb_command w = (adb, w1)" by fastforce
  from get_adb_command_frame [OF this assms] have w1: "proc_inv w1" "proc_frame w w1" "pw_next w1 = pw_next w"
    "pw_children w1 = pw_children w"
    by blast+
  let ?cmd = "adb # (case serial of Some s \<Rightarrow> [''-s'', s] | None \<Rightarrow> []) @ cmd"
  obtain r p w2 where e: "cmd_execute ?cmd w1 = (r, p, w2)" by (metis prod_cases3)
  from cmd_execute_frame [OF this w1(1)] have w2: "proc_inv w2" "proc_frame w1 w2"
    "r = PROCESS_SUCCESS \<longrightarrow> p \<in> pw_children w2 \<and> pw_next w1 \<le> p" "pw_children w \<subseteq> pw_children w2"
    using w1(4) by blast+
  have f: "proc_frame w w2" by (rule proc_frame_trans [OF w1(2) w2(2)])
  obtain t where "show_adb_err_msg r ?cmd (replicate 512 NUL) = Some t"
    using show_adb_err_msg_defined by blast
  then show ?thesis
    using a e w2 f w1(3) by (cases "r = PROCESS_SUCCESS") (auto simp: adb_execute_def Let_def)
qed

lemma process_check_frame:
  assumes "process_check_success p w = (ok, w')" and "proc_inv w"
  shows "proc_inv w' \<and> proc_frame w w' \<and> p \<notin> pw_children w' \<or> p = PROCESS_NONE \<and> \<not> ok \<and> w' = w"
proof (cases "p = PROCESS_NONE")
  case True
  with assms show ?thesis by (simp add: process_check_success_def)
next
  case False
  have "case process_check_success p w of (ok, w') \<Rightarrow> proc_inv w' \<and> proc_frame w w' \<and> p \<notin> pw_children w'"
    using assms(2) False
    by (cases "p \<in> pw_children w"; cases "pw_exits w")
      (simp_all add: process_check_success_def cmd_simple_wait_def Let_def proc_inv_def proc_frame_def)
  with assms(1) show ?thesis by simp
qed

lemma process_check_children:
  assumes "process_check_success p w = (ok, w')"
  shows "pw_children w - {p} \<subseteq> pw_children w'"
proof -
  have "case process_check_success p w of (ok, w') \<Rightarrow> pw_children w - {p} \<subseteq> pw_children w'"
    by (cases "p = PROCESS_NONE"; cases "p \<in> pw_children w"; cases "pw_exits w")
      (auto simp: process_check_success_def cmd_simple_wait_def Let_def)
  with assms show ?thesis by simp
qed

text \<open>Running a command and waiting for it.\<close>

lemma adb_run:
  assumes "proc_inv w"
  shows "\<exists>ok w'. Option.bind (adb_execute serial cmd w) (\<lambda>(process, w). Some (process_check_success process w)) = Some (ok, w') \<and>
    proc_inv w' \<and> proc_frame w w' \<and> pw_children w \<subseteq> pw_children w'"
proof -
  obtain p w1 where a: "adb_execute serial cmd w = Some (p, w1)" "proc_inv w1" "proc_frame w w1"
    "p \<noteq> PROCESS_NONE \<longrightarrow> p \<in> pw_children w1 \<and> pw_next w \<le> p" "pw_children w \<subseteq> pw_children w1"
    using adb_execute_frame [OF assms] by blast
  obtain ok w2 where c: "process_check_success p w1 = (ok, w2)" by fastforce
  have f: "proc_inv w2 \<and> proc_frame w w2"
    using process_check_frame [OF c a(2)] a(2,3) proc_frame_trans [OF a(3)] by blast
  have "p \<notin> pw_children w" if "p \<noteq> PROCESS_NONE"
    using that a(4) assms unfolding proc_inv_def by (meson not_le)
  moreover have "PROCESS_NONE \<notin> pw_children w"
    using assms unfolding proc_inv_def by fastforce
  ultimately have "pw_children w \<subseteq> pw_children w2"
    using process_check_children [OF c] a(5) by blast
  with a(1) c f show ?thesis by simp
qed

text \<open>
  A process that is forked but whose program is not executed, or whose report cannot be read, is
  not waited for by the code. When there is none of them, a command leaves no process behind.
\<close>

definition forks_report :: "proc_world \<Rightarrow> bool" where
  "forks_report w \<longleftrightarrow> (\<forall>a \<in> set (pw_exec w). ex_pipe a \<and> ex_fork a \<longrightarrow> ex_fcntl a \<and> ex_exec a = None \<and> ex_read a)"

lemma cmd_execute_children:
  assumes "cmd_execute argv w = (r, p, w')" and "forks_report w"
  shows "forks_report w' \<and> pw_children w' = (if r = PROCESS_SUCCESS then insert p (pw_children w) else pw_children w)"
proof -
  have "case cmd_execute argv w of (r, p, w') \<Rightarrow>
      forks_report w' \<and> pw_children w' = (if r = PROCESS_SUCCESS then insert p (pw_children w) else pw_children w)"
  proof (cases "pw_exec w")
    case Nil
    with assms(2) show ?thesis by (simp add: cmd_execute_def)
  next
    case (Cons a as)
    with assms(2) show ?thesis
      by (cases "ex_pipe a"; cases "ex_fork a") (simp_all add: cmd_execute_def Let_def forks_report_def child_message_def)
  qed
  with assms(1) show ?thesis by simp
qed

text \<open>Without that, a child is left behind: the caller is told that there is no process.\<close>

lemma unread_report_leaves_child:
  assumes "pw_exec w = a # as" and "ex_pipe a" and "ex_fork a" and "\<not> ex_read a"
  shows "\<exists>w'. adb_execute serial cmd w = Some (PROCESS_NONE, w') \<and> pw_next w \<in> pw_children w'"
proof -
  obtain adb w1 where a: "get_adb_command w = (adb, w1)" by fastforce
  then have w1: "pw_exec w1 = a # as" "pw_next w1 = pw_next w"
    using assms(1) by (auto simp: get_adb_command_def Let_def split: option.splits)
  have e: "\<exists>w'. cmd_execute argv w1 = (PROCESS_ERROR_GENERIC, pw_next w, w') \<and> pw_next w \<in> pw_children w'" for argv
    using assms(2-4) w1 by (simp add: cmd_execute_def Let_def)
  let ?cmd = "adb # (case serial of Some s \<Rightarrow> [''-s'', s] | None \<Rightarrow> []) @ cmd"
  from e [of ?cmd] obtain w2 where "cmd_execute ?cmd w1 = (PROCESS_ERROR_GENERIC, pw_next w, w2)"
    "pw_next w \<in> pw_children w2" by blast
  moreover obtain t where "show_adb_err_msg PROCESS_ERROR_GENERIC ?cmd (replicate 512 NUL) = Some t"
    using show_adb_err_msg_defined by blast
  ultimately show ?thesis using a by (simp add: adb_execute_def)
qed

lemma get_adb_command_exec: "get_adb_command w = (c, w') \<Longrightarrow> pw_exec w' = pw_exec w \<and> pw_children w' = pw_children w"
  by (auto simp: get_adb_command_def Let_def split: option.splits)

lemma adb_execute_children:
  assumes "adb_execute serial cmd w = Some (p, w')" and "forks_report w"
  shows "forks_report w' \<and> pw_children w' \<subseteq> insert p (pw_children w)"
proof -
  obtain adb w1 where a: "get_adb_command w = (adb, w1)" by fastforce
  let ?cmd = "adb # (case serial of Some s \<Rightarrow> [''-s'', s] | None \<Rightarrow> []) @ cmd"
  obtain r q w2 where e: "cmd_execute ?cmd w1 = (r, q, w2)" by (metis prod_cases3)
  have "forks_report w1" using get_adb_command_exec [OF a] assms(2) by (simp add: forks_report_def)
  note c = cmd_execute_children [OF e this]
  have "w' = w2 \<and> p = (if r = PROCESS_SUCCESS then q else PROCESS_NONE)"
    using assms(1) a e by (auto simp: adb_execute_def Let_def bind_Some_iff split: if_splits)
  with c get_adb_command_exec [OF a] show ?thesis by auto
qed

lemma adb_run_children:
  assumes "Option.bind (adb_execute serial cmd w) (\<lambda>(process, w). Some (process_check_success process w)) = Some (ok, w')"
    and "proc_inv w" and "forks_report w"
  shows "forks_report w' \<and> pw_children w' \<subseteq> pw_children w"
proof -
  obtain p w1 where a: "adb_execute serial cmd w = Some (p, w1)" "proc_inv w1"
    using adb_execute_frame [OF assms(2)] by blast
  note c = adb_execute_children [OF a(1) assms(3)]
  have ck: "process_check_success p w1 = (ok, w')" using assms(1) a(1) by simp
  show ?thesis
  proof (cases "p = PROCESS_NONE")
    case True
    have "PROCESS_NONE \<notin> pw_children w1" using a(2) unfolding proc_inv_def by fastforce
    with c ck True show ?thesis by (auto simp: process_check_success_def)
  next
    case False
    have "case process_check_success p w1 of (ok, w') \<Rightarrow> pw_exec w' = pw_exec w1 \<and> pw_children w' = pw_children w1 - {p}"
      using False by (cases "p \<in> pw_children w1"; cases "pw_exits w1")
        (simp_all add: process_check_success_def cmd_simple_wait_def Let_def)
    with ck c show ?thesis by (auto simp: forks_report_def)
  qed
qed

text \<open>A command that starts and exits with code 0.\<close>

definition exec_ok :: "exec_answer \<Rightarrow> bool" where
  "exec_ok a \<longleftrightarrow> ex_pipe a \<and> ex_fork a \<and> ex_fcntl a \<and> ex_exec a = None \<and> ex_read a"

lemma adb_execute_ok:
  assumes "pw_exec w = a # as" and "exec_ok a" and "pw_adb_command w = Some adb" and "pw_next w \<noteq> PROCESS_NONE"
  shows "adb_execute serial cmd w = Some (pw_next w, w\<lparr>pw_exec := as, pw_next := pw_next w + 1,
      pw_children := insert (pw_next w) (pw_children w),
      pw_commands := pw_commands w @ [adb # (case serial of Some s \<Rightarrow> [''-s'', s] | None \<Rightarrow> []) @ cmd]\<rparr>)"
  using assms
  by (simp add: adb_execute_def get_adb_command_def cmd_execute_def exec_ok_def child_message_def Let_def)

definition adb_argv :: "string \<Rightarrow> string option \<Rightarrow> string list \<Rightarrow> string list" where
  "adb_argv adb serial cmd = adb # (case serial of Some s \<Rightarrow> [''-s'', s] | None \<Rightarrow> []) @ cmd"

lemma adb_run_ok:
  assumes "pw_exec w = a # as" and "exec_ok a" and "pw_adb_command w = Some adb" and "proc_inv w"
    and "pw_exits w = Some 0 # es"
  shows "Option.bind (adb_execute serial cmd w) (\<lambda>(process, w). Some (process_check_success process w)) =
    Some (True, w\<lparr>pw_exec := as, pw_exits := es, pw_next := pw_next w + 1,
      pw_commands := pw_commands w @ [adb_argv adb serial cmd]\<rparr>)"
proof -
  have p: "pw_next w \<noteq> PROCESS_NONE" "pw_next w \<notin> pw_children w"
    using assms(4) by (auto simp: proc_inv_def)
  let ?w1 = "w\<lparr>pw_exec := as, pw_next := pw_next w + 1,
      pw_children := insert (pw_next w) (pw_children w),
      pw_commands := pw_commands w @ [adb_argv adb serial cmd]\<rparr>"
  have e: "adb_execute serial cmd w = Some (pw_next w, ?w1)"
    using adb_execute_ok [OF assms(1-3) p(1)] by (simp add: adb_argv_def)
  have "process_check_success (pw_next w) ?w1 = (True, ?w1\<lparr>pw_children := insert (pw_next w) (pw_children w) - {pw_next w}, pw_exits := es\<rparr>)"
    using p assms(5) by (simp add: process_check_success_def cmd_simple_wait_def)
  moreover have "insert (pw_next w) (pw_children w) - {pw_next w} = pw_children w" using p(2) by blast
  ultimately show ?thesis using e by (cases w) simp
qed

lemma cstr_written: "cstring s \<Longrightarrow> cstr (written (s @ [NUL]) buf) = s"
  by (simp add: written_def cstr_cstring)

subsection \<open>Properties\<close>

text \<open>A command line is shown without leaving the buffer, whatever its arguments are: the text is
  the arguments in brackets, as many as fit, followed by an ellipsis when some are left out; it
  is shorter than the buffer and terminated by a NUL, and both assertions hold.\<close>

theorem argv_to_string_fits:
  assumes "4 < length buf" and "length buf < 2 ^ 64" and "\<forall>a \<in> set argv. cstring a"
  shows "\<exists>k buf'. let r = show_args True (take k argv) @ (if k < length argv then ''...'' else []) in
    k \<le> length argv \<and> argv_to_string argv buf = Some (length r, buf') \<and> length buf' = length buf \<and>
    length r < length buf \<and> cstr buf' = r"
proof -
  from argv_to_string_shows [OF assms(1,2), of argv] obtain k where k: "k \<le> length argv" and
    r: "let r = show_args True (take k argv) @ (if k < length argv then ''...'' else [])
      in argv_to_string argv buf = Some (length r, written (r @ [NUL]) buf) \<and> length r < length buf" by blast
  have cs: "cstring (show_args True (take k argv) @ (if k < length argv then ''...'' else []))"
    using cstring_show_args [of "take k argv" True] assms(3) by (auto simp: NUL_def dest: in_set_takeD)

  define t where "t = show_args True (take k argv) @ (if k < length argv then ''...'' else [])"
  have "argv_to_string argv buf = Some (length t, written (t @ [NUL]) buf)" "length t < length buf"
    using r by (simp_all add: Let_def t_def)
  moreover from this have "length (written (t @ [NUL]) buf) = length buf" by (simp add: length_written)
  moreover have "cstr (written (t @ [NUL]) buf) = t" by (rule cstr_written) (use cs in \<open>simp add: t_def\<close>)
  ultimately show ?thesis
    using k by (intro exI [of _ k] exI [of _ "written (t @ [NUL]) buf"]) (simp add: Let_def t_def)
qed

theorem argv_to_string_fits_witness:
  "\<exists>n buf'. argv_to_string [''push'', ''a''] (replicate 16 NUL) = Some (n, buf') \<and> length buf' = 16 \<and> n < 16"
  using argv_to_string_fits [of "replicate 16 NUL" "[''push'', ''a'']"]
  by (auto simp: Let_def NUL_def)

text \<open>Starting a process leaves no pipe end open on any path, and when the result is success the
  child is one that can be waited for; a failed \<open>exec\<close> whose report reaches the parent is never
  reported as success.\<close>

theorem cmd_execute_pipe:
  assumes "proc_inv w" and "cmd_execute argv w = (r, p, w')"
  shows "pw_fds w' = pw_fds w \<and> pw_net w' = pw_net w \<and>
    (r = PROCESS_SUCCESS \<longrightarrow> p \<in> pw_children w' \<and> p \<notin> pw_children w) \<and>
    (\<forall>a as. pw_exec w = a # as \<and> ex_write a \<and> \<not> (ex_fcntl a \<and> ex_exec a = None) \<longrightarrow> r \<noteq> PROCESS_SUCCESS)"
proof -
  note f = cmd_execute_frame [OF assms(2,1)]
  have "r \<noteq> PROCESS_SUCCESS" if w: "pw_exec w = a # as" "ex_write a" "\<not> (ex_fcntl a \<and> ex_exec a = None)" for a as
  proof -
    obtain m where "child_message a = Some m" "m \<noteq> PROCESS_SUCCESS"
      using w(2,3) by (cases "ex_fcntl a"; cases "ex_exec a") (auto simp: child_message_def Let_def split: if_splits)
    with assms(2) w(1) show ?thesis
      by (cases "ex_pipe a"; cases "ex_fork a"; cases "ex_read a") (auto simp: cmd_execute_def Let_def)
  qed
  moreover have "pw_fds w' = pw_fds w \<and> pw_net w' = pw_net w" using f by (simp add: proc_frame_def)
  moreover have "p \<in> pw_children w' \<and> p \<notin> pw_children w" if "r = PROCESS_SUCCESS"
    using f that assms(1) unfolding proc_inv_def by (meson not_le)
  ultimately show ?thesis by metis
qed

theorem cmd_execute_pipe_witness:
  "let w = \<lparr>pw_net = \<lparr>nw_open = {}, nw_next = 0, nw_answers = [], nw_incoming = [], nw_sent = [], nw_bound = [], nw_stray = 0, nw_failed = 0\<rparr>,
       pw_ndebug = True, pw_env = \<lambda>s. None, pw_adb_command = None, pw_regular = \<lambda>s. True,
       pw_exec = [\<lparr>ex_pipe = True, ex_fork = True, ex_fcntl = True, ex_exec = Some 2, ex_write = True, ex_read = True\<rparr>],
       pw_exits = [], pw_kills = [], pw_next = 7, pw_children = {}, pw_fds = 0, pw_commands = []\<rparr>
   in fst (cmd_execute [''adb''] w) \<noteq> PROCESS_SUCCESS"
proof -
  let ?w = "\<lparr>pw_net = \<lparr>nw_open = {}, nw_next = 0, nw_answers = [], nw_incoming = [], nw_sent = [], nw_bound = [], nw_stray = 0, nw_failed = 0\<rparr>,
       pw_ndebug = True, pw_env = \<lambda>s. None, pw_adb_command = None, pw_regular = \<lambda>s. True,
       pw_exec = [\<lparr>ex_pipe = True, ex_fork = True, ex_fcntl = True, ex_exec = Some 2, ex_write = True, ex_read = True\<rparr>],
       pw_exits = [], pw_kills = [], pw_next = 7, pw_children = {}, pw_fds = 0, pw_commands = []\<rparr>"
  obtain r p w' where "cmd_execute [''adb''] ?w = (r, p, w')" by (metis prod_cases3)
  with cmd_execute_pipe [of ?w, OF _ this] show ?thesis by (simp add: proc_inv_def)
qed

text \<open>Waiting for a command: compiled with \<^verbatim>\<open>NDEBUG\<close>, success is reported exactly when the
  child exited with code 0; compiled without it, success is reported for every process that was
  started, also when the command failed or was killed.\<close>

theorem process_check_exit_code:
  assumes "p \<noteq> PROCESS_NONE" and "p \<in> pw_children w" and "pw_exits w = status # rest"
  shows "fst (process_check_success p w) = (pw_ndebug w \<longrightarrow> status = Some 0) \<and>
    p \<notin> pw_children (snd (process_check_success p w))"
  using assms
  by (auto simp: process_check_success_def cmd_simple_wait_def Let_def split: option.splits)

theorem process_check_exit_code_witness:
  "fst (process_check_success 7
     \<lparr>pw_net = \<lparr>nw_open = {}, nw_next = 0, nw_answers = [], nw_incoming = [], nw_sent = [], nw_bound = [], nw_stray = 0, nw_failed = 0\<rparr>,
       pw_ndebug = False, pw_env = \<lambda>s. None, pw_adb_command = None, pw_regular = \<lambda>s. True,
       pw_exec = [], pw_exits = [Some 1], pw_kills = [], pw_next = 8, pw_children = {7}, pw_fds = 0,
       pw_commands = []\<rparr>) = True"
  by (subst process_check_exit_code [THEN conjunct1]) simp_all

end
