(* ===== verification/Windows.thy ===== *)
theory Windows
  imports Command Str_Util
begin

section \<open>The Windows build of the platform (src/src/platform/windows, str_util.cpp, command.cpp)\<close>

text \<open>
  Processes are started from one command line, which the new process takes apart again, so the
  arguments are joined in a buffer of 256 characters and the paths are quoted. The system is a
  \<open>win_world\<close>: the environment and the chosen \<^verbatim>\<open>adb\<close> of \<open>proc_world\<close>, the handles that are open,
  the number of strings allocated and not yet freed, the answers to the calls to come, and the
  command lines of the processes started. A handle is a positive integer, and \<open>NULL\<close> is 0. The
  conversion between UTF-8 and wide characters is a parameter: it yields the units, with the NUL, or
  fails.
\<close>

abbreviation NULL_HANDLE :: int where
  "NULL_HANDLE \<equiv> 0"

text \<open>\<open>Not_Created e\<close>: the process cannot be created and \<^verbatim>\<open>GetLastError\<close> then returns \<open>e\<close>.\<close>

datatype create_answer = Created | Not_Created int

record win_world =
  ww_proc :: proc_world
  ww_create :: "create_answer list"
  ww_exits :: "u32 option list"
  ww_kills :: "(bool \<times> bool) list"
  ww_next :: int
  ww_handles :: "int set"
  ww_live :: nat
  ww_commands :: "u16 list list"

subsection \<open>Wide characters\<close>

definition utf8_to_wide_char ::
  "(string \<Rightarrow> u16 list option) \<Rightarrow> u16 allocator \<Rightarrow> string \<Rightarrow> u16 list option option" where
  "utf8_to_wide_char MultiByteToWideChar malloc utf8 =
     (case MultiByteToWideChar utf8 of
        None \<Rightarrow> Some None
      | Some ws \<Rightarrow>
          (case malloc (length ws) of
             None \<Rightarrow> Some None
           | Some wide \<Rightarrow> do {
               wide \<leftarrow> store_block wide 0 ws;
               Some (Some wide)
             }))"

definition utf8_from_wide_char ::
  "(u16 list \<Rightarrow> string option) \<Rightarrow> char allocator \<Rightarrow> u16 list \<Rightarrow> char list option option" where
  "utf8_from_wide_char WideCharToMultiByte malloc ws =
     (case WideCharToMultiByte ws of
        None \<Rightarrow> Some None
      | Some s \<Rightarrow>
          (case malloc (length s) of
             None \<Rightarrow> Some None
           | Some utf8 \<Rightarrow> do {
               utf8 \<leftarrow> store_block utf8 0 s;
               Some (Some utf8)
             }))"

text \<open>
  The path of the program: \<open>name\<close> is its path in wide characters, of which the system copies as
  many as the buffer has room for, and \<open>[]\<close> when the call fails.
\<close>

definition MAX_PATH :: nat where
  "MAX_PATH = 260"

definition win_get_executable_path ::
  "(u16 list \<Rightarrow> string option) \<Rightarrow> char allocator \<Rightarrow> bool \<Rightarrow> u16 list \<Rightarrow> char list option option" where
  "win_get_executable_path WideCharToMultiByte malloc hModule name =
     (if \<not> hModule then Some None
      else let buf = replicate (MAX_PATH + 1) 0; copied = take MAX_PATH name; len = length copied
      in if len = 0 then Some None
         else do {
           buf \<leftarrow> store_block buf 0 copied;
           buf \<leftarrow> store buf len 0;
           utf8_from_wide_char WideCharToMultiByte malloc (takeWhile (\<lambda>u. u \<noteq> 0) buf)
         })"

subsection \<open>Processes\<close>

definition build_cmd :: "char list \<Rightarrow> nat \<Rightarrow> string list \<Rightarrow> (int \<times> char list) option" where
  "build_cmd cmd len argv = do {
     (cmd, ret) \<leftarrow> xstrjoin cmd argv (CHR '' '') len;
     Some (if len \<le> ret then - 1 else 0, cmd)
   }"

definition ERROR_FILE_NOT_FOUND :: int where
  "ERROR_FILE_NOT_FOUND = 2"

text \<open>A new process comes with two handles, its own and that of its main thread.\<close>

definition CreateProcessW :: "u16 list \<Rightarrow> win_world \<Rightarrow> int option \<times> win_world" where
  "CreateProcessW wide w =
     (case ww_create w of
        Created # as \<Rightarrow> (Some (ww_next w), w\<lparr>ww_create := as, ww_next := ww_next w + 2,
          ww_handles := ww_handles w \<union> {ww_next w, ww_next w + 1}, ww_commands := ww_commands w @ [wide]\<rparr>)
      | _ \<Rightarrow> (None, w))"

definition GetLastError :: "win_world \<Rightarrow> int \<times> win_world" where
  "GetLastError w = (case ww_create w of Not_Created e # as \<Rightarrow> (e, w\<lparr>ww_create := as\<rparr>) | _ \<Rightarrow> (0, w))"

definition win_cmd_execute ::
  "(string \<Rightarrow> u16 list option) \<Rightarrow> u16 allocator \<Rightarrow> string list \<Rightarrow> int \<Rightarrow> win_world
    \<Rightarrow> (ProcessResult \<times> int \<times> win_world) option" where
  "win_cmd_execute to_wide malloc argv handle w = do {
     (r, cmd) \<leftarrow> build_cmd (replicate 256 NUL) 256 argv;
     if r \<noteq> 0 then Some (PROCESS_ERROR_GENERIC, NULL_HANDLE, w)
     else do {
       wide \<leftarrow> utf8_to_wide_char to_wide malloc (cstr cmd);
       case wide of
         None \<Rightarrow> Some (PROCESS_ERROR_GENERIC, handle, w)
       | Some wide \<Rightarrow>
           let w = w\<lparr>ww_live := ww_live w + 1\<rparr>;
               (created, w) = CreateProcessW wide w;
               w = w\<lparr>ww_live := ww_live w - 1\<rparr>
           in case created of
                None \<Rightarrow>
                  let (e, w) = GetLastError w
                  in Some (if e = ERROR_FILE_NOT_FOUND then PROCESS_ERROR_MISSING_BINARY else PROCESS_ERROR_GENERIC,
                           NULL_HANDLE, w)
              | Some hProcess \<Rightarrow> Some (PROCESS_SUCCESS, hProcess, w)
     }
   }"

text \<open>The answer to the request to end a process, and to the one to close its handle.\<close>

definition win_cmd_terminate :: "int \<Rightarrow> win_world \<Rightarrow> bool \<times> win_world" where
  "win_cmd_terminate handle w =
     (case ww_kills w of
        [] \<Rightarrow> (False, w)
      | (ended, closes) # ks \<Rightarrow>
          let w = w\<lparr>ww_kills := ks\<rparr>
          in if ended \<and> closes then (True, w\<lparr>ww_handles := ww_handles w - {handle}\<rparr>) else (False, w))"

text \<open>The answer to waiting and asking for the exit code, \<^term>\<open>None\<close> when either fails.\<close>

definition win_cmd_simple_wait :: "int \<Rightarrow> win_world \<Rightarrow> bool \<times> u32 \<times> win_world" where
  "win_cmd_simple_wait handle w =
     (let (answer, w) = (case ww_exits w of [] \<Rightarrow> (None, w) | a # as \<Rightarrow> (a, w\<lparr>ww_exits := as\<rparr>));
          code = (case answer of None \<Rightarrow> - 1 | Some code \<Rightarrow> code)
      in (code = 0, code, w))"

subsection \<open>adb\<close>

text \<open>\<open>process\<close> is what the local variable holds before the call.\<close>

definition win_adb_execute ::
  "(string \<Rightarrow> u16 list option) \<Rightarrow> u16 allocator \<Rightarrow> int \<Rightarrow> string option \<Rightarrow> string list \<Rightarrow> win_world
    \<Rightarrow> (int \<times> win_world) option" where
  "win_adb_execute to_wide malloc process serial adb_cmd w =
     (let (adb, p) = get_adb_command (ww_proc w); w = w\<lparr>ww_proc := p\<rparr>;
          cmd = adb # (case serial of Some s \<Rightarrow> [''-s'', s] | None \<Rightarrow> []) @ adb_cmd
      in do {
        (r, process, w) \<leftarrow> win_cmd_execute to_wide malloc cmd process w;
        if r \<noteq> PROCESS_SUCCESS then do {
          _ \<leftarrow> show_adb_err_msg r cmd (replicate 512 NUL);
          Some (NULL_HANDLE, w)
        }
        else Some (process, w)
      })"

definition win_adb_push ::
  "(string \<Rightarrow> u16 list option) \<Rightarrow> u16 allocator \<Rightarrow> char allocator \<Rightarrow> int \<Rightarrow> string option \<Rightarrow> string \<Rightarrow> string
    \<Rightarrow> win_world \<Rightarrow> (int \<times> win_world) option" where
  "win_adb_push to_wide malloc16 malloc process serial local remote w = do {
     quoted \<leftarrow> strquote malloc local;
     case quoted of
       None \<Rightarrow> Some (NULL_HANDLE, w)
     | Some local \<Rightarrow>
         let w = w\<lparr>ww_live := ww_live w + 1\<rparr> in do {
           quoted \<leftarrow> strquote malloc remote;
           case quoted of
             None \<Rightarrow> Some (NULL_HANDLE, w\<lparr>ww_live := ww_live w - 1\<rparr>)
           | Some remote \<Rightarrow>
               let w = w\<lparr>ww_live := ww_live w + 1\<rparr> in do {
                 (proc, w) \<leftarrow> win_adb_execute to_wide malloc16 process serial [''push'', cstr local, cstr remote] w;
                 Some (proc, w\<lparr>ww_live := ww_live w - 2\<rparr>)
               }
         }
   }"

definition win_adb_install ::
  "(string \<Rightarrow> u16 list option) \<Rightarrow> u16 allocator \<Rightarrow> char allocator \<Rightarrow> int \<Rightarrow> string option \<Rightarrow> string
    \<Rightarrow> win_world \<Rightarrow> (int \<times> win_world) option" where
  "win_adb_install to_wide malloc16 malloc process serial local w = do {
     quoted \<leftarrow> strquote malloc local;
     case quoted of
       None \<Rightarrow> Some (NULL_HANDLE, w)
     | Some local \<Rightarrow>
         let w = w\<lparr>ww_live := ww_live w + 1\<rparr> in do {
           (proc, w) \<leftarrow> win_adb_execute to_wide malloc16 process serial [''install'', ''-r'', cstr local] w;
           Some (proc, w\<lparr>ww_live := ww_live w - 1\<rparr>)
         }
   }"

subsection \<open>Sockets\<close>

text \<open>\<open>res\<close> receives the comparison of the result with 0, which is 0 or 1.\<close>

definition win_net_init :: "int \<Rightarrow> bool" where
  "win_net_init wsa = (let res = (if wsa < 0 then 1 else 0 :: int) in \<not> res < 0)"

definition win_net_close :: "socket_t \<Rightarrow> net_world \<Rightarrow> bool \<times> net_world" where
  "win_net_close socket w = (let (r, w) = sys_close socket w in (r = 0, w))"

text \<open>The number of bytes that can be read is unsigned.\<close>

definition win_net_try_recv :: "u32 \<Rightarrow> bool" where
  "win_net_try_recv l \<longleftrightarrow> 0 \<le> l"

subsection \<open>How a process reads its command line\<close>

text \<open>
  The documented rules: spaces and tabs separate arguments outside quotes; \<open>2 n\<close> backslashes and a
  quote are \<open>n\<close> backslashes and the start or end of a quoted part, \<open>2 n + 1\<close> and a quote are \<open>n\<close>
  backslashes and a quote; other backslashes are themselves. \<open>n\<close> counts the backslashes just read,
  \<open>cur\<close> is the argument begun.
\<close>

definition backslash :: char where "backslash = CHR 0x5C"
definition quote :: char where "quote = CHR 0x22"

definition blank :: "char \<Rightarrow> bool" where
  "blank c \<longleftrightarrow> c = CHR '' '' \<or> c = CHR 0x09"

definition arg_so_far :: "nat \<Rightarrow> string option \<Rightarrow> string" where
  "arg_so_far n cur = (case cur of None \<Rightarrow> [] | Some s \<Rightarrow> s) @ replicate n backslash"

definition arg_end :: "nat \<Rightarrow> string option \<Rightarrow> string list" where
  "arg_end n cur = (if cur = None \<and> n = 0 then [] else [arg_so_far n cur])"

fun read_args :: "nat \<Rightarrow> bool \<Rightarrow> string option \<Rightarrow> string \<Rightarrow> string list" where
  "read_args n quoted cur [] = arg_end n cur"
| "read_args n quoted cur (c # cs) =
     (if c = backslash then read_args (n + 1) quoted cur cs
      else if c = quote then
        (if even n then read_args 0 (\<not> quoted) (Some (arg_so_far (n div 2) cur)) cs
         else read_args 0 quoted (Some (arg_so_far (n div 2) cur @ [quote])) cs)
      else if blank c \<and> \<not> quoted then arg_end n cur @ read_args 0 False None cs
      else read_args 0 quoted (Some (arg_so_far n cur @ [c])) cs)"

definition parse_command_line :: "string \<Rightarrow> string list" where
  "parse_command_line = read_args 0 False None"

text \<open>Characters that are no quotes, and no blanks outside quotes, are read as they are.\<close>

definition read_as :: "bool \<Rightarrow> string \<Rightarrow> nat \<Rightarrow> string option \<Rightarrow> nat \<Rightarrow> string option \<Rightarrow> bool" where
  "read_as quoted t n cur n' cur' \<longleftrightarrow>
     (\<forall>rest. read_args n quoted cur (t @ rest) = read_args n' quoted cur' rest) \<and>
     arg_so_far n' cur' = arg_so_far n cur @ t \<and> (cur \<noteq> None \<longrightarrow> cur' \<noteq> None) \<and>
     (if t = [] then n' = n else last t \<noteq> backslash \<longrightarrow> n' = 0)"

lemma read_literal:
  assumes "quote \<notin> set t" and "\<not> quoted \<Longrightarrow> \<forall>c \<in> set t. \<not> blank c"
  shows "\<exists>n' cur'. read_as quoted t n cur n' cur'"
  using assms
proof (induction t arbitrary: n cur)
  case Nil
  have "read_as quoted [] n cur n cur" by (simp add: read_as_def)
  then show ?case by blast
next
  case (Cons c t)
  let ?n = "if c = backslash then n + 1 else 0"
  let ?cur = "if c = backslash then cur else Some (arg_so_far n cur @ [c])"
  have c: "c \<noteq> quote" "\<not> quoted \<Longrightarrow> \<not> blank c" "quote \<notin> set t" "\<not> quoted \<Longrightarrow> \<forall>c \<in> set t. \<not> blank c"
    using Cons.prems by auto
  from Cons.IH [OF c(3,4)] obtain n' cur' where i: "read_as quoted t ?n ?cur n' cur'" by blast
  have "read_args n quoted cur (c # cs) = read_args ?n quoted ?cur cs" for cs
    using c(1,2) by (cases quoted) simp_all
  moreover have "arg_so_far ?n ?cur = arg_so_far n cur @ [c]"
    by (simp add: arg_so_far_def replicate_append_same)
  ultimately have "read_as quoted (c # t) n cur n' cur'"
    using i unfolding read_as_def by (cases "t = []") auto
  then show ?case by blast
qed

text \<open>\<open>token e v\<close>: the text \<open>e\<close> of the command line is read as the argument \<open>v\<close>.\<close>

definition token :: "string \<Rightarrow> string \<Rightarrow> bool" where
  "token e v \<longleftrightarrow> e \<noteq> [] \<and> read_args 0 False None e = [v] \<and>
     (\<forall>rest. read_args 0 False None (e @ CHR '' '' # rest) = v # read_args 0 False None rest)"

definition plain :: "string \<Rightarrow> bool" where
  "plain t \<longleftrightarrow> t \<noteq> [] \<and> quote \<notin> set t \<and> (\<forall>c \<in> set t. \<not> blank c)"

definition quotable :: "string \<Rightarrow> bool" where
  "quotable t \<longleftrightarrow> quote \<notin> set t \<and> (t \<noteq> [] \<longrightarrow> last t \<noteq> backslash)"

lemma special_chars [simp]: "CHR '' '' \<noteq> backslash" "CHR '' '' \<noteq> quote" "quote \<noteq> backslash" "blank (CHR '' '')"
  by (simp_all add: backslash_def quote_def blank_def)

lemma token_plain: "plain t \<Longrightarrow> token t t"
proof -
  assume t: "plain t"
  then have "quote \<notin> set t" "\<forall>c \<in> set t. \<not> blank c" by (simp_all add: plain_def)
  from read_literal [OF this, of False 0 None] obtain n cur where r:
    "\<And>rest. read_args 0 False None (t @ rest) = read_args n False cur rest" "arg_so_far n cur = t"
    unfolding read_as_def by (auto simp: arg_so_far_def)
  have "arg_end n cur = [t]" using r(2) t by (auto simp: arg_end_def arg_so_far_def plain_def)
  with r(1) [of "[]"] r(1) t show ?thesis by (simp add: token_def plain_def)
qed

lemma token_quoted: "quotable t \<Longrightarrow> token (quote # t @ [quote]) t"
proof -
  assume t: "quotable t"
  then have "quote \<notin> set t" by (simp add: quotable_def)
  from read_literal [OF this, of True 0 "Some []"] obtain n cur where a: "read_as True t 0 (Some []) n cur" by auto
  then have r: "\<And>rest. read_args 0 True (Some []) (t @ rest) = read_args n True cur rest"
    "arg_so_far n cur = t" "n = 0"
    using t by (simp_all add: read_as_def quotable_def arg_so_far_def split: if_splits)
  have "read_args 0 False None ((quote # t @ [quote]) @ rest) = read_args 0 False (Some t) rest" for rest
    using r(1) [of "quote # rest"] r(2,3) by (simp add: arg_so_far_def)
  from this [of "[]"] this show ?thesis by (simp add: token_def arg_end_def arg_so_far_def)
qed

lemma join_from_more: "acc \<noteq> [] \<Longrightarrow> join_from sep acc ts = acc @ concat (map (\<lambda>t. sep # t) ts)"
  by (induction ts arbitrary: acc) auto

lemma read_tokens:
  assumes "list_all2 token es vs" and "es \<noteq> []"
  shows "parse_command_line (join_from (CHR '' '') [] es) = vs"
proof -
  have "read_args 0 False None (e @ concat (map (\<lambda>t. CHR '' '' # t) es)) = v # vs"
    if "token e v" "list_all2 token es vs" for e v es vs
    using that(2,1)
  proof (induction arbitrary: e v rule: list_all2_induct)
    case Nil
    then show ?case by (simp add: token_def)
  next
    case (Cons e' es' v' vs')
    then show ?case using Cons.IH [OF Cons.hyps(1)] by (simp add: token_def)
  qed
  moreover obtain e es' v vs' where "es = e # es'" "vs = v # vs'" "token e v" "list_all2 token es' vs'"
    using assms by (auto simp: list_all2_Cons1 neq_Nil_conv)
  moreover from this have "e \<noteq> []" by (simp add: token_def)
  ultimately show ?thesis by (simp add: parse_command_line_def join_from_more)
qed

subsection \<open>What the calls do\<close>

definition unwords :: "string list \<Rightarrow> string" where
  "unwords = join_from (CHR '' '') []"

lemma cstring_join_from: "cstring acc \<Longrightarrow> \<forall>t \<in> set ts. cstring t \<Longrightarrow> cstring (join_from (CHR '' '') acc ts)"
  by (induction ts arbitrary: acc) (auto simp: cstring_def NUL_def)

lemma cstr_strquote [simp]: "cstring s \<Longrightarrow> cstr (CHR 0x22 # s @ [CHR 0x22, NUL]) = quote # s @ [quote]"
  using cstr_append_NUL [of "CHR 0x22 # s @ [CHR 0x22]" "[]"] cstr_cstring [of "CHR 0x22 # s @ [CHR 0x22]"]
  by (simp add: quote_def cstring_def NUL_def)

lemma build_cmd_result:
  assumes "argv \<noteq> []" and "\<forall>t \<in> set argv. cstring t"
  shows "\<exists>cmd. build_cmd (replicate 256 NUL) 256 argv = Some (if length (unwords argv) < 256 then 0 else - 1, cmd) \<and>
    (length (unwords argv) < 256 \<longrightarrow> cstr cmd = unwords argv)"
proof -
  have "cstring []" by (simp add: cstring_def)
  from cstring_join_from [OF this assms(2)] have "cstring (unwords argv)" by (simp add: unwords_def)
  then show ?thesis
    using xstrjoin_spec [OF assms, of 256 "replicate 256 NUL" "CHR '' ''"]
    by (auto simp: build_cmd_def unwords_def Let_def cstr_written)
qed

lemma utf8_to_wide_char_result:
  assumes "malloc_ok malloc"
  shows "utf8_to_wide_char to_wide malloc s =
    Some (Option.bind (to_wide s) (\<lambda>ws. Option.bind (malloc (length ws)) (\<lambda>_. Some ws)))"
  using malloc_okD [OF assms]
  by (auto simp: utf8_to_wide_char_def store_block_def split: option.splits)

lemma win_cmd_execute_result:
  assumes "argv \<noteq> []" and "\<forall>t \<in> set argv. cstring t" and "malloc_ok malloc"
  shows "win_cmd_execute to_wide malloc argv handle w =
    Some (if 256 \<le> length (unwords argv) then (PROCESS_ERROR_GENERIC, NULL_HANDLE, w)
      else case Option.bind (to_wide (unwords argv)) (\<lambda>ws. Option.bind (malloc (length ws)) (\<lambda>_. Some ws)) of
        None \<Rightarrow> (PROCESS_ERROR_GENERIC, handle, w)
      | Some ws \<Rightarrow>
          (case ww_create w of
             [] \<Rightarrow> (PROCESS_ERROR_GENERIC, NULL_HANDLE, w)
           | Created # as \<Rightarrow> (PROCESS_SUCCESS, ww_next w, w\<lparr>ww_create := as, ww_next := ww_next w + 2,
               ww_handles := ww_handles w \<union> {ww_next w, ww_next w + 1}, ww_commands := ww_commands w @ [ws]\<rparr>)
           | Not_Created e # as \<Rightarrow>
               (if e = ERROR_FILE_NOT_FOUND then PROCESS_ERROR_MISSING_BINARY else PROCESS_ERROR_GENERIC,
                NULL_HANDLE, w\<lparr>ww_create := as\<rparr>)))"
proof -
  from build_cmd_result [OF assms(1,2)] obtain cmd where
    b: "build_cmd (replicate 256 NUL) 256 argv = Some (if length (unwords argv) < 256 then 0 else - 1, cmd)"
      "length (unwords argv) < 256 \<longrightarrow> cstr cmd = unwords argv" by blast
  show ?thesis
  proof (cases "length (unwords argv) < 256")
    case True
    with b show ?thesis
      by (cases w) (auto simp: win_cmd_execute_def utf8_to_wide_char_result [OF assms(3)] CreateProcessW_def
        GetLastError_def ERROR_FILE_NOT_FOUND_def Let_def split: option.splits list.splits create_answer.splits)
  next
    case False
    with b show ?thesis by (simp add: win_cmd_execute_def)
  qed
qed

definition quoted_push :: "string \<Rightarrow> string option \<Rightarrow> string \<Rightarrow> string \<Rightarrow> string list" where
  "quoted_push adb serial local remote =
     adb_argv adb serial [''push'', quote # local @ [quote], quote # remote @ [quote]]"

lemma quoted_push_cstrings:
  assumes "cstring adb" "\<forall>s. serial = Some s \<longrightarrow> cstring s" and "cstring local" "cstring remote"
  shows "quoted_push adb serial local remote \<noteq> []" "\<forall>t \<in> set (quoted_push adb serial local remote). cstring t"
  using assms by (auto simp: quoted_push_def adb_argv_def cstring_def NUL_def quote_def split: option.splits)

lemma win_adb_push_result:
  assumes "malloc_ok malloc" "malloc_ok malloc16" and "cstring adb" "\<forall>s. serial = Some s \<longrightarrow> cstring s"
    and "cstring local" "cstring remote" and adb: "get_adb_command (ww_proc w) = (adb, pr)"
    and "malloc (length local + 3) \<noteq> None" "malloc (length remote + 3) \<noteq> None"
  shows "\<exists>r h w'. win_cmd_execute to_wide malloc16 (quoted_push adb serial local remote) process
      (w\<lparr>ww_live := ww_live w + 2, ww_proc := pr\<rparr>) = Some (r, h, w') \<and>
    win_adb_push to_wide malloc16 malloc process serial local remote w =
      Some (if r = PROCESS_SUCCESS then h else NULL_HANDLE, w'\<lparr>ww_live := ww_live w' - 2\<rparr>)"
proof -
  let ?w = "w\<lparr>ww_live := ww_live w + 2, ww_proc := pr\<rparr>" and ?cmd = "quoted_push adb serial local remote"
  have q: "strquote malloc s = Some (Some (CHR 0x22 # s @ [CHR 0x22, NUL]))" if "malloc (length s + 3) \<noteq> None" for s
    using that strquote_result [OF assms(1), of s] by auto
  obtain r h w' where e: "win_cmd_execute to_wide malloc16 ?cmd process ?w = Some (r, h, w')"
  proof -
    obtain x where "win_cmd_execute to_wide malloc16 ?cmd process ?w = Some x"
      using win_cmd_execute_result [OF quoted_push_cstrings [OF assms(3-6)] assms(2)] by blast
    then show ?thesis using that by (cases x) auto
  qed
  obtain m where m: "show_adb_err_msg r ?cmd (replicate 512 NUL) = Some m"
    using show_adb_err_msg_defined by blast
  have "win_adb_execute to_wide malloc16 process serial
      [''push'', quote # local @ [quote], quote # remote @ [quote]] (w\<lparr>ww_live := ww_live w + 2\<rparr>) =
    Some (if r = PROCESS_SUCCESS then h else NULL_HANDLE, w')"
    using e m adb by (simp add: win_adb_execute_def quoted_push_def adb_argv_def)
  with e q [OF assms(8)] q [OF assms(9)] show ?thesis
    by (simp add: win_adb_push_def Let_def assms(5,6) numeral_2_eq_2)
qed

lemma quoted_push_tokens:
  assumes "plain adb" and "\<forall>s. serial = Some s \<longrightarrow> plain s" and "quotable local" "quotable remote"
  shows "parse_command_line (unwords (quoted_push adb serial local remote)) = adb_argv adb serial [''push'', local, remote]"
proof -
  have p: "plain ''push''" "plain ''-s''" by (simp_all add: plain_def quote_def blank_def)
  have "list_all2 token (quoted_push adb serial local remote) (adb_argv adb serial [''push'', local, remote])"
    using assms p by (auto simp: quoted_push_def adb_argv_def token_plain token_quoted split: option.splits)
  then show ?thesis unfolding unwords_def
    by (rule read_tokens) (simp add: quoted_push_def adb_argv_def)
qed

text \<open>The command line of a process that is started, and when it is.\<close>

lemma win_cmd_execute_line:
  assumes "argv \<noteq> []" and "\<forall>t \<in> set argv. cstring t" and "malloc_ok malloc"
    and "win_cmd_execute to_wide malloc argv handle w = Some (r, h, w')"
  shows "(r = PROCESS_SUCCESS) = (length (unwords argv) < 256 \<and>
      (\<exists>ws as. to_wide (unwords argv) = Some ws \<and> malloc (length ws) \<noteq> None \<and> ww_create w = Created # as)) \<and>
    (r = PROCESS_SUCCESS \<longrightarrow> h = ww_next w) \<and> ww_live w' = ww_live w \<and>
    ww_commands w' = ww_commands w @ (if r = PROCESS_SUCCESS then [the (to_wide (unwords argv))] else [])"
proof (cases "length (unwords argv) < 256")
  case False
  then show ?thesis using assms(4) unfolding win_cmd_execute_result [OF assms(1-3)] by simp
next
  case short: True
  show ?thesis
  proof (cases "Option.bind (to_wide (unwords argv)) (\<lambda>ws. Option.bind (malloc (length ws)) (\<lambda>_. Some ws))")
    case None
    then have "(r, h, w') = (PROCESS_ERROR_GENERIC, handle, w)"
      using short assms(4) unfolding win_cmd_execute_result [OF assms(1-3)] by simp
    moreover have "\<not> (\<exists>ws as. to_wide (unwords argv) = Some ws \<and> malloc (length ws) \<noteq> None \<and> ww_create w = Created # as)"
      using None by (auto simp: bind_eq_None_conv)
    ultimately show ?thesis by simp
  next
    case (Some ws)
    then have "to_wide (unwords argv) = Some ws" "malloc (length ws) \<noteq> None" by (auto simp: bind_Some_iff)
    with Some short assms(4) show ?thesis unfolding win_cmd_execute_result [OF assms(1-3)]
      by (auto split: list.splits create_answer.splits if_splits)
  qed
qed

text \<open>Whatever the allocations and the conversion do, the call returns and leaves nothing allocated.\<close>

lemma strquote_cases:
  assumes "malloc_ok malloc"
  shows "strquote malloc s = Some (if malloc (length s + 3) = None then None else Some (CHR 0x22 # s @ [CHR 0x22, NUL]))"
proof (cases "malloc (length s + 3)")
  case None
  then show ?thesis by (simp add: strquote_def)
next
  case (Some b)
  with strquote_result [OF assms Some] show ?thesis by simp
qed

lemma win_cmd_execute_live:
  assumes "argv \<noteq> []" and "\<forall>t \<in> set argv. cstring t" and "malloc_ok malloc"
  shows "\<exists>r h w'. win_cmd_execute to_wide malloc argv handle w = Some (r, h, w') \<and> ww_live w' = ww_live w \<and>
    (r = PROCESS_SUCCESS \<longrightarrow> h = ww_next w \<and> ww_handles w' = ww_handles w \<union> {h, h + 1})"
  unfolding win_cmd_execute_result [OF assms]
  by (auto split: option.splits list.splits create_answer.splits)

lemma win_adb_execute_live:
  assumes "malloc_ok malloc" and "cstring (fst (get_adb_command (ww_proc w)))"
    and "\<forall>s. serial = Some s \<longrightarrow> cstring s" and "\<forall>t \<in> set adb_cmd. cstring t"
  shows "\<exists>p w'. win_adb_execute to_wide malloc process serial adb_cmd w = Some (p, w') \<and> ww_live w' = ww_live w"
proof -
  obtain adb pr where a: "get_adb_command (ww_proc w) = (adb, pr)" by fastforce
  let ?cmd = "adb # (case serial of Some s \<Rightarrow> [''-s'', s] | None \<Rightarrow> []) @ adb_cmd"
  have "?cmd \<noteq> []" "\<forall>t \<in> set ?cmd. cstring t"
    using a assms(2-4) by (auto simp: cstring_def NUL_def split: option.splits)
  from win_cmd_execute_live [OF this assms(1), of to_wide process "w\<lparr>ww_proc := pr\<rparr>"] obtain r h w' where
    e: "win_cmd_execute to_wide malloc ?cmd process (w\<lparr>ww_proc := pr\<rparr>) = Some (r, h, w')" "ww_live w' = ww_live w"
    by auto
  obtain m where "show_adb_err_msg r ?cmd (replicate 512 NUL) = Some m" using show_adb_err_msg_defined by blast
  with a e show ?thesis by (simp add: win_adb_execute_def)
qed

lemma win_adb_install_live:
  assumes "malloc_ok malloc" "malloc_ok malloc16" and "cstring (fst (get_adb_command (ww_proc w)))"
    and "\<forall>s. serial = Some s \<longrightarrow> cstring s" and "cstring local"
  shows "\<exists>p w'. win_adb_install to_wide malloc16 malloc process serial local w = Some (p, w') \<and> ww_live w' = ww_live w"
proof -
  have "\<forall>t \<in> set [''install'', ''-r'', quote # local @ [quote]]. cstring t"
    using assms(5) by (auto simp: cstring_def NUL_def quote_def)
  from win_adb_execute_live [OF assms(2) _ assms(4) this, of "w\<lparr>ww_live := ww_live w + 1\<rparr>" to_wide process] assms(3)
  obtain p w' where "win_adb_execute to_wide malloc16 process serial [''install'', ''-r'', quote # local @ [quote]]
      (w\<lparr>ww_live := ww_live w + 1\<rparr>) = Some (p, w')" "ww_live w' = ww_live w + 1" by auto
  then show ?thesis by (simp add: win_adb_install_def strquote_cases [OF assms(1)] assms(5))
qed

lemma win_adb_push_live:
  assumes "malloc_ok malloc" "malloc_ok malloc16" and "cstring (fst (get_adb_command (ww_proc w)))"
    and "\<forall>s. serial = Some s \<longrightarrow> cstring s" and "cstring local" "cstring remote"
  shows "\<exists>p w'. win_adb_push to_wide malloc16 malloc process serial local remote w = Some (p, w') \<and>
    ww_live w' = ww_live w"
proof -
  have "\<forall>t \<in> set [''push'', quote # local @ [quote], quote # remote @ [quote]]. cstring t"
    using assms(5,6) by (auto simp: cstring_def NUL_def quote_def)
  from win_adb_execute_live [OF assms(2) _ assms(4) this, of "w\<lparr>ww_live := ww_live w + 2\<rparr>" to_wide process] assms(3)
  obtain p w' where "win_adb_execute to_wide malloc16 process serial
      [''push'', quote # local @ [quote], quote # remote @ [quote]]
      (w\<lparr>ww_live := ww_live w + 2\<rparr>) = Some (p, w')" "ww_live w' = ww_live w + 2" by auto
  then show ?thesis
    by (simp add: win_adb_push_def strquote_cases [OF assms(1)] assms(5,6) numeral_2_eq_2)
qed

text \<open>The path of the program is read without leaving the buffer, also when it does not fit.\<close>

lemma win_get_executable_path_defined:
  assumes "malloc_ok malloc"
  shows "win_get_executable_path to_utf8 malloc hModule name \<noteq> None"
proof -
  have "utf8_from_wide_char to_utf8 malloc ws \<noteq> None" for ws
    using malloc_okD [OF assms] by (auto simp: utf8_from_wide_char_def store_block_def split: option.splits)
  moreover have "\<exists>b. store_block (replicate (MAX_PATH + 1) 0) 0 (take MAX_PATH name) = Some b \<and> length b = MAX_PATH + 1"
    by (simp add: store_block_def)
  ultimately show ?thesis
    by (auto simp: win_get_executable_path_def Let_def store_def)
qed

text \<open>
  What the code does not mean to do: a failed start of the sockets is never reported, every socket
  seems readable, the handles of a process that has been waited for stay open, and a path that ends
  in a backslash swallows the quote after it.
\<close>

lemma win_net_init_succeeds: "win_net_init wsa"
  by (simp add: win_net_init_def)

lemma win_net_try_recv_true: "win_net_try_recv l"
  by (simp add: win_net_try_recv_def)

lemma win_handles_kept:
  assumes "argv \<noteq> []" and "\<forall>t \<in> set argv. cstring t" and "malloc_ok malloc"
    and "win_cmd_execute to_wide malloc argv handle w = Some (PROCESS_SUCCESS, h, w1)"
    and "win_cmd_simple_wait h w1 = (ok, code, w2)"
  shows "ww_handles w2 = ww_handles w \<union> {h, h + 1}"
proof -
  have "ww_handles w1 = ww_handles w \<union> {h, h + 1}"
    using win_cmd_execute_live [OF assms(1-3), of to_wide handle w] assms(4) by force
  moreover have "ww_handles w2 = ww_handles w1"
    using assms(5) by (cases "ww_exits w1") (auto simp: win_cmd_simple_wait_def Let_def)
  ultimately show ?thesis by simp
qed

lemma trailing_backslash_misread:
  "parse_command_line (unwords (quoted_push ''adb'' None (''C:'' @ [backslash]) ''/sdcard/'')) =
     [''adb'', ''push'', ''C:'' @ [quote, CHR '' ''] @ ''/sdcard/'']"
  by (simp add: parse_command_line_def unwords_def quoted_push_def adb_argv_def arg_end_def arg_so_far_def
    backslash_def quote_def blank_def)

subsection \<open>Properties\<close>


definition ascii_wide :: "string \<Rightarrow> u16 list option" where
  "ascii_wide s = Some (map (\<lambda>c. of_nat (of_char c)) s @ [0])"


end
