(* ===== verification/Device_Server.thy ===== *)
theory Device_Server
  imports Command
begin

section \<open>The server on the device (src/src/core/device_server.cpp)\<close>

text \<open>
  Starting the server through \<^verbatim>\<open>adb\<close>, connecting to it and stopping it. \<open>ds_heap\<close> tells whether
  the copied serial number is allocated, so that freeing it twice has no defined result. The
  build is the one without \<^verbatim>\<open>PORTABLE\<close> and \<^verbatim>\<open>SERVER_DEBUGGER\<close>.
\<close>

definition SOCKET_NAME :: string where
  "SOCKET_NAME = ''irobot''"

definition DEFAULT_SERVER_PATH :: string where
  "DEFAULT_SERVER_PATH = ''./server/irobot-server''"

definition DEVICE_SERVER_PATH :: string where
  "DEVICE_SERVER_PATH = ''/data/local/tmp/irobot-server.jar''"

definition IROBOT_SERVER_VERSION :: string where
  "IROBOT_SERVER_VERSION = ''1.0.0''"

record DeviceServerParameters =
  dp_crop :: "string option"
  dp_local_port :: u16
  dp_max_size :: u16
  dp_bit_rate :: u32
  dp_max_fps :: u16
  dp_control :: bool

record DeviceServer =
  ds_serial :: "string option"
  ds_heap :: bool
  ds_process :: int
  ds_server_socket :: socket_t
  ds_video_socket :: socket_t
  ds_control_socket :: socket_t
  ds_local_port :: u16
  ds_tunnel_enabled :: bool
  ds_tunnel_forward :: bool

definition free_serial :: "DeviceServer \<Rightarrow> DeviceServer option" where
  "free_serial d = (case ds_serial d of
     None \<Rightarrow> Some d
   | Some _ \<Rightarrow> if ds_heap d then Some (d\<lparr>ds_heap := False\<rparr>) else None)"

definition in_net :: "(net_world \<Rightarrow> 'a \<times> net_world) \<Rightarrow> proc_world \<Rightarrow> 'a \<times> proc_world" where
  "in_net f w = (let (x, n) = f (pw_net w) in (x, w\<lparr>pw_net := n\<rparr>))"

subsection \<open>Pushing the server and the tunnel\<close>

definition GetServerPath :: "proc_world \<Rightarrow> string" where
  "GetServerPath w = (case pw_env w ''IROBOT_SERVER_PATH'' of
     Some server_path_env \<Rightarrow> server_path_env
   | None \<Rightarrow> DEFAULT_SERVER_PATH)"

definition PushServer :: "string option \<Rightarrow> proc_world \<Rightarrow> (bool \<times> proc_world) option" where
  "PushServer serial w =
     (let server_path = GetServerPath w in
      if \<not> is_regular_file server_path w then Some (False, w)
      else do {
        (process, w) \<leftarrow> adb_push serial server_path DEVICE_SERVER_PATH w;
        Some (process_check_success process w)
      })"

definition EnableTunnelReverse :: "string option \<Rightarrow> u16 \<Rightarrow> proc_world \<Rightarrow> (bool \<times> proc_world) option" where
  "EnableTunnelReverse serial local_port w = do {
     (process, w) \<leftarrow> adb_reverse serial SOCKET_NAME local_port w;
     Some (process_check_success process w)
   }"

definition DisableTunnelReverse :: "string option \<Rightarrow> proc_world \<Rightarrow> (bool \<times> proc_world) option" where
  "DisableTunnelReverse serial w = do {
     (process, w) \<leftarrow> adb_reverse_remove serial SOCKET_NAME w;
     Some (process_check_success process w)
   }"

definition EnableTunnelForward :: "string option \<Rightarrow> u16 \<Rightarrow> proc_world \<Rightarrow> (bool \<times> proc_world) option" where
  "EnableTunnelForward serial local_port w = do {
     (process, w) \<leftarrow> adb_forward serial local_port SOCKET_NAME w;
     Some (process_check_success process w)
   }"

definition DisableTunnelForward :: "string option \<Rightarrow> u16 \<Rightarrow> proc_world \<Rightarrow> (bool \<times> proc_world) option" where
  "DisableTunnelForward serial local_port w = do {
     (process, w) \<leftarrow> adb_forward_remove serial local_port w;
     Some (process_check_success process w)
   }"

definition EnableTunnel :: "DeviceServer \<Rightarrow> proc_world \<Rightarrow> (bool \<times> DeviceServer \<times> proc_world) option" where
  "EnableTunnel d w = do {
     (ok, w) \<leftarrow> EnableTunnelReverse (ds_serial d) (ds_local_port d) w;
     if ok then Some (True, d, w)
     else do {
       let d = d\<lparr>ds_tunnel_forward := True\<rparr>;
       (ok, w) \<leftarrow> EnableTunnelForward (ds_serial d) (ds_local_port d) w;
       Some (ok, d, w)
     }
   }"

definition DisableTunnel :: "DeviceServer \<Rightarrow> proc_world \<Rightarrow> (bool \<times> proc_world) option" where
  "DisableTunnel d w =
     (if ds_tunnel_forward d then DisableTunnelForward (ds_serial d) (ds_local_port d) w
      else DisableTunnelReverse (ds_serial d) w)"

definition bool_text :: "bool \<Rightarrow> string" where
  "bool_text b = (if b then ''true'' else ''false'')"

definition ExecuteServer :: "DeviceServerParameters \<Rightarrow> DeviceServer \<Rightarrow> proc_world \<Rightarrow> (int \<times> proc_world) option" where
  "ExecuteServer params d w = do {
     max_size_string \<leftarrow> sprintf_into 6 (dec_nat (unat (dp_max_size params)));
     bit_rate_string \<leftarrow> sprintf_into 11 (dec_nat (unat (dp_bit_rate params)));
     max_fps_string \<leftarrow> sprintf_into 6 (dec_nat (unat (dp_max_fps params)));
     let cmd = [''shell'', ''CLASSPATH='' @ DEVICE_SERVER_PATH, ''app_process'', ''/'',
       ''com.guidebee.irobot.Server'', IROBOT_SERVER_VERSION, max_size_string, bit_rate_string,
       max_fps_string, bool_text (ds_tunnel_forward d),
       (case dp_crop params of Some crop \<Rightarrow> crop | None \<Rightarrow> ''-''), ''true'', bool_text (dp_control params)];
     adb_execute (ds_serial d) cmd w
   }"

subsection \<open>Sockets\<close>

definition ListenOnPort :: "u16 \<Rightarrow> proc_world \<Rightarrow> socket_t \<times> proc_world" where
  "ListenOnPort port w = in_net (net_listen IPV4_LOCALHOST port 1) w"

definition ConnectAndReadByte :: "u16 \<Rightarrow> proc_world \<Rightarrow> (socket_t \<times> proc_world) option" where
  "ConnectAndReadByte port w =
     (let (socket, w) = in_net (net_connect IPV4_LOCALHOST port) w in
      if socket = INVALID_SOCKET then Some (INVALID_SOCKET, w)
      else do {
        (r, _, n) \<leftarrow> net_recv socket [0] 0 1 (pw_net w);
        let w = w\<lparr>pw_net := n\<rparr>;
        if r \<noteq> 1 then
          let (_, w) = in_net (net_close socket) w in Some (INVALID_SOCKET, w)
        else Some (socket, w)
      })"

text \<open>The number of attempts left is unsigned and decremented before it is tested.\<close>

function ConnectToServer :: "u16 \<Rightarrow> u32 \<Rightarrow> proc_world \<Rightarrow> (socket_t \<times> proc_world) option" where
  "ConnectToServer port attempts w =
     (case ConnectAndReadByte port w of
        None \<Rightarrow> None
      | Some (socket, w') \<Rightarrow>
          if socket \<noteq> INVALID_SOCKET then Some (socket, w')
          else if 0 < attempts - 1 then ConnectToServer port (attempts - 1) w'
          else Some (INVALID_SOCKET, w'))"
  by pat_completeness auto
termination
proof (relation "measure (\<lambda>(port, attempts, w). if attempts = 0 then 2 ^ 32 else unat attempts)")
  fix attempts :: u32
  fix port :: u16 and w x socket w'
  assume "0 < attempts - 1"
  moreover have "unat (attempts - 1) < 2 ^ 32" using unsigned_less [of "attempts - 1", where ?'a = nat] by simp
  moreover have "unat (attempts - 1) < unat attempts" if "attempts \<noteq> 0"
    using that unat_gt_0 [of attempts] by (simp add: unat_minus_one)
  ultimately show "((port, attempts - 1, w'), port, attempts, w) \<in>
      measure (\<lambda>(port, attempts, w). if attempts = 0 then 2 ^ 32 else unat attempts)"
    by auto
qed simp

declare ConnectToServer.simps [simp del]

definition CloseSocket :: "socket_t \<Rightarrow> proc_world \<Rightarrow> (socket_t \<times> proc_world) option" where
  "CloseSocket socket w = do {
     c_assert (socket \<noteq> INVALID_SOCKET);
     let (_, w) = in_net (net_shutdown socket) w;
     let (ok, w) = in_net (net_close socket) w;
     if \<not> ok then Some (socket, w) else Some (INVALID_SOCKET, w)
   }"

subsection \<open>The life of the server\<close>

definition DeviceServer_Init :: "DeviceServer \<Rightarrow> DeviceServer" where
  "DeviceServer_Init d = d\<lparr>ds_serial := None, ds_process := PROCESS_NONE,
     ds_server_socket := INVALID_SOCKET, ds_video_socket := INVALID_SOCKET,
     ds_control_socket := INVALID_SOCKET, ds_local_port := 0, ds_tunnel_enabled := False,
     ds_tunnel_forward := False\<rparr>"

text \<open>
  The start, in three parts: the process on the device, the server socket before it, and before
  that the serial number, the program and the tunnel. \<open>dup\<close> tells whether the serial number can
  be copied.
\<close>

definition start_process :: "DeviceServerParameters \<Rightarrow> DeviceServer \<Rightarrow> proc_world \<Rightarrow>
    (bool \<times> DeviceServer \<times> proc_world) option" where
  "start_process params d w = do {
     (process, w) \<leftarrow> ExecuteServer params d w;
     let d = d\<lparr>ds_process := process\<rparr>;
     if ds_process d = PROCESS_NONE then do {
       (s, w) \<leftarrow> (if \<not> ds_tunnel_forward d then CloseSocket (ds_server_socket d) w
                  else Some (ds_server_socket d, w));
       let d = d\<lparr>ds_server_socket := s\<rparr>;
       (_, w) \<leftarrow> DisableTunnel d w;
       d \<leftarrow> free_serial d;
       Some (False, d, w)
     }
     else Some (True, d\<lparr>ds_tunnel_enabled := True\<rparr>, w)
   }"

definition start_listen :: "DeviceServerParameters \<Rightarrow> DeviceServer \<Rightarrow> proc_world \<Rightarrow>
    (bool \<times> DeviceServer \<times> proc_world) option" where
  "start_listen params d w =
     (if \<not> ds_tunnel_forward d then
        let (s, w) = ListenOnPort (dp_local_port params) w; d = d\<lparr>ds_server_socket := s\<rparr> in
        if s = INVALID_SOCKET then do {
          (_, w) \<leftarrow> DisableTunnel d w;
          d \<leftarrow> free_serial d;
          Some (False, d, w)
        }
        else start_process params d w
      else start_process params d w)"

definition DeviceServer_Start :: "bool \<Rightarrow> string option \<Rightarrow> DeviceServerParameters \<Rightarrow> DeviceServer \<Rightarrow>
    proc_world \<Rightarrow> (bool \<times> DeviceServer \<times> proc_world) option" where
  "DeviceServer_Start dup pSerial params d w =
     (let d = d\<lparr>ds_local_port := dp_local_port params\<rparr>;
          d = (case pSerial of
                 None \<Rightarrow> d
               | Some s \<Rightarrow> if dup then d\<lparr>ds_serial := Some s, ds_heap := True\<rparr> else d\<lparr>ds_serial := None\<rparr>)
      in if pSerial \<noteq> None \<and> \<not> dup then Some (False, d, w)
      else do {
        (pushed, w) \<leftarrow> PushServer pSerial w;
        if \<not> pushed then do { d \<leftarrow> free_serial d; Some (False, d, w) }
        else do {
          (tunnel, d, w) \<leftarrow> EnableTunnel d w;
          if \<not> tunnel then do { d \<leftarrow> free_serial d; Some (False, d, w) }
          else start_listen params d w
        }
      })"

definition ConnectTo :: "DeviceServer \<Rightarrow> proc_world \<Rightarrow> (bool \<times> DeviceServer \<times> proc_world) option" where
  "ConnectTo d w = do {
     (ok, d, w) \<leftarrow> (if \<not> ds_tunnel_forward d then
        let (s, w) = in_net (net_accept (ds_server_socket d)) w; d = d\<lparr>ds_video_socket := s\<rparr> in
        if s = INVALID_SOCKET then Some (False, d, w)
        else
          let (s, w) = in_net (net_accept (ds_server_socket d)) w; d = d\<lparr>ds_control_socket := s\<rparr> in
          if s = INVALID_SOCKET then Some (False, d, w)
          else do {
            (s, w) \<leftarrow> CloseSocket (ds_server_socket d) w;
            Some (True, d\<lparr>ds_server_socket := s\<rparr>, w)
          }
      else do {
        (s, w) \<leftarrow> ConnectToServer (ds_local_port d) 100 w;
        let d = d\<lparr>ds_video_socket := s\<rparr>;
        if s = INVALID_SOCKET then Some (False, d, w)
        else
          let (s, w) = in_net (net_connect IPV4_LOCALHOST (ds_local_port d)) w;
              d = d\<lparr>ds_control_socket := s\<rparr>
          in Some (s \<noteq> INVALID_SOCKET, d, w)
      });
     if \<not> ok then Some (False, d, w)
     else do {
       (_, w) \<leftarrow> DisableTunnel d w;
       Some (True, d\<lparr>ds_tunnel_enabled := False\<rparr>, w)
     }
   }"

definition close_if_open :: "socket_t \<Rightarrow> proc_world \<Rightarrow> (socket_t \<times> proc_world) option" where
  "close_if_open s w = (if s \<noteq> INVALID_SOCKET then CloseSocket s w else Some (s, w))"

definition DeviceServer_Stop :: "DeviceServer \<Rightarrow> proc_world \<Rightarrow> (DeviceServer \<times> proc_world) option" where
  "DeviceServer_Stop d w = do {
     (s, w) \<leftarrow> close_if_open (ds_server_socket d) w;
     let d = d\<lparr>ds_server_socket := s\<rparr>;
     (s, w) \<leftarrow> close_if_open (ds_video_socket d) w;
     let d = d\<lparr>ds_video_socket := s\<rparr>;
     (s, w) \<leftarrow> close_if_open (ds_control_socket d) w;
     let d = d\<lparr>ds_control_socket := s\<rparr>;
     c_assert (ds_process d \<noteq> PROCESS_NONE);
     (_, w) \<leftarrow> cmd_terminate (ds_process d) w;
     let (_, _, w) = cmd_simple_wait (ds_process d) w;
     if ds_tunnel_enabled d then do {
       (_, w) \<leftarrow> DisableTunnel d w;
       Some (d, w)
     }
     else Some (d, w)
   }"

definition DeviceServer_Destroy :: "DeviceServer \<Rightarrow> DeviceServer option" where
  "DeviceServer_Destroy d = free_serial d"

subsection \<open>Descriptors and processes\<close>

definition only_net :: "proc_world \<Rightarrow> proc_world \<Rightarrow> bool" where
  "only_net w w' \<longleftrightarrow> w' = w\<lparr>pw_net := pw_net w'\<rparr>"

lemma only_net_refl [simp]: "only_net w w"
  by (simp add: only_net_def)

lemma only_net_trans: "only_net w w1 \<Longrightarrow> only_net w1 w2 \<Longrightarrow> only_net w w2"
  by (cases w; cases w1; cases w2) (simp add: only_net_def)

lemma only_net_fields:
  "only_net w w' \<Longrightarrow> pw_children w' = pw_children w \<and> pw_next w' = pw_next w \<and> pw_commands w' = pw_commands w \<and>
     (proc_inv w' \<longleftrightarrow> proc_inv w) \<and> (forks_report w' \<longleftrightarrow> forks_report w) \<and> pw_fds w' = pw_fds w"
proof -
  assume "only_net w w'"
  then obtain n where "w' = w\<lparr>pw_net := n\<rparr>" unfolding only_net_def by blast
  then show ?thesis by (simp add: proc_inv_def forks_report_def)
qed

lemma in_net_result: "in_net f w = (x, w') \<Longrightarrow> f (pw_net w) = (x, pw_net w') \<and> only_net w w'"
  by (auto simp: in_net_def only_net_def split: prod.splits)

lemma acquires_trans:
  "acquires n INVALID_SOCKET n1 \<Longrightarrow> acquires n1 s n2 \<Longrightarrow> acquires n s n2"
  by (auto simp: acquires_def split: if_splits)

lemma sys_recv_open:
  "sys_recv len n = (r, bs, n') \<Longrightarrow> nw_open n' = nw_open n \<and> nw_next n' = nw_next n \<and>
     nw_stray n' = nw_stray n \<and> nw_failed n' = nw_failed n"
  by (auto simp: sys_recv_def Let_def split: prod.splits if_splits)

lemma net_recv_byte:
  "\<exists>r buf n'. net_recv s [x] 0 1 n = Some (r, buf, n') \<and> nw_open n' = nw_open n \<and> nw_next n' = nw_next n \<and>
     nw_stray n' = nw_stray n \<and> nw_failed n' = nw_failed n"
proof -
  obtain r bs n' where s: "sys_recv 1 n = (r, bs, n')" by (metis prod_cases3)
  then have "length bs \<le> 1" by (auto simp: sys_recv_def Let_def split: prod.splits if_splits)
  then show ?thesis
    using sys_recv_open [OF s] by (auto simp: net_recv_def s [unfolded One_nat_def] store_block_def)
qed

lemma CloseSocket_closes:
  assumes "s \<noteq> INVALID_SOCKET" and "net_inv (pw_net w)"
  shows "\<exists>s' w'. CloseSocket s w = Some (s', w') \<and> only_net w w' \<and> net_inv (pw_net w') \<and>
    nw_open (pw_net w') = nw_open (pw_net w) - {s} \<and> s' \<in> {s, INVALID_SOCKET} \<and>
    nw_stray (pw_net w') = nw_stray (pw_net w) + (if s \<in> nw_open (pw_net w) then 0 else 1) \<and>
    nw_failed (pw_net w) \<le> nw_failed (pw_net w') \<and>
    (s' = INVALID_SOCKET \<or> s \<notin> nw_open (pw_net w) \<or> nw_failed (pw_net w) < nw_failed (pw_net w'))"
proof -
  obtain a w1 where 1: "in_net (net_shutdown s) w = (a, w1)" by fastforce
  obtain ok w2 where 2: "in_net (net_close s) w1 = (ok, w2)" by fastforce
  note i1 = in_net_result [OF 1] and i2 = in_net_result [OF 2]
  have o1: "nw_open (pw_net w1) = nw_open (pw_net w)" "nw_next (pw_net w1) = nw_next (pw_net w)"
    "nw_stray (pw_net w1) = nw_stray (pw_net w)" "nw_failed (pw_net w1) = nw_failed (pw_net w)"
    using i1 by (auto simp: net_shutdown_def Let_def split: prod.splits dest: sys_status_open)
  have o2: "nw_open (pw_net w2) = nw_open (pw_net w1) - {s}" "nw_next (pw_net w2) = nw_next (pw_net w1)"
    "nw_stray (pw_net w2) = nw_stray (pw_net w1) + (if s \<in> nw_open (pw_net w1) then 0 else 1)"
    "nw_failed (pw_net w2) = nw_failed (pw_net w1) + (if s \<in> nw_open (pw_net w1) \<and> \<not> ok then 1 else 0)"
    using i2 net_close_open by blast+
  have "only_net w w2" using only_net_trans i1 i2 by blast
  moreover have "net_inv (pw_net w2)" using assms(2) o1 o2 by (simp add: net_inv_def)
  ultimately show ?thesis using assms(1) o1 o2 1 2 by (auto simp: CloseSocket_def)
qed

lemma close_if_open_closes:
  assumes "net_inv (pw_net w)"
  shows "\<exists>s' w'. close_if_open s w = Some (s', w') \<and> only_net w w' \<and> net_inv (pw_net w') \<and>
    nw_open (pw_net w') = nw_open (pw_net w) - ({s} - {INVALID_SOCKET}) \<and>
    nw_stray (pw_net w') = nw_stray (pw_net w) + (if s \<in> insert INVALID_SOCKET (nw_open (pw_net w)) then 0 else 1) \<and>
    nw_failed (pw_net w) \<le> nw_failed (pw_net w')"
  using CloseSocket_closes [OF _ assms] assms by (cases "s = INVALID_SOCKET") (fastforce simp: close_if_open_def)+

lemma ConnectAndReadByte_acquires:
  assumes "net_inv (pw_net w)"
  shows "\<exists>s w'. ConnectAndReadByte port w = Some (s, w') \<and> acquires (pw_net w) s (pw_net w') \<and> only_net w w'"
proof -
  obtain s w1 where 1: "in_net (net_connect IPV4_LOCALHOST port) w = (s, w1)" by fastforce
  note i1 = in_net_result [OF 1]
  have a1: "acquires (pw_net w) s (pw_net w1)" using net_connect_acquires [OF assms] i1 by blast
  show ?thesis
  proof (cases "s = INVALID_SOCKET")
    case True
    with 1 i1 a1 show ?thesis by (simp add: ConnectAndReadByte_def)
  next
    case False
    obtain r buf n where r: "net_recv s [0] 0 1 (pw_net w1) = Some (r, buf, n)"
      "nw_open n = nw_open (pw_net w1)" "nw_next n = nw_next (pw_net w1)"
      "nw_stray n = nw_stray (pw_net w1)" "nw_failed n = nw_failed (pw_net w1)"
      using net_recv_byte by blast
    let ?w2 = "w1\<lparr>pw_net := n\<rparr>"
    have on2: "only_net w ?w2" using i1 only_net_trans [of w w1 ?w2] by (simp add: only_net_def)
    have a2: "acquires (pw_net w) s n" using a1 r by (simp add: acquires_def net_inv_def)
    show ?thesis
    proof (cases "r = 1")
      case True
      with 1 r False on2 a2 show ?thesis by (simp add: ConnectAndReadByte_def)
    next
      case no: False
      obtain ok w3 where 3: "in_net (net_close s) ?w2 = (ok, w3)" by fastforce
      note i3 = in_net_result [OF 3]
      have "acquires (pw_net w) INVALID_SOCKET (pw_net w3)"
        using a2 False net_close_open [of s n ok "pw_net w3"] i3 by (simp add: acquires_def net_inv_def)
      moreover have "only_net w w3" using only_net_trans [OF on2] i3 by blast
      ultimately show ?thesis using 1 r False no 3 by (simp add: ConnectAndReadByte_def)
    qed
  qed
qed

lemma ConnectToServer_acquires:
  assumes "net_inv (pw_net w)"
  shows "\<exists>s w'. ConnectToServer port attempts w = Some (s, w') \<and> acquires (pw_net w) s (pw_net w') \<and> only_net w w'"
  using assms
proof (induction port attempts w rule: ConnectToServer.induct)
  case (1 port attempts w)
  obtain s w1 where c: "ConnectAndReadByte port w = Some (s, w1)" "acquires (pw_net w) s (pw_net w1)" "only_net w w1"
    using ConnectAndReadByte_acquires [OF 1(2)] by blast
  show ?case
  proof (cases "s = INVALID_SOCKET \<and> 0 < attempts - 1")
    case True
    then have "net_inv (pw_net w1)" using c(2) by (simp add: acquires_def)
    from 1(1) [OF c(1) refl _ _ this] True obtain t w2 where
      "ConnectToServer port (attempts - 1) w1 = Some (t, w2)" "acquires (pw_net w1) t (pw_net w2)" "only_net w1 w2"
      by auto
    with c True show ?thesis
      by (subst ConnectToServer.simps) (auto intro: acquires_trans only_net_trans)
  next
    case False
    with c show ?thesis by (subst ConnectToServer.simps) auto
  qed
qed

subsection \<open>The life of a server\<close>

definition runs :: "(bool \<times> proc_world) option \<Rightarrow> proc_world \<Rightarrow> bool" where
  "runs x w \<longleftrightarrow> (\<exists>ok w'. x = Some (ok, w') \<and> proc_inv w' \<and> pw_net w' = pw_net w \<and>
     pw_next w \<le> pw_next w' \<and> pw_children w \<subseteq> pw_children w' \<and>
     (\<forall>p \<in> pw_children w'. p \<in> pw_children w \<or> pw_next w \<le> p) \<and> pw_fds w' = pw_fds w \<and>
     (forks_report w \<longrightarrow> forks_report w' \<and> pw_children w' \<subseteq> pw_children w))"

lemma runs_trans:
  assumes "runs (Some (a, w1)) w" and "runs (Some (b, w2)) w1"
  shows "runs (Some (b, w2)) w"
proof -
  have "p \<in> pw_children w \<or> pw_next w \<le> p" if "p \<in> pw_children w2" for p
    using assms that unfolding runs_def by (metis Pair_inject option.inject order_trans)
  with assms show ?thesis unfolding runs_def by simp blast
qed

text \<open>
  What the server does between a world \<open>w0\<close> and a later one, apart from the sockets that are open:
  everything it closed was open, no end of a pipe stays open, and the processes left are those
  before and \<open>P\<close>.
\<close>

definition since :: "proc_world \<Rightarrow> int set \<Rightarrow> proc_world \<Rightarrow> bool" where
  "since w0 P w \<longleftrightarrow> nw_stray (pw_net w) = nw_stray (pw_net w0) \<and> nw_failed (pw_net w0) \<le> nw_failed (pw_net w) \<and>
     pw_fds w = pw_fds w0 \<and> (forks_report w0 \<longrightarrow> forks_report w \<and> pw_children w \<subseteq> pw_children w0 \<union> P)"

lemma since_fds: "since w0 P w \<Longrightarrow> pw_fds w = pw_fds w0"
  by (simp only: since_def)

lemma since_forks: "since w0 P w \<Longrightarrow> forks_report w0 \<longrightarrow> forks_report w"
  unfolding since_def by blast

lemma since_children: "since w0 {p} w \<Longrightarrow> forks_report w0 \<longrightarrow> pw_children w - {p} \<subseteq> pw_children w0"
  unfolding since_def by blast

lemma since_refl [simp]: "since w {} w"
  by (simp add: since_def)

lemma since_runs: "since w0 P w \<Longrightarrow> runs (Some (ok, w')) w \<Longrightarrow> since w0 P w'"
  by (auto simp: since_def runs_def)

lemma since_only_net:
  "since w0 P w \<Longrightarrow> only_net w w' \<Longrightarrow> nw_stray (pw_net w') = nw_stray (pw_net w) \<Longrightarrow>
   nw_failed (pw_net w) \<le> nw_failed (pw_net w') \<Longrightarrow> since w0 P w'"
  using only_net_fields [of w w'] by (simp add: since_def)

lemma since_acquires: "since w0 P w \<Longrightarrow> only_net w w' \<Longrightarrow> acquires (pw_net w) s (pw_net w') \<Longrightarrow> since w0 P w'"
  unfolding acquires_def by (blast intro: since_only_net)

lemma adb_runs:
  assumes "proc_inv w"
  shows "runs (Option.bind (adb_execute serial cmd w) (\<lambda>(process, w). Some (process_check_success process w))) w"
  using adb_run [OF assms, of serial cmd] adb_run_children [OF _ assms, of serial cmd]
  unfolding runs_def proc_frame_def by metis

lemma tunnel_runs:
  assumes "proc_inv w"
  shows "runs (EnableTunnelReverse serial port w) w" "runs (EnableTunnelForward serial port w) w"
    and "runs (DisableTunnelReverse serial w) w" "runs (DisableTunnelForward serial port w) w"
    and "runs (DisableTunnel d w) w"
  using adb_runs [OF assms]
  by (simp_all add: EnableTunnelReverse_def EnableTunnelForward_def DisableTunnelReverse_def
      DisableTunnelForward_def DisableTunnel_def adb_reverse_def adb_forward_def adb_reverse_remove_def
      adb_forward_remove_def tcp_port_defined)

lemma PushServer_runs: "proc_inv w \<Longrightarrow> runs (PushServer serial w) w"
  using adb_runs by (auto simp: PushServer_def adb_push_def Let_def) (auto simp: runs_def)

text \<open>Other descriptors are \<open>O\<close>; those of the server are among its sockets.\<close>

definition ds_sockets :: "DeviceServer \<Rightarrow> socket_t set" where
  "ds_sockets d = {ds_server_socket d, ds_video_socket d, ds_control_socket d} - {INVALID_SOCKET}"

definition holds :: "socket_t set \<Rightarrow> DeviceServer \<Rightarrow> proc_world \<Rightarrow> bool" where
  "holds O' d w \<longleftrightarrow> net_inv (pw_net w) \<and> proc_inv w \<and> INVALID_SOCKET \<notin> O' \<and> O' \<subseteq> nw_open (pw_net w) \<and>
     nw_open (pw_net w) \<subseteq> O' \<union> ds_sockets d \<and> ds_sockets d \<inter> O' = {}"

definition live_serial :: "DeviceServer \<Rightarrow> bool" where
  "live_serial d \<longleftrightarrow> ds_serial d \<noteq> None \<and> ds_heap d"

definition serial_ok :: "DeviceServer \<Rightarrow> bool" where
  "serial_ok d \<longleftrightarrow> (ds_serial d \<noteq> None \<longrightarrow> ds_heap d)"

lemma free_serial_ok: "serial_ok d \<Longrightarrow> \<exists>h. free_serial d = Some (d\<lparr>ds_heap := h\<rparr>) \<and> \<not> live_serial (d\<lparr>ds_heap := h\<rparr>)"
  by (cases "ds_serial d"; cases d) (auto simp: free_serial_def serial_ok_def live_serial_def)

definition started :: "socket_t set \<Rightarrow> DeviceServer \<Rightarrow> proc_world \<Rightarrow> bool" where
  "started O' d w \<longleftrightarrow> holds O' d w \<and> serial_ok d \<and> ds_process d \<in> pw_children w \<and>
     ds_video_socket d = INVALID_SOCKET \<and> ds_control_socket d = INVALID_SOCKET \<and>
     (if ds_tunnel_forward d then ds_server_socket d = INVALID_SOCKET
      else ds_server_socket d \<noteq> INVALID_SOCKET \<and> ds_server_socket d \<in> nw_open (pw_net w))"

definition failed_start :: "socket_t set \<Rightarrow> DeviceServer \<Rightarrow> proc_world \<Rightarrow> bool" where
  "failed_start O' d w \<longleftrightarrow> nw_open (pw_net w) = O' \<and> net_inv (pw_net w) \<and> proc_inv w \<and> \<not> live_serial d"

lemma EnableTunnel_runs:
  assumes "proc_inv w"
  shows "\<exists>ok f w'. EnableTunnel d w = Some (ok, d\<lparr>ds_tunnel_forward := f\<rparr>, w') \<and>
    runs (Some (ok, w')) w"
proof -
  obtain ok w1 where r: "EnableTunnelReverse (ds_serial d) (ds_local_port d) w = Some (ok, w1)"
    using tunnel_runs(1) [OF assms] unfolding runs_def by blast
  note r1 = tunnel_runs(1) [OF assms, of "ds_serial d" "ds_local_port d", unfolded r]
  show ?thesis
  proof (cases ok)
    case True
    then show ?thesis
      using r r1 by (intro exI [of _ True] exI [of _ "ds_tunnel_forward d"] exI [of _ w1])
        (simp add: EnableTunnel_def)
  next
    case False
    have i1: "proc_inv w1" using r1 by (simp add: runs_def)
    obtain ok2 w2 where f: "EnableTunnelForward (ds_serial d) (ds_local_port d) w1 = Some (ok2, w2)"
      using tunnel_runs(2) [OF i1] unfolding runs_def by blast
    note r2 = tunnel_runs(2) [OF i1, of "ds_serial d" "ds_local_port d", unfolded f]
    have "runs (Some (ok2, w2)) w" by (rule runs_trans [OF r1 r2])
    then show ?thesis
      using r f False by (intro exI [of _ ok2] exI [of _ True] exI [of _ w2]) (simp add: EnableTunnel_def)
  qed
qed

lemma sprintf_16: "sprintf_into 6 (dec_nat (unat (x :: u16))) = Some (dec_nat (unat x))"
proof -
  have "unat x < 10 ^ Suc 4" using unsigned_less [of x, where ?'a = nat] by simp
  from length_dec_nat_le [OF this] show ?thesis by (simp add: sprintf_into_def le_imp_less_Suc)
qed

lemma sprintf_32: "sprintf_into 11 (dec_nat (unat (x :: u32))) = Some (dec_nat (unat x))"
proof -
  have "unat x < 10 ^ Suc 9" using unsigned_less [of x, where ?'a = nat] by simp
  from length_dec_nat_le [OF this] show ?thesis by (simp add: sprintf_into_def le_imp_less_Suc)
qed

lemma ExecuteServer_defined:
  assumes "proc_inv w"
  shows "\<exists>p w'. ExecuteServer params d w = Some (p, w') \<and> proc_inv w' \<and> pw_net w' = pw_net w \<and>
    (p \<noteq> PROCESS_NONE \<longrightarrow> p \<in> pw_children w') \<and> pw_fds w' = pw_fds w \<and>
    (forks_report w \<longrightarrow> forks_report w' \<and> pw_children w' \<subseteq> insert p (pw_children w))"
  using adb_execute_frame [OF assms, of "ds_serial d"] adb_execute_children [of "ds_serial d" _ w]
  unfolding ExecuteServer_def sprintf_16 sprintf_32 Let_def proc_frame_def by simp metis

lemma runsD: "runs x w \<Longrightarrow> \<exists>ok w'. x = Some (ok, w') \<and> proc_inv w' \<and> pw_net w' = pw_net w \<and> runs (Some (ok, w')) w"
  by (auto simp: runs_def)

lemma ex_bool: "(\<exists>b. b) = True" "(\<exists>b. \<not> b) = True"
  by auto

lemma serial_ok_update [simp]:
  "serial_ok (d\<lparr>ds_server_socket := s\<rparr>) = serial_ok d" "serial_ok (d\<lparr>ds_process := p\<rparr>) = serial_ok d"
  "serial_ok (d\<lparr>ds_tunnel_enabled := e\<rparr>) = serial_ok d" "serial_ok (d\<lparr>ds_tunnel_forward := e\<rparr>) = serial_ok d"
  by (simp_all add: serial_ok_def)

definition start_result :: "proc_world \<Rightarrow> socket_t set \<Rightarrow> (bool \<times> DeviceServer \<times> proc_world) option \<Rightarrow> bool" where
  "start_result w0 O' x \<longleftrightarrow> (\<exists>ok d w. x = Some (ok, d, w) \<and> (if ok then started O' d w else failed_start O' d w) \<and>
     since w0 (if ok then {ds_process d} else {}) w)"

text \<open>Giving up: the tunnel is removed and the serial number freed.\<close>

lemma give_up:
  assumes "proc_inv w" and "net_inv (pw_net w)" and "nw_open (pw_net w) = O'" and "serial_ok d" and "since w0 {} w"
  shows "start_result w0 O' (do { (_, w) \<leftarrow> DisableTunnel d w; d \<leftarrow> free_serial d; Some (False, d, w) })"
proof -
  obtain b w' where t: "DisableTunnel d w = Some (b, w')" "proc_inv w'" "pw_net w' = pw_net w" "runs (Some (b, w')) w"
    using runsD [OF tunnel_runs(5) [OF assms(1)]] by blast
  from free_serial_ok [OF assms(4)] obtain h where f: "free_serial d = Some (d\<lparr>ds_heap := h\<rparr>)"
    "\<not> live_serial (d\<lparr>ds_heap := h\<rparr>)" by blast
  with t assms since_runs [OF assms(5) t(4)] show ?thesis by (simp add: start_result_def failed_start_def ex_bool)
qed

lemma start_process_result:
  assumes w: "proc_inv w" "net_inv (pw_net w)" "INVALID_SOCKET \<notin> O'"
    and d: "serial_ok d" "ds_video_socket d = INVALID_SOCKET" "ds_control_socket d = INVALID_SOCKET"
    and s: "if ds_tunnel_forward d then ds_server_socket d = INVALID_SOCKET \<and> nw_open (pw_net w) = O'
      else ds_server_socket d \<noteq> INVALID_SOCKET \<and> ds_server_socket d \<notin> O' \<and>
           nw_open (pw_net w) = insert (ds_server_socket d) O'"
    and w0: "since w0 {} w"
  shows "start_result w0 O' (start_process params d w)"
proof -
  obtain p w1 where e: "ExecuteServer params d w = Some (p, w1)" "proc_inv w1" "pw_net w1 = pw_net w"
    "p \<noteq> PROCESS_NONE \<longrightarrow> p \<in> pw_children w1" and f: "pw_fds w1 = pw_fds w"
    "forks_report w \<longrightarrow> forks_report w1 \<and> pw_children w1 \<subseteq> insert p (pw_children w)"
    using ExecuteServer_defined [OF w(1)] by blast
  have s1: "since w0 {p} w1" using w0 e(3) f unfolding since_def by auto
  moreover have "PROCESS_NONE \<notin> pw_children w1" using e(2) unfolding proc_inv_def by fastforce
  ultimately have s0: "since w0 {} w1" if "p = PROCESS_NONE" using that unfolding since_def by auto
  let ?d = "d\<lparr>ds_process := p\<rparr>"
  show ?thesis
  proof (cases "p = PROCESS_NONE")
    case False
    have "holds O' (?d\<lparr>ds_tunnel_enabled := True\<rparr>) w1"
      using w(2,3) e(2,3) d(2,3) s by (auto simp: holds_def ds_sockets_def split: if_splits)
    then have "started O' (?d\<lparr>ds_tunnel_enabled := True\<rparr>) w1"
      using d s False e(3,4) by (simp add: started_def split: if_splits)
    with e(1) False s1 show ?thesis by (simp add: start_process_def start_result_def ex_bool)
  next
    case True
    show ?thesis
    proof (cases "ds_tunnel_forward d")
      case fwd: True
      have "start_result w0 O' (do { (_, w) \<leftarrow> DisableTunnel ?d w1; d \<leftarrow> free_serial ?d; Some (False, d, w) })"
        using give_up [OF e(2), of O' ?d] w s fwd d e(3) s0 [OF True] by simp
      with e(1) True fwd show ?thesis by (simp add: start_process_def Let_def)
    next
      case False
      then have sv: "ds_server_socket d \<noteq> INVALID_SOCKET" "ds_server_socket d \<notin> O'"
        "nw_open (pw_net w) = insert (ds_server_socket d) O'" using s by simp_all
      have "net_inv (pw_net w1)" using w(2) e(3) by simp
      from CloseSocket_closes [OF sv(1) this] obtain s' w2 where
        c: "CloseSocket (ds_server_socket d) w1 = Some (s', w2)" "only_net w1 w2" "net_inv (pw_net w2)"
        "nw_open (pw_net w2) = nw_open (pw_net w1) - {ds_server_socket d}"
        "nw_stray (pw_net w2) = nw_stray (pw_net w1) + (if ds_server_socket d \<in> nw_open (pw_net w1) then 0 else 1)"
        "nw_failed (pw_net w1) \<le> nw_failed (pw_net w2)" by blast
      have "since w0 {} w2" by (rule since_only_net [OF s0 [OF True] c(2)]) (use c(5,6) e(3) sv(3) in simp_all)
      moreover have "proc_inv w2" using only_net_fields [OF c(2)] e(2) by blast
      moreover have "nw_open (pw_net w2) = O'" using c(4) e(3) sv by auto
      ultimately have "start_result w0 O' (do { (_, w) \<leftarrow> DisableTunnel (?d\<lparr>ds_server_socket := s'\<rparr>) w2;
          d \<leftarrow> free_serial (?d\<lparr>ds_server_socket := s'\<rparr>); Some (False, d, w) })"
        using give_up [OF _ c(3)] d(1) by simp
      with e(1) c(1) True False show ?thesis by (simp add: start_process_def Let_def)
    qed
  qed
qed

lemma start_listen_result:
  assumes w: "proc_inv w" "net_inv (pw_net w)" "INVALID_SOCKET \<notin> nw_open (pw_net w)"
    and d: "serial_ok d" "ds_server_socket d = INVALID_SOCKET" "ds_video_socket d = INVALID_SOCKET"
      "ds_control_socket d = INVALID_SOCKET"
    and w0: "since w0 {} w"
  shows "start_result w0 (nw_open (pw_net w)) (start_listen params d w)"
proof (cases "ds_tunnel_forward d")
  case True
  with start_process_result [OF w d(1,3,4) _ w0] d(2) show ?thesis by (simp add: start_listen_def)
next
  case False
  obtain s w1 where l: "ListenOnPort (dp_local_port params) w = (s, w1)" by fastforce
  then have "in_net (net_listen IPV4_LOCALHOST (dp_local_port params) 1) w = (s, w1)"
    by (simp add: ListenOnPort_def)
  from in_net_result [OF this] net_listen_acquires [OF w(2)]
  have a: "acquires (pw_net w) s (pw_net w1)" "only_net w w1" by blast+
  have n1: "net_inv (pw_net w1)" "proc_inv w1"
    using a w(1) only_net_fields [OF a(2)] by (simp_all add: acquires_def)
  have s1: "since w0 {} w1" by (rule since_acquires [OF w0 a(2,1)])
  let ?d = "d\<lparr>ds_server_socket := s\<rparr>"
  have eq: "start_listen params d w = (if s = INVALID_SOCKET
      then do { (_, w) \<leftarrow> DisableTunnel ?d w1; d \<leftarrow> free_serial ?d; Some (False, d, w) }
      else start_process params ?d w1)"
    using False l by (simp add: start_listen_def Let_def)
  show ?thesis
  proof (cases "s = INVALID_SOCKET")
    case True
    then have "nw_open (pw_net w1) = nw_open (pw_net w)" using a(1) by (simp add: acquires_def)
    with give_up [OF n1(2,1) this _ s1, of ?d] d(1) True show ?thesis unfolding eq by simp
  next
    case s: False
    have "start_result w0 (nw_open (pw_net w)) (start_process params ?d w1)"
      by (rule start_process_result [OF n1(2,1) w(3)]) (use d a(1) False s s1 in \<open>simp_all add: acquires_def\<close>)
    with s show ?thesis unfolding eq by simp
  qed
qed

lemma DeviceServer_Start_result:
  assumes w: "proc_inv w" "net_inv (pw_net w)" "INVALID_SOCKET \<notin> nw_open (pw_net w)"
  shows "start_result w (nw_open (pw_net w)) (DeviceServer_Start dup pSerial params (DeviceServer_Init d) w)"
proof (cases "pSerial \<noteq> None \<and> \<not> dup")
  case True
  with w show ?thesis
    by (auto simp: DeviceServer_Start_def start_result_def failed_start_def live_serial_def)
next
  case False
  define d1 where "d1 = (case pSerial of None \<Rightarrow> (DeviceServer_Init d)\<lparr>ds_local_port := dp_local_port params\<rparr>
      | Some s \<Rightarrow> (DeviceServer_Init d)\<lparr>ds_local_port := dp_local_port params, ds_serial := Some s, ds_heap := True\<rparr>)"
  have d1: "serial_ok d1" "ds_server_socket d1 = INVALID_SOCKET" "ds_video_socket d1 = INVALID_SOCKET"
    "ds_control_socket d1 = INVALID_SOCKET"
    by (auto simp: d1_def DeviceServer_Init_def serial_ok_def split: option.splits)
  obtain pushed w1 where p: "PushServer pSerial w = Some (pushed, w1)" "proc_inv w1" "pw_net w1 = pw_net w"
    "runs (Some (pushed, w1)) w"
    using runsD [OF PushServer_runs [OF w(1)]] by blast
  have s1: "since w {} w1" by (rule since_runs [OF since_refl p(4)])
  have eq: "DeviceServer_Start dup pSerial params (DeviceServer_Init d) w =
      (if \<not> pushed then do { d \<leftarrow> free_serial d1; Some (False, d, w1) }
       else do {
         (tunnel, d, w) \<leftarrow> EnableTunnel d1 w1;
         if \<not> tunnel then do { d \<leftarrow> free_serial d; Some (False, d, w) } else start_listen params d w
       })"
    using False p(1) by (cases pSerial) (auto simp: DeviceServer_Start_def d1_def)
  show ?thesis
  proof (cases pushed)
    case no: False
    from free_serial_ok [OF d1(1)] no p w s1 show ?thesis
      unfolding eq by (auto simp: start_result_def failed_start_def)
  next
    case True
    obtain tunnel f w2 where t: "EnableTunnel d1 w1 = Some (tunnel, d1\<lparr>ds_tunnel_forward := f\<rparr>, w2)"
      "proc_inv w2" "pw_net w2 = pw_net w" "runs (Some (tunnel, w2)) w1"
      using EnableTunnel_runs [OF p(2), of d1] p(3) by (auto simp: runs_def)
    have s2: "since w {} w2" by (rule since_runs [OF s1 t(4)])
    let ?d = "d1\<lparr>ds_tunnel_forward := f\<rparr>"
    show ?thesis
    proof (cases tunnel)
      case no: False
      have "serial_ok ?d" using d1 by simp
      from free_serial_ok [OF this] no True t w s2 show ?thesis
        unfolding eq by (auto simp: start_result_def failed_start_def)
    next
      case yes: True
      have "start_result w (nw_open (pw_net w2)) (start_listen params ?d w2)"
        by (rule start_listen_result) (use t w d1 s2 in simp_all)
      with True yes t show ?thesis unfolding eq by simp
    qed
  qed
qed

lemma holds_acquire:
  assumes "holds O' d w" and "acquires (pw_net w) s (pw_net w')" and "proc_inv w'"
    and "ds_sockets d' = ds_sockets d \<union> ({s} - {INVALID_SOCKET})"
  shows "holds O' d' w'"
  using assms by (cases "s = INVALID_SOCKET") (auto simp: holds_def acquires_def)

lemma holds_close:
  assumes "holds O' d w" and "nw_open (pw_net w') = nw_open (pw_net w) - ({s} - {INVALID_SOCKET})"
    and "net_inv (pw_net w')" and "proc_inv w'" and "s \<in> insert INVALID_SOCKET (ds_sockets d)"
    and "ds_sockets d - {s} \<subseteq> ds_sockets d'" and "ds_sockets d' \<subseteq> ds_sockets d"
  shows "holds O' d' w'"
proof -
  have "INVALID_SOCKET \<notin> ds_sockets d" by (simp add: ds_sockets_def)
  with assms show ?thesis unfolding holds_def by blast
qed

lemma holds_same: "holds O' d w \<Longrightarrow> pw_net w' = pw_net w \<Longrightarrow> proc_inv w' \<Longrightarrow> ds_sockets d' = ds_sockets d \<Longrightarrow> holds O' d' w'"
  by (simp add: holds_def)

lemma accept_acquires:
  assumes "net_inv (pw_net w)" and "in_net (net_accept l) w = (s, w')"
  shows "acquires (pw_net w) s (pw_net w') \<and> only_net w w'"
  using in_net_result [OF assms(2)] sys_socket_open [OF assms(1), of s "pw_net w'"]
  by (auto simp: net_accept_def acquires_def)

text \<open>What connecting keeps and, when it succeeds, provides.\<close>

definition closable :: "proc_world \<Rightarrow> DeviceServer \<Rightarrow> proc_world \<Rightarrow> bool" where
  "closable w0 d w \<longleftrightarrow> since w0 {ds_process d} w \<and>
     {ds_video_socket d, ds_control_socket d} - {INVALID_SOCKET} \<subseteq> nw_open (pw_net w) \<and>
     (ds_server_socket d \<in> insert INVALID_SOCKET (nw_open (pw_net w)) \<or>
        nw_failed (pw_net w0) < nw_failed (pw_net w)) \<and>
     (ds_video_socket d \<noteq> INVALID_SOCKET \<longrightarrow>
        ds_video_socket d \<noteq> ds_server_socket d \<and> ds_video_socket d \<noteq> ds_control_socket d) \<and>
     (ds_control_socket d \<noteq> INVALID_SOCKET \<longrightarrow> ds_control_socket d \<noteq> ds_server_socket d)"

definition ds_connected ::
  "proc_world \<Rightarrow> socket_t set \<Rightarrow> DeviceServer \<Rightarrow> bool \<Rightarrow> DeviceServer \<Rightarrow> proc_world \<Rightarrow> bool" where
  "ds_connected w0 O' d0 ok d w \<longleftrightarrow> holds O' d w \<and> serial_ok d \<and> ds_process d = ds_process d0 \<and>
     ds_process d \<in> pw_children w \<and> closable w0 d w \<and>
     (ok \<longrightarrow> {ds_video_socket d, ds_control_socket d} \<subseteq> nw_open (pw_net w) \<and>
        ds_video_socket d \<noteq> ds_control_socket d \<and>
        ds_video_socket d \<noteq> INVALID_SOCKET \<and> ds_control_socket d \<noteq> INVALID_SOCKET)"

lemma connect_reverse:
  assumes st: "started O' d w" and f: "\<not> ds_tunnel_forward d" and w0: "since w0 {ds_process d} w"
  shows "\<exists>ok d' w'. (let (s, w) = in_net (net_accept (ds_server_socket d)) w; d = d\<lparr>ds_video_socket := s\<rparr> in
        if s = INVALID_SOCKET then Some (False, d, w)
        else
          let (s, w) = in_net (net_accept (ds_server_socket d)) w; d = d\<lparr>ds_control_socket := s\<rparr> in
          if s = INVALID_SOCKET then Some (False, d, w)
          else do {
            (s, w) \<leftarrow> CloseSocket (ds_server_socket d) w;
            Some (True, d\<lparr>ds_server_socket := s\<rparr>, w)
          }) = Some (ok, d', w') \<and> ds_connected w0 O' d ok d' w'"
proof -
  have h: "holds O' d w" and pc: "ds_process d \<in> pw_children w" and ser: "serial_ok d"
    and inval: "ds_video_socket d = INVALID_SOCKET" "ds_control_socket d = INVALID_SOCKET"
    and sv: "ds_server_socket d \<noteq> INVALID_SOCKET" "ds_server_socket d \<in> nw_open (pw_net w)"
    using st f by (auto simp: started_def)
  obtain v w1 where 1: "in_net (net_accept (ds_server_socket d)) w = (v, w1)" by fastforce
  have n0: "net_inv (pw_net w)" "proc_inv w" using h by (simp_all add: holds_def)
  note a1 = accept_acquires [OF n0(1) 1]
  have f1: "proc_inv w1" "pw_children w1 = pw_children w"
    using only_net_fields [OF conjunct2 [OF a1]] n0(2) by simp_all
  let ?d1 = "d\<lparr>ds_video_socket := v\<rparr>"
  have s1: "since w0 {ds_process d} w1" by (rule since_acquires [OF w0 conjunct2 [OF a1] conjunct1 [OF a1]])
  have h1: "holds O' ?d1 w1"
    by (rule holds_acquire [OF h _ f1(1), of v]) (use a1 inval in \<open>auto simp: ds_sockets_def\<close>)
  show ?thesis
  proof (cases "v = INVALID_SOCKET")
    case True
    have "closable w0 ?d1 w1" using s1 True sv a1 inval by (auto simp: closable_def acquires_def)
    then have "ds_connected w0 O' d False ?d1 w1" using h1 f1 pc ser by (simp add: ds_connected_def serial_ok_def)
    with 1 True show ?thesis by auto
  next
    case v: False
    obtain c w2 where 2: "in_net (net_accept (ds_server_socket d)) w1 = (c, w2)" by fastforce
    have n1: "net_inv (pw_net w1)" using h1 by (simp add: holds_def)
    note a2 = accept_acquires [OF n1 2]
    have f2: "proc_inv w2" "pw_children w2 = pw_children w"
      using only_net_fields [OF conjunct2 [OF a2]] f1 by simp_all
    let ?d2 = "?d1\<lparr>ds_control_socket := c\<rparr>"
    have s2: "since w0 {ds_process d} w2" by (rule since_acquires [OF s1 conjunct2 [OF a2] conjunct1 [OF a2]])
    have h2: "holds O' ?d2 w2"
      by (rule holds_acquire [OF h1 _ f2(1), of c]) (use a2 inval in \<open>auto simp: ds_sockets_def\<close>)
    show ?thesis
    proof (cases "c = INVALID_SOCKET")
      case True
      have "closable w0 ?d2 w2" using s2 True sv a1 a2 v by (auto simp: closable_def acquires_def)
      then have "ds_connected w0 O' d False ?d2 w2" using h2 f2 pc ser by (simp add: ds_connected_def serial_ok_def)
      with 1 2 v True show ?thesis by auto
    next
      case c: False
      have n2: "net_inv (pw_net w2)" using h2 by (simp add: holds_def)
      from CloseSocket_closes [OF sv(1) n2] obtain s w3 where
        3: "CloseSocket (ds_server_socket d) w2 = Some (s, w3)" "only_net w2 w3" "net_inv (pw_net w3)"
        "nw_open (pw_net w3) = nw_open (pw_net w2) - {ds_server_socket d}" "s \<in> {ds_server_socket d, INVALID_SOCKET}"
        "nw_stray (pw_net w3) = nw_stray (pw_net w2) + (if ds_server_socket d \<in> nw_open (pw_net w2) then 0 else 1)"
        "nw_failed (pw_net w2) \<le> nw_failed (pw_net w3)"
        "s = INVALID_SOCKET \<or> ds_server_socket d \<notin> nw_open (pw_net w2) \<or> nw_failed (pw_net w2) < nw_failed (pw_net w3)"
        by blast
      have f3: "proc_inv w3" "pw_children w3 = pw_children w" using only_net_fields [OF 3(2)] f2 by auto
      have open2: "{v, c} \<subseteq> nw_open (pw_net w2)" "v \<noteq> c" using a1 a2 v c by (auto simp: acquires_def)
      have sv2: "v \<noteq> ds_server_socket d" "c \<noteq> ds_server_socket d"
        using a1 a2 v c sv by (auto simp: acquires_def)
      let ?d3 = "?d2\<lparr>ds_server_socket := s\<rparr>"
      have svo: "ds_server_socket d \<in> nw_open (pw_net w2)" using sv(2) a1 a2 v c by (auto simp: acquires_def)
      have s3: "since w0 {ds_process d} w3" by (rule since_only_net [OF s2 3(2)]) (use 3(6,7) svo in simp_all)
      have "s = INVALID_SOCKET \<or> nw_failed (pw_net w0) < nw_failed (pw_net w3)"
        using 3(8) svo s2 unfolding since_def by linarith
      then have cl: "closable w0 ?d3 w3" using s3 open2 sv2 3(4,5) v c by (auto simp: closable_def)
      have "holds O' ?d3 w3"
        by (rule holds_close [OF h2 _ 3(3) f3(1), of "ds_server_socket d"])
          (use 3(4,5) sv in \<open>auto simp: ds_sockets_def\<close>)
      then have "ds_connected w0 O' d True ?d3 w3"
        using cl f3 pc ser open2 sv2 v c 3(4) by (auto simp: ds_connected_def serial_ok_def)
      with 1 2 v c 3(1) show ?thesis by auto
    qed
  qed
qed

lemma connect_forward:
  assumes st: "started O' d w" and f: "ds_tunnel_forward d" and w0: "since w0 {ds_process d} w"
  shows "\<exists>ok d' w'. (do {
        (s, w) \<leftarrow> ConnectToServer (ds_local_port d) 100 w;
        let d = d\<lparr>ds_video_socket := s\<rparr>;
        if s = INVALID_SOCKET then Some (False, d, w)
        else
          let (s, w) = in_net (net_connect IPV4_LOCALHOST (ds_local_port d)) w;
              d = d\<lparr>ds_control_socket := s\<rparr>
          in Some (s \<noteq> INVALID_SOCKET, d, w)
      }) = Some (ok, d', w') \<and> ds_connected w0 O' d ok d' w'"
proof -
  have h: "holds O' d w" and pc: "ds_process d \<in> pw_children w" and ser: "serial_ok d"
    and inval: "ds_video_socket d = INVALID_SOCKET" "ds_control_socket d = INVALID_SOCKET"
      "ds_server_socket d = INVALID_SOCKET"
    using st f by (auto simp: started_def)
  have n0: "net_inv (pw_net w)" "proc_inv w" using h by (simp_all add: holds_def)
  obtain v w1 where 1: "ConnectToServer (ds_local_port d) 100 w = Some (v, w1)"
    and a1: "acquires (pw_net w) v (pw_net w1)" "only_net w w1"
    using ConnectToServer_acquires [OF n0(1)] by blast
  have f1: "proc_inv w1" "pw_children w1 = pw_children w"
    using only_net_fields [OF a1(2)] n0(2) by simp_all
  let ?d1 = "d\<lparr>ds_video_socket := v\<rparr>"
  have s1: "since w0 {ds_process d} w1" by (rule since_acquires [OF w0 a1(2,1)])
  have h1: "holds O' ?d1 w1"
    by (rule holds_acquire [OF h a1(1) f1(1)]) (use inval in \<open>auto simp: ds_sockets_def\<close>)
  show ?thesis
  proof (cases "v = INVALID_SOCKET")
    case True
    have "closable w0 ?d1 w1" using s1 True inval by (simp add: closable_def)
    then have "ds_connected w0 O' d False ?d1 w1" using h1 f1 pc ser by (simp add: ds_connected_def serial_ok_def)
    with 1 True show ?thesis by (auto simp: Let_def)
  next
    case v: False
    obtain c w2 where 2: "in_net (net_connect IPV4_LOCALHOST (ds_local_port d)) w1 = (c, w2)" by fastforce
    have n1: "net_inv (pw_net w1)" using h1 by (simp add: holds_def)
    have a2: "acquires (pw_net w1) c (pw_net w2)" "only_net w1 w2"
      using in_net_result [OF 2] net_connect_acquires [OF n1] by blast+
    have f2: "proc_inv w2" "pw_children w2 = pw_children w"
      using only_net_fields [OF a2(2)] f1 by simp_all
    let ?d2 = "?d1\<lparr>ds_control_socket := c\<rparr>"
    have h2: "holds O' ?d2 w2"
      by (rule holds_acquire [OF h1 a2(1) f2(1)]) (use inval in \<open>auto simp: ds_sockets_def\<close>)
    have s2: "since w0 {ds_process d} w2" by (rule since_acquires [OF s1 a2(2,1)])
    have "v \<in> nw_open (pw_net w2)" "c \<noteq> INVALID_SOCKET \<longrightarrow> c \<in> nw_open (pw_net w2) \<and> c \<noteq> v"
      using a1(1) a2(1) v by (auto simp: acquires_def split: if_splits)
    then have "closable w0 ?d2 w2" using s2 v inval by (auto simp: closable_def)
    then have "ds_connected w0 O' d (c \<noteq> INVALID_SOCKET) ?d2 w2"
      using h2 f2 pc ser a1 a2 v by (auto simp: ds_connected_def serial_ok_def acquires_def)
    with 1 2 v show ?thesis by (auto simp: Let_def)
  qed
qed

lemma ConnectTo_result:
  assumes "started O' d w" and "since w0 {ds_process d} w"
  shows "\<exists>ok d' w'. ConnectTo d w = Some (ok, d', w') \<and> ds_connected w0 O' d ok d' w' \<and>
    (ok \<longrightarrow> \<not> ds_tunnel_enabled d')"
proof -
  obtain ok d1 w1 where 1: "(if \<not> ds_tunnel_forward d then
        let (s, w) = in_net (net_accept (ds_server_socket d)) w; d = d\<lparr>ds_video_socket := s\<rparr> in
        if s = INVALID_SOCKET then Some (False, d, w)
        else
          let (s, w) = in_net (net_accept (ds_server_socket d)) w; d = d\<lparr>ds_control_socket := s\<rparr> in
          if s = INVALID_SOCKET then Some (False, d, w)
          else do {
            (s, w) \<leftarrow> CloseSocket (ds_server_socket d) w;
            Some (True, d\<lparr>ds_server_socket := s\<rparr>, w)
          }
      else do {
        (s, w) \<leftarrow> ConnectToServer (ds_local_port d) 100 w;
        let d = d\<lparr>ds_video_socket := s\<rparr>;
        if s = INVALID_SOCKET then Some (False, d, w)
        else
          let (s, w) = in_net (net_connect IPV4_LOCALHOST (ds_local_port d)) w;
              d = d\<lparr>ds_control_socket := s\<rparr>
          in Some (s \<noteq> INVALID_SOCKET, d, w)
      }) = Some (ok, d1, w1)" and c: "ds_connected w0 O' d ok d1 w1"
    using connect_reverse [OF assms(1) _ assms(2)] connect_forward [OF assms(1) _ assms(2)] by (cases "ds_tunnel_forward d") auto
  show ?thesis
  proof (cases ok)
    case False
    with 1 c show ?thesis unfolding ConnectTo_def by auto
  next
    case True
    have "proc_inv w1" using c by (simp add: ds_connected_def holds_def)
    from tunnel_runs(5) [OF this, of d1] obtain b w2 where
      t: "DisableTunnel d1 w1 = Some (b, w2)" "proc_inv w2" "pw_net w2 = pw_net w1" "pw_children w1 \<subseteq> pw_children w2"
      and r: "runs (Some (b, w2)) w1"
      unfolding runs_def by auto
    let ?d = "d1\<lparr>ds_tunnel_enabled := False\<rparr>"
    have "ds_sockets ?d = ds_sockets d1" by (simp add: ds_sockets_def)
    moreover have "closable w0 ?d w2"
    proof -
      have "closable w0 d1 w1" using c by (simp add: ds_connected_def)
      then show ?thesis
        using t(3) since_runs [OF _ r, of w0 "{ds_process d1}"] unfolding closable_def by simp
    qed
    ultimately have "ds_connected w0 O' d True ?d w2"
      using c True t by (auto simp: ds_connected_def intro: holds_same)
    moreover have "ConnectTo d w = Some (True, ?d, w2)"
      using 1 True t(1) unfolding ConnectTo_def by simp
    ultimately show ?thesis by auto
  qed
qed

text \<open>
  Nothing was closed that was not open, but perhaps the listening socket: the code closes it a
  second time when the first call reported a failure. No pipe end and no process is left.
\<close>

definition closed_once :: "proc_world \<Rightarrow> proc_world \<Rightarrow> bool" where
  "closed_once w0 w \<longleftrightarrow>
     (nw_stray (pw_net w) = nw_stray (pw_net w0) \<or>
        nw_stray (pw_net w) = nw_stray (pw_net w0) + 1 \<and> nw_failed (pw_net w0) < nw_failed (pw_net w)) \<and>
     pw_fds w = pw_fds w0 \<and> (forks_report w0 \<longrightarrow> pw_children w \<subseteq> pw_children w0)"

lemma cmd_simple_wait_frame:
  assumes "cmd_simple_wait p w = (ok, code, w')"
  shows "pw_children w' = pw_children w - {p} \<and> pw_net w' = pw_net w \<and> pw_next w' = pw_next w \<and>
    pw_fds w' = pw_fds w \<and> pw_exec w' = pw_exec w"
proof -
  have "case cmd_simple_wait p w of (ok, code, w') \<Rightarrow> pw_children w' = pw_children w - {p} \<and> pw_net w' = pw_net w \<and>
      pw_next w' = pw_next w \<and> pw_fds w' = pw_fds w \<and> pw_exec w' = pw_exec w"
    by (cases "p \<in> pw_children w"; cases "pw_exits w") (simp_all add: cmd_simple_wait_def Let_def)
  with assms show ?thesis by simp
qed

lemma DeviceServer_Stop_result:
  assumes h: "holds O' d w" and pc: "ds_process d \<in> pw_children w" and ser: "serial_ok d" and cl: "closable w0 d w"
  shows "\<exists>d' w'. DeviceServer_Stop d w = Some (d', w') \<and> nw_open (pw_net w') = O' \<and>
    ds_process d \<notin> pw_children w' \<and> serial_ok d' \<and> ds_process d' = ds_process d \<and> closed_once w0 w'"
proof -
  have n0: "net_inv (pw_net w)" "proc_inv w" using h by (simp_all add: holds_def)
  obtain s1 w1 where 1: "close_if_open (ds_server_socket d) w = Some (s1, w1)" "only_net w w1"
    "net_inv (pw_net w1)" "nw_open (pw_net w1) = nw_open (pw_net w) - ({ds_server_socket d} - {INVALID_SOCKET})"
    and k1: "nw_stray (pw_net w1) = nw_stray (pw_net w) +
        (if ds_server_socket d \<in> insert INVALID_SOCKET (nw_open (pw_net w)) then 0 else 1)"
      "nw_failed (pw_net w) \<le> nw_failed (pw_net w1)"
    using close_if_open_closes [OF n0(1)] by blast
  obtain s2 w2 where 2: "close_if_open (ds_video_socket d) w1 = Some (s2, w2)" "only_net w1 w2"
    "net_inv (pw_net w2)" "nw_open (pw_net w2) = nw_open (pw_net w1) - ({ds_video_socket d} - {INVALID_SOCKET})"
    and k2: "nw_stray (pw_net w2) = nw_stray (pw_net w1) +
        (if ds_video_socket d \<in> insert INVALID_SOCKET (nw_open (pw_net w1)) then 0 else 1)"
      "nw_failed (pw_net w1) \<le> nw_failed (pw_net w2)"
    using close_if_open_closes [OF 1(3)] by blast
  obtain s3 w3 where 3: "close_if_open (ds_control_socket d) w2 = Some (s3, w3)" "only_net w2 w3"
    "net_inv (pw_net w3)" "nw_open (pw_net w3) = nw_open (pw_net w2) - ({ds_control_socket d} - {INVALID_SOCKET})"
    and k3: "nw_stray (pw_net w3) = nw_stray (pw_net w2) +
        (if ds_control_socket d \<in> insert INVALID_SOCKET (nw_open (pw_net w2)) then 0 else 1)"
      "nw_failed (pw_net w2) \<le> nw_failed (pw_net w3)"
    using close_if_open_closes [OF 2(3)] by blast
  have on: "only_net w w3" using 1(2) 2(2) 3(2) only_net_trans by blast
  have w3: "proc_inv w3" "pw_children w3 = pw_children w" "pw_next w3 = pw_next w"
    using only_net_fields [OF on] n0(2) by simp_all
  have "nw_open (pw_net w3) = nw_open (pw_net w) - ds_sockets d"
    using 1(4) 2(4) 3(4) by (auto simp: ds_sockets_def)
  also have "\<dots> = O'" using h unfolding holds_def by blast
  finally have open3: "nw_open (pw_net w3) = O'" .
  have sw: "since w0 {ds_process d} w" using cl by (simp add: closable_def)
  have v: "ds_video_socket d = INVALID_SOCKET \<or>
      ds_video_socket d \<in> nw_open (pw_net w) \<and> ds_video_socket d \<noteq> ds_server_socket d"
    using cl by (cases "ds_video_socket d = INVALID_SOCKET") (auto simp: closable_def)
  have c: "ds_control_socket d = INVALID_SOCKET \<or> ds_control_socket d \<in> nw_open (pw_net w) \<and>
      ds_control_socket d \<noteq> ds_server_socket d \<and> ds_control_socket d \<noteq> ds_video_socket d"
    using cl by (cases "ds_control_socket d = INVALID_SOCKET"; cases "ds_video_socket d = INVALID_SOCKET")
      (auto simp: closable_def)
  have "ds_video_socket d \<in> insert INVALID_SOCKET (nw_open (pw_net w1))" unfolding 1(4) using v by auto
  moreover have "ds_control_socket d \<in> insert INVALID_SOCKET (nw_open (pw_net w2))"
    unfolding 2(4) 1(4) using c by auto
  ultimately have st3: "nw_stray (pw_net w3) = nw_stray (pw_net w) +
      (if ds_server_socket d \<in> insert INVALID_SOCKET (nw_open (pw_net w)) then 0 else 1)"
    using k1(1) k2(1) k3(1) by simp
  have strays: "nw_stray (pw_net w3) = nw_stray (pw_net w0) \<or>
      nw_stray (pw_net w3) = nw_stray (pw_net w0) + 1 \<and> nw_failed (pw_net w0) < nw_failed (pw_net w3)"
  proof (cases "ds_server_socket d \<in> insert INVALID_SOCKET (nw_open (pw_net w))")
    case False
    then have "nw_failed (pw_net w0) < nw_failed (pw_net w)" using cl unfolding closable_def by blast
    with st3 False k1(2) k2(2) k3(2) sw show ?thesis by (simp add: since_def)
  qed (use sw st3 in \<open>simp add: since_def\<close>)
  have pid: "0 < ds_process d" "ds_process d < pw_next w" using pc n0(2) by (auto simp: proc_inv_def)
  obtain k w4 where 4: "cmd_terminate (ds_process d) w3 = Some (k, w4)" "proc_inv w4" "pw_net w4 = pw_net w3"
    "pw_children w4 = pw_children w" "pw_next w4 = pw_next w" "pw_fds w4 = pw_fds w3" "pw_exec w4 = pw_exec w3"
    using pid(1) w3 by (cases "pw_kills w3") (auto simp: cmd_terminate_def proc_inv_def)
  obtain ok code w5 where 5: "cmd_simple_wait (ds_process d) w4 = (ok, code, w5)" by (metis prod_cases3)
  have w5: "ds_process d \<notin> pw_children w5 \<and> pw_net w5 = pw_net w4 \<and> proc_inv w5 \<and> pw_next w5 = pw_next w \<and>
      pw_fds w5 = pw_fds w4 \<and> pw_exec w5 = pw_exec w4 \<and> pw_children w5 = pw_children w - {ds_process d}"
    using cmd_simple_wait_frame [OF 5] 4(2-5) by (simp add: proc_inv_def)
  have fr: "forks_report w3 \<longleftrightarrow> forks_report w" "pw_fds w3 = pw_fds w" using only_net_fields [OF on] by simp_all
  have sw1: "pw_fds w = pw_fds w0" and sw2: "forks_report w0 \<longrightarrow> forks_report w"
    and sw3: "forks_report w0 \<longrightarrow> pw_children w - {ds_process d} \<subseteq> pw_children w0"
    by (rule since_fds [OF sw], rule since_forks [OF sw], rule since_children [OF sw])
  have clean5: "forks_report w0 \<longrightarrow> forks_report w5"
  proof -
    have "pw_exec w5 = pw_exec w3" using w5 4(7) by simp
    then have "forks_report w5 = forks_report w3" by (simp only: forks_report_def)
    with sw2 fr(1) show ?thesis by blast
  qed
  have once5: "closed_once w0 w5"
  proof -
    have "pw_net w5 = pw_net w3" "pw_fds w5 = pw_fds w0" "pw_children w5 = pw_children w - {ds_process d}"
      using w5 4(3,6) fr(2) sw1 by simp_all
    with strays sw3 show ?thesis unfolding closed_once_def by simp
  qed
  define d3 where "d3 = d\<lparr>ds_server_socket := s1, ds_video_socket := s2, ds_control_socket := s3\<rparr>"
  have ser3: "serial_ok d3" and proc3: "ds_process d3 = ds_process d"
    using ser by (simp_all add: d3_def serial_ok_def)
  have eq: "DeviceServer_Stop d w = (if ds_tunnel_enabled d3
      then do { (_, w) \<leftarrow> DisableTunnel d3 w5; Some (d3, w) } else Some (d3, w5))"
    using 1(1) 2(1) 3(1) 4(1) 5 pid by (simp add: DeviceServer_Stop_def d3_def c_assert_def Let_def)
  show ?thesis
  proof (cases "ds_tunnel_enabled d3")
    case False
    with w5 open3 4(3) ser3 proc3 once5 show ?thesis unfolding eq by simp
  next
    case True
    have "proc_inv w5" using w5 by blast
    from tunnel_runs(5) [OF this, of d3] obtain b w6 where
      t: "DisableTunnel d3 w5 = Some (b, w6)" "pw_net w6 = pw_net w5"
      "\<forall>p \<in> pw_children w6. p \<in> pw_children w5 \<or> pw_next w5 \<le> p" "pw_fds w6 = pw_fds w5"
      "forks_report w5 \<longrightarrow> pw_children w6 \<subseteq> pw_children w5"
      unfolding runs_def by blast
    have "closed_once w0 w6" using once5 clean5 t(2,4,5) by (auto simp: closed_once_def)
    moreover    have "ds_process d \<notin> pw_children w6" using t(3) w5 pid(2) by fastforce
    ultimately show ?thesis using True t(1,2) w5 open3 4(3) ser3 proc3 unfolding eq by simp
  qed
qed

subsection \<open>How often a connection is attempted\<close>

text \<open>The loop as a bounded search: the first of at most \<open>n\<close> attempts that succeeds.\<close>

fun try_connect :: "nat \<Rightarrow> u16 \<Rightarrow> proc_world \<Rightarrow> (socket_t \<times> proc_world) option" where
  "try_connect 0 port w = Some (INVALID_SOCKET, w)"
| "try_connect (Suc n) port w = do {
     (s, w') \<leftarrow> ConnectAndReadByte port w;
     if s \<noteq> INVALID_SOCKET then Some (s, w') else try_connect n port w'
   }"

lemma ConnectToServer_try:
  "ConnectToServer port attempts w =
     try_connect (if attempts = 0 then 2 ^ 32 else unat attempts) port w"
proof (induction port attempts w rule: ConnectToServer.induct)
  case (1 port attempts w)
  define n where "n = (if attempts = 0 then 2 ^ 32 else unat attempts) - 1"
  have n: "(if attempts = 0 then 2 ^ 32 else unat attempts) = Suc n"
    using unat_gt_0 [of attempts] by (auto simp: n_def)
  have n2: "unat (attempts - 1) = n"
    by (cases "attempts = 0") (simp_all add: n_def unat_minus_one unsigned_minus_1_eq_mask mask_eq_exp_minus_1)
  have zero: "n = 0 \<longleftrightarrow> \<not> 0 < attempts - 1"
    using n2 by (metis unat_0 unat_eq_zero word_gt_0)
  show ?case
  proof (cases "ConnectAndReadByte port w")
    case None
    then show ?thesis unfolding n by (subst ConnectToServer.simps) simp
  next
    case (Some x)
    obtain s w' where x: "x = (s, w')" by fastforce
    show ?thesis
    proof (cases "s = INVALID_SOCKET \<and> 0 < attempts - 1")
      case False
      then show ?thesis
        using Some x zero unfolding n by (subst ConnectToServer.simps) auto
    next
      case True
      then have "ConnectToServer port (attempts - 1) w' = try_connect n port w'"
        using 1 [OF Some x [symmetric]] n2 by (auto simp: word_gt_0)
      with True Some x show ?thesis unfolding n by (subst ConnectToServer.simps) simp
    qed
  qed
qed

subsection \<open>Properties\<close>



text \<open>C30. Connecting to the server is attempted at most as often as asked, and the socket returned is
  that of the first attempt in which the connection was made and a byte was read; no other
  descriptor stays open. Asked for no attempt at all, the unsigned counter wraps around and up to
  $2^{32}$ attempts are made.\<close>

theorem connect_attempts:
  assumes "net_inv (pw_net w)"
  shows "ConnectToServer port attempts w =
      try_connect (if attempts = 0 then 2 ^ 32 else unat attempts) port w \<and>
    (\<exists>s w'. ConnectToServer port attempts w = Some (s, w') \<and> acquires (pw_net w) s (pw_net w'))"
  using ConnectToServer_try ConnectToServer_acquires [OF assms] by metis

theorem connect_attempts_witness:
  "let w = \<lparr>pw_net = \<lparr>nw_open = {}, nw_next = 3, nw_answers = [1, 1, 1], nw_incoming = [42], nw_sent = [],
       nw_bound = [], nw_stray = 0, nw_failed = 0\<rparr>, pw_ndebug = True, pw_env = \<lambda>s. None, pw_adb_command = None, pw_regular = \<lambda>s. True,
       pw_exec = [], pw_exits = [], pw_kills = [], pw_next = 7, pw_children = {}, pw_fds = 0, pw_commands = []\<rparr>
   in ConnectToServer 27183 2 w = try_connect 2 27183 w \<and> map_option fst (try_connect 2 27183 w) = Some 3"
proof -
  let ?w = "\<lparr>pw_net = \<lparr>nw_open = {}, nw_next = 3, nw_answers = [1, 1, 1], nw_incoming = [42], nw_sent = [],
       nw_bound = [], nw_stray = 0, nw_failed = 0\<rparr>, pw_ndebug = True, pw_env = \<lambda>s. None, pw_adb_command = None, pw_regular = \<lambda>s. True,
       pw_exec = [], pw_exits = [], pw_kills = [], pw_next = 7, pw_children = {}, pw_fds = 0, pw_commands = []\<rparr>"
  have "net_inv (pw_net ?w)" by (simp add: net_inv_def)
  from connect_attempts [OF this, of 27183 2]
  have "ConnectToServer 27183 2 ?w = try_connect 2 27183 ?w" by simp
  moreover have "map_option fst (try_connect 2 27183 ?w) = Some 3"
    by (simp add: numeral_2_eq_2 ConnectAndReadByte_def in_net_def net_connect_def sys_socket_def sys_status_def
        answer_def net_recv_def sys_recv_def store_block_def Let_def)
  ultimately show ?thesis by (simp add: Let_def)
qed

text \<open>
  The command is looked up once: the first call stores what the environment says, so a call
  does the same in a world in which it is already stored.
\<close>

lemma get_adb_command_stored:
  "fst (get_adb_command w) = adb \<Longrightarrow> get_adb_command (w\<lparr>pw_adb_command := Some adb\<rparr>) = get_adb_command w"
  by (cases "pw_adb_command w") (auto simp: get_adb_command_def Let_def)

lemma PushServer_known:
  assumes "fst (get_adb_command w) = adb" and "pw_regular w (GetServerPath w)"
  shows "PushServer serial (w\<lparr>pw_adb_command := Some adb\<rparr>) = PushServer serial w"
  using assms(2) get_adb_command_stored [OF assms(1)]
  by (simp add: PushServer_def adb_push_def adb_execute_def is_regular_file_def GetServerPath_def)

lemma start_commands_known:
  assumes "proc_inv w" and "pw_adb_command w = Some adb" and "pw_exec w = [a, b, c]"
    and "exec_ok a" and "exec_ok b" and "exec_ok c" and "pw_exits w = [Some 0, Some 0]"
    and "pw_regular w (GetServerPath w)"
    and "net_listen IPV4_LOCALHOST (dp_local_port params) 1 (pw_net w) = (s, n)" and "s \<noteq> INVALID_SOCKET"
  shows "\<exists>d' w'. DeviceServer_Start True serial params (DeviceServer_Init d) w = Some (True, d', w') \<and>
    ds_server_socket d' = s \<and> ds_tunnel_enabled d' \<and> \<not> ds_tunnel_forward d' \<and> pw_net w' = n \<and>
    pw_commands w' = pw_commands w @ map (adb_argv adb serial)
      [[''push'', GetServerPath w, ''/data/local/tmp/irobot-server.jar''],
       [''reverse'', ''localabstract:irobot'', ''tcp:'' @ dec_nat (unat (dp_local_port params))],
       [''shell'', ''CLASSPATH=/data/local/tmp/irobot-server.jar'', ''app_process'', ''/'',
        ''com.guidebee.irobot.Server'', ''1.0.0'', dec_nat (unat (dp_max_size params)),
        dec_nat (unat (dp_bit_rate params)), dec_nat (unat (dp_max_fps params)), ''false'',
        (case dp_crop params of Some crop \<Rightarrow> crop | None \<Rightarrow> ''-''), ''true'',
        (if dp_control params then ''true'' else ''false'')]]"
proof -
  let ?path = "GetServerPath w"
  define d1 where "d1 = (case serial of
      None \<Rightarrow> (DeviceServer_Init d)\<lparr>ds_local_port := dp_local_port params\<rparr>
    | Some s \<Rightarrow> (DeviceServer_Init d)\<lparr>ds_local_port := dp_local_port params, ds_serial := Some s, ds_heap := True\<rparr>)"
  have d1: "ds_serial d1 = serial" "ds_local_port d1 = dp_local_port params" "\<not> ds_tunnel_forward d1"
    by (cases serial; simp add: d1_def DeviceServer_Init_def)+
  define w1 where "w1 = w\<lparr>pw_exec := [b, c], pw_exits := [Some 0], pw_next := pw_next w + 1,
      pw_commands := pw_commands w @ [adb_argv adb serial [''push'', ?path, DEVICE_SERVER_PATH]]\<rparr>"
  have 1: "PushServer serial w = Some (True, w1)"
    using adb_run_ok [OF assms(3,4,2,1,7)] assms(8)
    by (simp add: PushServer_def is_regular_file_def adb_push_def w1_def)
  have inv1: "proc_inv w1" using assms(1) by (auto simp: w1_def proc_inv_def)
  define rev where "rev = [''reverse'', localabstract SOCKET_NAME, ''tcp:'' @ dec_nat (unat (dp_local_port params))]"
  define w2 where "w2 = w1\<lparr>pw_exec := [c], pw_exits := [], pw_next := pw_next w1 + 1,
      pw_commands := pw_commands w1 @ [adb_argv adb serial rev]\<rparr>"
  have 2: "EnableTunnel d1 w1 = Some (True, d1, w2)"
    using adb_run_ok [of w1 b "[c]" adb "[]" serial rev] assms(2,5) inv1 d1
    by (simp add: EnableTunnel_def EnableTunnelReverse_def adb_reverse_def tcp_port_defined w2_def w1_def rev_def)
  let ?d2 = "d1\<lparr>ds_server_socket := s\<rparr>" and ?w3 = "w2\<lparr>pw_net := n\<rparr>"
  have 3: "ListenOnPort (dp_local_port params) w2 = (s, ?w3)"
    using assms(9) by (simp add: ListenOnPort_def in_net_def w2_def w1_def)
  have next3: "pw_next ?w3 \<noteq> PROCESS_NONE" using assms(1) by (simp add: w2_def w1_def proc_inv_def)
  have 4: "adb_execute serial cmd ?w3 = Some (pw_next ?w3, ?w3\<lparr>pw_exec := [], pw_next := pw_next ?w3 + 1,
      pw_children := insert (pw_next ?w3) (pw_children ?w3), pw_commands := pw_commands ?w3 @ [adb_argv adb serial cmd]\<rparr>)" for cmd
    using adb_execute_ok [of ?w3 c "[]" adb serial cmd] next3 assms(2,6) by (simp add: w2_def w1_def adb_argv_def)
  have "DeviceServer_Start True serial params (DeviceServer_Init d) w = start_process params ?d2 ?w3"
    using 1 2 3 d1(3) assms(10) by (cases serial) (simp_all add: DeviceServer_Start_def start_listen_def Let_def d1_def)
  moreover have "localabstract SOCKET_NAME = ''localabstract:irobot''"
    by (simp add: localabstract_def snprintf_into_def SOCKET_NAME_def)
  ultimately show ?thesis
    using next3 4 d1
    by (simp add: start_process_def ExecuteServer_def sprintf_16 sprintf_32 Let_def w2_def w1_def rev_def
        DEVICE_SERVER_PATH_def IROBOT_SERVER_VERSION_def bool_text_def)
qed



end
