(* ===== verification/Event_Converter.thy ===== *)
theory Event_Converter
  imports Common
begin

section \<open>Conversion of input events (src/src/ui/event_converter.cpp, src/src/android/keycodes.hpp)\<close>

text \<open>
  The tables that turn keys, modifiers, buttons and actions of SDL into those of Android. SDL is a
  library: its key codes and event types are datatypes with one constructor for each name the
  program uses and one for all the others, and its masks of modifiers and of buttons, which the
  code combines bitwise, are the documented numbers.
\<close>

subsection \<open>The names of SDL\<close>

datatype SDL_Keycode =
    SDLK_RETURN | SDLK_KP_ENTER | SDLK_ESCAPE | SDLK_BACKSPACE | SDLK_TAB | SDLK_PAGEUP
   | SDLK_DELETE | SDLK_HOME | SDLK_END | SDLK_PAGEDOWN | SDLK_RIGHT | SDLK_LEFT | SDLK_DOWN
   | SDLK_UP | SDLK_a | SDLK_b | SDLK_c | SDLK_d | SDLK_e | SDLK_f | SDLK_g | SDLK_h | SDLK_i
   | SDLK_j | SDLK_k | SDLK_l | SDLK_m | SDLK_n | SDLK_o | SDLK_p | SDLK_q | SDLK_r | SDLK_s
   | SDLK_t | SDLK_u | SDLK_v | SDLK_w | SDLK_x | SDLK_y | SDLK_z | SDLK_SPACE
   | SDLK_unmapped u32

datatype SDL_EventType =
    SDL_KEYDOWN | SDL_KEYUP | SDL_MOUSEBUTTONDOWN | SDL_MOUSEBUTTONUP
  | SDL_FINGERMOTION | SDL_FINGERDOWN | SDL_FINGERUP | SDL_other_type u32

abbreviation "KMOD_LSHIFT \<equiv> 0x0001 :: u16"
abbreviation "KMOD_RSHIFT \<equiv> 0x0002 :: u16"
abbreviation "KMOD_LCTRL \<equiv> 0x0040 :: u16"
abbreviation "KMOD_RCTRL \<equiv> 0x0080 :: u16"
abbreviation "KMOD_LALT \<equiv> 0x0100 :: u16"
abbreviation "KMOD_RALT \<equiv> 0x0200 :: u16"
abbreviation "KMOD_LGUI \<equiv> 0x0400 :: u16"
abbreviation "KMOD_RGUI \<equiv> 0x0800 :: u16"
abbreviation "KMOD_NUM \<equiv> 0x1000 :: u16"
abbreviation "KMOD_CAPS \<equiv> 0x2000 :: u16"

abbreviation "SDL_BUTTON_LMASK \<equiv> 0x01 :: u32"
abbreviation "SDL_BUTTON_MMASK \<equiv> 0x02 :: u32"
abbreviation "SDL_BUTTON_RMASK \<equiv> 0x04 :: u32"
abbreviation "SDL_BUTTON_X1MASK \<equiv> 0x08 :: u32"
abbreviation "SDL_BUTTON_X2MASK \<equiv> 0x10 :: u32"

subsection \<open>The key codes of Android the program sends\<close>

definition AKEYCODE_HOME :: u32 where "AKEYCODE_HOME = 3"
definition AKEYCODE_BACK :: u32 where "AKEYCODE_BACK = 4"
definition AKEYCODE_DPAD_UP :: u32 where "AKEYCODE_DPAD_UP = 19"
definition AKEYCODE_DPAD_DOWN :: u32 where "AKEYCODE_DPAD_DOWN = 20"
definition AKEYCODE_DPAD_LEFT :: u32 where "AKEYCODE_DPAD_LEFT = 21"
definition AKEYCODE_DPAD_RIGHT :: u32 where "AKEYCODE_DPAD_RIGHT = 22"
definition AKEYCODE_VOLUME_UP :: u32 where "AKEYCODE_VOLUME_UP = 24"
definition AKEYCODE_VOLUME_DOWN :: u32 where "AKEYCODE_VOLUME_DOWN = 25"
definition AKEYCODE_POWER :: u32 where "AKEYCODE_POWER = 26"
definition AKEYCODE_A :: u32 where "AKEYCODE_A = 29"
definition AKEYCODE_B :: u32 where "AKEYCODE_B = 30"
definition AKEYCODE_C :: u32 where "AKEYCODE_C = 31"
definition AKEYCODE_D :: u32 where "AKEYCODE_D = 32"
definition AKEYCODE_E :: u32 where "AKEYCODE_E = 33"
definition AKEYCODE_F :: u32 where "AKEYCODE_F = 34"
definition AKEYCODE_G :: u32 where "AKEYCODE_G = 35"
definition AKEYCODE_H :: u32 where "AKEYCODE_H = 36"
definition AKEYCODE_I :: u32 where "AKEYCODE_I = 37"
definition AKEYCODE_J :: u32 where "AKEYCODE_J = 38"
definition AKEYCODE_K :: u32 where "AKEYCODE_K = 39"
definition AKEYCODE_L :: u32 where "AKEYCODE_L = 40"
definition AKEYCODE_M :: u32 where "AKEYCODE_M = 41"
definition AKEYCODE_N :: u32 where "AKEYCODE_N = 42"
definition AKEYCODE_O :: u32 where "AKEYCODE_O = 43"
definition AKEYCODE_P :: u32 where "AKEYCODE_P = 44"
definition AKEYCODE_Q :: u32 where "AKEYCODE_Q = 45"
definition AKEYCODE_R :: u32 where "AKEYCODE_R = 46"
definition AKEYCODE_S :: u32 where "AKEYCODE_S = 47"
definition AKEYCODE_T :: u32 where "AKEYCODE_T = 48"
definition AKEYCODE_U :: u32 where "AKEYCODE_U = 49"
definition AKEYCODE_V :: u32 where "AKEYCODE_V = 50"
definition AKEYCODE_W :: u32 where "AKEYCODE_W = 51"
definition AKEYCODE_X :: u32 where "AKEYCODE_X = 52"
definition AKEYCODE_Y :: u32 where "AKEYCODE_Y = 53"
definition AKEYCODE_Z :: u32 where "AKEYCODE_Z = 54"
definition AKEYCODE_TAB :: u32 where "AKEYCODE_TAB = 61"
definition AKEYCODE_SPACE :: u32 where "AKEYCODE_SPACE = 62"
definition AKEYCODE_ENTER :: u32 where "AKEYCODE_ENTER = 66"
definition AKEYCODE_DEL :: u32 where "AKEYCODE_DEL = 67"
definition AKEYCODE_MENU :: u32 where "AKEYCODE_MENU = 82"
definition AKEYCODE_PAGE_UP :: u32 where "AKEYCODE_PAGE_UP = 92"
definition AKEYCODE_PAGE_DOWN :: u32 where "AKEYCODE_PAGE_DOWN = 93"
definition AKEYCODE_ESCAPE :: u32 where "AKEYCODE_ESCAPE = 111"
definition AKEYCODE_FORWARD_DEL :: u32 where "AKEYCODE_FORWARD_DEL = 112"
definition AKEYCODE_MOVE_HOME :: u32 where "AKEYCODE_MOVE_HOME = 122"
definition AKEYCODE_MOVE_END :: u32 where "AKEYCODE_MOVE_END = 123"
definition AKEYCODE_NUMPAD_ENTER :: u32 where "AKEYCODE_NUMPAD_ENTER = 160"
definition AKEYCODE_APP_SWITCH :: u32 where "AKEYCODE_APP_SWITCH = 187"

subsection \<open>Keys\<close>

fun ConvertKeycodeAction :: "SDL_EventType \<Rightarrow> u32 option" where
  "ConvertKeycodeAction SDL_KEYDOWN = Some (key_action_code AKEY_EVENT_ACTION_DOWN)"
| "ConvertKeycodeAction SDL_KEYUP = Some (key_action_code AKEY_EVENT_ACTION_UP)"
| "ConvertKeycodeAction _ = None"

text \<open>The first switch of \<open>ConvertKeycode\<close>, the second, and the function.\<close>

fun keycode_always :: "SDL_Keycode \<Rightarrow> u32 option" where
  "keycode_always SDLK_RETURN = Some AKEYCODE_ENTER"
| "keycode_always SDLK_KP_ENTER = Some AKEYCODE_NUMPAD_ENTER"
| "keycode_always SDLK_ESCAPE = Some AKEYCODE_ESCAPE"
| "keycode_always SDLK_BACKSPACE = Some AKEYCODE_DEL"
| "keycode_always SDLK_TAB = Some AKEYCODE_TAB"
| "keycode_always SDLK_PAGEUP = Some AKEYCODE_PAGE_UP"
| "keycode_always SDLK_DELETE = Some AKEYCODE_FORWARD_DEL"
| "keycode_always SDLK_HOME = Some AKEYCODE_MOVE_HOME"
| "keycode_always SDLK_END = Some AKEYCODE_MOVE_END"
| "keycode_always SDLK_PAGEDOWN = Some AKEYCODE_PAGE_DOWN"
| "keycode_always SDLK_RIGHT = Some AKEYCODE_DPAD_RIGHT"
| "keycode_always SDLK_LEFT = Some AKEYCODE_DPAD_LEFT"
| "keycode_always SDLK_DOWN = Some AKEYCODE_DPAD_DOWN"
| "keycode_always SDLK_UP = Some AKEYCODE_DPAD_UP"
| "keycode_always _ = None"

fun keycode_letter :: "SDL_Keycode \<Rightarrow> u32 option" where
  "keycode_letter SDLK_a = Some AKEYCODE_A"
| "keycode_letter SDLK_b = Some AKEYCODE_B"
| "keycode_letter SDLK_c = Some AKEYCODE_C"
| "keycode_letter SDLK_d = Some AKEYCODE_D"
| "keycode_letter SDLK_e = Some AKEYCODE_E"
| "keycode_letter SDLK_f = Some AKEYCODE_F"
| "keycode_letter SDLK_g = Some AKEYCODE_G"
| "keycode_letter SDLK_h = Some AKEYCODE_H"
| "keycode_letter SDLK_i = Some AKEYCODE_I"
| "keycode_letter SDLK_j = Some AKEYCODE_J"
| "keycode_letter SDLK_k = Some AKEYCODE_K"
| "keycode_letter SDLK_l = Some AKEYCODE_L"
| "keycode_letter SDLK_m = Some AKEYCODE_M"
| "keycode_letter SDLK_n = Some AKEYCODE_N"
| "keycode_letter SDLK_o = Some AKEYCODE_O"
| "keycode_letter SDLK_p = Some AKEYCODE_P"
| "keycode_letter SDLK_q = Some AKEYCODE_Q"
| "keycode_letter SDLK_r = Some AKEYCODE_R"
| "keycode_letter SDLK_s = Some AKEYCODE_S"
| "keycode_letter SDLK_t = Some AKEYCODE_T"
| "keycode_letter SDLK_u = Some AKEYCODE_U"
| "keycode_letter SDLK_v = Some AKEYCODE_V"
| "keycode_letter SDLK_w = Some AKEYCODE_W"
| "keycode_letter SDLK_x = Some AKEYCODE_X"
| "keycode_letter SDLK_y = Some AKEYCODE_Y"
| "keycode_letter SDLK_z = Some AKEYCODE_Z"
| "keycode_letter SDLK_SPACE = Some AKEYCODE_SPACE"
| "keycode_letter _ = None"

definition ConvertKeycode :: "SDL_Keycode \<Rightarrow> u16 \<Rightarrow> bool \<Rightarrow> u32 option" where
  "ConvertKeycode from mods prefer_text =
     (case keycode_always from of
        Some to \<Rightarrow> Some to
      | None \<Rightarrow>
          if prefer_text then None
          else if mods AND (KMOD_LALT OR KMOD_RALT OR KMOD_LGUI OR KMOD_RGUI) \<noteq> 0 then None
          else keycode_letter from)"

subsection \<open>Modifiers\<close>

definition add_flag :: "bool \<Rightarrow> u32 \<Rightarrow> u32 \<Rightarrow> u32" where
  "add_flag b c state = (if b then state OR c else state)"

definition autocomplete_metastate :: "u32 \<Rightarrow> u32" where
  "autocomplete_metastate metastate =
     (let metastate = add_flag (metastate AND (meta_code AMETA_SHIFT_LEFT_ON OR meta_code AMETA_SHIFT_RIGHT_ON) \<noteq> 0)
            (meta_code AMETA_SHIFT_ON) metastate;
          metastate = add_flag (metastate AND (meta_code AMETA_CTRL_LEFT_ON OR meta_code AMETA_CTRL_RIGHT_ON) \<noteq> 0)
            (meta_code AMETA_CTRL_ON) metastate;
          metastate = add_flag (metastate AND (meta_code AMETA_ALT_LEFT_ON OR meta_code AMETA_ALT_RIGHT_ON) \<noteq> 0)
            (meta_code AMETA_ALT_ON) metastate
      in add_flag (metastate AND (meta_code AMETA_META_LEFT_ON OR meta_code AMETA_META_RIGHT_ON) \<noteq> 0)
           (meta_code AMETA_META_ON) metastate)"

definition ConvertMetaState :: "u16 \<Rightarrow> u32" where
  "ConvertMetaState mods =
     (let metastate = 0;
          metastate = add_flag (mods AND KMOD_LSHIFT \<noteq> 0) (meta_code AMETA_SHIFT_LEFT_ON) metastate;
          metastate = add_flag (mods AND KMOD_RSHIFT \<noteq> 0) (meta_code AMETA_SHIFT_RIGHT_ON) metastate;
          metastate = add_flag (mods AND KMOD_LCTRL \<noteq> 0) (meta_code AMETA_CTRL_LEFT_ON) metastate;
          metastate = add_flag (mods AND KMOD_RCTRL \<noteq> 0) (meta_code AMETA_CTRL_RIGHT_ON) metastate;
          metastate = add_flag (mods AND KMOD_LALT \<noteq> 0) (meta_code AMETA_ALT_LEFT_ON) metastate;
          metastate = add_flag (mods AND KMOD_RALT \<noteq> 0) (meta_code AMETA_ALT_RIGHT_ON) metastate;
          metastate = add_flag (mods AND KMOD_LGUI \<noteq> 0) (meta_code AMETA_META_LEFT_ON) metastate;
          metastate = add_flag (mods AND KMOD_RGUI \<noteq> 0) (meta_code AMETA_META_RIGHT_ON) metastate;
          metastate = add_flag (mods AND KMOD_NUM \<noteq> 0) (meta_code AMETA_NUM_LOCK_ON) metastate;
          metastate = add_flag (mods AND KMOD_CAPS \<noteq> 0) (meta_code AMETA_CAPS_LOCK_ON) metastate
      in autocomplete_metastate metastate)"

subsection \<open>Pointers\<close>

definition ConvertMouseButtons :: "u32 \<Rightarrow> u32" where
  "ConvertMouseButtons state =
     (let buttons = 0;
          buttons = add_flag (state AND SDL_BUTTON_LMASK \<noteq> 0) (button_code AMOTION_EVENT_BUTTON_PRIMARY) buttons;
          buttons = add_flag (state AND SDL_BUTTON_RMASK \<noteq> 0) (button_code AMOTION_EVENT_BUTTON_SECONDARY) buttons;
          buttons = add_flag (state AND SDL_BUTTON_MMASK \<noteq> 0) (button_code AMOTION_EVENT_BUTTON_TERTIARY) buttons;
          buttons = add_flag (state AND SDL_BUTTON_X1MASK \<noteq> 0) (button_code AMOTION_EVENT_BUTTON_BACK) buttons;
          buttons = add_flag (state AND SDL_BUTTON_X2MASK \<noteq> 0) (button_code AMOTION_EVENT_BUTTON_FORWARD) buttons
      in buttons)"

fun ConvertMouseAction :: "SDL_EventType \<Rightarrow> u32 option" where
  "ConvertMouseAction SDL_MOUSEBUTTONDOWN = Some (motion_action_code AMOTION_EVENT_ACTION_DOWN)"
| "ConvertMouseAction SDL_MOUSEBUTTONUP = Some (motion_action_code AMOTION_EVENT_ACTION_UP)"
| "ConvertMouseAction _ = None"

fun ConvertTouchAction :: "SDL_EventType \<Rightarrow> u32 option" where
  "ConvertTouchAction SDL_FINGERMOTION = Some (motion_action_code AMOTION_EVENT_ACTION_MOVE)"
| "ConvertTouchAction SDL_FINGERDOWN = Some (motion_action_code AMOTION_EVENT_ACTION_DOWN)"
| "ConvertTouchAction SDL_FINGERUP = Some (motion_action_code AMOTION_EVENT_ACTION_UP)"
| "ConvertTouchAction _ = None"

subsection \<open>Properties\<close>

text \<open>
  The reference for the modifiers: a table that gives each modifier of SDL its side and the flag
  of both sides, and the union of the entries whose modifier is set.
\<close>

definition meta_table :: "(u16 \<times> AndroidMetaState list) list" where
  "meta_table =
     [(KMOD_LSHIFT, [AMETA_SHIFT_LEFT_ON, AMETA_SHIFT_ON]), (KMOD_RSHIFT, [AMETA_SHIFT_RIGHT_ON, AMETA_SHIFT_ON]),
      (KMOD_LCTRL, [AMETA_CTRL_LEFT_ON, AMETA_CTRL_ON]), (KMOD_RCTRL, [AMETA_CTRL_RIGHT_ON, AMETA_CTRL_ON]),
      (KMOD_LALT, [AMETA_ALT_LEFT_ON, AMETA_ALT_ON]), (KMOD_RALT, [AMETA_ALT_RIGHT_ON, AMETA_ALT_ON]),
      (KMOD_LGUI, [AMETA_META_LEFT_ON, AMETA_META_ON]), (KMOD_RGUI, [AMETA_META_RIGHT_ON, AMETA_META_ON]),
      (KMOD_NUM, [AMETA_NUM_LOCK_ON]), (KMOD_CAPS, [AMETA_CAPS_LOCK_ON])]"

definition union_flags :: "u32 list \<Rightarrow> u32" where
  "union_flags cs = foldr (OR) cs 0"

definition metas_of :: "u16 \<Rightarrow> AndroidMetaState list" where
  "metas_of mods = concat (map snd (filter (\<lambda>(k, ms). mods AND k \<noteq> 0) meta_table))"

text \<open>
  Every function here is a union of guarded flags; \<open>flag b c\<close> is \<open>c\<close> when \<open>b\<close> holds. Rewritten
  with the laws below, both sides are the same union.
\<close>

definition flag :: "bool \<Rightarrow> u32 \<Rightarrow> u32" where
  "flag b c = (if b then c else 0)"

lemma add_flag_or: "add_flag b c s = s OR flag b c"
  by (simp add: add_flag_def flag_def)

lemma flag_disj: "flag (a \<or> b) c = flag a c OR flag b c"
  by (simp add: flag_def)

lemma flag_or: "flag b (c OR d) = flag b c OR flag b d"
  by (simp add: flag_def)

lemma or_and_zero: "(s OR t) AND d = 0 \<longleftrightarrow> s AND d = 0 \<and> t AND d = 0" for s :: u32
  by (simp add: bit.conj_disj_distrib2 or_eq_0_iff)

lemma flag_and_zero: "flag b c AND d = 0 \<longleftrightarrow> \<not> b \<or> c AND d = 0"
  by (simp add: flag_def)

lemma flag_0 [simp]: "flag b 0 = 0" "flag False c = 0"
  by (simp_all add: flag_def)

lemma union_flags_simps [simp]:
  "union_flags [] = 0" "union_flags (c # cs) = c OR union_flags cs"
  by (simp_all add: union_flags_def)

lemma union_flags_append [simp]: "union_flags (xs @ ys) = union_flags xs OR union_flags ys"
  by (induction xs) (simp_all add: or.assoc)

lemma union_flags_guarded:
  "union_flags (map meta_code (concat (map snd (filter P (e # es))))) =
     flag (P e) (union_flags (map meta_code (snd e))) OR
     union_flags (map meta_code (concat (map snd (filter P es))))"
  by (simp add: flag_def)

lemma flag_imp: "flag (a \<longrightarrow> b) c = flag (\<not> a) c OR flag b c"
  by (simp add: flag_def)

lemmas union_of_flags = add_flag_or or_and_zero flag_and_zero flag_disj flag_or

text \<open>The Android modifiers of a key event are the union, over the modifiers of SDL that are
  set, of the flag of that side and the flag of both sides: no dependent flag is missing and none
  appears without its cause; the modifier AltGr has no counterpart.\<close>

theorem convert_metastate_union: "ConvertMetaState mods = union_flags (map meta_code (metas_of mods))"
  unfolding metas_of_def meta_table_def union_flags_guarded
  apply (simp only: snd_conv prod.case list.map union_flags_simps flag_or)
  apply (simp add: ConvertMetaState_def autocomplete_metastate_def Let_def union_of_flags)
  apply (simp add: flag_imp or.assoc or.commute or.left_commute or.left_idem)
  done

lemma ConvertMetaState_0 [simp]: "ConvertMetaState 0 = 0"
  by (simp add: ConvertMetaState_def autocomplete_metastate_def add_flag_def)

text \<open>The buttons lose nothing: the middle and the right button change places.\<close>

lemma ConvertMouseButtons_0 [simp]: "ConvertMouseButtons 0 = 0"
  by (simp add: ConvertMouseButtons_def add_flag_def)

lemma ConvertMouseButtons_LMASK [simp]: "ConvertMouseButtons 1 = button_code AMOTION_EVENT_BUTTON_PRIMARY"
  by (simp add: ConvertMouseButtons_def add_flag_def)

lemma ConvertMouseButtons_zero_iff: "ConvertMouseButtons s = 0 \<longleftrightarrow> s AND 0x1f = 0"
proof -
  have split: "(0x1f :: u32) = 1 OR (2 OR (4 OR (8 OR 16)))" by simp
  have "s AND 0x1f = 0 \<longleftrightarrow> s AND 1 = 0 \<and> s AND 2 = 0 \<and> s AND 4 = 0 \<and> s AND 8 = 0 \<and> s AND 16 = 0"
    unfolding split by (simp only: bit.conj_disj_distrib or_eq_0_iff)
  then show ?thesis by (simp add: ConvertMouseButtons_def add_flag_def)
qed

subsection \<open>Keys are told apart\<close>

lemmas keycode_defs =
  AKEYCODE_ENTER_def AKEYCODE_NUMPAD_ENTER_def AKEYCODE_ESCAPE_def AKEYCODE_DEL_def
  AKEYCODE_TAB_def AKEYCODE_PAGE_UP_def AKEYCODE_FORWARD_DEL_def AKEYCODE_MOVE_HOME_def
  AKEYCODE_MOVE_END_def AKEYCODE_PAGE_DOWN_def AKEYCODE_DPAD_RIGHT_def
  AKEYCODE_DPAD_LEFT_def AKEYCODE_DPAD_DOWN_def AKEYCODE_DPAD_UP_def AKEYCODE_A_def
  AKEYCODE_B_def AKEYCODE_C_def AKEYCODE_D_def AKEYCODE_E_def AKEYCODE_F_def AKEYCODE_G_def
  AKEYCODE_H_def AKEYCODE_I_def AKEYCODE_J_def AKEYCODE_K_def AKEYCODE_L_def AKEYCODE_M_def
  AKEYCODE_N_def AKEYCODE_O_def AKEYCODE_P_def AKEYCODE_Q_def AKEYCODE_R_def AKEYCODE_S_def
  AKEYCODE_T_def AKEYCODE_U_def AKEYCODE_V_def AKEYCODE_W_def AKEYCODE_X_def AKEYCODE_Y_def
  AKEYCODE_Z_def AKEYCODE_SPACE_def

text \<open>The keys of the two switches with their codes, and the key a code comes from.\<close>

definition key_table :: "(u32 \<times> SDL_Keycode) list" where
  "key_table =
     [(AKEYCODE_ENTER, SDLK_RETURN), (AKEYCODE_NUMPAD_ENTER, SDLK_KP_ENTER),
      (AKEYCODE_ESCAPE, SDLK_ESCAPE), (AKEYCODE_DEL, SDLK_BACKSPACE), (AKEYCODE_TAB, SDLK_TAB),
      (AKEYCODE_PAGE_UP, SDLK_PAGEUP), (AKEYCODE_FORWARD_DEL, SDLK_DELETE),
      (AKEYCODE_MOVE_HOME, SDLK_HOME), (AKEYCODE_MOVE_END, SDLK_END),
      (AKEYCODE_PAGE_DOWN, SDLK_PAGEDOWN), (AKEYCODE_DPAD_RIGHT, SDLK_RIGHT),
      (AKEYCODE_DPAD_LEFT, SDLK_LEFT), (AKEYCODE_DPAD_DOWN, SDLK_DOWN),
      (AKEYCODE_DPAD_UP, SDLK_UP), (AKEYCODE_A, SDLK_a), (AKEYCODE_B, SDLK_b),
      (AKEYCODE_C, SDLK_c), (AKEYCODE_D, SDLK_d), (AKEYCODE_E, SDLK_e), (AKEYCODE_F, SDLK_f),
      (AKEYCODE_G, SDLK_g), (AKEYCODE_H, SDLK_h), (AKEYCODE_I, SDLK_i), (AKEYCODE_J, SDLK_j),
      (AKEYCODE_K, SDLK_k), (AKEYCODE_L, SDLK_l), (AKEYCODE_M, SDLK_m), (AKEYCODE_N, SDLK_n),
      (AKEYCODE_O, SDLK_o), (AKEYCODE_P, SDLK_p), (AKEYCODE_Q, SDLK_q), (AKEYCODE_R, SDLK_r),
      (AKEYCODE_S, SDLK_s), (AKEYCODE_T, SDLK_t), (AKEYCODE_U, SDLK_u), (AKEYCODE_V, SDLK_v),
      (AKEYCODE_W, SDLK_w), (AKEYCODE_X, SDLK_x), (AKEYCODE_Y, SDLK_y), (AKEYCODE_Z, SDLK_z),
      (AKEYCODE_SPACE, SDLK_SPACE)]"

definition key_of :: "u32 \<Rightarrow> SDL_Keycode option" where
  "key_of = map_of key_table"

lemma key_of_always: "keycode_always k = Some c \<Longrightarrow> key_of c = Some k"
  by (cases k) (auto simp: key_of_def key_table_def keycode_defs)

lemma key_of_letter: "keycode_letter k = Some c \<Longrightarrow> key_of c = Some k"
  by (cases k) (auto simp: key_of_def key_table_def keycode_defs)

lemma key_of_ConvertKeycode: "ConvertKeycode k mods prefer_text = Some c \<Longrightarrow> key_of c = Some k"
  by (auto simp: ConvertKeycode_def key_of_always key_of_letter split: option.splits if_splits)

lemma convert_keycode_text:
  "ConvertKeycode k mods prefer_text = Some c \<Longrightarrow>
     keycode_always k = Some c \<or>
     (\<not> prefer_text \<and> keycode_letter k = Some c \<and> mods AND (KMOD_LALT OR KMOD_RALT OR KMOD_LGUI OR KMOD_RGUI) = 0)"
  by (auto simp: ConvertKeycode_def split: option.splits if_splits)

text \<open>The device can tell the keys apart: whatever the modifiers and the preference, two
  different keys are never sent with the same key code.\<close>

theorem convert_keycode_injective:
  assumes "ConvertKeycode k mods prefer_text = Some c"
    and "ConvertKeycode k' mods' prefer_text' = Some c"
  shows "k = k'"
  using assms [THEN key_of_ConvertKeycode] by simp

theorem convert_keycode_injective_witness:
  "ConvertKeycode SDLK_a 0x40 False = Some AKEYCODE_A \<and> SDLK_a = SDLK_a"
proof -
  have c: "ConvertKeycode SDLK_a 0x40 False = Some AKEYCODE_A" by (simp add: ConvertKeycode_def)
  from c convert_keycode_injective [OF c c] show ?thesis by simp
qed

end
