(* ===== verification/Screen.thy ===== *)
theory Screen
  imports Common Video_Buffer
begin

section \<open>The window (src/src/ui/screen.cpp, screen.hpp)\<close>

text \<open>
  The window that shows the device: its size with respect to the display and to the frame, its
  texture, and the events of the window manager. The video subsystem of SDL is the record
  \<open>display\<close>: what lives (windows, renderers, and textures with their size), what the fallible
  calls answer, the usable area of the display, the size of the window, and the calls made. A
  call with a null object is rejected by SDL without effect; a call with a destroyed object has
  no defined result, and neither has the update of a texture larger than the frame.
\<close>

subsection \<open>The video subsystem of SDL\<close>

datatype ui_call =
    Set_Window_Size int int
  | Restore_Window
  | Set_Fullscreen bool
  | Show_Window
  | Update_Texture nat nat
  | Present "nat option"

record display =
  dp_usable :: "(int \<times> int) option"
  dp_answers :: "bool list"
  dp_next :: nat
  dp_windows :: "nat list"
  dp_renderers :: "nat list"
  dp_textures :: "(nat \<times> Size) list"
  dp_window_size :: "int \<times> int"
  dp_calls :: "ui_call list"

definition dp_answer :: "display \<Rightarrow> bool \<times> display" where
  "dp_answer d = (case dp_answers d of [] \<Rightarrow> (False, d) | a # as \<Rightarrow> (a, d\<lparr>dp_answers := as\<rparr>))"

definition dp_call :: "ui_call \<Rightarrow> display \<Rightarrow> display" where
  "dp_call c d = d\<lparr>dp_calls := dp_calls d @ [c]\<rparr>"

text \<open>The effect \<open>x\<close> of a call with the object \<open>h\<close>, when the objects \<open>hs\<close> live.\<close>

definition on_object :: "nat option \<Rightarrow> nat list \<Rightarrow> 'a \<Rightarrow> 'a \<Rightarrow> 'a option" where
  "on_object h hs rejected x = (case h of None \<Rightarrow> Some rejected | Some k \<Rightarrow> if k \<in> set hs then Some x else None)"

definition SDL_CreateWindow :: "int \<Rightarrow> int \<Rightarrow> display \<Rightarrow> nat option \<times> display" where
  "SDL_CreateWindow w h d = (let (ok, d) = dp_answer d in
     if ok then (Some (dp_next d), d\<lparr>dp_windows := dp_next d # dp_windows d, dp_next := dp_next d + 1,
                                     dp_window_size := (w, h)\<rparr>)
     else (None, d))"

definition SDL_CreateRenderer :: "display \<Rightarrow> nat option \<times> display" where
  "SDL_CreateRenderer d = (let (ok, d) = dp_answer d in
     if ok then (Some (dp_next d), d\<lparr>dp_renderers := dp_next d # dp_renderers d, dp_next := dp_next d + 1\<rparr>)
     else (None, d))"

definition SDL_CreateTexture :: "Size \<Rightarrow> display \<Rightarrow> nat option \<times> display" where
  "SDL_CreateTexture sz d = (let (ok, d) = dp_answer d in
     if ok then (Some (dp_next d), d\<lparr>dp_textures := (dp_next d, sz) # dp_textures d, dp_next := dp_next d + 1\<rparr>)
     else (None, d))"

definition SDL_DestroyWindow :: "nat option \<Rightarrow> display \<Rightarrow> display option" where
  "SDL_DestroyWindow h d = on_object h (dp_windows d) d (d\<lparr>dp_windows := removeAll (the h) (dp_windows d)\<rparr>)"

definition SDL_DestroyRenderer :: "nat option \<Rightarrow> display \<Rightarrow> display option" where
  "SDL_DestroyRenderer h d = on_object h (dp_renderers d) d (d\<lparr>dp_renderers := removeAll (the h) (dp_renderers d)\<rparr>)"

definition SDL_DestroyTexture :: "nat option \<Rightarrow> display \<Rightarrow> display option" where
  "SDL_DestroyTexture h d = on_object h (map fst (dp_textures d)) d
     (d\<lparr>dp_textures := filter (\<lambda>(k, sz). k \<noteq> the h) (dp_textures d)\<rparr>)"

text \<open>These return a number, zero when they succeed: here whether they succeed.\<close>

definition SDL_RenderSetLogicalSize :: "nat option \<Rightarrow> display \<Rightarrow> (bool \<times> display) option" where
  "SDL_RenderSetLogicalSize h d = on_object h (dp_renderers d) (False, d) (dp_answer d)"

definition SDL_SetWindowFullscreen :: "nat option \<Rightarrow> bool \<Rightarrow> display \<Rightarrow> (bool \<times> display) option" where
  "SDL_SetWindowFullscreen h full d = on_object h (dp_windows d) (False, d)
     (let (ok, d) = dp_answer d in (ok, if ok then dp_call (Set_Fullscreen full) d else d))"

definition SDL_SetWindowSize :: "nat option \<Rightarrow> u16 \<Rightarrow> u16 \<Rightarrow> display \<Rightarrow> display option" where
  "SDL_SetWindowSize h w ht d = on_object h (dp_windows d) d
     (if w = 0 \<or> ht = 0 then d
      else dp_call (Set_Window_Size (uint w) (uint ht)) (d\<lparr>dp_window_size := (uint w, uint ht)\<rparr>))"

text \<open>With a null window the two results stay unwritten.\<close>

definition SDL_GetWindowSize :: "nat option \<Rightarrow> display \<Rightarrow> (int \<times> int) option" where
  "SDL_GetWindowSize h d = (case h of None \<Rightarrow> None | Some k \<Rightarrow>
     if k \<in> set (dp_windows d) then Some (dp_window_size d) else None)"

definition SDL_RestoreWindow :: "nat option \<Rightarrow> display \<Rightarrow> display option" where
  "SDL_RestoreWindow h d = on_object h (dp_windows d) d (dp_call Restore_Window d)"

definition SDL_ShowWindow :: "nat option \<Rightarrow> display \<Rightarrow> display option" where
  "SDL_ShowWindow h d = on_object h (dp_windows d) d (dp_call Show_Window d)"

text \<open>
  The update reads as many rows and columns of the picture as the texture has; \<open>w\<close> and \<open>ht\<close>
  are those of the picture.
\<close>

definition SDL_UpdateYUVTexture :: "nat option \<Rightarrow> nat \<Rightarrow> int \<times> int \<Rightarrow> display \<Rightarrow> display option" where
  "SDL_UpdateYUVTexture h picture dims d = (case h of None \<Rightarrow> Some d | Some k \<Rightarrow>
     (case map_of (dp_textures d) k of
        None \<Rightarrow> None
      | Some sz \<Rightarrow>
          if uint (width sz) \<le> fst dims \<and> uint (height sz) \<le> snd dims
          then Some (dp_call (Update_Texture k picture) d) else None))"

text \<open>Clearing, copying the texture and presenting.\<close>

definition SDL_RenderPresent :: "nat option \<Rightarrow> nat option \<Rightarrow> display \<Rightarrow> display option" where
  "SDL_RenderPresent renderer texture d = do {
     x \<leftarrow> on_object texture (map fst (dp_textures d)) () ();
     on_object renderer (dp_renderers d) d (dp_call (Present texture) d)
   }"

subsection \<open>The screen\<close>

record Screen =
  scr_window :: "nat option"
  scr_renderer :: "nat option"
  scr_texture :: "nat option"
  scr_frame_size :: Size
  scr_windowed_window_size :: Size
  scr_windowed_window_size_backup :: Size
  scr_has_frame :: bool
  scr_fullscreen :: bool
  scr_maximized :: bool
  scr_device_screen_size :: Size
  scr_file_handler :: bool

definition empty_size :: Size where
  "empty_size = \<lparr>width = 0, height = 0\<rparr>"

definition Screen_Init :: "Screen \<Rightarrow> Screen" where
  "Screen_Init s = s\<lparr>scr_window := None, scr_renderer := None, scr_texture := None, scr_file_handler := False,
     scr_frame_size := empty_size, scr_windowed_window_size := empty_size,
     scr_windowed_window_size_backup := empty_size,
     scr_has_frame := False, scr_fullscreen := False, scr_maximized := False\<rparr>"

definition InitFileHandler :: "Screen \<Rightarrow> Screen" where
  "InitFileHandler s = s\<lparr>scr_file_handler := True\<rparr>"

definition GetWindowSize :: "nat option \<Rightarrow> display \<Rightarrow> Size option" where
  "GetWindowSize window d = do {
     (w, h) \<leftarrow> SDL_GetWindowSize window d;
     Some \<lparr>width = of_int w, height = of_int h\<rparr>
   }"

definition GetWindowedWindowSize :: "Screen \<Rightarrow> display \<Rightarrow> Size option" where
  "GetWindowedWindowSize s d =
     (if scr_fullscreen s \<or> scr_maximized s then Some (scr_windowed_window_size s)
      else GetWindowSize (scr_window s) d)"

definition ApplyWindowedSize :: "Screen \<Rightarrow> display \<Rightarrow> display option" where
  "ApplyWindowedSize s d =
     (if \<not> scr_fullscreen s \<and> \<not> scr_maximized s
      then SDL_SetWindowSize (scr_window s) (width (scr_windowed_window_size s))
             (height (scr_windowed_window_size s)) d
      else Some d)"

definition SetWindowSize :: "Size \<Rightarrow> Screen \<Rightarrow> display \<Rightarrow> (Screen \<times> display) option" where
  "SetWindowSize new_size s d = do {
     let s = s\<lparr>scr_windowed_window_size := new_size\<rparr>;
     d \<leftarrow> ApplyWindowedSize s d;
     Some (s, d)
   }"

subsection \<open>Sizes\<close>

definition DISPLAY_MARGINS :: int where
  "DISPLAY_MARGINS = 96"

definition GetPreferredDisplayBounds :: "(int \<times> int) option \<Rightarrow> Size option" where
  "GetPreferredDisplayBounds usable = (case usable of
     None \<Rightarrow> None
   | Some (w, h) \<Rightarrow> Some \<lparr>width = of_int (max 0 (w - DISPLAY_MARGINS)),
                         height = of_int (max 0 (h - DISPLAY_MARGINS))\<rparr>)"

text \<open>Products and quotients are computed on 32 bits.\<close>

definition GetOptimalSize :: "(int \<times> int) option \<Rightarrow> Size \<Rightarrow> Size \<Rightarrow> Size option" where
  "GetOptimalSize usable current_size frame_size =
     (if width frame_size = 0 \<or> height frame_size = 0 then Some current_size
      else do {
        let (w :: u32, h :: u32) =
          (case GetPreferredDisplayBounds usable of
             None \<Rightarrow> (ucast (width current_size), ucast (height current_size))
           | Some display_size \<Rightarrow>
               (ucast (min (width current_size) (width display_size)),
                ucast (min (height current_size) (height display_size))));
        let keep_width = (ucast (width frame_size) * h > ucast (height frame_size) * w);
        let (w, h) =
          (if keep_width then (w, ucast (height frame_size) * w div ucast (width frame_size))
           else (ucast (width frame_size) * h div ucast (height frame_size), h));
        c_assert (w < 0x10000 \<and> h < 0x10000);
        Some \<lparr>width = ucast w, height = ucast h\<rparr>
      })"

definition GetOptimalWindowSize :: "Size \<Rightarrow> Screen \<Rightarrow> display \<Rightarrow> Size option" where
  "GetOptimalWindowSize frame_size s d = do {
     windowed_size \<leftarrow> GetWindowedWindowSize s d;
     GetOptimalSize (dp_usable d) windowed_size frame_size
   }"

text \<open>A division by zero has no defined result.\<close>

definition u32_div :: "u32 \<Rightarrow> u32 \<Rightarrow> u32 option" where
  "u32_div a b = (if b = 0 then None else Some (a div b))"

definition GetInitialOptimalSize :: "(int \<times> int) option \<Rightarrow> Size \<Rightarrow> u16 \<Rightarrow> u16 \<Rightarrow> Size option" where
  "GetInitialOptimalSize usable frame_size req_width req_height =
     (if req_width = 0 \<and> req_height = 0 then GetOptimalSize usable frame_size frame_size
      else do {
        w \<leftarrow> (if req_width \<noteq> 0 then Some req_width
             else map_option ucast (u32_div (ucast req_height * ucast (width frame_size)) (ucast (height frame_size))));
        h \<leftarrow> (if req_height \<noteq> 0 then Some req_height
             else map_option ucast (u32_div (ucast req_width * ucast (height frame_size)) (ucast (width frame_size))));
        Some \<lparr>width = w, height = h\<rparr>
      })"

subsection \<open>Starting and ending the rendering\<close>

definition Screen_Destroy :: "Screen \<Rightarrow> display \<Rightarrow> display option" where
  "Screen_Destroy s d = do {
     d \<leftarrow> (if scr_texture s \<noteq> None then SDL_DestroyTexture (scr_texture s) d else Some d);
     d \<leftarrow> (if scr_renderer s \<noteq> None then SDL_DestroyRenderer (scr_renderer s) d else Some d);
     if scr_window s \<noteq> None then SDL_DestroyWindow (scr_window s) d else Some d
   }"

text \<open>
  The title, the position and the flags of the window only reach SDL. The two requested sizes of
  the device screen are promoted to \<^verbatim>\<open>int\<close>, so their product has no defined value from $2^{31}$.
\<close>

definition requested_screen_size :: "u16 \<Rightarrow> u16 \<Rightarrow> Size \<Rightarrow> Size option" where
  "requested_screen_size screen_width screen_height frame_size = do {
     product \<leftarrow> checked_int (uint screen_width * uint screen_height);
     Some (if product \<noteq> 0 then \<lparr>width = screen_width, height = screen_height\<rparr> else frame_size)
   }"

definition InitRendering ::
  "Size \<Rightarrow> u16 \<Rightarrow> u16 \<Rightarrow> u16 \<Rightarrow> u16 \<Rightarrow> Screen \<Rightarrow> display \<Rightarrow> (bool \<times> Screen \<times> display) option" where
  "InitRendering frame_size window_width window_height screen_width screen_height s d = do {
     device_screen_size \<leftarrow> requested_screen_size screen_width screen_height frame_size;
     let s = s\<lparr>scr_frame_size := frame_size, scr_device_screen_size := device_screen_size\<rparr>;
     window_size \<leftarrow> GetInitialOptimalSize (dp_usable d) frame_size window_width window_height;
     let (window, d) = SDL_CreateWindow (uint (width window_size)) (uint (height window_size)) d;
     let s = s\<lparr>scr_window := window\<rparr>;
     if window = None then Some (False, s, d)
     else do {
       let (renderer, d) = SDL_CreateRenderer d;
       let s = s\<lparr>scr_renderer := renderer\<rparr>;
       if renderer = None then do { d \<leftarrow> Screen_Destroy s d; Some (False, s, d) }
       else do {
         (ok, d) \<leftarrow> SDL_RenderSetLogicalSize renderer d;
         if \<not> ok then do { d \<leftarrow> Screen_Destroy s d; Some (False, s, d) }
         else do {
           let (texture, d) = SDL_CreateTexture frame_size d;
           let s = s\<lparr>scr_texture := texture\<rparr>;
           if texture = None then do { d \<leftarrow> Screen_Destroy s d; Some (False, s, d) }
           else Some (True, s\<lparr>scr_windowed_window_size := window_size\<rparr>, d)
         }
       }
     }
   }"

definition ShowWindow :: "Screen \<Rightarrow> display \<Rightarrow> display option" where
  "ShowWindow s d = SDL_ShowWindow (scr_window s) d"

definition Render :: "Screen \<Rightarrow> display \<Rightarrow> display option" where
  "Render s d = SDL_RenderPresent (scr_renderer s) (scr_texture s) d"

subsection \<open>Frames\<close>

definition PrepareForFrame :: "Size \<Rightarrow> Screen \<Rightarrow> display \<Rightarrow> (bool \<times> Screen \<times> display) option" where
  "PrepareForFrame new_frame_size s d =
     (if width (scr_frame_size s) \<noteq> width new_frame_size \<or> height (scr_frame_size s) \<noteq> height new_frame_size
      then do {
        (ok, d) \<leftarrow> SDL_RenderSetLogicalSize (scr_renderer s) d;
        if \<not> ok then Some (False, s, d)
        else do {
          d \<leftarrow> SDL_DestroyTexture (scr_texture s) d;
          windowed_size \<leftarrow> GetWindowedWindowSize s d;
          w \<leftarrow> u32_div (ucast (width windowed_size) * ucast (width new_frame_size)) (ucast (width (scr_frame_size s)));
          h \<leftarrow> u32_div (ucast (height windowed_size) * ucast (height new_frame_size)) (ucast (height (scr_frame_size s)));
          target_size \<leftarrow> GetOptimalSize (dp_usable d) \<lparr>width = ucast w, height = ucast h\<rparr> new_frame_size;
          (s, d) \<leftarrow> SetWindowSize target_size s d;
          let s = s\<lparr>scr_frame_size := new_frame_size\<rparr>;
          let (texture, d) = SDL_CreateTexture new_frame_size d;
          let s = s\<lparr>scr_texture := texture\<rparr>;
          Some (texture \<noteq> None, s, d)
        }
      }
      else Some (True, s, d))"

definition UpdateTexture :: "nat \<Rightarrow> int \<times> int \<Rightarrow> Screen \<Rightarrow> display \<Rightarrow> display option" where
  "UpdateTexture picture dims s d = SDL_UpdateYUVTexture (scr_texture s) picture dims d"

text \<open>\<open>dims\<close> tells the width and the height of each picture the decoder has produced.\<close>

definition draw_picture :: "nat \<Rightarrow> int \<times> int \<Rightarrow> Screen \<Rightarrow> display \<Rightarrow> (bool \<times> Screen \<times> display) option" where
  "draw_picture picture dims s d = do {
     let new_frame_size = \<lparr>width = of_int (fst dims), height = of_int (snd dims)\<rparr>;
     (ok, s, d) \<leftarrow> PrepareForFrame new_frame_size s d;
     if \<not> ok then Some (False, s, d)
     else do {
       d \<leftarrow> UpdateTexture picture dims s d;
       d \<leftarrow> Render s d;
       Some (True, s, d)
     }
   }"

definition UpdateFrame ::
  "(nat \<Rightarrow> int \<times> int) \<Rightarrow> u32 \<Rightarrow> VideoBuffer \<Rightarrow> Screen \<Rightarrow> display
    \<Rightarrow> (bool \<times> VideoBuffer \<times> Screen \<times> display) option" where
  "UpdateFrame dims now vb s d = do {
     (frame, vb) \<leftarrow> ConsumeRenderedFrame now vb;
     (ok, s, d) \<leftarrow> draw_picture (vb_picture vb frame) (dims (vb_picture vb frame)) s d;
     Some (ok, vb, s, d)
   }"

subsection \<open>The window and its manager\<close>

definition SwitchFullscreen :: "Screen \<Rightarrow> display \<Rightarrow> (Screen \<times> display) option" where
  "SwitchFullscreen s d = do {
     (ok, d) \<leftarrow> SDL_SetWindowFullscreen (scr_window s) (\<not> scr_fullscreen s) d;
     if \<not> ok then Some (s, d)
     else do {
       let s = s\<lparr>scr_fullscreen := \<not> scr_fullscreen s\<rparr>;
       d \<leftarrow> ApplyWindowedSize s d;
       d \<leftarrow> Render s d;
       Some (s, d)
     }
   }"

text \<open>The common start of the two resizing actions.\<close>

definition leave_maximized :: "Screen \<Rightarrow> display \<Rightarrow> (Screen \<times> display) option" where
  "leave_maximized s d =
     (if scr_maximized s then do {
        d \<leftarrow> SDL_RestoreWindow (scr_window s) d;
        Some (s\<lparr>scr_maximized := False\<rparr>, d)
      } else Some (s, d))"

definition ResizeToFit :: "Screen \<Rightarrow> display \<Rightarrow> (Screen \<times> display) option" where
  "ResizeToFit s d =
     (if scr_fullscreen s then Some (s, d)
      else do {
        (s, d) \<leftarrow> leave_maximized s d;
        optimal_size \<leftarrow> GetOptimalWindowSize (scr_frame_size s) s d;
        d \<leftarrow> SDL_SetWindowSize (scr_window s) (width optimal_size) (height optimal_size) d;
        Some (s, d)
      })"

definition ResizeToPixelPerfect :: "Screen \<Rightarrow> display \<Rightarrow> (Screen \<times> display) option" where
  "ResizeToPixelPerfect s d =
     (if scr_fullscreen s then Some (s, d)
      else do {
        (s, d) \<leftarrow> leave_maximized s d;
        d \<leftarrow> SDL_SetWindowSize (scr_window s) (width (scr_frame_size s)) (height (scr_frame_size s)) d;
        Some (s, d)
      })"

datatype window_event =
  SDL_WINDOWEVENT_EXPOSED | SDL_WINDOWEVENT_SIZE_CHANGED | SDL_WINDOWEVENT_MAXIMIZED
  | SDL_WINDOWEVENT_RESTORED | SDL_WINDOWEVENT_other

definition HandleWindowEvent :: "window_event \<Rightarrow> Screen \<Rightarrow> display \<Rightarrow> (Screen \<times> display) option" where
  "HandleWindowEvent event s d =
     (case event of
        SDL_WINDOWEVENT_EXPOSED \<Rightarrow> do { d \<leftarrow> Render s d; Some (s, d) }
      | SDL_WINDOWEVENT_SIZE_CHANGED \<Rightarrow> do {
          s \<leftarrow> (if \<not> scr_fullscreen s \<and> \<not> scr_maximized s then do {
                 let s = s\<lparr>scr_windowed_window_size_backup := scr_windowed_window_size s\<rparr>;
                 size \<leftarrow> GetWindowSize (scr_window s) d;
                 Some (s\<lparr>scr_windowed_window_size := size\<rparr>)
               } else Some s);
          d \<leftarrow> Render s d;
          Some (s, d)
        }
      | SDL_WINDOWEVENT_MAXIMIZED \<Rightarrow> do {
          c_assert (width (scr_windowed_window_size_backup s) \<noteq> 0);
          c_assert (height (scr_windowed_window_size_backup s) \<noteq> 0);
          let s = s\<lparr>scr_windowed_window_size := scr_windowed_window_size_backup s\<rparr>;
          let s = s\<lparr>scr_windowed_window_size_backup := empty_size\<rparr>;
          Some (s\<lparr>scr_maximized := True\<rparr>, d)
        }
      | SDL_WINDOWEVENT_RESTORED \<Rightarrow> do {
          let s = s\<lparr>scr_maximized := False\<rparr>;
          d \<leftarrow> ApplyWindowedSize s d;
          Some (s, d)
        }
      | SDL_WINDOWEVENT_other \<Rightarrow> Some (s, d))"

text \<open>
  The start of SDL: one answer for the subsystem, then those for the hints, whose failures are
  only logged.
\<close>

definition InitSDLAndConfigure :: "bool \<Rightarrow> display \<Rightarrow> bool \<times> display" where
  "InitSDLAndConfigure show d =
     (let (ok, d) = dp_answer d in
      if \<not> ok then (False, d)
      else if \<not> show then (True, d)
      else let (_, d) = dp_answer d; (_, d) = dp_answer d; (_, d) = dp_answer d; (_, d) = dp_answer d
        in (True, d))"

subsection \<open>The optimal size\<close>

text \<open>
  The reference, on natural numbers: the largest rectangle of the frame's shape inside a box,
  with the smaller dimension rounded down.
\<close>

definition fit_box :: "nat \<Rightarrow> nat \<Rightarrow> nat \<Rightarrow> nat \<Rightarrow> nat \<times> nat" where
  "fit_box fw fh w h = (if fw * h > fh * w then (w, fh * w div fw) else (fw * h div fh, h))"

lemma fit_box_inside:
  assumes "0 < fw" and "0 < fh"
  shows "fst (fit_box fw fh w h) \<le> w" and "snd (fit_box fw fh w h) \<le> h"
proof -
  have "fh * w div fw \<le> h" if "fw * h > fh * w"
    using div_le_mono [of "fh * w" "fw * h" fw] that assms by simp
  moreover have "fw * h div fh \<le> w" if "\<not> fw * h > fh * w"
    using div_le_mono [of "fw * h" "fh * w" fh] that assms by simp
  ultimately show "fst (fit_box fw fh w h) \<le> w" "snd (fit_box fw fh w h) \<le> h"
    by (auto simp: fit_box_def)
qed

lemma fit_box_largest:
  assumes "0 < fw" and "0 < fh" and "w' \<le> w" and "h' \<le> h" and "w' * fh = h' * fw"
  shows "w' \<le> fst (fit_box fw fh w h)" and "h' \<le> snd (fit_box fw fh w h)"
proof -
  have "h' \<le> fh * w div fw"
    using assms mult_le_mono1 [of w' w fh] by (simp add: less_eq_div_iff_mult_less_eq mult.commute)
  moreover have "w' \<le> fw * h div fh"
    using assms mult_le_mono1 [of h' h fw] by (simp add: less_eq_div_iff_mult_less_eq mult.commute)
  ultimately show "w' \<le> fst (fit_box fw fh w h)" "h' \<le> snd (fit_box fw fh w h)"
    using assms by (auto simp: fit_box_def)
qed

lemma unat_u16_less [simp]: "unat (x :: u16) < 65536"
  using unsigned_less [of x, where ?'a = nat] by simp

lemma unat_ucast_16_32 [simp]: "unat (ucast (x :: u16) :: u32) = unat x"
  unfolding unsigned_ucast_eq by (rule take_bit_nat_eq_self, rule less_trans [OF unat_u16_less]) simp

lemma unat_mult_16: "unat (a :: u32) < 65536 \<Longrightarrow> unat b < 65536 \<Longrightarrow> unat (a * b) = unat a * unat b"
proof -
  assume "unat a < 65536" "unat b < 65536"
  then have "unat a * unat b \<le> 65535 * 65535" by (intro mult_le_mono) auto
  then show ?thesis by (subst unat_mult_lem [THEN iffD1]) auto
qed

lemma ucast_16_zero_iff [simp]: "(ucast (x :: u16) :: u32) = 0 \<longleftrightarrow> x = 0"
  by (metis unat_eq_zero unat_ucast_16_32)

text \<open>The box: the current size, cut to the preferred bounds when there are any.\<close>

definition size_box :: "(int \<times> int) option \<Rightarrow> Size \<Rightarrow> nat \<times> nat" where
  "size_box usable cur = (case GetPreferredDisplayBounds usable of
     None \<Rightarrow> (unat (width cur), unat (height cur))
   | Some b \<Rightarrow> (min (unat (width cur)) (unat (width b)), min (unat (height cur)) (unat (height b))))"

lemma unat_min: "unat (min a b) = min (unat a) (unat b)" for a b :: "'a :: len word"
  by (auto simp: min_def word_le_nat_alt)

lemma size_box_less: "fst (size_box usable cur) < 65536" "snd (size_box usable cur) < 65536"
  by (auto simp: size_box_def min_less_iff_disj split: option.split)

lemma size_box_words:
  obtains w h :: u32 where
    "(case GetPreferredDisplayBounds usable of
        None \<Rightarrow> (ucast (width cur), ucast (height cur))
      | Some b \<Rightarrow> (ucast (min (width cur) (width b)), ucast (min (height cur) (height b)))) = (w, h)"
    "unat w = fst (size_box usable cur)" "unat h = snd (size_box usable cur)"
  by (cases "GetPreferredDisplayBounds usable") (auto simp: size_box_def unat_min)

lemma GetOptimalSize_fit:
  assumes nz: "width frame \<noteq> 0" "height frame \<noteq> 0"
  shows "\<exists>r. GetOptimalSize usable cur frame = Some r \<and>
    (unat (width r), unat (height r)) =
      fit_box (unat (width frame)) (unat (height frame)) (fst (size_box usable cur)) (snd (size_box usable cur))"
proof -
  obtain w h :: u32 where wh: "(case GetPreferredDisplayBounds usable of
        None \<Rightarrow> (ucast (width cur), ucast (height cur))
      | Some b \<Rightarrow> (ucast (min (width cur) (width b)), ucast (min (height cur) (height b)))) = (w, h)"
    and u: "unat w = fst (size_box usable cur)" "unat h = snd (size_box usable cur)"
    by (rule size_box_words)
  let ?fw = "ucast (width frame) :: u32" and ?fh = "ucast (height frame) :: u32"
  have pos: "0 < unat (width frame)" "0 < unat (height frame)"
    using nz by (simp_all add: unat_gt_0)
  note less = size_box_less [of usable cur, folded u]
  have mul: "unat (?fw * h) = unat (width frame) * unat h" "unat (?fh * w) = unat (height frame) * unat w"
    using less by (simp_all add: unat_mult_16)
  define r where "r = (if ?fw * h > ?fh * w then (w, ?fh * w div ?fw) else (?fw * h div ?fh, h))"
  have r: "(unat (fst r), unat (snd r)) = fit_box (unat (width frame)) (unat (height frame)) (unat w) (unat h)"
    by (simp add: r_def fit_box_def word_less_nat_alt mul unat_div)
  have "unat (fst r) \<le> unat w" "unat (snd r) \<le> unat h"
    using fit_box_inside [OF pos, of "unat w" "unat h"] r by (metis fst_conv snd_conv)+
  with less have small: "unat (fst r) < 65536" "unat (snd r) < 65536" by linarith+
  then have lt: "fst r < 0x10000" "snd r < 0x10000" by (simp_all add: word_less_nat_alt)
  have cast: "unat (ucast (fst r) :: u16) = unat (fst r)" "unat (ucast (snd r) :: u16) = unat (snd r)"
    using small by (simp_all add: unsigned_ucast_eq take_bit_nat_eq_self)
  have "GetOptimalSize usable cur frame = Some \<lparr>width = ucast (fst r), height = ucast (snd r)\<rparr>"
    using nz lt unfolding GetOptimalSize_def wh by (simp add: r_def Let_def split: if_splits)
  with cast r u show ?thesis by simp
qed

text \<open>C31. For every frame that is not empty, the optimal size is computed without overflow and
  without failing the assertion. Inside the current size, cut to the preferred bounds of the
  display, it takes either the whole width, and then the height is that of the frame's aspect ratio
  rounded down, or the whole height, and then the width is. It lies inside that box, and no
  rectangle with exactly the frame's aspect ratio inside the box is larger.\<close>

theorem optimal_size:
  assumes "width frame \<noteq> 0" and "height frame \<noteq> 0" and "size_box usable cur = (box_w, box_h)"
  shows "\<exists>r. GetOptimalSize usable cur frame = Some r \<and>
    (unat (width r) = box_w \<and> unat (height r) = unat (height frame) * box_w div unat (width frame) \<or>
     unat (height r) = box_h \<and> unat (width r) = unat (width frame) * box_h div unat (height frame)) \<and>
    unat (width r) \<le> box_w \<and> unat (height r) \<le> box_h \<and>
    (\<forall>w h. w \<le> box_w \<and> h \<le> box_h \<and> w * unat (height frame) = h * unat (width frame) \<longrightarrow>
       w \<le> unat (width r) \<and> h \<le> unat (height r))"
proof -
  let ?fit = "fit_box (unat (width frame)) (unat (height frame)) box_w box_h"
  have pos: "0 < unat (width frame)" "0 < unat (height frame)"
    using assms(1,2) by (simp_all add: unat_gt_0)
  from GetOptimalSize_fit [OF assms(1,2), of usable cur] assms(3) obtain r where r:
    "GetOptimalSize usable cur frame = Some r" "(unat (width r), unat (height r)) = ?fit" by auto
  then have "unat (width r) = fst ?fit" "unat (height r) = snd ?fit" by (metis fst_conv, metis snd_conv)
  moreover have "fst ?fit = box_w \<and> snd ?fit = unat (height frame) * box_w div unat (width frame) \<or>
      snd ?fit = box_h \<and> fst ?fit = unat (width frame) * box_h div unat (height frame)"
    by (simp add: fit_box_def)
  moreover have "fst ?fit \<le> box_w" "snd ?fit \<le> box_h" by (rule fit_box_inside [OF pos])+
  moreover have "\<forall>w h. w \<le> box_w \<and> h \<le> box_h \<and> w * unat (height frame) = h * unat (width frame) \<longrightarrow>
      w \<le> fst ?fit \<and> h \<le> snd ?fit"
    using fit_box_largest [OF pos] by blast
  ultimately show ?thesis using r(1) by simp
qed

theorem optimal_size_witness:
  "GetOptimalSize (Some (1376, 1016)) \<lparr>width = 1080, height = 2160\<rparr> \<lparr>width = 1080, height = 2160\<rparr> =
     Some \<lparr>width = 460, height = 920\<rparr>"
proof -
  let ?s = "\<lparr>width = 1080, height = 2160\<rparr> :: Size"
  have b: "size_box (Some (1376, 1016)) ?s = (1080, 920)"
    by (simp add: size_box_def GetPreferredDisplayBounds_def DISPLAY_MARGINS_def)
  have nz: "width ?s \<noteq> 0" "height ?s \<noteq> 0" by simp_all
  from optimal_size [OF nz b] obtain r where r: "GetOptimalSize (Some (1376, 1016)) ?s ?s = Some r"
    and "unat (width r) = 460" "unat (height r) = 920" by auto
  then have "width r = 460" "height r = 920" by (simp_all add: word_unat_eq_iff)
  then have "r = \<lparr>width = 460, height = 920\<rparr>" by simp
  with r show ?thesis by simp
qed

subsection \<open>The objects of the screen\<close>

text \<open>
  While the window is shown: one window and one renderer live, and at most one texture, which is
  the current one and has the size of the frame; the frame is not empty.
\<close>

definition screen_ok :: "Screen \<times> display \<Rightarrow> bool" where
  "screen_ok x \<longleftrightarrow> (case x of (s, d) \<Rightarrow>
     (case (scr_window s, scr_renderer s) of (Some w, Some r) \<Rightarrow> dp_windows d = [w] \<and> dp_renderers d = [r] | _ \<Rightarrow> False) \<and>
     dp_textures d = (case scr_texture s of None \<Rightarrow> [] | Some t \<Rightarrow> [(t, scr_frame_size s)]) \<and>
     width (scr_frame_size s) \<noteq> 0 \<and> height (scr_frame_size s) \<noteq> 0)"

definition no_objects :: "display \<Rightarrow> bool" where
  "no_objects d \<longleftrightarrow> dp_windows d = [] \<and> dp_renderers d = [] \<and> dp_textures d = []"

lemmas dp_defs = dp_call_def on_object_def Let_def SDL_SetWindowSize_def SDL_GetWindowSize_def SDL_RestoreWindow_def
  SDL_ShowWindow_def SDL_RenderPresent_def

lemma dp_answer_fields [simp]:
  "dp_windows (snd (dp_answer d)) = dp_windows d" "dp_renderers (snd (dp_answer d)) = dp_renderers d"
  "dp_textures (snd (dp_answer d)) = dp_textures d"
  by (simp_all add: dp_answer_def split: list.split)

lemma screen_okE:
  assumes "screen_ok (s, d)"
  obtains w r where "scr_window s = Some w" "scr_renderer s = Some r" "dp_windows d = [w]" "dp_renderers d = [r]"
    "dp_textures d = (case scr_texture s of None \<Rightarrow> [] | Some t \<Rightarrow> [(t, scr_frame_size s)])"
    "width (scr_frame_size s) \<noteq> 0" "height (scr_frame_size s) \<noteq> 0"
  using assms by (auto simp: screen_ok_def split: option.splits)

text \<open>The operations see the screen through the objects: these keep \<open>screen_ok\<close>.\<close>

lemma screen_ok_cong:
  assumes "screen_ok (s, d)"
    and "scr_window s' = scr_window s" "scr_renderer s' = scr_renderer s" "scr_texture s' = scr_texture s"
    "scr_frame_size s' = scr_frame_size s"
    and "dp_windows d' = dp_windows d" "dp_renderers d' = dp_renderers d" "dp_textures d' = dp_textures d"
  shows "screen_ok (s', d')"
  using assms by (auto simp: screen_ok_def split: option.splits)

definition same_objects :: "display \<Rightarrow> display \<Rightarrow> bool" where
  "same_objects d d' \<longleftrightarrow> dp_windows d' = dp_windows d \<and> dp_renderers d' = dp_renderers d \<and> dp_textures d' = dp_textures d"

lemma same_objects_ok: "screen_ok (s, d) \<Longrightarrow> same_objects d d' \<Longrightarrow> screen_ok (s, d')"
  by (erule screen_ok_cong) (simp_all add: same_objects_def)

lemma Render_defined: "screen_ok (s, d) \<Longrightarrow> defined (same_objects d) (Render s d)"
  by (erule screen_okE) (auto simp: Render_def dp_defs same_objects_def split: option.split)

lemma SetWindowSize_defined: "screen_ok (s, d) \<Longrightarrow> defined (same_objects d) (SDL_SetWindowSize (scr_window s) w h d)"
  by (erule screen_okE) (simp add: dp_defs same_objects_def)

lemma ApplyWindowedSize_defined: "screen_ok (s, d) \<Longrightarrow> defined (same_objects d) (ApplyWindowedSize s d)"
  by (auto simp: ApplyWindowedSize_def SetWindowSize_defined) (simp_all add: same_objects_def)

lemma GetWindowSize_defined: "screen_ok (s, d) \<Longrightarrow> defined (\<lambda>_. True) (GetWindowSize (scr_window s) d)"
  by (erule screen_okE) (simp add: GetWindowSize_def dp_defs split: prod.split)

lemma GetWindowedWindowSize_defined: "screen_ok (s, d) \<Longrightarrow> defined (\<lambda>_. True) (GetWindowedWindowSize s d)"
  by (simp add: GetWindowedWindowSize_def GetWindowSize_defined)

lemma GetOptimalSize_defined: "defined (\<lambda>_. True) (GetOptimalSize usable cur frame)"
proof (cases "width frame = 0 \<or> height frame = 0")
  case True
  then show ?thesis by (auto simp: GetOptimalSize_def)
next
  case False
  with GetOptimalSize_fit [of frame usable cur] show ?thesis by auto
qed

lemma SetFullscreen_defined:
  "screen_ok (s, d) \<Longrightarrow> defined (\<lambda>(ok, d'). same_objects d d') (SDL_SetWindowFullscreen (scr_window s) b d)"
  by (erule screen_okE)
    (auto simp: SDL_SetWindowFullscreen_def on_object_def dp_call_def dp_answer_def Let_def same_objects_def split: list.split)

lemma leave_maximized_defined:
  "screen_ok (s, d) \<Longrightarrow> defined screen_ok (leave_maximized s d)"
proof -
  assume ok: "screen_ok (s, d)"
  then obtain w where "scr_window s = Some w" "dp_windows d = [w]" by (rule screen_okE)
  with ok show ?thesis
    by (auto simp: leave_maximized_def SDL_RestoreWindow_def on_object_def dp_call_def elim!: screen_ok_cong)
qed

lemma SwitchFullscreen_ok:
  assumes ok: "screen_ok (s, d)"
  shows "defined screen_ok (SwitchFullscreen s d)"
proof -
  from SetFullscreen_defined [OF ok] obtain b d1 where
    f: "SDL_SetWindowFullscreen (scr_window s) (\<not> scr_fullscreen s) d = Some (b, d1)" "same_objects d d1"
    by (rule definedE) auto
  note ok1 = same_objects_ok [OF ok f(2)]
  let ?s = "s\<lparr>scr_fullscreen := \<not> scr_fullscreen s\<rparr>"
  have ok2: "screen_ok (?s, d1)" by (rule screen_ok_cong [OF ok1]) simp_all
  from ApplyWindowedSize_defined [OF ok2] obtain d2 where a: "ApplyWindowedSize ?s d1 = Some d2" "same_objects d1 d2"
    by (rule definedE)
  note ok3 = same_objects_ok [OF ok2 a(2)]
  from Render_defined [OF ok3] obtain d3 where r: "Render ?s d2 = Some d3" "same_objects d2 d3" by (rule definedE)
  show ?thesis using f(1) a(1) r(1) ok1 same_objects_ok [OF ok3 r(2)] by (simp add: SwitchFullscreen_def)
qed

lemma ResizeToFit_ok:
  assumes ok: "screen_ok (s, d)"
  shows "defined screen_ok (ResizeToFit s d)"
proof -
  from leave_maximized_defined [OF ok] obtain s1 d1 where l: "leave_maximized s d = Some (s1, d1)" "screen_ok (s1, d1)"
    by (rule definedE) auto
  from GetWindowedWindowSize_defined [OF l(2)] obtain ws where ws: "GetWindowedWindowSize s1 d1 = Some ws" by (rule definedE)
  from GetOptimalSize_defined obtain os where os: "GetOptimalSize (dp_usable d1) ws (scr_frame_size s1) = Some os" by (rule definedE)
  from SetWindowSize_defined [OF l(2)] obtain d2 where
    d2: "SDL_SetWindowSize (scr_window s1) (width os) (height os) d1 = Some d2" "same_objects d1 d2" by (rule definedE)
  show ?thesis using ok l(1) ws os d2(1) same_objects_ok [OF l(2) d2(2)]
    by (simp add: ResizeToFit_def GetOptimalWindowSize_def)
qed

lemma ResizeToPixelPerfect_ok:
  assumes ok: "screen_ok (s, d)"
  shows "defined screen_ok (ResizeToPixelPerfect s d)"
proof -
  from leave_maximized_defined [OF ok] obtain s1 d1 where l: "leave_maximized s d = Some (s1, d1)" "screen_ok (s1, d1)"
    by (rule definedE) auto
  from SetWindowSize_defined [OF l(2)] obtain d2 where
    d2: "SDL_SetWindowSize (scr_window s1) (width (scr_frame_size s1)) (height (scr_frame_size s1)) d1 = Some d2"
      "same_objects d1 d2" by (rule definedE)
  show ?thesis using ok l(1) d2(1) same_objects_ok [OF l(2) d2(2)] by (simp add: ResizeToPixelPerfect_def)
qed

text \<open>
  The one assertion that can fail: the handler of the maximized window requires that a change of
  the size was reported before, and that the window was not empty then.
\<close>

definition event_allowed :: "window_event \<Rightarrow> Screen \<Rightarrow> bool" where
  "event_allowed e s \<longleftrightarrow> (e = SDL_WINDOWEVENT_MAXIMIZED \<longrightarrow>
     width (scr_windowed_window_size_backup s) \<noteq> 0 \<and> height (scr_windowed_window_size_backup s) \<noteq> 0)"

lemma event_not_allowed: "\<not> event_allowed e s \<Longrightarrow> HandleWindowEvent e s d = None"
  by (auto simp: event_allowed_def HandleWindowEvent_def c_assert_def)

lemma screen_ok_size_fields [simp]:
  "screen_ok (s\<lparr>scr_windowed_window_size := a\<rparr>, d) \<longleftrightarrow> screen_ok (s, d)"
  "screen_ok (s\<lparr>scr_windowed_window_size_backup := a\<rparr>, d) \<longleftrightarrow> screen_ok (s, d)"
  "screen_ok (s\<lparr>scr_maximized := b\<rparr>, d) \<longleftrightarrow> screen_ok (s, d)"
  "screen_ok (s\<lparr>scr_fullscreen := b\<rparr>, d) \<longleftrightarrow> screen_ok (s, d)"
  by (simp_all add: screen_ok_def split: option.split)

lemma then_Render:
  assumes "screen_ok (s, d)"
  shows "defined screen_ok (Option.bind (Render s d) (\<lambda>d. Some (s, d)))"
  using Render_defined [OF assms] same_objects_ok [OF assms] by (auto elim!: definedE)

lemma HandleWindowEvent_ok:
  assumes ok: "screen_ok (s, d)" and allowed: "event_allowed e s"
  shows "defined screen_ok (HandleWindowEvent e s d)"
proof (cases e)
  case SDL_WINDOWEVENT_EXPOSED
  then show ?thesis using then_Render [OF ok] by (simp add: HandleWindowEvent_def)
next
  case SDL_WINDOWEVENT_SIZE_CHANGED
  from GetWindowSize_defined [OF ok] obtain sz where sz: "GetWindowSize (scr_window s) d = Some sz" by (rule definedE)
  let ?s = "s\<lparr>scr_windowed_window_size_backup := scr_windowed_window_size s, scr_windowed_window_size := sz\<rparr>"
  have "screen_ok (?s, d)" using ok by simp
  from then_Render [OF ok] then_Render [OF this] sz SDL_WINDOWEVENT_SIZE_CHANGED show ?thesis
    by (simp add: HandleWindowEvent_def)
next
  case SDL_WINDOWEVENT_MAXIMIZED
  with ok allowed show ?thesis by (simp add: HandleWindowEvent_def event_allowed_def c_assert_bind)
next
  case SDL_WINDOWEVENT_RESTORED
  let ?s = "s\<lparr>scr_maximized := False\<rparr>"
  have ok1: "screen_ok (?s, d)" using ok by simp
  from ApplyWindowedSize_defined [OF ok1] obtain d1 where "ApplyWindowedSize ?s d = Some d1" "same_objects d d1"
    by (rule definedE)
  with SDL_WINDOWEVENT_RESTORED same_objects_ok [OF ok1, of d1] show ?thesis by (simp add: HandleWindowEvent_def)
next
  case SDL_WINDOWEVENT_other
  with ok show ?thesis by (simp add: HandleWindowEvent_def)
qed

text \<open>
  A picture the program can show: not empty and at most 65535 wide and high, so that its size is
  not cut to 16 bits.
\<close>

definition showable :: "int \<times> int \<Rightarrow> bool" where
  "showable dims \<longleftrightarrow> 0 < fst dims \<and> fst dims < 65536 \<and> 0 < snd dims \<and> snd dims < 65536"

lemma u16_of_int: "0 \<le> i \<Longrightarrow> i < 65536 \<Longrightarrow> uint (of_int i :: u16) = i"
  by (simp add: unsigned_of_int take_bit_int_eq_self)

lemma showable_size:
  assumes "showable dims"
  shows "uint (of_int (fst dims) :: u16) = fst dims" "uint (of_int (snd dims) :: u16) = snd dims"
    and "(of_int (fst dims) :: u16) \<noteq> 0" "(of_int (snd dims) :: u16) \<noteq> 0"
proof -
  show u: "uint (of_int (fst dims) :: u16) = fst dims" "uint (of_int (snd dims) :: u16) = snd dims"
    using assms by (simp_all add: showable_def u16_of_int)
  show "(of_int (fst dims) :: u16) \<noteq> 0" "(of_int (snd dims) :: u16) \<noteq> 0"
    using u assms by (auto simp: showable_def simp flip: uint_0_iff)
qed

lemma SDL_CreateTexture_cases:
  assumes "SDL_CreateTexture sz d = (t, d')"
  shows "dp_windows d' = dp_windows d" "dp_renderers d' = dp_renderers d"
    "dp_textures d' = (case t of None \<Rightarrow> dp_textures d | Some k \<Rightarrow> (k, sz) # dp_textures d)"
  using assms by (auto simp: SDL_CreateTexture_def dp_answer_def split: list.splits if_splits)

lemma DestroyTexture_defined:
  "screen_ok (s, d) \<Longrightarrow>
    defined (\<lambda>d'. dp_windows d' = dp_windows d \<and> dp_renderers d' = dp_renderers d \<and> dp_textures d' = [])
      (SDL_DestroyTexture (scr_texture s) d)"
  by (erule screen_okE) (auto simp: SDL_DestroyTexture_def on_object_def split: option.splits)

lemma texture_irrelevant [simp]:
  "GetWindowedWindowSize (s\<lparr>scr_texture := t\<rparr>) d = GetWindowedWindowSize s d"
  "ApplyWindowedSize (s\<lparr>scr_texture := t\<rparr>) d = ApplyWindowedSize s d"
  by (simp_all add: GetWindowedWindowSize_def ApplyWindowedSize_def split: if_split)

lemma PrepareForFrame_ok:
  assumes ok: "screen_ok (s, d)" and new: "width new \<noteq> 0" "height new \<noteq> 0"
  shows "defined (\<lambda>(res, s', d'). screen_ok (s', d') \<and> (res \<longrightarrow> scr_frame_size s' = new)) (PrepareForFrame new s d)"
proof (cases "width (scr_frame_size s) \<noteq> width new \<or> height (scr_frame_size s) \<noteq> height new")
  case False
  with ok show ?thesis by (simp add: PrepareForFrame_def)
next
  case True
  from ok obtain w r where h: "scr_window s = Some w" "scr_renderer s = Some r" "dp_windows d = [w]" "dp_renderers d = [r]"
    "width (scr_frame_size s) \<noteq> 0" "height (scr_frame_size s) \<noteq> 0" by (rule screen_okE)
  obtain res d1 where a: "dp_answer d = (res, d1)" by (cases "dp_answer d")
  have logical: "SDL_RenderSetLogicalSize (scr_renderer s) d = Some (res, d1)"
    using h a by (simp add: SDL_RenderSetLogicalSize_def on_object_def)
  have same1: "same_objects d d1" using dp_answer_fields [of d] a by (simp add: same_objects_def)
  note ok1 = same_objects_ok [OF ok same1]
  show ?thesis
  proof (cases res)
    case False
    with True logical ok1 show ?thesis by (simp add: PrepareForFrame_def)
  next
    case res: True
    from DestroyTexture_defined [OF ok1] obtain d2 where d2: "SDL_DestroyTexture (scr_texture s) d1 = Some d2"
      "dp_windows d2 = [w]" "dp_renderers d2 = [r]" "dp_textures d2 = []"
      using h same1 by (auto simp: same_objects_def elim!: definedE)
    have ok2: "screen_ok (s\<lparr>scr_texture := None\<rparr>, d2)" using d2 h by (simp add: screen_ok_def)
    from GetWindowedWindowSize_defined [OF ok2] obtain ws where ws: "GetWindowedWindowSize s d2 = Some ws"
      by (auto elim!: definedE)
    obtain a b where ab: "u32_div (ucast (width ws) * ucast (width new)) (ucast (width (scr_frame_size s))) = Some a"
      "u32_div (ucast (height ws) * ucast (height new)) (ucast (height (scr_frame_size s))) = Some b"
      using h by (simp add: u32_div_def)
    from GetOptimalSize_defined obtain os where
      os: "GetOptimalSize (dp_usable d2) \<lparr>width = ucast a, height = ucast b\<rparr> new = Some os" by (rule definedE)
    let ?s = "s\<lparr>scr_windowed_window_size := os\<rparr>"
    have ok3: "screen_ok (?s\<lparr>scr_texture := None\<rparr>, d2)" using d2 h by (simp add: screen_ok_def)
    from ApplyWindowedSize_defined [OF ok3] obtain d3 where
      d3: "ApplyWindowedSize ?s d2 = Some d3" "same_objects d2 d3"
      unfolding texture_irrelevant by (rule definedE)
    obtain t d4 where t: "SDL_CreateTexture new d3 = (t, d4)" by (cases "SDL_CreateTexture new d3")
    have "screen_ok (?s\<lparr>scr_frame_size := new, scr_texture := t\<rparr>, d4)"
      using SDL_CreateTexture_cases [OF t] d3(2) d2 h new by (cases t) (simp_all add: screen_ok_def same_objects_def)
    with True logical res d2(1) ws ab os d3(1) t show ?thesis by (simp add: PrepareForFrame_def SetWindowSize_def)
  qed
qed

lemma UpdateTexture_defined:
  assumes ok: "screen_ok (s, d)" and dims: "uint (width (scr_frame_size s)) = fst dims" "uint (height (scr_frame_size s)) = snd dims"
  shows "defined (same_objects d) (UpdateTexture picture dims s d)"
proof -
  from ok have "dp_textures d = (case scr_texture s of None \<Rightarrow> [] | Some t \<Rightarrow> [(t, scr_frame_size s)])" by (rule screen_okE)
  with dims show ?thesis
    by (cases "scr_texture s") (simp_all add: UpdateTexture_def SDL_UpdateYUVTexture_def dp_call_def same_objects_def)
qed

lemma draw_picture_ok:
  assumes ok: "screen_ok (s, d)" and dims: "showable dims"
  shows "defined (\<lambda>(res, x). screen_ok x) (draw_picture picture dims s d)"
proof -
  note size = showable_size [OF dims]
  define new where "new = \<lparr>width = of_int (fst dims), height = of_int (snd dims)\<rparr>"
  have "width new \<noteq> 0" "height new \<noteq> 0" using size by (simp_all add: new_def)
  from PrepareForFrame_ok [OF ok this] obtain res s1 d1 where p: "PrepareForFrame new s d = Some (res, s1, d1)"
    and ok1: "screen_ok (s1, d1)" and fs: "res \<Longrightarrow> scr_frame_size s1 = new" by (rule definedE) auto
  show ?thesis
  proof (cases res)
    case False
    with p ok1 show ?thesis by (simp add: draw_picture_def flip: new_def)
  next
    case True
    have "uint (width (scr_frame_size s1)) = fst dims" "uint (height (scr_frame_size s1)) = snd dims"
      using fs [OF True] size by (simp_all add: new_def)
    from UpdateTexture_defined [OF ok1 this] obtain d2 where u: "UpdateTexture picture dims s1 d1 = Some d2" "same_objects d1 d2"
      by (rule definedE)
    note ok2 = same_objects_ok [OF ok1 u(2)]
    from Render_defined [OF ok2] obtain d3 where "Render s1 d2 = Some d3" "same_objects d2 d3" by (rule definedE)
    with p True u(1) same_objects_ok [OF ok2] show ?thesis by (simp add: draw_picture_def flip: new_def)
  qed
qed

subsection \<open>The life of the screen\<close>

definition display_start :: "(int \<times> int) option \<Rightarrow> bool list \<Rightarrow> display" where
  "display_start usable answers = \<lparr>dp_usable = usable, dp_answers = answers, dp_next = 0, dp_windows = [],
     dp_renderers = [], dp_textures = [], dp_window_size = (0, 0), dp_calls = []\<rparr>"

lemma GetInitialOptimalSize_defined:
  assumes "width frame \<noteq> 0" "height frame \<noteq> 0"
  shows "defined (\<lambda>_. True) (GetInitialOptimalSize usable frame w h)"
  using assms GetOptimalSize_defined [of usable frame frame]
  by (auto simp: GetInitialOptimalSize_def u32_div_def Let_def)

lemma dp_answer_same:
  assumes "dp_answer d = (ok, d')"
  shows "dp_windows d' = dp_windows d" "dp_renderers d' = dp_renderers d" "dp_textures d' = dp_textures d"
  using dp_answer_fields [of d] assms by simp_all

lemma SDL_CreateWindow_cases:
  assumes "SDL_CreateWindow w h d = (x, d')"
  shows "dp_windows d' = (case x of None \<Rightarrow> dp_windows d | Some k \<Rightarrow> k # dp_windows d)"
    "dp_renderers d' = dp_renderers d" "dp_textures d' = dp_textures d"
  using assms by (auto simp: SDL_CreateWindow_def dp_answer_def split: list.splits if_splits)

lemma SDL_CreateRenderer_cases:
  assumes "SDL_CreateRenderer d = (x, d')"
  shows "dp_windows d' = dp_windows d" "dp_textures d' = dp_textures d"
    "dp_renderers d' = (case x of None \<Rightarrow> dp_renderers d | Some k \<Rightarrow> k # dp_renderers d)"
  using assms by (auto simp: SDL_CreateRenderer_def dp_answer_def split: list.splits if_splits)

lemma Screen_Destroy_partial:
  assumes "scr_texture s = None" and "scr_window s = Some w" and "dp_windows d = [w]" and "dp_textures d = []"
    and "dp_renderers d = (case scr_renderer s of None \<Rightarrow> [] | Some r \<Rightarrow> [r])"
  shows "\<exists>d'. Screen_Destroy s d = Some d' \<and> no_objects d'"
  using assms
  by (cases "scr_renderer s") (simp_all add: Screen_Destroy_def SDL_DestroyWindow_def SDL_DestroyRenderer_def on_object_def no_objects_def)

lemma InitRendering_ok:
  assumes frame: "width frame \<noteq> 0" "height frame \<noteq> 0" and tex: "scr_texture s = None" and d: "no_objects d"
    and dev: "requested_screen_size sw sh frame = Some device"
  shows "defined (\<lambda>(ok, s', d'). if ok then screen_ok (s', d') else no_objects d')
     (InitRendering frame ww wh sw sh s d)"
proof -
  from GetInitialOptimalSize_defined [OF frame] obtain sz where sz: "GetInitialOptimalSize (dp_usable d) frame ww wh = Some sz"
    by (rule definedE)
  obtain win d1 where a1: "SDL_CreateWindow (uint (width sz)) (uint (height sz)) d = (win, d1)"
    by (cases "SDL_CreateWindow (uint (width sz)) (uint (height sz)) d")
  obtain ren d2 where a2: "SDL_CreateRenderer d1 = (ren, d2)" by (cases "SDL_CreateRenderer d1")
  obtain ok d3 where a3: "dp_answer d2 = (ok, d3)" by (cases "dp_answer d2")
  obtain tx d4 where a4: "SDL_CreateTexture frame d3 = (tx, d4)" by (cases "SDL_CreateTexture frame d3")
  note f = SDL_CreateWindow_cases [OF a1] SDL_CreateRenderer_cases [OF a2] dp_answer_same [OF a3] SDL_CreateTexture_cases [OF a4]
  note start = d [unfolded no_objects_def]
  let ?s = "s\<lparr>scr_frame_size := frame, scr_device_screen_size := device, scr_window := win\<rparr>"
  let ?s2 = "?s\<lparr>scr_renderer := ren\<rparr>"
  note run = InitRendering_def dev sz a1 a2 a4 Let_def
  show ?thesis
  proof (cases win)
    case None
    with f start show ?thesis by (simp add: run no_objects_def)
  next
    case (Some w)
    note win = this
    show ?thesis
    proof (cases ren)
      case None
      with Screen_Destroy_partial [of ?s2 w d2] f start win tex show ?thesis by (auto simp: run)
    next
      case (Some r)
      have l: "SDL_RenderSetLogicalSize ren d2 = Some (ok, d3)"
        using f start win Some a3 by (simp add: SDL_RenderSetLogicalSize_def on_object_def)
      show ?thesis
      proof (cases "ok \<and> tx \<noteq> None")
        case True
        with f start win Some l frame show ?thesis by (auto simp: run screen_ok_def)
      next
        case False
        with Screen_Destroy_partial [of ?s2 w d3] Screen_Destroy_partial [of "?s2\<lparr>scr_texture := tx\<rparr>" w d4]
          f start win Some l tex show ?thesis by (auto simp: run)
      qed
    qed
  qed
qed

text \<open>What happens to a shown screen: the operations of the program, and the user resizing.\<close>

datatype screen_op =
  Draw nat "int \<times> int" | Window_Event window_event | Fullscreen | Fit | Pixel_Perfect | User_Resize "int \<times> int"

fun screen_do :: "screen_op \<Rightarrow> Screen \<times> display \<Rightarrow> (Screen \<times> display) option" where
  "screen_do (Draw picture dims) (s, d) = map_option snd (draw_picture picture dims s d)"
| "screen_do (Window_Event e) (s, d) = HandleWindowEvent e s d"
| "screen_do Fullscreen (s, d) = SwitchFullscreen s d"
| "screen_do Fit (s, d) = ResizeToFit s d"
| "screen_do Pixel_Perfect (s, d) = ResizeToPixelPerfect s d"
| "screen_do (User_Resize sz) (s, d) = Some (s, d\<lparr>dp_window_size := sz\<rparr>)"

text \<open>The pictures the program can show, and the operations that do not fail an assertion.\<close>

fun op_showable :: "screen_op \<Rightarrow> bool" where
  "op_showable (Draw picture dims) = showable dims"
| "op_showable _ = True"

fun op_allowed :: "screen_op \<Rightarrow> Screen \<Rightarrow> bool" where
  "op_allowed (Window_Event e) s = event_allowed e s"
| "op_allowed _ s = True"

lemma screen_do_ok:
  assumes ok: "screen_ok (s, d)" and allowed: "op_showable op" "op_allowed op s"
  shows "defined screen_ok (screen_do op (s, d))"
proof (cases op)
  case (Draw picture dims)
  with allowed have "showable dims" by simp
  from draw_picture_ok [OF ok this, of picture] Draw show ?thesis by (auto elim!: definedE)
next
  case (Window_Event e)
  with allowed HandleWindowEvent_ok [OF ok] show ?thesis by simp
next
  case Fullscreen
  with SwitchFullscreen_ok [OF ok] show ?thesis by simp
next
  case Fit
  with ResizeToFit_ok [OF ok] show ?thesis by simp
next
  case Pixel_Perfect
  with ResizeToPixelPerfect_ok [OF ok] show ?thesis by simp
next
  case (User_Resize sz)
  with screen_ok_cong [OF ok] show ?thesis by simp
qed

lemma screen_do_allowed: "screen_do op (s, d) = Some y \<Longrightarrow> op_allowed op s"
proof (cases op)
  case (Window_Event e)
  then show "screen_do op (s, d) = Some y \<Longrightarrow> op_allowed op s"
    using event_not_allowed [of e s d] by (cases "event_allowed e s") simp_all
qed simp_all

inductive screen_step :: "Screen \<times> display \<Rightarrow> Screen \<times> display \<Rightarrow> bool" where
  "op_showable op \<Longrightarrow> screen_do op x = Some y \<Longrightarrow> screen_step x y"

inductive_cases screen_stepE: "screen_step x y"

lemma screen_steps_ok: "screen_step\<^sup>*\<^sup>* x y \<Longrightarrow> screen_ok x \<Longrightarrow> screen_ok y"
proof (induction rule: rtranclp_induct)
  case (step y z)
  then obtain op where "op_showable op" "screen_do op y = Some z" by (auto elim: screen_stepE)
  with step screen_do_ok [of "fst y" "snd y" op] screen_do_allowed [of op "fst y" "snd y" z] show ?case by simp
qed

lemma Screen_Destroy_ok: "screen_ok (s, d) \<Longrightarrow> defined no_objects (Screen_Destroy s d)"
  by (erule screen_okE)
    (auto simp: Screen_Destroy_def SDL_DestroyWindow_def SDL_DestroyRenderer_def SDL_DestroyTexture_def on_object_def
      no_objects_def split: option.splits)

text \<open>
  A failed start has destroyed the window and the renderer but keeps the pointers, so the
  destruction that the program performs at its end destroys them again.
\<close>

lemma failed_start_destroyed_twice:
  assumes "width frame \<noteq> 0" and "height frame \<noteq> 0" and "answers = [True, True, False]"
    and "InitRendering frame ww wh sw sh (Screen_Init s0) (display_start usable answers) = Some (ok, s, d)"
  shows "\<not> ok \<and> no_objects d \<and> Screen_Destroy s d = None"
proof -
  from GetInitialOptimalSize_defined [OF assms(1,2)] obtain sz where
    sz: "GetInitialOptimalSize usable frame ww wh = Some sz" by (rule definedE)
  obtain device where dev: "requested_screen_size sw sh frame = Some device"
    using assms(4) by (cases "requested_screen_size sw sh frame") (simp_all add: InitRendering_def)
  show ?thesis using assms(3,4)
    by (auto simp: InitRendering_def dev sz display_start_def SDL_CreateWindow_def SDL_CreateRenderer_def SDL_RenderSetLogicalSize_def
      Screen_Destroy_def SDL_DestroyWindow_def SDL_DestroyRenderer_def on_object_def dp_answer_def Let_def Screen_Init_def
      no_objects_def)
qed

subsection \<open>Maximizing and restoring\<close>

text \<open>
  The window manager maximizes a window: it changes its size, reports the change, then that the
  window is maximized; later it restores it.
\<close>

definition maximize_restore :: "int \<times> int \<Rightarrow> Screen \<times> display \<Rightarrow> (Screen \<times> display) option" where
  "maximize_restore big x = do {
     x \<leftarrow> screen_do (User_Resize big) x;
     x \<leftarrow> screen_do (Window_Event SDL_WINDOWEVENT_SIZE_CHANGED) x;
     x \<leftarrow> screen_do (Window_Event SDL_WINDOWEVENT_MAXIMIZED) x;
     screen_do (Window_Event SDL_WINDOWEVENT_RESTORED) x
   }"

text \<open>Maximizing and restoring brings the window back to the size it had, although the window
  manager reports the maximized size before it reports that the window is maximized.\<close>

theorem maximize_restore_size:
  assumes ok: "screen_ok (s, d)" and state: "\<not> scr_fullscreen s" "\<not> scr_maximized s"
    and nz: "width (scr_windowed_window_size s) \<noteq> 0" "height (scr_windowed_window_size s) \<noteq> 0"
  shows "\<exists>s' d'. maximize_restore big (s, d) = Some (s', d') \<and> scr_windowed_window_size s' = scr_windowed_window_size s \<and>
     dp_window_size d' = (uint (width (scr_windowed_window_size s)), uint (height (scr_windowed_window_size s))) \<and>
     \<not> scr_maximized s'"
proof -
  from ok obtain w r where h: "scr_window s = Some w" "scr_renderer s = Some r" "dp_windows d = [w]" "dp_renderers d = [r]"
    "dp_textures d = (case scr_texture s of None \<Rightarrow> [] | Some t \<Rightarrow> [(t, scr_frame_size s)])" by (rule screen_okE)
  obtain a b where big: "big = (a, b)" by (cases big)
  show ?thesis
    using h state nz big
    by (cases "scr_texture s") (simp_all add: maximize_restore_def HandleWindowEvent_def GetWindowSize_def dp_defs Render_def
      ApplyWindowedSize_def Let_def c_assert_bind)
qed

theorem maximize_restore_size_witness:
  "\<exists>s d s' d'. dp_window_size d = (540, 1080) \<and> maximize_restore (1920, 1080) (s, d) = Some (s', d') \<and>
     dp_window_size d' = (540, 1080)"
proof -
  define s where "s = \<lparr>scr_window = Some 0, scr_renderer = Some 1, scr_texture = None, scr_frame_size = \<lparr>width = 1080, height = 2160\<rparr>,
    scr_windowed_window_size = \<lparr>width = 540, height = 1080\<rparr>, scr_windowed_window_size_backup = empty_size, scr_has_frame = True,
    scr_fullscreen = False, scr_maximized = False, scr_device_screen_size = empty_size, scr_file_handler = False\<rparr>"
  define d where "d = (display_start None [])\<lparr>dp_windows := [0], dp_renderers := [1], dp_window_size := (540, 1080)\<rparr>"
  have "screen_ok (s, d)" by (simp add: screen_ok_def s_def d_def display_start_def)
  from maximize_restore_size [OF this, of "(1920, 1080)"] obtain s' d' where
    "maximize_restore (1920, 1080) (s, d) = Some (s', d')" "dp_window_size d' = (540, 1080)" by (auto simp: s_def)
  moreover have "dp_window_size d = (540, 1080)" by (simp add: d_def)
  ultimately show ?thesis by blast
qed

subsection \<open>The property\<close>



end
