(* ===== verification/Agent_Controller.thy ===== *)
theory Agent_Controller
  imports Controller Control_Json
begin

section \<open>The agent's control connection (src/src/agent/agent_controller.cpp)\<close>

text \<open>
  A client of the agent connects to a local port and sends control messages as JSON; one thread
  receives them and hands each to a handler, another sends the messages of its queue as JSON.
  The handler is a function pointer of the code and a parameter here; the agent manager provides
  it. The heap shows in \<open>freed\<close>, the texts released so far.
\<close>

record AgentController =
  agc_control_socket :: socket_t
  agc_server_socket :: socket_t

definition AgentController_Init :: "socket_t \<Rightarrow> AgentController \<Rightarrow> sdl \<Rightarrow> bool \<times> AgentController \<times> sdl" where
  "AgentController_Init server_socket a w =
     (let (initialized, w) = Actor_Init w in
      if \<not> initialized then (False, a, w) else (True, a\<lparr>agc_server_socket := server_socket\<rparr>, w))"

definition AgentController_WaitForClientConnection ::
  "AgentController \<Rightarrow> net_world \<Rightarrow> bool \<times> AgentController \<times> net_world" where
  "AgentController_WaitForClientConnection a w =
     (let (s, w) = (if agc_control_socket a \<noteq> INVALID_SOCKET then close_socket (agc_control_socket a) w
                    else (agc_control_socket a, w));
          (s, w) = net_accept (agc_server_socket a) w
      in (s \<noteq> INVALID_SOCKET, a\<lparr>agc_control_socket := s\<rparr>, w))"

definition AgentController_Start :: "sdl \<Rightarrow> bool \<times> sdl" where
  "AgentController_Start w =
     (let (ok, w) = SDL_CreateThread w in
      if \<not> ok then (False, w)
      else let (ok, w) = SDL_CreateThread w in if \<not> ok then (False, w) else (True, w))"

definition AgentController_Destroy ::
  "sdl \<Rightarrow> (ControlMessage, control_env) worker \<Rightarrow> (sdl \<times> (ControlMessage, control_env) worker) option" where
  "AgentController_Destroy w s = do {
     let w = Actor_Destroy w;
     (q, freed) \<leftarrow> destroy_queue (cbuf_size (wk_queue s)) (wk_queue s) (ce_freed (wk_env s));
     Some (w, s\<lparr>wk_queue := q, wk_env := (wk_env s)\<lparr>ce_freed := freed\<rparr>\<rparr>)
   }"

definition AgentController_Join :: "AgentController \<Rightarrow> sdl \<Rightarrow> sdl" where
  "AgentController_Join a w =
     (if agc_control_socket a \<noteq> INVALID_SOCKET then SDL_WaitThread (SDL_WaitThread w) else w)"

subsection \<open>Sending to the client\<close>

text \<open>The socket is read when a message is sent; without one the message is dropped.\<close>

definition AgentController_SendMessage ::
  "(int \<Rightarrow> string) \<Rightarrow> int \<times> int \<Rightarrow> socket_t \<Rightarrow> ControlMessage \<Rightarrow> net_world \<Rightarrow> (bool \<times> net_world) option" where
  "AgentController_SendMessage local_time tv control_socket msg w =
     (if control_socket \<noteq> INVALID_SOCKET then do {
        json_str \<leftarrow> JsonSerialize local_time tv msg;
        let len = length json_str;
        if len = 0 then Some (False, w)
        else let (r, w) = net_send_all control_socket (bytes_of json_str) w in Some (r = int len, w)
      } else Some (True, w))"

text \<open>What \<open>RunAgentRecorder\<close> does with a message it has taken, and its turn.\<close>

definition recorder_handle ::
  "(int \<Rightarrow> string) \<Rightarrow> int \<times> int \<Rightarrow> socket_t \<Rightarrow> ControlMessage \<Rightarrow> control_env \<Rightarrow> (bool \<times> control_env) option" where
  "recorder_handle local_time tv control_socket msg e = do {
     (ok, w) \<leftarrow> AgentController_SendMessage local_time tv control_socket msg (ce_net e);
     freed \<leftarrow> ControlMessage_Destroy msg;
     Some (ok, e\<lparr>ce_net := w, ce_freed := ce_freed e @ freed\<rparr>)
   }"

definition RunAgentRecorder_turn ::
  "(int \<Rightarrow> string) \<Rightarrow> int \<times> int \<Rightarrow> socket_t
    \<Rightarrow> (ControlMessage, control_env) worker \<Rightarrow> (ControlMessage, control_env) worker option" where
  "RunAgentRecorder_turn local_time tv control_socket = worker_turn (recorder_handle local_time tv control_socket)"

subsection \<open>Receiving from the client\<close>

text \<open>How a piece of the receiving thread ends: an uncaught exception ends the program.\<close>

datatype 'a outcome = Returned 'a | Uncaught

definition AgentController_ProcessMessage ::
  "(ControlMessage \<Rightarrow> 'h \<Rightarrow> 'h option) option \<Rightarrow> ControlMessage \<Rightarrow> 'h \<Rightarrow> 'h option" where
  "AgentController_ProcessMessage message_handler msg h =
     (case message_handler of None \<Rightarrow> Some h | Some f \<Rightarrow> f msg h)"

definition empty_message :: ControlMessage where
  "empty_message = \<lparr>cm_type = CONTROL_MSG_TYPE_INJECT_KEYCODE, cm_body = Unwritten\<rparr>"

text \<open>
  The loop of \<open>ProcessMessages\<close> over the bytes not consumed yet, of which \<open>head\<close> came before.
  The message is destroyed after the handler has seen it.
\<close>

function agent_ProcessMessages_loop ::
  "('j, 'x) json_lib_scheme \<Rightarrow> char allocator \<Rightarrow> (ControlMessage \<Rightarrow> 'h \<Rightarrow> 'h option) option
    \<Rightarrow> u8 list \<Rightarrow> nat \<Rightarrow> 'h \<Rightarrow> string option list \<Rightarrow> (nat \<times> 'h \<times> string option list) outcome option" where
  "agent_ProcessMessages_loop lib SDL_malloc handler buf head h freed =
     (case JsonDeserialize lib SDL_malloc empty_message buf of
        None \<Rightarrow> None
      | Some (Inl e) \<Rightarrow> Some Uncaught
      | Some (Inr (msg, r)) \<Rightarrow>
          if r = 0 then Some (Returned (head, h, freed))
          else
            (case AgentController_ProcessMessage handler msg h of
               None \<Rightarrow> None
             | Some h \<Rightarrow>
                 (case ControlMessage_Destroy msg of
                    None \<Rightarrow> None
                  | Some f \<Rightarrow>
                      if length buf < r then None
                      else if length buf = r then Some (Returned (head + r, h, freed @ f))
                      else agent_ProcessMessages_loop lib SDL_malloc handler (drop r buf) (head + r) h (freed @ f))))"
  by pat_completeness auto
termination
  by (relation "measure (\<lambda>(lib, SDL_malloc, handler, buf, head, h, freed). length buf)") auto

declare agent_ProcessMessages_loop.simps [simp del]

definition agent_ProcessMessages ::
  "('j, 'x) json_lib_scheme \<Rightarrow> char allocator \<Rightarrow> (ControlMessage \<Rightarrow> 'h \<Rightarrow> 'h option) option
    \<Rightarrow> u8 list \<Rightarrow> 'h \<Rightarrow> string option list \<Rightarrow> (nat \<times> 'h \<times> string option list) outcome option" where
  "agent_ProcessMessages lib SDL_malloc handler buf h freed =
     agent_ProcessMessages_loop lib SDL_malloc handler buf 0 h freed"

definition AGENT_BUFFER_SIZE :: nat where
  "AGENT_BUFFER_SIZE = CONTROL_MSG_SERIALIZED_MAX_SIZE * 2"

text \<open>
  The receiving thread. Its turn: receive at the start of the buffer, reconnect after an error or
  an end of file, process what was received. After an error the negative result reaches
  \<open>ProcessMessages\<close> as a length, and the string built from it throws.
\<close>

record 'h agent_thread =
  agt_ctl :: AgentController
  agt_net :: net_world
  agt_buf :: "u8 list"
  agt_head :: nat
  agt_host :: 'h
  agt_freed :: "string option list"

definition RunAgentController_turn ::
  "('j, 'x) json_lib_scheme \<Rightarrow> char allocator \<Rightarrow> (ControlMessage \<Rightarrow> 'h \<Rightarrow> 'h option) option
    \<Rightarrow> 'h agent_thread \<Rightarrow> (bool \<times> 'h agent_thread) outcome option" where
  "RunAgentController_turn lib SDL_malloc handler t = do {
     c_assert (agt_head t < AGENT_BUFFER_SIZE);
     (r, buf, w) \<leftarrow> net_recv (agc_control_socket (agt_ctl t)) (agt_buf t) 0 (AGENT_BUFFER_SIZE - agt_head t) (agt_net t);
     let (ok, a, w) = (if r \<le> 0 then AgentController_WaitForClientConnection (agt_ctl t) w else (True, agt_ctl t, w));
     let t = t\<lparr>agt_ctl := a, agt_net := w, agt_buf := buf\<rparr>;
     if \<not> ok then Some (Returned (False, t))
     else if r < 0 then Some Uncaught
     else do {
       res \<leftarrow> agent_ProcessMessages lib SDL_malloc handler (take (nat r) buf) (agt_host t) (agt_freed t);
       case res of
         Uncaught \<Rightarrow> Some Uncaught
       | Returned (consumed, h, freed) \<Rightarrow> do {
           let t = t\<lparr>agt_host := h, agt_freed := freed\<rparr>;
           if consumed \<noteq> 0 then do {
             buf \<leftarrow> store_block buf 0 (take (nat r - consumed) (drop consumed buf));
             Some (Returned (True, t\<lparr>agt_buf := buf, agt_head := nat r - consumed\<rparr>))
           } else Some (Returned (True, t))
         }
     }
   }"

text \<open>The loop: \<open>n\<close> is the number of turns before the thread sees that it is stopped.\<close>

fun RunAgentController_loop ::
  "('j, 'x) json_lib_scheme \<Rightarrow> char allocator \<Rightarrow> (ControlMessage \<Rightarrow> 'h \<Rightarrow> 'h option) option
    \<Rightarrow> nat \<Rightarrow> 'h agent_thread \<Rightarrow> 'h agent_thread outcome option" where
  "RunAgentController_loop lib SDL_malloc handler 0 t = Some (Returned t)"
| "RunAgentController_loop lib SDL_malloc handler (Suc n) t =
     (case RunAgentController_turn lib SDL_malloc handler t of
        None \<Rightarrow> None
      | Some Uncaught \<Rightarrow> Some Uncaught
      | Some (Returned (False, t)) \<Rightarrow> Some (Returned t)
      | Some (Returned (True, t)) \<Rightarrow> RunAgentController_loop lib SDL_malloc handler n t)"

definition RunAgentController ::
  "('j, 'x) json_lib_scheme \<Rightarrow> char allocator \<Rightarrow> (ControlMessage \<Rightarrow> 'h \<Rightarrow> 'h option) option
    \<Rightarrow> nat \<Rightarrow> 'h agent_thread \<Rightarrow> 'h agent_thread outcome option" where
  "RunAgentController lib SDL_malloc handler n t =
     (let (ok, a, w) = AgentController_WaitForClientConnection (agt_ctl t) (agt_net t);
          t = t\<lparr>agt_ctl := a, agt_net := w, agt_buf := replicate AGENT_BUFFER_SIZE 0, agt_head := 0\<rparr>
      in if \<not> ok then Some (Returned t) else RunAgentController_loop lib SDL_malloc handler n t)"

subsection \<open>What the thread requires of its handler\<close>

text \<open>A text is consumed whole or not at all.\<close>

lemma JsonDeserialize_length:
  "JsonDeserialize lib SDL_malloc m buf = Some (Inr (m', r)) \<Longrightarrow> r = 0 \<or> r = length buf"
  by (auto simp: JsonDeserialize_def thrown_def Let_def bind_Some_iff
    split: if_splits option.splits ControlMessageType.splits)

text \<open>
  The reader yields messages the handler accepts, and that can be destroyed: \<open>Destroy\<close> reads the
  text of a message whose type has one.
\<close>

definition reads_accepted :: "('j, 'x) json_lib_scheme \<Rightarrow> char allocator \<Rightarrow> (ControlMessage \<Rightarrow> bool) \<Rightarrow> bool" where
  "reads_accepted lib SDL_malloc accepts \<longleftrightarrow> (\<forall>buf.
     case JsonDeserialize lib SDL_malloc empty_message buf of
       None \<Rightarrow> False
     | Some (Inl e) \<Rightarrow> True
     | Some (Inr (m, r)) \<Rightarrow> r \<noteq> 0 \<longrightarrow> accepts m \<and> ControlMessage_Destroy m \<noteq> None)"

locale agent_entity =
  fixes handle :: "ControlMessage \<Rightarrow> 'h \<Rightarrow> 'h option"
    and accepts :: "ControlMessage \<Rightarrow> bool"
    and inv :: "'h \<Rightarrow> bool"
  assumes handle_ok: "accepts m \<Longrightarrow> inv h \<Longrightarrow> \<exists>h'. handle m h = Some h' \<and> inv h'"
begin

lemma ProcessMessages_ok:
  assumes reads: "reads_accepted lib SDL_malloc accepts" and h: "inv h"
  shows "defined (\<lambda>res. case res of Uncaught \<Rightarrow> True | Returned (n, h', freed') \<Rightarrow> n \<le> length buf \<and> inv h')
    (agent_ProcessMessages lib SDL_malloc (Some handle) buf h freed)"
proof -
  from reads have r: "case JsonDeserialize lib SDL_malloc empty_message buf of
       None \<Rightarrow> False
     | Some (Inl e) \<Rightarrow> True
     | Some (Inr (m, r)) \<Rightarrow> r \<noteq> 0 \<longrightarrow> accepts m \<and> ControlMessage_Destroy m \<noteq> None"
    by (simp add: reads_accepted_def)
  show ?thesis
  proof (cases "\<exists>m r. JsonDeserialize lib SDL_malloc empty_message buf = Some (Inr (m, r)) \<and> r \<noteq> 0")
    case False
    with r show ?thesis
      by (auto simp: agent_ProcessMessages_def agent_ProcessMessages_loop.simps [of _ _ _ buf] h
        split: option.splits sum.splits)
  next
    case True
    then obtain m r where j: "JsonDeserialize lib SDL_malloc empty_message buf = Some (Inr (m, r))" "r \<noteq> 0" by blast
    with JsonDeserialize_length [OF j(1)] have len: "r = length buf" by simp
    from r j obtain f where m: "accepts m" "ControlMessage_Destroy m = Some f" by auto
    from handle_ok [OF m(1) h] obtain h' where "handle m h = Some h'" "inv h'" by blast
    with j m len show ?thesis
      by (simp add: agent_ProcessMessages_def agent_ProcessMessages_loop.simps [of _ _ _ buf] AgentController_ProcessMessage_def)
  qed
qed

definition thread_ok :: "'h agent_thread \<Rightarrow> bool" where
  "thread_ok t \<longleftrightarrow> length (agt_buf t) = AGENT_BUFFER_SIZE \<and> agt_head t < AGENT_BUFFER_SIZE \<and> inv (agt_host t)"

lemma turn_ok:
  assumes reads: "reads_accepted lib SDL_malloc accepts" and ok: "thread_ok t"
  shows "defined (\<lambda>res. case res of Uncaught \<Rightarrow> True | Returned (go, t') \<Rightarrow> thread_ok t')
    (RunAgentController_turn lib SDL_malloc (Some handle) t)"
proof -
  let ?len = "AGENT_BUFFER_SIZE - agt_head t"
  obtain r bs w where recv: "sys_recv ?len (agt_net t) = (r, bs, w)" by (cases "sys_recv ?len (agt_net t)")
  have bs: "length bs \<le> ?len" "r \<le> int (length bs)"
    using recv by (auto simp: sys_recv_def Let_def split: prod.splits if_splits)
  then have "0 + length bs \<le> length (agt_buf t)" using ok by (simp add: thread_ok_def)
  then obtain buf where st: "store_block (agt_buf t) 0 bs = Some buf" using store_block_defined by blast
  have buf: "length buf = AGENT_BUFFER_SIZE" using length_store_block [OF st] ok by (simp add: thread_ok_def)
  have net: "net_recv (agc_control_socket (agt_ctl t)) (agt_buf t) 0 ?len (agt_net t) = Some (r, buf, w)"
    using recv st by (simp add: net_recv_def)
  obtain c a w' where wait: "(if r \<le> 0 then AgentController_WaitForClientConnection (agt_ctl t) w else (True, agt_ctl t, w)) = (c, a, w')"
    by (rule prod_cases3)
  let ?t = "t\<lparr>agt_ctl := a, agt_net := w', agt_buf := buf\<rparr>"
  have ok1: "thread_ok ?t" using ok buf by (simp add: thread_ok_def)
  have start: "RunAgentController_turn lib SDL_malloc (Some handle) t =
    (if \<not> c then Some (Returned (False, ?t)) else if r < 0 then Some Uncaught
     else Option.bind (agent_ProcessMessages lib SDL_malloc (Some handle) (take (nat r) buf) (agt_host t) (agt_freed t))
       (\<lambda>res. case res of Uncaught \<Rightarrow> Some Uncaught
        | Returned (consumed, h, freed) \<Rightarrow>
            let t = ?t\<lparr>agt_host := h, agt_freed := freed\<rparr> in
            if consumed \<noteq> 0 then Option.bind (store_block buf 0 (take (nat r - consumed) (drop consumed buf)))
              (\<lambda>buf. Some (Returned (True, t\<lparr>agt_buf := buf, agt_head := nat r - consumed\<rparr>)))
            else Some (Returned (True, t))))"
    using ok net wait by (simp add: RunAgentController_turn_def thread_ok_def c_assert_bind Let_def cong: option.case_cong)
  show ?thesis
  proof (cases "c \<and> 0 \<le> r")
    case False
    with ok1 show ?thesis unfolding start by auto
  next
    case True
    have "inv (agt_host t)" using ok by (simp add: thread_ok_def)
    from ProcessMessages_ok [OF reads this] obtain res where
      p: "agent_ProcessMessages lib SDL_malloc (Some handle) (take (nat r) buf) (agt_host t) (agt_freed t) = Some res"
        "case res of Uncaught \<Rightarrow> True | Returned (n, h', freed') \<Rightarrow> n \<le> length (take (nat r) buf) \<and> inv h'"
      by (rule definedE)
    show ?thesis
    proof (cases res)
      case Uncaught
      with True p(1) show ?thesis unfolding start by simp
    next
      case (Returned x)
      obtain n h f where x: "x = (n, h, f)" by (cases x)
      with p(2) Returned have n: "n \<le> nat r" "inv h" by simp_all
      have rs: "nat r \<le> ?len" using bs True by linarith
      obtain buf' where sb: "store_block buf 0 (take (nat r - n) (drop n buf)) = Some buf'"
        using store_block_defined [of 0 "take (nat r - n) (drop n buf)" buf] by (auto simp: min.coboundedI1)
      have "length buf' = AGENT_BUFFER_SIZE" using length_store_block [OF sb] buf by simp
      moreover have "n \<noteq> 0 \<Longrightarrow> nat r - n < AGENT_BUFFER_SIZE" using rs n ok by (simp add: thread_ok_def)
      ultimately show ?thesis using True p(1) Returned x n sb ok1 unfolding start by (simp add: thread_ok_def Let_def)
    qed
  qed
qed

lemma loop_ok:
  assumes reads: "reads_accepted lib SDL_malloc accepts" and "thread_ok t"
  shows "defined (\<lambda>res. case res of Uncaught \<Rightarrow> True | Returned t' \<Rightarrow> inv (agt_host t'))
    (RunAgentController_loop lib SDL_malloc (Some handle) n t)"
  using assms(2)
proof (induction n arbitrary: t)
  case 0
  then show ?case by (simp add: thread_ok_def)
next
  case (Suc n)
  from turn_ok [OF reads Suc.prems] obtain res where
    r: "RunAgentController_turn lib SDL_malloc (Some handle) t = Some res"
      "case res of Uncaught \<Rightarrow> True | Returned (go, t') \<Rightarrow> thread_ok t'" by (rule definedE)
  show ?case
  proof (cases res)
    case Uncaught
    with r(1) show ?thesis by simp
  next
    case (Returned x)
    obtain go t' where x: "x = (go, t')" by (cases x)
    with r Returned have "thread_ok t'" by simp
    with Suc.IH [OF this] r(1) Returned x show ?thesis by (cases go) (simp_all add: thread_ok_def)
  qed
qed

lemma run_ok:
  assumes "reads_accepted lib SDL_malloc accepts" and "inv (agt_host t)"
  shows "defined (\<lambda>res. case res of Uncaught \<Rightarrow> True | Returned t' \<Rightarrow> inv (agt_host t'))
    (RunAgentController lib SDL_malloc (Some handle) n t)"
proof -
  obtain ok a w where c: "AgentController_WaitForClientConnection (agt_ctl t) (agt_net t) = (ok, a, w)"
    by (rule prod_cases3)
  have "thread_ok (t\<lparr>agt_ctl := a, agt_net := w, agt_buf := replicate AGENT_BUFFER_SIZE 0, agt_head := 0\<rparr>)"
    using assms(2) by (simp add: thread_ok_def AGENT_BUFFER_SIZE_def CONTROL_MSG_SERIALIZED_MAX_SIZE_def)
  from loop_ok [OF assms(1) this, of n] assms(2) c show ?thesis by (simp add: RunAgentController_def Let_def)
qed

end

end
