(* ===== verification/Agent_Stream.thy ===== *)
theory Agent_Stream
  imports Controller Blob_Msg
begin

section \<open>The agent's image connection (src/src/agent/agent_stream.cpp)\<close>

text \<open>
  The actor that sends images to a client: a queue of two messages, the thread that sends them
  while it holds the mutex, and the thread that accepts clients. A critical section is one step;
  \<open>as_held\<close> counts the locks its owner, the main thread, has not released, and the mutexes of SDL
  are recursive, so only the sending thread waits for them. The history holds the messages
  accepted and handled.
\<close>

datatype stream_pc = B_Loop | B_Sleep | B_Done

record AgentStream =
  as_queue :: "BlobMessage cbuf"
  as_stopped :: bool
  as_pc :: stream_pc
  as_held :: nat
  as_video_socket :: socket_t
  as_server_socket :: socket_t
  as_net :: net_world
  as_buffer_index :: int
  as_total_bytes :: u64
  as_total_frame :: u64
  as_start_ticks :: u32
  as_last_ticks :: u32
  as_opencv_events :: nat
  as_freed :: "u8 list list"
  as_accepted :: "BlobMessage list"
  as_handled :: "BlobMessage list"

definition BLOB_MSG_SERIALIZED_MAX_SIZE :: nat where
  "BLOB_MSG_SERIALIZED_MAX_SIZE = 10485760"

definition BLOB_QUEUE_SIZE :: nat where
  "BLOB_QUEUE_SIZE = 2"

subsection \<open>Starting and ending\<close>

definition AgentStream_Init :: "socket_t \<Rightarrow> AgentStream \<Rightarrow> sdl \<Rightarrow> bool \<times> AgentStream \<times> sdl" where
  "AgentStream_Init socket s w =
     (let s = s\<lparr>as_queue := cbuf_init (as_queue s)\<rparr>;
          (initialized, w) = Actor_Init w
      in if \<not> initialized then (False, s, w)
         else (True, s\<lparr>as_server_socket := socket, as_stopped := False\<rparr>, w))"

definition AgentStream_Start :: "u32 \<Rightarrow> AgentStream \<Rightarrow> sdl \<Rightarrow> bool \<times> AgentStream \<times> sdl" where
  "AgentStream_Start now s w =
     (let s = s\<lparr>as_start_ticks := now\<rparr>;
          (ok, w) = SDL_CreateThread w
      in if \<not> ok then (False, s, w)
         else let (ok, w) = SDL_CreateThread w in if \<not> ok then (False, s, w) else (True, s, w))"

definition stream_signal :: "AgentStream \<Rightarrow> AgentStream" where
  "stream_signal s = (if as_pc s = B_Sleep then s\<lparr>as_pc := B_Loop\<rparr> else s)"

definition AgentStream_Stop :: "AgentStream \<Rightarrow> AgentStream" where
  "AgentStream_Stop s = stream_signal (s\<lparr>as_stopped := True\<rparr>)"

text \<open>The loop of \<open>Destroy\<close> over the messages left; \<open>n\<close> bounds its turns.\<close>

fun destroy_blobs :: "nat \<Rightarrow> BlobMessage cbuf \<Rightarrow> u8 list list \<Rightarrow> (BlobMessage cbuf \<times> u8 list list) option" where
  "destroy_blobs 0 q freed = None"
| "destroy_blobs (Suc n) q freed =
     (case cbuf_take q of
        None \<Rightarrow> None
      | Some (None, q) \<Rightarrow> Some (q, freed)
      | Some (Some msg, q) \<Rightarrow>
          (case BlobMessage_Destroy msg of
             None \<Rightarrow> None
           | Some (_, f) \<Rightarrow> destroy_blobs n q (freed @ f)))"

definition AgentStream_Destroy :: "AgentStream \<Rightarrow> sdl \<Rightarrow> (AgentStream \<times> sdl) option" where
  "AgentStream_Destroy s w = do {
     let w = Actor_Destroy w;
     (q, freed) \<leftarrow> destroy_blobs (cbuf_size (as_queue s)) (as_queue s) (as_freed s);
     Some (s\<lparr>as_queue := q, as_freed := freed\<rparr>, w)
   }"

text \<open>Joining waits for both threads; it returns only when the sending thread has.\<close>

definition AgentStream_Join :: "AgentStream \<Rightarrow> bool" where
  "AgentStream_Join s \<longleftrightarrow> as_pc s = B_Done"

subsection \<open>The client\<close>

definition AgentStream_WaitForClientConnection :: "AgentStream \<Rightarrow> bool \<times> AgentStream" where
  "AgentStream_WaitForClientConnection s =
     (let (sock, w) = (if as_video_socket s \<noteq> INVALID_SOCKET then close_socket (as_video_socket s) (as_net s)
                       else (as_video_socket s, as_net s));
          (sock, w) = net_accept (as_server_socket s) w
      in (sock \<noteq> INVALID_SOCKET,
          s\<lparr>as_video_socket := sock, as_net := w, as_opencv_events := as_opencv_events s + 1\<rparr>))"

definition AgentStream_IsConnected :: "int \<Rightarrow> AgentStream \<Rightarrow> bool" where
  "AgentStream_IsConnected errno s = (if as_video_socket s \<noteq> INVALID_SOCKET then net_try_recv errno else False)"

text \<open>One turn of the accepting thread, after its first connection; whether it goes on.\<close>

definition RunAgentReceiver_turn :: "int \<Rightarrow> AgentStream \<Rightarrow> bool \<times> AgentStream" where
  "RunAgentReceiver_turn errno s =
     (if as_stopped s then (False, s)
      else if \<not> AgentStream_IsConnected errno s then
        let (ok, s) = AgentStream_WaitForClientConnection s in if \<not> ok then (False, s) else (True, s)
      else (True, s))"

subsection \<open>Messages\<close>

definition AgentStream_PushMessage :: "BlobMessage \<Rightarrow> AgentStream \<Rightarrow> (bool \<times> AgentStream) option" where
  "AgentStream_PushMessage msg s =
     (let was_full = cbuf_is_full (as_queue s) in
      if \<not> was_full then do {
        let was_empty = cbuf_is_empty (as_queue s);
        (res, q) \<leftarrow> cbuf_push (as_queue s) msg;
        let s = s\<lparr>as_queue := q, as_accepted := as_accepted s @ (if res then [msg] else [])\<rparr>;
        Some (res, if was_empty then stream_signal s else s)
      } else Some (False, s\<lparr>as_held := as_held s + 1\<rparr>))"

text \<open>The speed is only logged; every five seconds the time of the log is remembered.\<close>

definition GetTransferSpeed :: "u32 \<Rightarrow> AgentStream \<Rightarrow> AgentStream" where
  "GetTransferSpeed now s =
     (let delta = now - as_last_ticks s in if delta > 5000 then s\<lparr>as_last_ticks := now\<rparr> else s)"

text \<open>The two static buffers are written before they are read, so what they held does not matter.\<close>

definition AgentStream_ProcessMessage :: "u32 \<Rightarrow> BlobMessage \<Rightarrow> AgentStream \<Rightarrow> (bool \<times> AgentStream) option" where
  "AgentStream_ProcessMessage now msg s =
     (if as_video_socket s \<noteq> INVALID_SOCKET then do {
        (buf, len) \<leftarrow> BlobMessage_Serialize msg (replicate BLOB_MSG_SERIALIZED_MAX_SIZE 0);
        if len = 0 then Some (False, s)
        else do {
          let (r, w) = net_send_all (as_video_socket s) (take len buf) (as_net s);
          i \<leftarrow> checked_int (as_buffer_index s + 1);
          let s = s\<lparr>as_net := w, as_buffer_index := i, as_total_bytes := as_total_bytes s + of_nat len,
                    as_total_frame := as_total_frame s + 1\<rparr>;
          let s = GetTransferSpeed now s;
          Some (r = int len, s)
        }
      } else Some (True, s))"

text \<open>One turn of the sending thread; while the mutex is held by the main thread it waits.\<close>

definition AgentStream_turn :: "u32 \<Rightarrow> AgentStream \<Rightarrow> AgentStream option" where
  "AgentStream_turn now s =
     (if 0 < as_held s \<or> as_pc s \<noteq> B_Loop then Some s
      else if \<not> as_stopped s \<and> cbuf_is_empty (as_queue s) then Some (s\<lparr>as_pc := B_Sleep\<rparr>)
      else if as_stopped s then Some (s\<lparr>as_pc := B_Done\<rparr>)
      else do {
        (r, q) \<leftarrow> cbuf_take (as_queue s);
        c_assert (r \<noteq> None);
        msg \<leftarrow> r;
        (ok, s) \<leftarrow> AgentStream_ProcessMessage now msg (s\<lparr>as_queue := q\<rparr>);
        (_, freed) \<leftarrow> BlobMessage_Destroy msg;
        Some (s\<lparr>as_freed := as_freed s @ freed, as_handled := as_handled s @ [msg]\<rparr>)
      })"

inductive stream_step :: "(BlobMessage \<Rightarrow> bool) \<Rightarrow> AgentStream \<Rightarrow> AgentStream \<Rightarrow> bool" for good where
  as_push: "good m \<Longrightarrow> AgentStream_PushMessage m s = Some (res, s') \<Longrightarrow> stream_step good s s'"
| as_stop: "stream_step good s (AgentStream_Stop s)"
| as_turn: "AgentStream_turn now s = Some s' \<Longrightarrow> stream_step good s s'"
| as_receive: "RunAgentReceiver_turn errno s = (go, s') \<Longrightarrow> stream_step good s s'"
| as_spurious: "as_pc s = B_Sleep \<Longrightarrow> stream_step good s (s\<lparr>as_pc := B_Loop\<rparr>)"

inductive_cases stream_stepE: "stream_step good s s'"

definition stream_start :: "net_world \<Rightarrow> AgentStream" where
  "stream_start w = \<lparr>as_queue = CBUF blob_empty BLOB_QUEUE_SIZE, as_stopped = False, as_pc = B_Loop, as_held = 0,
     as_video_socket = INVALID_SOCKET, as_server_socket = INVALID_SOCKET, as_net = w, as_buffer_index = 0,
     as_total_bytes = 0, as_total_frame = 0, as_start_ticks = 0, as_last_ticks = 0, as_opencv_events = 0,
     as_freed = [], as_accepted = [], as_handled = []\<rparr>"

subsection \<open>The invariant\<close>

definition blob_data :: "BlobMessage \<Rightarrow> u8 list list" where
  "blob_data m = buffer_data (take (unat (bm_count m)) (bm_buffers m))"

text \<open>A message the queue may hold: its buffers are there and its encoding fits the static buffer.\<close>

definition good_blob :: "BlobMessage \<Rightarrow> bool" where
  "good_blob m \<longleftrightarrow> blob_ok m \<and> length (blob_wire m) \<le> BLOB_MSG_SERIALIZED_MAX_SIZE"

definition agent_stream_ok :: "AgentStream \<Rightarrow> bool" where
  "agent_stream_ok s \<longleftrightarrow> cbuf_inv (as_queue s) \<and> cbuf_capacity (as_queue s) = BLOB_QUEUE_SIZE \<and>
     (as_pc s = B_Sleep \<longrightarrow> cbuf_items (as_queue s) = [] \<and> \<not> as_stopped s) \<and>
     as_accepted s = as_handled s @ cbuf_items (as_queue s) \<and> (\<forall>m \<in> set (as_accepted s). good_blob m) \<and>
     as_freed s = concat (map blob_data (as_handled s)) \<and>
     0 \<le> as_buffer_index s \<and> as_buffer_index s \<le> int (length (as_handled s))"

lemma stream_start_ok: "agent_stream_ok (stream_start w)"
  by (simp add: agent_stream_ok_def stream_start_def)

lemma Destroy_good: "good_blob m \<Longrightarrow> \<exists>m'. BlobMessage_Destroy m = Some (m', blob_data m)"
  using BlobMessage_Destroy_frees [of m] by (auto simp: good_blob_def blob_ok_def blob_data_def)

lemma PushMessage_ok:
  assumes ok: "agent_stream_ok s" and good: "good_blob m" and p: "AgentStream_PushMessage m s = Some (res, s')"
  shows "agent_stream_ok s'"
proof (cases "cbuf_is_full (as_queue s)")
  case True
  with p ok show ?thesis by (auto simp: AgentStream_PushMessage_def agent_stream_ok_def)
next
  case False
  have q: "cbuf_inv (as_queue s)" using ok by (simp add: agent_stream_ok_def)
  from p False obtain q' where q': "cbuf_push (as_queue s) m = Some (res, q')"
    by (auto simp: AgentStream_PushMessage_def Let_def bind_Some_iff)
  from cb.push_result [OF q, of m] q' q have items: "cbuf_inv q'"
    "cbuf_items q' = cbuf_items (as_queue s) @ (if res then [m] else [])" by auto
  note cap = cb.push_capacity [OF q q'] and e = cb.is_empty [OF q]
  show ?thesis
    using p q' ok items cap good e False
    by (cases "as_pc s") (auto simp: AgentStream_PushMessage_def Let_def agent_stream_ok_def stream_signal_def)
qed

text \<open>The part of the state that sending and accepting clients leave alone.\<close>

definition same_core :: "AgentStream \<Rightarrow> AgentStream \<Rightarrow> bool" where
  "same_core s s' \<longleftrightarrow> as_queue s' = as_queue s \<and> as_stopped s' = as_stopped s \<and> as_pc s' = as_pc s \<and>
     as_held s' = as_held s \<and> as_freed s' = as_freed s \<and> as_accepted s' = as_accepted s \<and> as_handled s' = as_handled s"

lemma ProcessMessage_fields:
  assumes "good_blob m" and "0 \<le> as_buffer_index s" and "as_buffer_index s < INT_MAX"
  shows "\<exists>ok s'. AgentStream_ProcessMessage now m s = Some (ok, s') \<and> same_core s s' \<and>
    0 \<le> as_buffer_index s' \<and> as_buffer_index s' \<le> as_buffer_index s + 1"
proof (cases "as_video_socket s = INVALID_SOCKET")
  case True
  then show ?thesis using assms(2) by (auto simp: AgentStream_ProcessMessage_def same_core_def)
next
  case False
  have ser: "BlobMessage_Serialize m (replicate BLOB_MSG_SERIALIZED_MAX_SIZE 0) =
      Some (written (blob_wire m) (replicate BLOB_MSG_SERIALIZED_MAX_SIZE 0), length (blob_wire m))"
    using assms(1) by (intro Serialize_blob_wire) (simp_all add: good_blob_def BLOB_MSG_SERIALIZED_MAX_SIZE_def INT_MAX_def)
  have len: "0 < length (blob_wire m)" by (simp add: blob_wire_def)
  have i: "checked_int (as_buffer_index s + 1) = Some (as_buffer_index s + 1)"
    using assms(2,3) by (simp add: checked_int_def INT_MIN_def INT_MAX_def)
  obtain r w where "net_send_all (as_video_socket s) (blob_wire m) (as_net s) = (r, w)" by fastforce
  then show ?thesis
    using False ser len i assms(2)
    by (simp add: AgentStream_ProcessMessage_def GetTransferSpeed_def Let_def take_written same_core_def)
qed

lemma AgentStream_turn_ok:
  assumes ok: "agent_stream_ok s" and few: "int (length (as_handled s)) < INT_MAX"
  shows "\<exists>s'. AgentStream_turn now s = Some s' \<and> agent_stream_ok s'"
proof -
  have q: "cbuf_inv (as_queue s)" using ok by (simp add: agent_stream_ok_def)
  note e = cb.is_empty [OF q]
  show ?thesis
  proof (cases "0 < as_held s \<or> as_pc s \<noteq> B_Loop \<or> as_stopped s \<or> cbuf_items (as_queue s) = []")
    case True
    with ok e show ?thesis by (auto simp: AgentStream_turn_def agent_stream_ok_def)
  next
    case False
    then obtain m ms where items: "cbuf_items (as_queue s) = m # ms" by (cases "cbuf_items (as_queue s)") auto
    from cb.tke_some [OF q items] obtain q' where
      q': "cbuf_take (as_queue s) = Some (Some m, q')" "cbuf_inv q'" "cbuf_items q' = ms" by auto
    note cap = cb.tke_capacity [OF q q'(1)]
    have good: "good_blob m" using ok items by (simp add: agent_stream_ok_def)
    let ?s = "s\<lparr>as_queue := q'\<rparr>"
    have "0 \<le> as_buffer_index ?s" "as_buffer_index ?s < INT_MAX"
      using ok few by (simp_all add: agent_stream_ok_def)
    from ProcessMessage_fields [OF good this, of now] obtain res s1 where
      p: "AgentStream_ProcessMessage now m ?s = Some (res, s1)" "same_core ?s s1"
        "0 \<le> as_buffer_index s1" "as_buffer_index s1 \<le> as_buffer_index ?s + 1" by auto
    from Destroy_good [OF good] obtain m' where d: "BlobMessage_Destroy m = Some (m', blob_data m)" by blast
    show ?thesis using False e q' p d ok items cap by (auto simp: AgentStream_turn_def agent_stream_ok_def same_core_def)
  qed
qed

lemma RunAgentReceiver_same:
  assumes "RunAgentReceiver_turn errno s = (go, s')"
  shows "same_core s s' \<and> as_buffer_index s' = as_buffer_index s"
  using assms
  by (auto simp: RunAgentReceiver_turn_def AgentStream_WaitForClientConnection_def Let_def same_core_def
    split: prod.splits if_splits)

lemma stream_step_ok:
  assumes "stream_step good_blob s s'" and ok: "agent_stream_ok s" and "int (length (as_handled s)) < INT_MAX"
  shows "agent_stream_ok s'"
  using assms(1)
proof (cases rule: stream_step.cases)
  case (as_push m res)
  with ok show ?thesis by (blast intro: PushMessage_ok)
next
  case as_stop
  with ok show ?thesis by (auto simp: agent_stream_ok_def AgentStream_Stop_def stream_signal_def)
next
  case (as_turn now)
  with AgentStream_turn_ok [OF ok assms(3), of now] show ?thesis by auto
next
  case (as_receive errno go)
  from RunAgentReceiver_same [OF this] ok show ?thesis by (auto simp: agent_stream_ok_def same_core_def)
next
  case as_spurious
  with ok show ?thesis by (simp add: agent_stream_ok_def)
qed

lemma ProcessMessage_handled:
  "case AgentStream_ProcessMessage now m s of None \<Rightarrow> True | Some (ok, s') \<Rightarrow> as_handled s' = as_handled s"
  by (simp add: AgentStream_ProcessMessage_def GetTransferSpeed_def Let_def split: bind_split prod.split)

lemma turn_handled:
  assumes "AgentStream_turn now s = Some s'"
  shows "length (as_handled s) \<le> length (as_handled s')"
proof (cases "0 < as_held s \<or> as_pc s \<noteq> B_Loop \<or> as_stopped s \<or> cbuf_is_empty (as_queue s)")
  case True
  with assms show ?thesis by (auto simp: AgentStream_turn_def split: if_splits)
next
  case False
  with assms obtain m q ok s1 m' f where "AgentStream_ProcessMessage now m (s\<lparr>as_queue := q\<rparr>) = Some (ok, s1)"
    "s' = s1\<lparr>as_freed := as_freed s1 @ f, as_handled := as_handled s1 @ [m]\<rparr>"
    by (auto simp: AgentStream_turn_def bind_Some_iff)
  with ProcessMessage_handled [where s = "s\<lparr>as_queue := q\<rparr>" and now = now and m = m] show ?thesis by simp
qed

lemma handled_grows:
  assumes "stream_step good s s'"
  shows "length (as_handled s) \<le> length (as_handled s')"
  using assms
proof (cases rule: stream_step.cases)
  case (as_push m res)
  then have "as_handled s' = as_handled s"
    by (auto simp: AgentStream_PushMessage_def Let_def stream_signal_def bind_Some_iff split: if_splits)
  then show ?thesis by simp
next
  case as_stop
  then show ?thesis by (simp add: AgentStream_Stop_def stream_signal_def)
next
  case (as_turn now)
  then show ?thesis by (rule turn_handled)
next
  case (as_receive errno go)
  from RunAgentReceiver_same [OF this] show ?thesis by (simp add: same_core_def)
next
  case as_spurious
  then show ?thesis by simp
qed

lemma stream_reachable_ok:
  assumes "(stream_step good_blob)\<^sup>*\<^sup>* (stream_start w) s" and "int (length (as_handled s)) < INT_MAX"
  shows "agent_stream_ok s"
  using assms
proof (induction rule: rtranclp_induct)
  case base
  show ?case by (rule stream_start_ok)
next
  case (step s t)
  with handled_grows [OF step.hyps(2)] have "int (length (as_handled s)) < INT_MAX" by linarith
  with step show ?case by (blast intro: stream_step_ok)
qed

subsection \<open>Properties\<close>

text \<open>C12. In every interleaving of pushes, stops, turns of the sending thread and of the accepting
  thread, while fewer than 2^31 - 1 images have been sent: the sending thread never leaves its
  buffers or fails an assertion, no wake-up is lost, images are sent in the order they were
  accepted, at most two wait, and the memory of exactly the images sent has been released.\<close>

theorem agent_stream_invariant:
  assumes "(stream_step good_blob)\<^sup>*\<^sup>* (stream_start w) s" and "int (length (as_handled s)) < INT_MAX"
  shows "(\<exists>s'. AgentStream_turn now s = Some s') \<and>
    (as_pc s = B_Sleep \<longrightarrow> cbuf_items (as_queue s) = [] \<and> \<not> as_stopped s) \<and>
    as_accepted s = as_handled s @ cbuf_items (as_queue s) \<and> length (cbuf_items (as_queue s)) \<le> 2 \<and>
    as_freed s = concat (map blob_data (as_handled s))"
proof -
  note ok = stream_reachable_ok [OF assms]
  then have "length (cbuf_items (as_queue s)) \<le> 2"
    using cb.within [of "as_queue s"] by (simp add: agent_stream_ok_def BLOB_QUEUE_SIZE_def)
  with ok AgentStream_turn_ok [OF ok assms(2), of now] show ?thesis by (auto simp: agent_stream_ok_def)
qed

theorem agent_stream_invariant_witness:
  "\<exists>s. (stream_step good_blob)\<^sup>*\<^sup>* (stream_start (quiet_net [])) s \<and> as_stopped s \<and> (\<exists>s'. AgentStream_turn 0 s = Some s')"
proof -
  let ?s = "AgentStream_Stop (stream_start (quiet_net []))"
  have r: "(stream_step good_blob)\<^sup>*\<^sup>* (stream_start (quiet_net [])) ?s"
    by (intro r_into_rtranclp stream_step.as_stop)
  have s: "as_handled ?s = []" "as_stopped ?s" by (simp_all add: AgentStream_Stop_def stream_signal_def stream_start_def)
  from agent_stream_invariant [OF r, of 0] r s show ?thesis by (auto simp: INT_MAX_def)
qed

text \<open>A push that finds the queue full returns without releasing the mutex: from then on the
  sending thread, which waits for the mutex, never sends another image and never ends, so stopping
  and joining the stream at the end of the program does not return.\<close>

theorem agent_stream_push_deadlock:
  assumes "cbuf_is_full (as_queue s)" and "as_pc s \<noteq> B_Done" and "AgentStream_PushMessage m s = Some (ok, s1)"
    and "(stream_step good)\<^sup>*\<^sup>* s1 t"
  shows "\<not> ok \<and> as_handled t = as_handled s \<and> \<not> AgentStream_Join t"
proof -
  have start: "\<not> ok" "0 < as_held s1" "as_pc s1 \<noteq> B_Done" "as_handled s1 = as_handled s"
    using assms(1-3) by (auto simp: AgentStream_PushMessage_def)
  from assms(4) have "0 < as_held t \<and> as_pc t \<noteq> B_Done \<and> as_handled t = as_handled s1"
  proof (induction rule: rtranclp_induct)
    case base
    show ?case using start by simp
  next
    case (step s t)
    from step.hyps(2) step.IH show ?case
    proof (cases rule: stream_step.cases)
      case (as_push m res)
      with step.IH show ?thesis
        by (auto simp: AgentStream_PushMessage_def Let_def stream_signal_def bind_Some_iff split: if_splits)
    next
      case as_stop
      with step.IH show ?thesis by (simp add: AgentStream_Stop_def stream_signal_def)
    next
      case (as_turn now)
      with step.IH show ?thesis by (simp add: AgentStream_turn_def)
    next
      case (as_receive errno go)
      from RunAgentReceiver_same [OF this] step.IH show ?thesis by (simp add: same_core_def)
    next
      case as_spurious
      with step.IH show ?thesis by simp
    qed
  qed
  with start show ?thesis by (simp add: AgentStream_Join_def)
qed

theorem agent_stream_push_deadlock_witness:
  "\<exists>s s1. as_queue s = \<lparr>cb_data = [blob_empty, blob_empty, blob_empty], cb_head = 2, cb_tail = 0\<rparr> \<and>
     AgentStream_PushMessage blob_empty s = Some (False, s1) \<and> \<not> AgentStream_Join (AgentStream_Stop s1)"
proof -
  let ?s = "(stream_start (quiet_net []))\<lparr>as_queue := \<lparr>cb_data = [blob_empty, blob_empty, blob_empty], cb_head = 2, cb_tail = 0\<rparr>\<rparr>"
  have full: "cbuf_is_full (as_queue ?s)" by (simp add: cbuf_is_full_def cbuf_size_def)
  then obtain s1 where p: "AgentStream_PushMessage blob_empty ?s = Some (False, s1)" by (simp add: AgentStream_PushMessage_def)
  have "as_pc ?s \<noteq> B_Done" by (simp add: stream_start_def)
  from agent_stream_push_deadlock [OF full this p r_into_rtranclp, of good_blob, OF stream_step.as_stop] p
  show ?thesis by (intro exI [of _ ?s] exI [of _ s1]) simp
qed

end
