(* ===== verification/Events.thy ===== *)
theory Events
  imports Event_Converter Screen
begin

section \<open>Events (src/src/ui/events.hpp)\<close>

text \<open>
  The events the main thread receives. SDL defines those of the system, as the union of a
  structure for each type; the user events are defined by the program. Each constructor carries
  the members the program reads.
\<close>

record SDL_KeyboardEvent =
  key_type :: SDL_EventType
  key_repeat :: u8
  key_sym :: SDL_Keycode
  key_mod :: u16

record SDL_MouseMotionEvent =
  mm_which :: u32
  mm_state :: u32
  mm_x :: u32
  mm_y :: u32

record SDL_MouseButtonEvent =
  mb_type :: SDL_EventType
  mb_which :: u32
  mb_button :: u8
  mb_clicks :: u8
  mb_x :: u32
  mb_y :: u32

record SDL_MouseWheelEvent =
  mw_x :: u32
  mw_y :: u32

text \<open>The coordinates and the pressure of a finger are fractions between 0 and 1.\<close>

record SDL_TouchFingerEvent =
  tf_type :: SDL_EventType
  tf_finger :: u64
  tf_x :: c_float
  tf_y :: c_float
  tf_pressure :: c_float

datatype SDL_Event =
    EVENT_NEW_FRAME
  | EVENT_STREAM_STOPPED
  | EVENT_NEW_OPENCV_FRAME
  | EVENT_NEW_DATA_STREAM_CONNECTION
  | SDL_QUIT
  | SDL_WINDOWEVENT window_event
  | SDL_TEXTINPUT string
  | SDL_KEY SDL_KeyboardEvent
  | SDL_MOUSEMOTION SDL_MouseMotionEvent
  | SDL_MOUSEWHEEL SDL_MouseWheelEvent
  | SDL_MOUSEBUTTON SDL_MouseButtonEvent
  | SDL_FINGER SDL_TouchFingerEvent
  | SDL_DROPFILE string
  | SDL_other_event

datatype EventResult =
  EVENT_RESULT_CONTINUE | EVENT_RESULT_STOPPED_BY_USER | EVENT_RESULT_STOPPED_BY_EOS

text \<open>The modifier keys, as the handlers of key events read them.\<close>

definition ctrl_key :: "u16 \<Rightarrow> bool" where
  "ctrl_key m \<longleftrightarrow> m AND (KMOD_LCTRL OR KMOD_RCTRL) \<noteq> 0"

definition alt_key :: "u16 \<Rightarrow> bool" where
  "alt_key m \<longleftrightarrow> m AND (KMOD_LALT OR KMOD_RALT) \<noteq> 0"

definition meta_key :: "u16 \<Rightarrow> bool" where
  "meta_key m \<longleftrightarrow> m AND (KMOD_LGUI OR KMOD_RGUI) \<noteq> 0"

definition shift_key :: "u16 \<Rightarrow> bool" where
  "shift_key m \<longleftrightarrow> m AND (KMOD_LSHIFT OR KMOD_RSHIFT) \<noteq> 0"

end
