(* ===== verification/Agent_Manager.thy ===== *)
theory Agent_Manager
  imports Agent_Controller Agent_Stream Events
begin

section \<open>The agent manager (src/src/agent/agent_manager.cpp)\<close>

text \<open>
  The manager joins the connections of the agent to the device: control messages of the client
  go to the controller, images of the device go to the client, and every control message sent to
  the device can be recorded as JSON in a file of events. The file library, the image library and
  the clock are not code of the repository: what their calls return during one event is the
  record \<open>agent_env\<close>; a write to a file that is not open has no defined result.
\<close>

record AgentManager =
  am_events :: "string option"
  am_files :: "string list"
  am_opens :: "bool list"
  am_video_server_socket :: socket_t
  am_control_server_socket :: socket_t
  am_local_port :: u16
  am_controller :: "(ControlMessage, control_env) worker"
  am_agent :: AgentController
  am_recorder :: "(ControlMessage, control_env) worker"
  am_stream :: AgentStream
  am_video :: VideoBuffer
  am_saved :: "nat list"

record agent_env =
  ae_now :: u32
  ae_now_ms :: u64
  ae_errno :: int
  ae_malloc :: "u8 allocator"
  ae_images :: "nat \<Rightarrow> bool \<Rightarrow> image \<times> image"
  ae_local_time :: "int \<Rightarrow> string"
  ae_tv :: "int \<times> int"

subsection \<open>Starting and ending\<close>

definition AgentManager_Init :: "u16 \<Rightarrow> AgentManager \<Rightarrow> net_world \<Rightarrow> sdl \<Rightarrow> bool \<times> AgentManager \<times> net_world \<times> sdl" where
  "AgentManager_Init port am w d =
     (let am = am\<lparr>am_local_port := port\<rparr>;
          (s, w) = listen_on_port (port + 1) w;
          am = am\<lparr>am_control_server_socket := s\<rparr>
      in if s = INVALID_SOCKET then (False, am, w, d)
         else let (s, w) = listen_on_port (port + 2) w; am = am\<lparr>am_video_server_socket := s\<rparr> in
           if s = INVALID_SOCKET then (False, am, w, d)
           else let (initialized, stream, d) = AgentStream_Init (am_video_server_socket am) (am_stream am) d;
                    am = am\<lparr>am_stream := stream\<rparr>;
                    (ok, agent, d) = AgentController_Init (am_control_server_socket am) (am_agent am) d
                in (initialized \<and> ok, am\<lparr>am_agent := agent\<rparr>, w, d))"

definition AgentManager_Start :: "u32 \<Rightarrow> AgentManager \<Rightarrow> sdl \<Rightarrow> bool \<times> AgentManager \<times> sdl" where
  "AgentManager_Start now am d =
     (let (started, stream, d) = AgentStream_Start now (am_stream am) d;
          (ok, d) = AgentController_Start d
      in (started \<and> ok, am\<lparr>am_stream := stream\<rparr>, d))"

definition AgentManager_Stop :: "AgentManager \<Rightarrow> net_world \<Rightarrow> AgentManager \<times> net_world" where
  "AgentManager_Stop am w =
     (let (v, w) = (if am_video_server_socket am \<noteq> INVALID_SOCKET then close_socket (am_video_server_socket am) w
                    else (am_video_server_socket am, w));
          (c, w) = (if am_control_server_socket am \<noteq> INVALID_SOCKET then close_socket (am_control_server_socket am) w
                    else (am_control_server_socket am, w))
      in (am\<lparr>am_video_server_socket := v, am_control_server_socket := c,
             am_stream := AgentStream_Stop (am_stream am), am_recorder := Actor_Stop (am_recorder am)\<rparr>, w))"

definition AgentManager_Destroy :: "AgentManager \<Rightarrow> sdl \<Rightarrow> (AgentManager \<times> sdl) option" where
  "AgentManager_Destroy am d = do {
     (stream, d) \<leftarrow> AgentStream_Destroy (am_stream am) d;
     (d, recorder) \<leftarrow> AgentController_Destroy d (am_recorder am);
     Some (am\<lparr>am_stream := stream, am_recorder := recorder\<rparr>, d)
   }"

text \<open>Joining the stream may not return.\<close>

definition AgentManager_Join :: "AgentManager \<Rightarrow> sdl \<Rightarrow> sdl option" where
  "AgentManager_Join am d =
     (if AgentStream_Join (am_stream am)
      then Some (AgentController_Join (am_agent am) (SDL_WaitThread (SDL_WaitThread d))) else None)"

subsection \<open>The file of events\<close>

definition RWwrite :: "string \<Rightarrow> AgentManager \<Rightarrow> AgentManager option" where
  "RWwrite bytes am = (case am_events am of None \<Rightarrow> None | Some f \<Rightarrow> Some (am\<lparr>am_events := Some (f @ bytes)\<rparr>))"

definition RWFromFile :: "AgentManager \<Rightarrow> AgentManager" where
  "RWFromFile am = (case am_opens am of
     [] \<Rightarrow> am\<lparr>am_events := None\<rparr>
   | ok # oks \<Rightarrow> am\<lparr>am_events := (if ok then Some [] else None), am_opens := oks\<rparr>)"

definition StartRecordEvents :: "AgentManager \<Rightarrow> AgentManager option" where
  "StartRecordEvents am = (let am = RWFromFile am in RWwrite (''['' @ NL) am)"

definition events_end :: string where
  "events_end = ''{'' @ [CHR 0x22] @ ''event_time'' @ [CHR 0x22] @ '': '' @ [CHR 0x22] @ ''2020-12-12 20:20:20.200''
     @ [CHR 0x22] @ '','' @ NL @ [CHR 0x22] @ ''msg_type'' @ [CHR 0x22] @ '': '' @ [CHR 0x22]
     @ ''CONTROL_MSG_TYPE_UNKNOWN'' @ [CHR 0x22] @ NL @ ''}'' @ NL @ '']''"

definition StopRecordEvents :: "AgentManager \<Rightarrow> AgentManager option" where
  "StopRecordEvents am = do {
     am \<leftarrow> RWwrite events_end am;
     f \<leftarrow> am_events am;
     Some (am\<lparr>am_files := am_files am @ [f], am_events := None\<rparr>)
   }"

subsection \<open>Control messages\<close>

text \<open>From the client of the agent: the handler of the agent controller.\<close>

definition ProcessAgentControlMessage :: "ControlMessage \<Rightarrow> AgentManager \<Rightarrow> AgentManager option" where
  "ProcessAgentControlMessage msg am =
     (case cm_type msg of
        CONTROL_MSG_TYPE_START_RECORDING \<Rightarrow> StartRecordEvents am
      | CONTROL_MSG_TYPE_END_RECORDING \<Rightarrow> StopRecordEvents am
      | _ \<Rightarrow> do {
          (_, c) \<leftarrow> Controller_PushMessage (am_controller am) msg;
          Some (am\<lparr>am_controller := c\<rparr>)
        })"

text \<open>From the user: every message of the input manager passes here.\<close>

definition PushDeviceControlMessage :: "agent_env \<Rightarrow> ControlMessage \<Rightarrow> AgentManager \<Rightarrow> (bool \<times> AgentManager) option" where
  "PushDeviceControlMessage env msg am = do {
     am \<leftarrow> (if am_events am \<noteq> None then do {
              json_str \<leftarrow> JsonSerialize (ae_local_time env) (ae_tv env) msg;
              RWwrite (json_str @ '','' @ NL) am
            } else Some am);
     (ok, c) \<leftarrow> Controller_PushMessage (am_controller am) msg;
     Some (ok, am\<lparr>am_controller := c\<rparr>)
   }"

subsection \<open>Events\<close>

definition AgentManager_ProcessKey :: "SDL_KeyboardEvent \<Rightarrow> AgentManager \<Rightarrow> AgentManager option" where
  "AgentManager_ProcessKey event am =
     (let ctrl = ctrl_key (key_mod event); alt = alt_key (key_mod event); meta = meta_key (key_mod event) in
      if meta then Some am
      else let cmd = ctrl in
        if alt then Some am
        else if ctrl \<or> cmd then
          let down = (key_type event = SDL_KEYDOWN); repeat = (key_repeat event \<noteq> 0); shift = shift_key (key_mod event) in
          case key_sym event of
            SDLK_e \<Rightarrow>
              if cmd \<and> \<not> shift \<and> \<not> repeat \<and> down
              then (if am_events am = None then StartRecordEvents am else StopRecordEvents am) else Some am
          | SDLK_k \<Rightarrow>
              if cmd \<and> \<not> shift \<and> \<not> repeat \<and> down
              then Some (am\<lparr>am_saved := am_saved am @ [vb_frame_number (am_video am)]\<rparr>) else Some am
          | _ \<Rightarrow> Some am
        else Some am)"

text \<open>The picture in a size and a color, and its hash, come from the image library.\<close>

definition SendOpenCVImage :: "agent_env \<Rightarrow> BlobMessageType \<Rightarrow> nat \<Rightarrow> bool \<Rightarrow> AgentManager \<Rightarrow> AgentManager option" where
  "SendOpenCVImage env t max_size color am =
     (if AgentStream_IsConnected (ae_errno env) (am_stream am) then do {
        let (mat, hash_image) = ae_images env max_size color;
        (msg, ok) \<leftarrow> BuildImageMessage (ae_malloc env) (ae_now_ms env) t mat hash_image;
        if ok then do {
          (_, stream) \<leftarrow> AgentStream_PushMessage msg (am_stream am);
          Some (am\<lparr>am_stream := stream\<rparr>)
        } else Some am
      } else Some am)"

definition send_both_images :: "agent_env \<Rightarrow> AgentManager \<Rightarrow> AgentManager option" where
  "send_both_images env am = do {
     am \<leftarrow> SendOpenCVImage env BLOB_MSG_TYPE_OPENCV_MAT 800 False am;
     SendOpenCVImage env BLOB_MSG_TYPE_SCREEN_SHOT 240 True am
   }"

definition AgentManager_HandleEvent ::
  "agent_env \<Rightarrow> SDL_Event \<Rightarrow> bool \<Rightarrow> AgentManager \<Rightarrow> (EventResult \<times> AgentManager) option" where
  "AgentManager_HandleEvent env event has_screen am =
     (case event of
        EVENT_STREAM_STOPPED \<Rightarrow> Some (EVENT_RESULT_STOPPED_BY_EOS, am)
      | SDL_QUIT \<Rightarrow> Some (EVENT_RESULT_STOPPED_BY_USER, am)
      | EVENT_NEW_OPENCV_FRAME \<Rightarrow> map_option (Pair EVENT_RESULT_CONTINUE) (send_both_images env am)
      | EVENT_NEW_DATA_STREAM_CONNECTION \<Rightarrow> map_option (Pair EVENT_RESULT_CONTINUE) (send_both_images env am)
      | EVENT_NEW_FRAME \<Rightarrow>
          if \<not> has_screen then do {
            (_, vb) \<leftarrow> ConsumeRenderedFrame (ae_now env) (am_video am);
            Some (EVENT_RESULT_CONTINUE, am\<lparr>am_video := vb\<rparr>)
          } else Some (EVENT_RESULT_CONTINUE, am)
      | SDL_KEY key \<Rightarrow> map_option (Pair EVENT_RESULT_CONTINUE) (AgentManager_ProcessKey key am)
      | _ \<Rightarrow> Some (EVENT_RESULT_CONTINUE, am))"

subsection \<open>Messages of the client reach the controller\<close>

definition forwards :: "ControlMessage \<Rightarrow> bool" where
  "forwards m \<longleftrightarrow> cm_type m \<noteq> CONTROL_MSG_TYPE_START_RECORDING \<and> cm_type m \<noteq> CONTROL_MSG_TYPE_END_RECORDING"

definition controller_ok :: "AgentManager \<Rightarrow> bool" where
  "controller_ok am \<longleftrightarrow> worker_inv well_formed CONTROL_QUEUE_SIZE (am_controller am)"

lemma ProcessAgentControlMessage_forwards:
  "forwards m \<Longrightarrow> ProcessAgentControlMessage m am =
     map_option (\<lambda>(_, c). am\<lparr>am_controller := c\<rparr>) (Controller_PushMessage (am_controller am) m)"
  by (cases "cm_type m"; cases "Controller_PushMessage (am_controller am) m")
    (simp_all add: ProcessAgentControlMessage_def forwards_def split: prod.split)

lemma Controller_PushMessage_ok:
  assumes "controller_ok am"
  shows "\<exists>c. Controller_PushMessage (am_controller am) m =
      Some (length (cbuf_items (wk_queue (am_controller am))) < CONTROL_QUEUE_SIZE, c)"
  using worker_push_result [OF assms [unfolded controller_ok_def], of m] by (simp add: Controller_PushMessage_def)

lemma Controller_PushMessage_keeps:
  assumes "controller_ok am" and "well_formed m" and "Controller_PushMessage (am_controller am) m = Some (ok, c)"
  shows "controller_ok (am\<lparr>am_controller := c\<rparr>)" and "wk_accepted c = wk_accepted (am_controller am) @ (if ok then [m] else [])"
  using worker_push_inv [OF assms(1) [unfolded controller_ok_def] assms(2)] worker_push_fields [of "am_controller am" m ok c] assms(3)
  by (simp_all add: controller_ok_def Controller_PushMessage_def)

text \<open>
  The manager is the handler of the agent controller: a message that is forwarded keeps the
  controller's queue well formed, and only adds to what it has accepted.
\<close>

definition manager_inv :: "ControlMessage list \<Rightarrow> AgentManager \<Rightarrow> bool" where
  "manager_inv ms am \<longleftrightarrow> controller_ok am \<and> (\<exists>new. wk_accepted (am_controller am) = ms @ new)"

lemma manager_inv_handle:
  assumes "well_formed m \<and> forwards m" and "manager_inv ms am"
  shows "\<exists>am'. ProcessAgentControlMessage m am = Some am' \<and> manager_inv ms am'"
proof -
  have ok: "controller_ok am" using assms(2) by (simp add: manager_inv_def)
  from Controller_PushMessage_ok [OF ok, of m] obtain res c where c: "Controller_PushMessage (am_controller am) m = Some (res, c)" by blast
  from Controller_PushMessage_keeps [OF ok _ c] assms have "manager_inv ms (am\<lparr>am_controller := c\<rparr>)"
    by (auto simp: manager_inv_def)
  with assms c show ?thesis by (simp add: ProcessAgentControlMessage_forwards)
qed

interpretation agent: agent_entity ProcessAgentControlMessage "\<lambda>m. well_formed m \<and> forwards m" "manager_inv ms"
  for ms
  by unfold_locales (rule manager_inv_handle)


text \<open>
  The text of a message is released right after the handler has queued it: the message in the
  queue holds a text that is free, and the controller will send it and free it again.
\<close>

text \<open>C33. A text message that the client sends whole, and that finds room in the controller's queue, is
  queued with a text that the receiving thread has already released; when the controller destroys
  the message later, the text is released a second time.\<close>

theorem agent_text_released_early:
  assumes "controller_ok am" and "length (cbuf_items (wk_queue (am_controller am))) < CONTROL_QUEUE_SIZE"
    and "JsonDeserialize lib SDL_malloc empty_message buf = Some (Inr (m, length buf))" and "buf \<noteq> []"
    and "m = \<lparr>cm_type = CONTROL_MSG_TYPE_INJECT_TEXT, cm_body = BodyText (Some t)\<rparr>"
  shows "\<exists>am'. agent_ProcessMessages lib SDL_malloc (Some ProcessAgentControlMessage) buf am freed =
      Some (Returned (length buf, am', freed @ [Some t])) \<and>
    wk_accepted (am_controller am') = wk_accepted (am_controller am) @ [m] \<and> owned m = [Some t]"
proof -
  have f: "forwards m" and d: "ControlMessage_Destroy m = Some [Some t]"
    using assms(5) by (simp_all add: forwards_def ControlMessage_Destroy_def)
  from Controller_PushMessage_ok [OF assms(1), of m] assms(2) obtain c where
    c: "Controller_PushMessage (am_controller am) m = Some (True, c)" by auto
  then have "wk_accepted c = wk_accepted (am_controller am) @ [m]"
    using worker_push_fields [of "am_controller am" m True c] by (simp add: Controller_PushMessage_def)
  with c assms(3,4) f d show ?thesis
    by (simp add: agent_ProcessMessages_def agent_ProcessMessages_loop.simps [of _ _ _ buf]
      AgentController_ProcessMessage_def ProcessAgentControlMessage_forwards owned_def)
qed

text \<open>A client that ends a recording which was not started makes the program write to a null file.\<close>

lemma end_recording_undefined:
  "am_events am = None \<Longrightarrow> cm_type m = CONTROL_MSG_TYPE_END_RECORDING \<Longrightarrow> ProcessAgentControlMessage m am = None"
  by (simp add: ProcessAgentControlMessage_def StopRecordEvents_def RWwrite_def)

subsection \<open>Recording events\<close>

fun push_all :: "agent_env \<Rightarrow> ControlMessage list \<Rightarrow> AgentManager \<Rightarrow> AgentManager option" where
  "push_all env [] am = Some am"
| "push_all env (m # ms) am = do { (_, am) \<leftarrow> PushDeviceControlMessage env m am; push_all env ms am }"

definition record_session :: "agent_env \<Rightarrow> ControlMessage list \<Rightarrow> AgentManager \<Rightarrow> AgentManager option" where
  "record_session env ms am = do { am \<leftarrow> StartRecordEvents am; am \<leftarrow> push_all env ms am; StopRecordEvents am }"

definition json_entry :: "agent_env \<Rightarrow> ControlMessage \<Rightarrow> string" where
  "json_entry env m = the (JsonSerialize (ae_local_time env) (ae_tv env) m) @ '','' @ NL"

lemma push_all_records:
  assumes "controller_ok am" and "am_events am = Some f" and "\<forall>m \<in> set ms. well_formed m \<and> JsonSerialize (ae_local_time env) (ae_tv env) m \<noteq> None"
  shows "\<exists>am'. push_all env ms am = Some am' \<and> am_events am' = Some (f @ concat (map (json_entry env) ms)) \<and>
    am_files am' = am_files am \<and> controller_ok am'"
  using assms
proof (induction ms arbitrary: am f)
  case (Cons m ms)
  then obtain js where js: "JsonSerialize (ae_local_time env) (ae_tv env) m = Some js" by auto
  let ?am = "am\<lparr>am_events := Some (f @ js @ '','' @ NL)\<rparr>"
  have ok: "controller_ok ?am" using Cons.prems(1) by (simp add: controller_ok_def)
  from Controller_PushMessage_ok [OF ok, of m] obtain res c where c: "Controller_PushMessage (am_controller ?am) m = Some (res, c)" by blast
  have ok2: "controller_ok (?am\<lparr>am_controller := c\<rparr>)" using Controller_PushMessage_keeps(1) [OF ok _ c] Cons.prems(3) by simp
  have "PushDeviceControlMessage env m am = Some (res, ?am\<lparr>am_controller := c\<rparr>)"
    using Cons.prems(2) js c by (simp add: PushDeviceControlMessage_def RWwrite_def)
  with Cons.IH [OF ok2, of "f @ js @ '','' @ NL"] Cons.prems(3) js show ?case by (auto simp: json_entry_def)
qed simp


subsection \<open>Instances\<close>

definition manager_start :: "bool list \<Rightarrow> AgentManager" where
  "manager_start opens = \<lparr>am_events = None, am_files = [], am_opens = opens, am_video_server_socket = INVALID_SOCKET,
     am_control_server_socket = INVALID_SOCKET, am_local_port = 0, am_controller = controller_start (quiet_net []),
     am_agent = \<lparr>agc_control_socket = INVALID_SOCKET, agc_server_socket = 5\<rparr>, am_recorder = controller_start (quiet_net []),
     am_stream = stream_start (quiet_net []),
     am_video = vb_start False \<lparr>fc_started = False, fc_interrupted = False, fc_stopped = False, fc_thread = False,
       fc_rendered = 0, fc_skipped = 0, fc_next = 0, fc_log = []\<rparr>, am_saved = []\<rparr>"

lemma manager_start_ok: "controller_ok (manager_start opens)"
  by (simp add: controller_ok_def manager_start_def controller_start_def worker_inv_start)

lemma manager_start_room: "length (cbuf_items (wk_queue (am_controller (manager_start opens)))) < CONTROL_QUEUE_SIZE"
  by (simp add: manager_start_def controller_start_def worker_start_def CONTROL_QUEUE_SIZE_def cbuf_items_def cbuf_count_def CBUF_def
    cbuf_size_def)

definition rotate_text :: jtext where
  "rotate_text = JObject [(''msg_type'', JText ''CONTROL_MSG_TYPE_ROTATE_DEVICE'')]"

lemma reads_rotate:
  "JsonDeserialize (jtext_lib rotate_text) SDL_malloc empty_message buf =
     Some (Inr (\<lparr>cm_type = CONTROL_MSG_TYPE_ROTATE_DEVICE, cm_body = Unwritten\<rparr>, length buf))"
  by (simp add: JsonDeserialize_def thrown_def jtext_lib_def rotate_text_def msg_type_of_def empty_message_def Let_def)

definition client_thread :: "AgentManager agent_thread" where
  "client_thread = \<lparr>agt_ctl = am_agent (manager_start []), agt_net = quiet_net [0, 2], agt_buf = [], agt_head = 0,
     agt_host = manager_start [], agt_freed = []\<rparr>"


definition hi_text :: jtext where
  "hi_text = JObject [(''msg_type'', JText ''CONTROL_MSG_TYPE_INJECT_TEXT''),
     (''inject_text'', JObject [(''text'', JText ''hi'')])]"

theorem agent_text_released_early_witness:
  "\<exists>am'. agent_ProcessMessages (jtext_lib hi_text) (\<lambda>n. Some (replicate n NUL)) (Some ProcessAgentControlMessage) [0x7b] (manager_start []) [] =
    Some (Returned (1, am', [Some ''hi'']))"
proof -
  have "copy_text (\<lambda>n. Some (replicate n NUL)) ''hi'' = Some ''hi''"
    using copy_text_ok [of "\<lambda>n. Some (replicate n NUL)" "''hi''"] by (simp add: malloc_ok_def NUL_def cstr_def)
  then have "JsonDeserialize (jtext_lib hi_text) (\<lambda>n. Some (replicate n NUL)) empty_message [0x7b] =
      Some (Inr (\<lparr>cm_type = CONTROL_MSG_TYPE_INJECT_TEXT, cm_body = BodyText (Some ''hi'')\<rparr>, length [0x7b :: u8]))"
    by (simp add: JsonDeserialize_def thrown_def jtext_lib_def hi_text_def msg_type_of_def empty_message_def Let_def read_text_def)
  from agent_text_released_early [OF manager_start_ok manager_start_room this _ refl, of "[]" "[]"] show ?thesis by auto
qed

definition clock_env :: agent_env where
  "clock_env = \<lparr>ae_now = 0, ae_now_ms = 0, ae_errno = 0, ae_malloc = (\<lambda>n. None),
     ae_images = (\<lambda>n color. (\<lparr>im_width = 0, im_height = 0, im_bytes = []\<rparr>, \<lparr>im_width = 0, im_height = 0, im_bytes = []\<rparr>)),
     ae_local_time = (\<lambda>s. ''2020-03-25 10:00:00''), ae_tv = (0, 0)\<rparr>"


end
