(* ===== verification/Float_Arith.thy ===== *)
theory Float_Arith
  imports Common "HOL-Library.Log_Nat"
begin

section \<open>Arithmetic on \<open>float\<close>\<close>

text \<open>
  The nearest \<open>float\<close>, ties to even: a significand of 24 bits, exponents down to -126, and
  infinity from 2^128 on.
\<close>

definition f32_exponent :: "rat \<Rightarrow> int" where
  "f32_exponent q =
     (let (n, d) = quotient_of q; e = bitlen n - bitlen d in if q < 2 powi e then e - 1 else e)"

definition f32_round :: "rat \<Rightarrow> rat" where
  "f32_round q =
     (if q = 0 then 0
      else let ulp = 2 powi (max (f32_exponent \<bar>q\<bar>) (- 126) - 23) in of_int (round_half_even (q / ulp)) * ulp)"

definition f32 :: "rat \<Rightarrow> c_float" where
  "f32 q = (let r = f32_round q in if 2 ^ 128 \<le> \<bar>r\<bar> then Infinite (r < 0) else Fin r)"

fun float_mult :: "c_float \<Rightarrow> c_float \<Rightarrow> c_float" where
  "float_mult (Fin a) (Fin b) = f32 (a * b)"
| "float_mult (Infinite s) (Fin b) = (if b = 0 then Not_A_Number else Infinite (s \<noteq> (b < 0)))"
| "float_mult (Fin a) (Infinite s) = (if a = 0 then Not_A_Number else Infinite (s \<noteq> (a < 0)))"
| "float_mult (Infinite s) (Infinite t) = Infinite (s \<noteq> t)"
| "float_mult _ _ = Not_A_Number"

fun float_div :: "c_float \<Rightarrow> c_float \<Rightarrow> c_float" where
  "float_div (Fin a) (Fin b) =
     (if b = 0 then if a = 0 then Not_A_Number else Infinite (a < 0) else f32 (a / b))"
| "float_div (Infinite s) (Fin b) = Infinite (s \<noteq> (b < 0))"
| "float_div (Fin a) (Infinite s) = Fin 0"
| "float_div _ _ = Not_A_Number"

text \<open>The conversion to \<open>int\<close> truncates, and is not defined outside its range.\<close>

fun float_to_int :: "c_float \<Rightarrow> int option" where
  "float_to_int (Fin q) = checked_int (if 0 \<le> q then \<lfloor>q\<rfloor> else \<lceil>q\<rceil>)"
| "float_to_int _ = None"

subsection \<open>Rounding\<close>

lemma bitlen_powi:
  assumes "0 < n"
  shows "(2 :: rat) powi (bitlen n - 1) \<le> of_int n" and "of_int n < (2 :: rat) powi (bitlen n)"
proof -
  have b: "2 ^ nat (bitlen n - 1) \<le> n" "n < 2 ^ nat (bitlen n)" using bitlen_bounds [OF assms] by auto
  have p: "0 < bitlen n" using assms bitlen_eq_zero_iff [of n] bitlen_nonneg [of n] by linarith
  have "(of_int (2 ^ nat (bitlen n - 1)) :: rat) \<le> of_int n" using b(1) by (simp only: of_int_le_iff)
  then show "(2 :: rat) powi (bitlen n - 1) \<le> of_int n" using p by (simp add: power_int_def)
  have "(of_int n :: rat) < of_int (2 ^ nat (bitlen n))" using b(2) by (simp only: of_int_less_iff)
  then show "of_int n < (2 :: rat) powi (bitlen n)" using p by (simp add: power_int_def)
qed

lemma f32_exponent_le:
  assumes q: "0 < q"
  shows "2 powi f32_exponent q \<le> q"
proof -
  obtain n d where nd: "quotient_of q = (n, d)" by fastforce
  have d: "0 < d" using nd by (rule quotient_of_denom_pos)
  have qd: "q = of_int n / of_int d" using nd by (rule quotient_of_div)
  with q d have n: "0 < n" by (simp add: zero_less_divide_iff)
  have "(2 :: rat) powi (bitlen n - bitlen d - 1) = 2 powi (bitlen n - 1) / 2 powi bitlen d"
    by (simp add: power_int_diff)
  also have "\<dots> \<le> of_int n / of_int d"
    using bitlen_powi [OF n] bitlen_powi [OF d] d n by (intro frac_le) simp_all
  finally show ?thesis by (simp add: f32_exponent_def nd Let_def algebra_simps flip: qd)
qed

lemma round_half_even_mono_int:
  assumes "x \<le> of_int n"
  shows "round_half_even x \<le> n"
  using assms by (simp add: round_half_even_def Let_def) linarith

lemma round_half_even_nonneg: "0 \<le> x \<Longrightarrow> 0 \<le> round_half_even x"
  by (simp add: round_half_even_def Let_def)

lemma f32_round_bounds:
  assumes "0 \<le> q" and "q \<le> of_int w" and "w < 65536"
  shows "0 \<le> f32_round q" and "f32_round q \<le> of_int w"
proof -
  define k where "k = 23 - max (f32_exponent q) (- 126)"
  have "0 \<le> f32_round q \<and> f32_round q \<le> of_int w"
  proof (cases "q = 0")
    case True
    with assms show ?thesis by (simp add: f32_round_def)
  next
    case False
    with assms have q: "0 < q" by simp
    have "f32_exponent q < 16"
    proof (rule ccontr)
      assume "\<not> f32_exponent q < 16"
      then have "(2 :: rat) powi 16 \<le> 2 powi f32_exponent q" by (intro power_int_increasing) simp_all
      also have "\<dots> \<le> q" by (rule f32_exponent_le [OF q])
      also have "\<dots> \<le> of_int w" by (rule assms(2))
      finally show False using assms(3) by (simp add: power_int_def)
    qed
    then have k: "0 \<le> k" by (simp add: k_def)
    have ulp: "2 powi (max (f32_exponent q) (- 126) - 23) = 1 / (2 :: rat) ^ nat k"
    proof -
      have "max (f32_exponent q) (- 126) - 23 = - int (nat k)" using k q by (simp add: k_def)
      then show ?thesis by (simp only: power_int_minus power_int_of_nat) (simp add: divide_inverse)
    qed
    have eq: "f32_round q = of_int (round_half_even (q * 2 ^ nat k)) / 2 ^ nat k"
      using q by (simp add: f32_round_def Let_def) (simp only: ulp, simp)
    have "q * 2 ^ nat k \<le> of_int (w * 2 ^ nat k)" using assms(2) by simp
    then have "round_half_even (q * 2 ^ nat k) \<le> w * 2 ^ nat k" by (rule round_half_even_mono_int)
    then have "(of_int (round_half_even (q * 2 ^ nat k)) :: rat) \<le> of_int (w * 2 ^ nat k)" by (simp only: of_int_le_iff)
    moreover have "0 \<le> round_half_even (q * 2 ^ nat k)" using assms(1) by (simp add: round_half_even_nonneg)
    ultimately show ?thesis by (simp add: eq field_simps)
  qed
  then show "0 \<le> f32_round q" "f32_round q \<le> of_int w" by auto
qed

lemma float_mult_bounds:
  assumes "0 \<le> x" and "x \<le> 1" and "n < 65536"
  shows "\<exists>r. float_mult (Fin x) (Fin (of_nat n)) = Fin r \<and> 0 \<le> r \<and> r \<le> of_nat n"
proof -
  have q: "0 \<le> x * of_nat n" "x * of_nat n \<le> of_int (int n)" using assms by (simp_all add: mult_left_le_one_le)
  note b = f32_round_bounds [OF q] assms(3)
  then have "f32_round (x * of_nat n) < 2 ^ 128" by simp
  with b show ?thesis by (simp add: f32_def)
qed

lemma float_to_int_inside:
  assumes "0 \<le> r" and "r \<le> of_nat n" and "n < 65536"
  shows "\<exists>i. float_to_int (Fin r) = Some i \<and> 0 \<le> i \<and> i \<le> int n"
proof -
  have "0 \<le> \<lfloor>r\<rfloor>" using assms(1) by simp
  moreover have "\<lfloor>r\<rfloor> \<le> int n" using assms(2) by linarith
  ultimately show ?thesis using assms by (simp add: checked_int_def INT_MIN_def INT_MAX_def)
qed

text \<open>An integer of at most 24 bits is a \<open>float\<close>; a quotient is rounded by at most half a unit of the last place.\<close>

lemma round_half_even_of_int [simp]: "round_half_even (of_int n) = n"
  by (simp add: round_half_even_def)

lemma round_half_even_error: "\<bar>of_int (round_half_even x) - x\<bar> \<le> 1 / 2"
proof -
  define n where "n = \<lfloor>x\<rfloor>"
  have "of_int n \<le> x" "x < of_int n + 1" using floor_correct [of x] by (simp_all add: n_def)
  then show ?thesis by (auto simp: round_half_even_def Let_def abs_le_iff simp flip: n_def)
qed

lemma round_half_even_near: "\<bar>x - of_int n\<bar> < 1 / 2 \<Longrightarrow> round_half_even x = n"
  using round_half_even_error [of x] by linarith

lemma f32_exponent_int:
  assumes "0 < n"
  shows "f32_exponent (of_int n) = bitlen n - 1"
proof -
  have "quotient_of (of_int n) = (n, 1)" by (simp add: of_int_rat quotient_of_Fract)
  moreover have "bitlen 1 = 1" using bitlen_le_iff_power [of 1 1] bitlen_eq_zero_iff [of 1] bitlen_nonneg [of 1] by force
  ultimately show ?thesis using bitlen_powi [OF assms] by (simp add: f32_exponent_def)
qed

lemma f32_int:
  assumes "0 \<le> n" and "n < 2 ^ 24"
  shows "f32 (of_int n) = Fin (of_int n)"
proof -
  have "f32_round (of_int n) = of_int n"
  proof (cases "n = 0")
    case False
    with assms have n: "0 < n" by simp
    have "bitlen n \<le> 24" using bitlen_le_iff_power [of n 24] assms by simp
    define k where "k = nat (24 - bitlen n)"
    have b: "0 < bitlen n" using n bitlen_eq_zero_iff [of n] bitlen_nonneg [of n] by linarith
    have e: "max (f32_exponent \<bar>of_int n\<bar>) (- 126) - 23 = - int k"
      using n b \<open>bitlen n \<le> 24\<close> by (simp add: f32_exponent_int k_def)
    have u: "(2 :: rat) powi (- int k) = 1 / 2 ^ k" by (simp add: power_int_minus divide_inverse)
    have "(of_int n :: rat) / (1 / 2 ^ k) = of_int (n * 2 ^ k)" by simp
    then show ?thesis using n by (simp only: f32_round_def Let_def e u round_half_even_of_int) simp
  qed (simp add: f32_round_def)
  moreover have "(of_int n :: rat) < of_int (2 ^ 24)" using assms(2) by (simp only: of_int_less_iff)
  ultimately show ?thesis using assms(1) by (simp add: f32_def)
qed

lemma f32_round_error:
  assumes "2 powi (- 126) \<le> q"
  shows "\<bar>f32_round q - q\<bar> \<le> q * 2 powi (- 24)"
proof -
  have p: "(0 :: rat) < 2 powi (- 126)" by simp
  with assms have q: "0 < q" by linarith
  define ulp :: rat where "ulp = 2 powi (max (f32_exponent q) (- 126) - 23)"
  have u: "0 < ulp" by (simp add: ulp_def)
  have "2 powi max (f32_exponent q) (- 126) \<le> q" using assms f32_exponent_le [OF q] by (simp add: max_def)
  moreover have "ulp * 2 powi 23 = 2 powi max (f32_exponent q) (- 126)" 
    using power_int_add [of "2 :: rat" "max (f32_exponent q) (- 126) - 23" 23] by (simp add: ulp_def)
  ultimately have "ulp * 2 powi 23 \<le> q" by simp
  then have b: "ulp / 2 \<le> q * 2 powi (- 24)" by (simp add: power_int_def field_simps)
  have r: "f32_round q = of_int (round_half_even (q / ulp)) * ulp" using q by (simp add: f32_round_def ulp_def Let_def)
  have "f32_round q - q = (of_int (round_half_even (q / ulp)) - q / ulp) * ulp" using u by (simp add: r algebra_simps)
  then have "\<bar>f32_round q - q\<bar> = \<bar>of_int (round_half_even (q / ulp)) - q / ulp\<bar> * ulp" using u by (simp add: abs_mult)
  also have "\<dots> \<le> 1 / 2 * ulp" using round_half_even_error [of "q / ulp"] u by (intro mult_right_mono) simp_all
  finally show ?thesis using b by simp
qed

end
