(* ===== verification/Brain.thy ===== *)
theory Brain
  imports Float_Arith Agent_Stream
begin

section \<open>Pictures for the agent (src/src/ai/brain.cpp, Decoder::SaveFrame)\<close>

text \<open>
  The decoder keeps a copy of the latest frame as 24-bit pixels. The agent manager saves it to a
  file, and sends it in two sizes, which the image library computes. The library is a parameter;
  \<open>cv_documented\<close> is what its documentation says of the two functions used. An exception of the
  library is the left side of a sum.
\<close>

text \<open>The fields of \<open>rgb_frame\<close> that are read, and the buffer its \<open>data[0]\<close> points to.\<close>

record rgb_frame =
  rf_width :: int
  rf_height :: int
  rf_linesize :: int
  rf_data :: "u8 list"

text \<open>How \<open>av_image_fill_arrays\<close> lays out a picture in a buffer without padding.\<close>

definition laid_out :: "nat \<Rightarrow> nat \<Rightarrow> rgb_frame \<Rightarrow> bool" where
  "laid_out w h f \<longleftrightarrow> rf_width f = int w \<and> rf_height f = int h \<and> rf_linesize f = 3 * int w \<and>
     length (rf_data f) = 3 * w * h \<and> 3 * int w * int h \<le> INT_MAX"

definition load_block :: "'a list \<Rightarrow> int \<Rightarrow> int \<Rightarrow> 'a list option" where
  "load_block buf i n =
     (if 0 \<le> i \<and> 0 \<le> n \<and> i + n \<le> int (length buf) then Some (take (nat n) (drop (nat i) buf)) else None)"

text \<open>The pixels of row \<open>y\<close>, and of rows \<open>y\<close>, \<open>y + 1\<close>, ... up to the last.\<close>

definition pixel_row :: "rgb_frame \<Rightarrow> int \<Rightarrow> u8 list option" where
  "pixel_row f y = do {
     offset \<leftarrow> checked_int (y * rf_linesize f);
     len \<leftarrow> checked_int (rf_width f * 3);
     load_block (rf_data f) offset len
   }"

function pixel_rows :: "rgb_frame \<Rightarrow> int \<Rightarrow> u8 list option" where
  "pixel_rows f y =
     (if y < rf_height f then do {
        row \<leftarrow> pixel_row f y;
        rest \<leftarrow> pixel_rows f (y + 1);
        Some (row @ rest)
      } else Some [])"
  by pat_completeness auto
termination
  by (relation "measure (\<lambda>(f, y). nat (rf_height f - y))") auto

declare pixel_rows.simps [simp del]

subsection \<open>Saving a frame\<close>

definition ppm_header :: "int \<Rightarrow> int \<Rightarrow> string" where
  "ppm_header w h = ''P6'' @ [CHR 0x0A] @ dec_int w @ '' '' @ dec_int h @ [CHR 0x0A] @ ''255'' @ [CHR 0x0A]"

text \<open>The inner option is a file that cannot be opened; else its name and contents.\<close>

definition Decoder_SaveFrame :: "bool \<Rightarrow> rgb_frame \<Rightarrow> int \<Rightarrow> (string \<times> u8 list) option option" where
  "Decoder_SaveFrame fopen_ok pFrameRGB iFrame =
     (let szFilename = ''capture'' @ dec_int iFrame @ ''.ppm'' in do {
        c_assert (length szFilename < 32);
        if \<not> fopen_ok then Some None
        else do {
          pixels \<leftarrow> pixel_rows pFrameRGB 0;
          Some (Some (szFilename, bytes_of (ppm_header (rf_width pFrameRGB) (rf_height pFrameRGB)) @ pixels))
        }
      })"

definition ai_SaveFrame :: "bool \<Rightarrow> rgb_frame \<Rightarrow> int \<Rightarrow> (string \<times> u8 list) option option" where
  "ai_SaveFrame fopen_ok rgb_frame frame_number = Decoder_SaveFrame fopen_ok rgb_frame frame_number"

subsection \<open>Converting a frame\<close>

record mat = image +
  mat_channels :: nat

datatype cv_exception = CV_Exception

record cv_lib =
  cv_resize :: "mat \<Rightarrow> c_float \<Rightarrow> cv_exception + mat"
  cv_gray :: "mat \<Rightarrow> cv_exception + mat"

definition ConvertToMat :: "cv_lib \<Rightarrow> rgb_frame \<Rightarrow> int \<Rightarrow> bool \<Rightarrow> (cv_exception + mat) option" where
  "ConvertToMat lib pFrameRGB max_size color = do {
     pixels \<leftarrow> pixel_rows pFrameRGB 0;
     let img = \<lparr>im_width = of_int (rf_width pFrameRGB), im_height = of_int (rf_height pFrameRGB),
                im_bytes = pixels, mat_channels = 3\<rparr>;
     let maxSize = max (rf_width pFrameRGB) (rf_height pFrameRGB);
     let scale = float_div (f32 (of_int max_size)) (f32 (of_int maxSize));
     Some (case cv_resize lib img scale of
             Inl e \<Rightarrow> Inl e
           | Inr outImg \<Rightarrow> if \<not> color then cv_gray lib outImg else Inr outImg)
   }"

text \<open>
  \<open>resize\<close> without a size takes the rounded product of each side with the scale; it throws when
  the image or the result is empty or the scale is not positive. \<open>cvtColor\<close> to grey keeps the
  size and leaves one channel. A matrix holds one byte for each channel of each element.
\<close>

definition mat_ok :: "mat \<Rightarrow> bool" where
  "mat_ok m \<longleftrightarrow> length (im_bytes m) = unat (im_width m) * unat (im_height m) * mat_channels m"

definition scaled :: "32 word \<Rightarrow> c_float \<Rightarrow> int" where
  "scaled n s = (case s of Fin q \<Rightarrow> round_half_even (q * of_nat (unat n)) | _ \<Rightarrow> 0)"

definition cv_documented :: "cv_lib \<Rightarrow> bool" where
  "cv_documented lib \<longleftrightarrow>
     (\<forall>m s. mat_ok m \<longrightarrow>
        (case cv_resize lib m s of
           Inl _ \<Rightarrow> scaled (im_width m) s \<le> 0 \<or> scaled (im_height m) s \<le> 0
         | Inr r \<Rightarrow> 0 < scaled (im_width m) s \<and> 0 < scaled (im_height m) s \<and> mat_ok r \<and>
             im_width r = of_int (scaled (im_width m) s) \<and> im_height r = of_int (scaled (im_height m) s) \<and>
             mat_channels r = mat_channels m)) \<and>
     (\<forall>m. mat_ok m \<and> mat_channels m = 3 \<and> im_bytes m \<noteq> [] \<longrightarrow>
        (\<exists>g. cv_gray lib m = Inr g \<and> mat_ok g \<and> im_width g = im_width m \<and> im_height g = im_height m \<and>
          mat_channels g = 1))"

subsection \<open>Rows\<close>

lemma pixel_row_laid_out:
  assumes l: "laid_out w h f" and y: "y < h"
  shows "pixel_row f (int y) = Some (take (3 * w) (drop (3 * w * y) (rf_data f)))"
proof -
  have a: "Suc y * (3 * w) \<le> h * (3 * w)" using y by (intro mult_right_mono) simp_all
  then have "int (Suc y * (3 * w)) \<le> int (h * (3 * w))" by (simp only: of_nat_le_iff)
  then have i: "int y * (3 * int w) + 3 * int w \<le> 3 * int w * int h" by (simp add: algebra_simps)
  moreover have "0 \<le> int y * (3 * int w)" by simp
  moreover have "3 * int w * int h \<le> INT_MAX" using l by (simp add: laid_out_def)
  ultimately have "int y * (3 * int w) \<le> INT_MAX" "int w * 3 \<le> INT_MAX" by linarith+
  moreover have "- 2147483648 \<le> int y * (3 * int w)" by (rule order_trans [of _ 0]) simp_all
  ultimately have c: "checked_int (int y * (3 * int w)) = Some (int y * (3 * int w))" "checked_int (int w * 3) = Some (int w * 3)"
    by (simp_all add: checked_int_def INT_MIN_def)
  have n: "nat (int y * (3 * int w)) = 3 * w * y" "nat (int w * 3) = 3 * w" by (simp_all add: nat_mult_distrib)
  have "int y * (3 * int w) + int w * 3 \<le> int (length (rf_data f))"
    using i l by (simp add: laid_out_def)
  then show ?thesis using l c n by (simp add: pixel_row_def laid_out_def load_block_def)
qed

lemma pixel_rows_laid_out:
  assumes l: "laid_out w h f" and y: "y \<le> h"
  shows "pixel_rows f (int y) = Some (drop (3 * w * y) (rf_data f))"
  using y
proof (induction "h - y" arbitrary: y)
  case 0
  then have "y = h" by simp
  with l show ?case by (subst pixel_rows.simps) (simp add: laid_out_def)
next
  case (Suc n)
  then have "y < h" by simp
  with Suc have "pixel_rows f (int y + 1) = Some (drop (3 * w * Suc y) (rf_data f))"
    using Suc.hyps(1) [of "Suc y"] by (simp add: add.commute)
  moreover have "take (3 * w) (drop (3 * w * y) (rf_data f)) @ drop (3 * w * Suc y) (rf_data f) = drop (3 * w * y) (rf_data f)"
    using append_take_drop_id [of "3 * w" "drop (3 * w * y) (rf_data f)"] by (simp add: algebra_simps)
  ultimately show ?case using pixel_row_laid_out [OF l \<open>y < h\<close>] l \<open>y < h\<close>
    by (subst pixel_rows.simps) (simp add: laid_out_def)
qed

lemma pixels_laid_out: "laid_out w h f \<Longrightarrow> pixel_rows f 0 = Some (rf_data f)"
  using pixel_rows_laid_out [of w h f 0] by simp

subsection \<open>A saved frame is a picture\<close>

text \<open>A reader of the file format: the magic number, the sizes, the maximum, the pixels.\<close>

fun expect :: "string \<Rightarrow> string \<Rightarrow> string option" where
  "expect [] s = Some s"
| "expect (c # cs) (d # s) = (if c = d then expect cs s else None)"
| "expect (c # cs) [] = None"

definition read_ppm :: "u8 list \<Rightarrow> (nat \<times> nat \<times> u8 list) option" where
  "read_ppm bs = do {
     s \<leftarrow> expect (''P6'' @ [CHR 0x0A]) (string_of_bytes bs);
     let (w, s) = read_digits 10 0 s;
     s \<leftarrow> expect '' '' s;
     let (h, s) = read_digits 10 0 s;
     s \<leftarrow> expect ([CHR 0x0A] @ ''255'' @ [CHR 0x0A]) s;
     Some (w, h, bytes_of s)
   }"

lemma expect_append [simp]: "expect s (s @ t) = Some t"
  by (induction s) simp_all

lemma string_of_bytes_append: "string_of_bytes (bs @ cs) = string_of_bytes bs @ string_of_bytes cs"
  by (simp add: string_of_bytes_def)

lemma read_ppm_header: "read_ppm (bytes_of (ppm_header (int w) (int h)) @ pixels) = Some (w, h, pixels)"
proof -
  have nd: "\<not> is_digit 10 (CHR '' '')" "\<not> is_digit 10 (CHR 0x0A)" by (simp_all add: is_digit_def digit_val_def)
  have r: "read_digits 10 0 (dec_nat n @ c # s) = (n, c # s)" if "\<not> is_digit 10 c" for n c s
    using that by (intro read_digits_dec_nat_append) simp
  show ?thesis
    by (simp add: read_ppm_def ppm_header_def string_of_bytes_append dec_int_def r nd)
qed

lemma length_capture_name: "INT_MIN \<le> i \<Longrightarrow> i \<le> INT_MAX \<Longrightarrow> length (dec_int i) \<le> 11"
  using length_dec_int_le [of i 9] by (simp add: INT_MIN_def INT_MAX_def)

text \<open>C39. A frame is saved as a picture that holds exactly its pixels: whatever the number of the frame,
  the name fits its array of 32 characters; the rows are read inside the buffer; and reading the file
  back yields the size of the frame and the bytes of the buffer.\<close>

theorem saved_frame_roundtrip:
  assumes "laid_out w h f" and "INT_MIN \<le> n" and "n \<le> INT_MAX"
  shows "\<exists>name bytes. ai_SaveFrame True f n = Some (Some (name, bytes)) \<and> length name < 32 \<and>
    read_ppm bytes = Some (w, h, rf_data f)"
proof -
  have "length (''capture'' @ dec_int n @ ''.ppm'') < 32" using length_capture_name [OF assms(2,3)] by simp
  with assms(1) show ?thesis
    by (simp add: ai_SaveFrame_def Decoder_SaveFrame_def Let_def pixels_laid_out) (simp add: laid_out_def read_ppm_header)
qed

subsection \<open>A converted frame fits its message\<close>

lemma scale_bounds:
  assumes M: "1 \<le> M" "M < 65536" and m: "1 \<le> m" "m < 65536"
  shows "\<exists>s. float_div (f32 (of_int M)) (f32 (of_int m)) = Fin s \<and> 0 \<le> s \<and> \<bar>s * of_int m - of_int M\<bar> < 1 / 2"
proof -
  define q :: rat where "q = of_int M / of_int m"
  have mm: "(0 :: rat) < of_int m" "(1 :: rat) \<le> of_int m" "(of_int m :: rat) < 65536" using m by simp_all
  have MM: "(1 :: rat) \<le> of_int M" "(of_int M :: rat) < 65536" using M by simp_all
  have q: "q * of_int m = of_int M" using mm by (simp add: q_def)
  have "1 / 65536 \<le> q" using mm MM by (simp add: q_def frac_le)
  moreover have "(2 :: rat) powi (- 126) \<le> 2 powi (- 16)" by (rule power_int_increasing) simp_all
  moreover have "(2 :: rat) powi (- 16) = 1 / 65536" by (simp add: power_int_def power_one_over)
  ultimately have "2 powi (- 126) \<le> q" "0 < q" by linarith+
  note e = f32_round_error [OF this(1)]
  have t: "q * 2 powi (- 24) = q / 16777216" by (simp add: power_int_def power_one_over)
  have e: "\<bar>f32_round q - q\<bar> \<le> q / 16777216" using e by (simp only: t)
  have "q \<le> of_int M" using mm MM \<open>0 < q\<close> q mult_left_mono [of 1 "of_int m" q] by simp
  moreover have "(65536 * 2 :: rat) < 2 ^ 128" by simp
  ultimately have up: "f32_round q < 2 ^ 128" and lo: "0 \<le> f32_round q"
    using e MM \<open>0 < q\<close> unfolding abs_le_iff by linarith+
  have "f32_round q * of_int m - of_int M = (f32_round q - q) * of_int m" using q by (simp add: algebra_simps)
  then have "\<bar>f32_round q * of_int m - of_int M\<bar> = \<bar>f32_round q - q\<bar> * of_int m" using mm by (simp add: abs_mult)
  also have "\<dots> \<le> q / 16777216 * of_int m" using e mm by (intro mult_right_mono) simp_all
  also have "\<dots> = of_int M / 16777216" using q by simp
  also have "\<dots> < 1 / 2" using MM by simp
  finally have "\<bar>f32_round q * of_int m - of_int M\<bar> < 1 / 2" .
  moreover have "float_div (f32 (of_int M)) (f32 (of_int m)) = f32 q"
    using M m by (simp add: f32_int q_def)
  moreover have "f32 q = Fin (f32_round q)" using lo up by (simp add: f32_def)
  ultimately show ?thesis using lo by auto
qed

lemma scaled_sides:
  assumes M: "1 \<le> M" "M < 65536" and wh: "w < 65536" "h < 65536" "1 \<le> max w h"
  shows "\<exists>s. float_div (f32 (of_int M)) (f32 (of_int (int (max w h)))) = Fin s \<and>
    max (scaled (of_nat w) (Fin s)) (scaled (of_nat h) (Fin s)) = M"
proof -
  have "1 \<le> int (max w h)" "int (max w h) < 65536" using wh by simp_all
  from scale_bounds [OF M this] obtain s where
    s: "float_div (f32 (of_int M)) (f32 (of_int (int (max w h)))) = Fin s" "0 \<le> s"
      "\<bar>s * of_int (int (max w h)) - of_int M\<bar> < 1 / 2" by blast
  have r: "scaled (of_nat n) (Fin s) = round_half_even (s * of_nat n)" if "n < 65536" for n
    using that by (simp add: scaled_def unat_of_nat take_bit_nat_eq_self)
  have top: "round_half_even (s * of_nat (max w h)) = M" using s(3) by (intro round_half_even_near) simp
  have le: "round_half_even (s * of_nat n) \<le> M" if n: "n \<le> max w h" for n
  proof -
    have "s * of_nat n \<le> s * of_nat (max w h)" using n s(2) by (intro mult_left_mono) simp_all
    moreover have "s * of_nat (max w h) < of_int M + 1 / 2" using s(3) unfolding of_int_of_nat_eq abs_less_iff by linarith
    ultimately have "s * of_nat n < of_int M + 1 / 2" by linarith
    then have "(of_int (round_half_even (s * of_nat n)) :: rat) < of_int M + 1"
      using round_half_even_error [of "s * of_nat n"] unfolding abs_le_iff by linarith
    then have "(of_int (round_half_even (s * of_nat n)) :: rat) < of_int (M + 1)" by simp
    then show ?thesis by (simp only: of_int_less_iff)
  qed
  have "max (round_half_even (s * of_nat w)) (round_half_even (s * of_nat h)) = M"
    using top le [of w] le [of h] by (cases "w \<le> h") (simp_all add: max_def split: if_splits)
  with s(1) r wh show ?thesis by auto
qed

text \<open>C40. A frame that is not empty is converted to the size asked for: the scale, computed and rounded as
  a \<open>float\<close>, makes the longer side exactly as long as asked and the other one no longer, unless the
  library rejects a side that becomes empty; grey pictures have one byte for each element, others three.\<close>

theorem converted_size:
  assumes lib: "cv_documented lib" and l: "laid_out w h f" and wh: "w < 65536" "h < 65536" "1 \<le> w" "1 \<le> h"
    and M: "1 \<le> M" "M < 65536"
  shows "\<exists>r. ConvertToMat lib f M color = Some r \<and>
    (\<forall>m. r = Inr m \<longrightarrow> max (uint (im_width m)) (uint (im_height m)) = M \<and>
      length (im_bytes m) = unat (im_width m) * unat (im_height m) * (if color then 3 else 1))"
proof -
  have "1 \<le> max w h" using wh by simp
  from scaled_sides [OF M wh(1,2) this] obtain s where
    s: "float_div (f32 (of_int M)) (f32 (of_int (int (max w h)))) = Fin s"
      "max (scaled (of_nat w) (Fin s)) (scaled (of_nat h) (Fin s)) = M" by blast
  define img where "img = \<lparr>im_width = of_nat w, im_height = of_nat h, im_bytes = rf_data f, mat_channels = 3\<rparr>"
  have img: "mat_ok img" "im_width img = of_nat w" "im_height img = of_nat h" "mat_channels img = 3"
    using l wh by (simp_all add: mat_ok_def img_def laid_out_def unat_of_nat take_bit_nat_eq_self)
  have c: "ConvertToMat lib f M color = Some (case cv_resize lib img (Fin s) of Inl e \<Rightarrow> Inl e
      | Inr outImg \<Rightarrow> if \<not> color then cv_gray lib outImg else Inr outImg)"
    using l s(1) pixels_laid_out [OF l] by (simp add: ConvertToMat_def laid_out_def img_def flip: of_nat_max)
  show ?thesis
  proof (cases "cv_resize lib img (Fin s)")
    case (Inr r)
    from lib img(1) have "case cv_resize lib img (Fin s) of
           Inl _ \<Rightarrow> scaled (im_width img) (Fin s) \<le> 0 \<or> scaled (im_height img) (Fin s) \<le> 0
         | Inr r \<Rightarrow> 0 < scaled (im_width img) (Fin s) \<and> 0 < scaled (im_height img) (Fin s) \<and> mat_ok r \<and>
             im_width r = of_int (scaled (im_width img) (Fin s)) \<and> im_height r = of_int (scaled (im_height img) (Fin s)) \<and>
             mat_channels r = mat_channels img" unfolding cv_documented_def by blast
    with Inr img have r: "0 < scaled (of_nat w) (Fin s)" "0 < scaled (of_nat h) (Fin s)" "mat_ok r" "mat_channels r = 3"
      "im_width r = of_int (scaled (of_nat w) (Fin s))" "im_height r = of_int (scaled (of_nat h) (Fin s))" by simp_all
    have u: "uint (of_int x :: 32 word) = x" if "0 < x" "x \<le> M" for x
      using that M by (simp add: unsigned_of_int take_bit_int_eq_self)
    have ur: "uint (im_width r) = scaled (of_nat w) (Fin s)" "uint (im_height r) = scaled (of_nat h) (Fin s)"
      using r s(2) by (simp_all only: r(5,6)) (rule u; linarith)+
    then have "max (uint (im_width r)) (uint (im_height r)) = M" using s(2) by simp
    moreover have "im_bytes r \<noteq> []"
    proof -
      have "0 < unat (im_width r) * unat (im_height r)" using ur r(1,2) by (simp add: unat_gt_0 word_greater_zero_iff) auto
      with r(3,4) show ?thesis by (auto simp: mat_ok_def)
    qed
    with r have "\<exists>g. cv_gray lib r = Inr g \<and> mat_ok g \<and> im_width g = im_width r \<and> im_height g = im_height r \<and>
        mat_channels g = 1" using lib unfolding cv_documented_def by blast
    ultimately show ?thesis using c Inr r(3,4) by (auto simp: mat_ok_def)
  qed (simp add: c)
qed

text \<open>So the two pictures of a frame, each with a hash of eight bytes, fit the buffer of the agent's stream.\<close>

lemma area_bound:
  assumes "max (uint x) (uint y) = M"
  shows "unat x * unat y \<le> nat M * nat M"
proof -
  have "uint x \<le> M" "uint y \<le> M" using assms by linarith+
  then have "nat (uint x) \<le> nat M" "nat (uint y) \<le> nat M" by (simp_all only: nat_mono)
  then have "nat (uint x) * nat (uint y) \<le> nat M * nat M" by (rule mult_le_mono)
  then show ?thesis by (simp only: nat_uint_eq)
qed

lemma pictures_fit:
  assumes "cv_documented lib" and "laid_out w h f" and "w < 65536" "h < 65536" "1 \<le> w" "1 \<le> h"
    and "ConvertToMat lib f 800 False = Some (Inr a)" and "ConvertToMat lib f 240 True = Some (Inr b)"
  shows "88 + length (im_bytes a) + 8 \<le> BLOB_MSG_SERIALIZED_MAX_SIZE"
    and "88 + length (im_bytes b) + 8 \<le> BLOB_MSG_SERIALIZED_MAX_SIZE"
proof -
  from converted_size [OF assms(1-6), of 800 False] assms(7)
  have "max (uint (im_width a)) (uint (im_height a)) = 800" "length (im_bytes a) = unat (im_width a) * unat (im_height a)" by auto
  with area_bound [OF this(1)] show "88 + length (im_bytes a) + 8 \<le> BLOB_MSG_SERIALIZED_MAX_SIZE"
    by (simp add: BLOB_MSG_SERIALIZED_MAX_SIZE_def)
  from converted_size [OF assms(1-6), of 240 True] assms(8)
  have "max (uint (im_width b)) (uint (im_height b)) = 240" "length (im_bytes b) = unat (im_width b) * unat (im_height b) * 3" by auto
  with area_bound [OF this(1)] show "88 + length (im_bytes b) + 8 \<le> BLOB_MSG_SERIALIZED_MAX_SIZE"
    by (simp add: BLOB_MSG_SERIALIZED_MAX_SIZE_def)
qed

text \<open>Before the first frame the picture is empty, and the library throws an exception that nothing catches.\<close>

lemma empty_frame_throws:
  assumes "cv_documented lib" and "laid_out 0 0 f" and "1 \<le> M" "M < 65536"
  shows "\<exists>e. ConvertToMat lib f M color = Some (Inl e)"
proof -
  define img where "img = \<lparr>im_width = 0, im_height = 0, im_bytes = rf_data f, mat_channels = 3\<rparr>"
  have "mat_ok img" using assms(2) by (simp add: mat_ok_def img_def laid_out_def)
  then have "case cv_resize lib img s of
           Inl _ \<Rightarrow> True | Inr r \<Rightarrow> 0 < scaled (im_width img) s" for s
    using assms(1) unfolding cv_documented_def by (fastforce split: sum.splits)
  moreover have "scaled 0 s = 0" for s by (simp add: scaled_def round_half_even_def split: c_float.split)
  moreover have "im_width img = 0" by (simp add: img_def)
  ultimately have "\<exists>e. cv_resize lib img s = Inl e" for s
    by (cases "cv_resize lib img s") (metis, metis sum.case(2) less_irrefl)
  then obtain e where "cv_resize lib img (float_div (f32 (of_int M)) (f32 0)) = Inl e" by blast
  then show ?thesis using assms(2) pixels_laid_out [OF assms(2)] by (simp add: ConvertToMat_def laid_out_def img_def)
qed

subsection \<open>Instances\<close>

definition plain_lib :: cv_lib where
  "plain_lib = \<lparr>cv_resize = (\<lambda>m s. let c = scaled (im_width m) s; r = scaled (im_height m) s in
       if c \<le> 0 \<or> r \<le> 0 then Inl CV_Exception
       else let cw = of_int c; rw = of_int r in
         Inr \<lparr>im_width = cw, im_height = rw, im_bytes = replicate (unat cw * unat rw * mat_channels m) 0,
              mat_channels = mat_channels m\<rparr>),
     cv_gray = (\<lambda>m. Inr (m\<lparr>im_bytes := replicate (unat (im_width m) * unat (im_height m)) 0, mat_channels := 1\<rparr>))\<rparr>"

lemma plain_lib_documented: "cv_documented plain_lib"
  by (simp add: cv_documented_def plain_lib_def mat_ok_def Let_def)

definition two_pixels :: rgb_frame where
  "two_pixels = \<lparr>rf_width = 2, rf_height = 1, rf_linesize = 6, rf_data = [1, 2, 3, 4, 5, 6]\<rparr>"

lemma two_pixels_laid_out: "laid_out 2 1 two_pixels"
  by (simp add: laid_out_def two_pixels_def INT_MAX_def)

theorem saved_frame_roundtrip_witness:
  "\<exists>name bytes. ai_SaveFrame True two_pixels 7 = Some (Some (name, bytes)) \<and> read_ppm bytes = Some (2, 1, [1, 2, 3, 4, 5, 6])"
  using saved_frame_roundtrip [OF two_pixels_laid_out, of 7] by (auto simp: INT_MIN_def INT_MAX_def two_pixels_def)

theorem converted_size_witness:
  "\<exists>m. ConvertToMat plain_lib two_pixels 800 True = Some (Inr m) \<and> max (uint (im_width m)) (uint (im_height m)) = 800 \<and>
     length (im_bytes m) = unat (im_width m) * unat (im_height m) * 3"
proof -
  have "float_div (f32 (of_int 800)) (f32 (of_int 2)) = f32 (of_int 400)"
    using f32_int [of 800] f32_int [of 2] by simp
  then have s: "float_div (f32 800) (f32 2) = Fin 400" using f32_int [of 400] by simp
  have "pixel_rows two_pixels 0 = Some [1, 2, 3, 4, 5, 6]"
    using pixels_laid_out [OF two_pixels_laid_out] by (simp add: two_pixels_def)
  moreover have "0 < scaled 2 (Fin 400)" "0 < scaled 1 (Fin 400)" by (simp_all add: scaled_def round_half_even_def)
  ultimately obtain m where "ConvertToMat plain_lib two_pixels 800 True = Some (Inr m)"
    using s by (simp add: ConvertToMat_def plain_lib_def two_pixels_def Let_def)
  with converted_size [OF plain_lib_documented two_pixels_laid_out, of 800 True] show ?thesis by auto
qed

end
