(* ===== verification/File_Handler.thy ===== *)
theory File_Handler
  imports Controller Command
begin

section \<open>The file handler (src/src/android/file_handler.cpp, file_handler.hpp)\<close>

text \<open>
  The actor that installs or pushes the files dropped on the window: a queue of 16 requests and a
  thread, started at the first request, that runs \<^verbatim>\<open>adb\<close> for one request at a time. The process is
  started inside the critical section and waited for outside, so that stopping the actor can
  terminate it. \<open>fh_pc\<close> is \<^term>\<open>None\<close> before the thread exists. The history holds the requests
  accepted, those handled with their outcome, and the file names released.
\<close>

datatype FileHandlerActionType = ACTION_INSTALL_APK | ACTION_PUSH_FILE

record FileHandlerRequest =
  fr_action :: FileHandlerActionType
  fr_file :: string

datatype fh_pc = F_Loop | F_Sleep | F_Wait FileHandlerRequest int | F_Done

record FileHandler =
  fh_serial :: "string option"
  fh_push_target :: string
  fh_initialized :: bool
  fh_current_process :: int
  fh_queue :: "FileHandlerRequest cbuf"
  fh_stopped :: bool
  fh_pc :: "fh_pc option"
  fh_proc :: proc_world
  fh_accepted :: "FileHandlerRequest list"
  fh_handled :: "(FileHandlerRequest \<times> bool) list"
  fh_freed :: "string list"

definition FILE_QUEUE_SIZE :: nat where
  "FILE_QUEUE_SIZE = 16"

definition DEFAULT_PUSH_TARGET :: string where
  "DEFAULT_PUSH_TARGET = ''/sdcard/''"

subsection \<open>Starting and ending\<close>

text \<open>\<open>dup_ok\<close> tells whether the serial number can be copied.\<close>

definition FileHandler_Init ::
  "bool \<Rightarrow> string option \<Rightarrow> string option \<Rightarrow> FileHandler \<Rightarrow> sdl \<Rightarrow> bool \<times> FileHandler \<times> sdl" where
  "FileHandler_Init dup_ok pSerial pPush_target f d =
     (let f = f\<lparr>fh_queue := cbuf_init (fh_queue f)\<rparr>;
          (initialized, d) = Actor_Init d
      in if \<not> initialized then (False, f, d)
         else if pSerial \<noteq> None \<and> \<not> dup_ok then (False, f\<lparr>fh_serial := None\<rparr>, SDL_Destroy (SDL_Destroy d))
         else (True, f\<lparr>fh_serial := pSerial, fh_initialized := False, fh_current_process := PROCESS_NONE,
                       fh_push_target := (case pPush_target of Some t \<Rightarrow> t | None \<Rightarrow> DEFAULT_PUSH_TARGET)\<rparr>, d))"

definition FileHandler_Start :: "FileHandler \<Rightarrow> sdl \<Rightarrow> bool \<times> FileHandler \<times> sdl" where
  "FileHandler_Start f d =
     (let (ok, d) = SDL_CreateThread d in
      if \<not> ok then (False, f, d) else (True, f\<lparr>fh_pc := Some F_Loop\<rparr>, d))"

text \<open>The loop of \<open>Destroy\<close> over the requests left; \<open>n\<close> bounds its turns.\<close>

fun destroy_requests :: "nat \<Rightarrow> FileHandlerRequest cbuf \<Rightarrow> string list \<Rightarrow> (FileHandlerRequest cbuf \<times> string list) option" where
  "destroy_requests 0 q freed = None"
| "destroy_requests (Suc n) q freed =
     (case cbuf_take q of
        None \<Rightarrow> None
      | Some (None, q) \<Rightarrow> Some (q, freed)
      | Some (Some req, q) \<Rightarrow> destroy_requests n q (freed @ [fr_file req]))"

definition FileHandler_Destroy :: "FileHandler \<Rightarrow> sdl \<Rightarrow> (FileHandler \<times> sdl) option" where
  "FileHandler_Destroy f d = do {
     let d = Actor_Destroy d;
     let f = f\<lparr>fh_serial := None\<rparr>;
     (q, freed) \<leftarrow> destroy_requests (cbuf_size (fh_queue f)) (fh_queue f) (fh_freed f);
     Some (f\<lparr>fh_queue := q, fh_freed := freed\<rparr>, d)
   }"

subsection \<open>Requests\<close>

definition fh_signal :: "FileHandler \<Rightarrow> FileHandler" where
  "fh_signal f = (if fh_pc f = Some F_Sleep then f\<lparr>fh_pc := Some F_Loop\<rparr> else f)"

definition FileHandler_Request ::
  "FileHandlerActionType \<Rightarrow> string \<Rightarrow> FileHandler \<Rightarrow> sdl \<Rightarrow> (bool \<times> FileHandler \<times> sdl) option" where
  "FileHandler_Request action file f d =
     (let (ok, f, d) = (if \<not> fh_initialized f then
            let (ok, f, d) = FileHandler_Start f d in
            if \<not> ok then (False, f, d) else (True, f\<lparr>fh_initialized := True\<rparr>, d)
          else (True, f, d))
      in if \<not> ok then Some (False, f, d)
         else do {
           let req = \<lparr>fr_action = action, fr_file = file\<rparr>;
           let was_empty = cbuf_is_empty (fh_queue f);
           (res, q) \<leftarrow> cbuf_push (fh_queue f) req;
           let f = f\<lparr>fh_queue := q, fh_accepted := fh_accepted f @ (if res then [req] else [])\<rparr>;
           Some (res, if was_empty then fh_signal f else f, d)
         })"

definition InstallApk :: "string option \<Rightarrow> string \<Rightarrow> proc_world \<Rightarrow> (int \<times> proc_world) option" where
  "InstallApk serial file w = adb_install serial file w"

definition PushFile :: "string option \<Rightarrow> string \<Rightarrow> string \<Rightarrow> proc_world \<Rightarrow> (int \<times> proc_world) option" where
  "PushFile serial file push_target w = adb_push serial file push_target w"

definition start_request :: "FileHandlerRequest \<Rightarrow> FileHandler \<Rightarrow> (int \<times> proc_world) option" where
  "start_request req f =
     (if fr_action req = ACTION_INSTALL_APK then InstallApk (fh_serial f) (fr_file req) (fh_proc f)
      else PushFile (fh_serial f) (fr_file req) (fh_push_target f) (fh_proc f))"

text \<open>One step of the thread: the critical section at the head of the loop, or the wait.\<close>

definition RunFileHandler_turn :: "FileHandler \<Rightarrow> FileHandler option" where
  "RunFileHandler_turn f =
     (case fh_pc f of
        Some F_Loop \<Rightarrow>
          let f = f\<lparr>fh_current_process := PROCESS_NONE\<rparr> in
          if \<not> fh_stopped f \<and> cbuf_is_empty (fh_queue f) then Some (f\<lparr>fh_pc := Some F_Sleep\<rparr>)
          else if fh_stopped f then Some (f\<lparr>fh_pc := Some F_Done\<rparr>)
          else do {
            (r, q) \<leftarrow> cbuf_take (fh_queue f);
            c_assert (r \<noteq> None);
            req \<leftarrow> r;
            let f = f\<lparr>fh_queue := q\<rparr>;
            (process, w) \<leftarrow> start_request req f;
            Some (f\<lparr>fh_proc := w, fh_current_process := process, fh_pc := Some (F_Wait req process)\<rparr>)
          }
      | Some (F_Wait req process) \<Rightarrow>
          let (ok, w) = process_check_success process (fh_proc f)
          in Some (f\<lparr>fh_proc := w, fh_handled := fh_handled f @ [(req, ok)], fh_freed := fh_freed f @ [fr_file req],
                    fh_pc := Some F_Loop\<rparr>)
      | _ \<Rightarrow> Some f)"

definition FileHandler_Stop :: "FileHandler \<Rightarrow> FileHandler option" where
  "FileHandler_Stop f = do {
     let f = fh_signal (f\<lparr>fh_stopped := True\<rparr>);
     if fh_current_process f \<noteq> PROCESS_NONE then do {
       (ok, w) \<leftarrow> cmd_terminate (fh_current_process f) (fh_proc f);
       let (ok, code, w) = cmd_simple_wait (fh_current_process f) w;
       Some (f\<lparr>fh_proc := w, fh_current_process := PROCESS_NONE\<rparr>)
     } else Some f
   }"

inductive file_step :: "FileHandler \<times> sdl \<Rightarrow> FileHandler \<times> sdl \<Rightarrow> bool" where
  fh_request: "FileHandler_Request action file f d = Some (res, f', d') \<Longrightarrow> file_step (f, d) (f', d')"
| fh_stop: "FileHandler_Stop f = Some f' \<Longrightarrow> file_step (f, d) (f', d)"
| fh_turn: "RunFileHandler_turn f = Some f' \<Longrightarrow> file_step (f, d) (f', d)"
| fh_spurious: "fh_pc f = Some F_Sleep \<Longrightarrow> file_step (f, d) (f\<lparr>fh_pc := Some F_Loop\<rparr>, d)"

inductive_cases file_stepE: "file_step x y"

subsection \<open>The invariant\<close>

definition file_start :: "string option \<Rightarrow> string \<Rightarrow> proc_world \<Rightarrow> FileHandler" where
  "file_start serial target w = \<lparr>fh_serial = serial, fh_push_target = target, fh_initialized = False,
     fh_current_process = PROCESS_NONE, fh_queue = CBUF \<lparr>fr_action = ACTION_INSTALL_APK, fr_file = []\<rparr> FILE_QUEUE_SIZE,
     fh_stopped = False, fh_pc = None, fh_proc = w, fh_accepted = [], fh_handled = [], fh_freed = []\<rparr>"

definition waiting_for :: "fh_pc option \<Rightarrow> FileHandlerRequest list" where
  "waiting_for p = (case p of Some (F_Wait req process) \<Rightarrow> [req] | _ \<Rightarrow> [])"

lemma waiting_for_simps [simp]:
  "waiting_for None = []" "waiting_for (Some F_Loop) = []" "waiting_for (Some F_Sleep) = []"
  "waiting_for (Some F_Done) = []" "waiting_for (Some (F_Wait req p)) = [req]"
  by (simp_all add: waiting_for_def)

definition file_ok :: "FileHandler \<Rightarrow> bool" where
  "file_ok f \<longleftrightarrow> cbuf_inv (fh_queue f) \<and> cbuf_capacity (fh_queue f) = FILE_QUEUE_SIZE \<and> proc_inv (fh_proc f) \<and>
     (fh_pc f = Some F_Sleep \<longrightarrow> cbuf_items (fh_queue f) = [] \<and> \<not> fh_stopped f) \<and>
     (\<not> fh_initialized f \<longrightarrow> fh_pc f = None) \<and>
     fh_accepted f = map fst (fh_handled f) @ waiting_for (fh_pc f) @ cbuf_items (fh_queue f) \<and>
     fh_freed f = map (fr_file \<circ> fst) (fh_handled f) \<and>
     (fh_current_process f \<noteq> PROCESS_NONE \<longrightarrow> 0 < fh_current_process f)"

lemma file_start_ok: "proc_inv w \<Longrightarrow> file_ok (file_start serial target w)"
  by (simp add: file_ok_def file_start_def)

lemma start_request_ok:
  assumes "proc_inv (fh_proc f)"
  shows "\<exists>p w. start_request req f = Some (p, w) \<and> proc_inv w \<and> (p \<noteq> PROCESS_NONE \<longrightarrow> 0 < p)"
proof -
  have pos: "0 < p" if "proc_inv w" "p \<in> pw_children w" for p w using that by (auto simp: proc_inv_def)
  show ?thesis
    using adb_execute_frame [OF assms, of "fh_serial f" "[''install'', ''-r'', fr_file req]"]
      adb_execute_frame [OF assms, of "fh_serial f" "[''push'', fr_file req, fh_push_target f]"] pos
    unfolding start_request_def InstallApk_def PushFile_def adb_install_def adb_push_def by (metis (no_types))
qed

text \<open>The request when the thread exists.\<close>

lemma push_request_ok:
  assumes ok: "file_ok f" and init: "fh_initialized f" and r: "FileHandler_Request action file f d = Some (res, f', d')"
  shows "file_ok f'"
proof -
  let ?req = "\<lparr>fr_action = action, fr_file = file\<rparr>"
  have q: "cbuf_inv (fh_queue f)" using ok by (simp add: file_ok_def)
  from r init obtain q' where q': "cbuf_push (fh_queue f) ?req = Some (res, q')"
    by (auto simp: FileHandler_Request_def Let_def bind_Some_iff)
  have items: "cbuf_inv q'" "cbuf_items q' = cbuf_items (fh_queue f) @ (if res then [?req] else [])"
    using cb.push_result [OF q, of ?req] q' q by auto
  note cap = cb.push_capacity [OF q q'] and e = cb.is_empty [OF q]
  have f': "f' = (let g = f\<lparr>fh_queue := q', fh_accepted := fh_accepted f @ (if res then [?req] else [])\<rparr>
      in if cbuf_is_empty (fh_queue f) then fh_signal g else g)"
    using r init q' by (simp add: FileHandler_Request_def Let_def)
  show ?thesis
  proof (cases "fh_pc f = Some F_Sleep")
    case True
    with ok e have "cbuf_is_empty (fh_queue f)" by (simp add: file_ok_def)
    with True ok items cap init show ?thesis unfolding f' by (simp add: Let_def fh_signal_def file_ok_def)
  next
    case False
    with ok items cap init show ?thesis unfolding f' by (simp add: Let_def fh_signal_def file_ok_def)
  qed
qed

lemma FileHandler_Request_ok:
  assumes ok: "file_ok f" and r: "FileHandler_Request action file f d = Some (res, f', d')"
  shows "file_ok f'"
proof (cases "fh_initialized f")
  case True
  with push_request_ok [OF ok] r show ?thesis by blast
next
  case False
  obtain started f1 d1 where s: "FileHandler_Start f d = (started, f1, d1)" by (rule prod_cases3)
  show ?thesis
  proof (cases started)
    case False
    with s r \<open>\<not> fh_initialized f\<close> ok show ?thesis
      by (auto simp: FileHandler_Request_def FileHandler_Start_def Let_def split: prod.splits if_splits)
  next
    case True
    let ?g = "f\<lparr>fh_pc := Some F_Loop, fh_initialized := True\<rparr>"
    have f1: "f1 = f\<lparr>fh_pc := Some F_Loop\<rparr>"
      using s True by (auto simp: FileHandler_Start_def Let_def split: prod.splits if_splits)
    have g: "file_ok ?g" using ok False by (simp add: file_ok_def)
    have "FileHandler_Request action file ?g d1 = Some (res, f', d')"
      using r s True False f1 by (simp add: FileHandler_Request_def)
    from push_request_ok [OF g _ this] show ?thesis by simp
  qed
qed

lemma RunFileHandler_turn_ok:
  assumes ok: "file_ok f"
  shows "\<exists>f'. RunFileHandler_turn f = Some f' \<and> file_ok f'"
proof -
  have q: "cbuf_inv (fh_queue f)" using ok by (simp add: file_ok_def)
  note e = cb.is_empty [OF q]
  consider (loop) "fh_pc f = Some F_Loop" | (wait) req p where "fh_pc f = Some (F_Wait req p)"
    | (other) "fh_pc f = None \<or> fh_pc f = Some F_Sleep \<or> fh_pc f = Some F_Done"
    by (metis fh_pc.exhaust option.exhaust)
  then show ?thesis
  proof cases
    case loop
    let ?f = "f\<lparr>fh_current_process := PROCESS_NONE\<rparr>"
    show ?thesis
    proof (cases "fh_stopped f \<or> cbuf_items (fh_queue f) = []")
      case True
      with loop ok e show ?thesis by (auto simp: RunFileHandler_turn_def Let_def file_ok_def)
    next
      case False
      then obtain req rs where items: "cbuf_items (fh_queue f) = req # rs" by (cases "cbuf_items (fh_queue f)") auto
      from cb.tke_some [OF q items] obtain q' where
        q': "cbuf_take (fh_queue f) = Some (Some req, q')" "cbuf_inv q'" "cbuf_items q' = rs" by auto
      note cap = cb.tke_capacity [OF q q'(1)]
      let ?g = "?f\<lparr>fh_queue := q'\<rparr>"
      have "proc_inv (fh_proc ?g)" using ok by (simp add: file_ok_def)
      from start_request_ok [OF this, of req] obtain p w where
        s: "start_request req ?g = Some (p, w)" "proc_inv w" "p \<noteq> PROCESS_NONE \<longrightarrow> 0 < p" by blast
      show ?thesis using loop False e items q' cap s ok by (simp add: RunFileHandler_turn_def Let_def file_ok_def)
    qed
  next
    case wait
    obtain r w where c: "process_check_success p (fh_proc f) = (r, w)" by fastforce
    have "proc_inv w" using process_check_frame [OF c] ok by (auto simp: file_ok_def)
    with wait c ok show ?thesis by (simp add: RunFileHandler_turn_def file_ok_def)
  next
    case other
    with ok show ?thesis by (auto simp: RunFileHandler_turn_def)
  qed
qed

lemma cmd_simple_wait_inv: "proc_inv w \<Longrightarrow> cmd_simple_wait p w = (ok, code, w') \<Longrightarrow> proc_inv w'"
  by (auto simp: cmd_simple_wait_def proc_inv_def Let_def split: prod.splits if_splits list.splits)

lemma FileHandler_Stop_ok:
  assumes ok: "file_ok f"
  shows "\<exists>f'. FileHandler_Stop f = Some f' \<and> file_ok f'"
proof -
  let ?f = "fh_signal (f\<lparr>fh_stopped := True\<rparr>)"
  have ok1: "file_ok ?f" using ok by (auto simp: file_ok_def fh_signal_def)
  show ?thesis
  proof (cases "fh_current_process ?f = PROCESS_NONE")
    case True
    with ok1 show ?thesis by (simp add: FileHandler_Stop_def Let_def)
  next
    case False
    then have "0 < fh_current_process ?f" using ok1 by (simp add: file_ok_def)
    then obtain k w where t: "cmd_terminate (fh_current_process ?f) (fh_proc ?f) = Some (k, w)" "proc_inv w"
      using ok1 by (cases "pw_kills (fh_proc ?f)") (auto simp: cmd_terminate_def file_ok_def proc_inv_def)
    obtain r code w' where s: "cmd_simple_wait (fh_current_process ?f) w = (r, code, w')" by (rule prod_cases3)
    from cmd_simple_wait_inv [OF t(2) s] have "file_ok (?f\<lparr>fh_proc := w', fh_current_process := PROCESS_NONE\<rparr>)"
      using ok1 by (simp add: file_ok_def)
    with False t(1) s show ?thesis by (simp add: FileHandler_Stop_def Let_def)
  qed
qed

lemma file_steps_ok: "file_step\<^sup>*\<^sup>* x y \<Longrightarrow> file_ok (fst x) \<Longrightarrow> file_ok (fst y)"
proof (induction rule: rtranclp_induct)
  case (step y z)
  from step.hyps(2) step.IH [OF step.prems] show ?case
  proof (cases rule: file_step.cases)
    case (fh_request action fname f d res f' d')
    with step.IH [OF step.prems] show ?thesis by (simp add: FileHandler_Request_ok)
  next
    case (fh_stop f f' d)
    with step.IH [OF step.prems] FileHandler_Stop_ok [of f] show ?thesis by auto
  next
    case (fh_turn f f' d)
    with step.IH [OF step.prems] RunFileHandler_turn_ok [of f] show ?thesis by auto
  next
    case (fh_spurious f d)
    with step.IH [OF step.prems] show ?thesis by (auto simp: file_ok_def)
  qed
qed

lemma destroy_requests_frees:
  assumes "cbuf_inv q" and "length (cbuf_items q) < n"
  shows "\<exists>q'. destroy_requests n q freed = Some (q', freed @ map fr_file (cbuf_items q)) \<and> cbuf_items q' = []"
  using assms
proof (induction n arbitrary: q freed)
  case (Suc n)
  show ?case
  proof (cases "cbuf_items q")
    case Nil
    with cb.tke_empty [OF Suc.prems(1)] show ?thesis by simp
  next
    case (Cons r rs)
    from cb.tke_some [OF Suc.prems(1) this] obtain q' where
      q': "cbuf_take q = Some (Some r, q')" "cbuf_inv q'" "cbuf_items q' = rs" by auto
    with Suc.IH [OF q'(2), of "freed @ [fr_file r]"] Suc.prems(2) Cons show ?thesis by simp
  qed
qed simp

subsection \<open>Properties\<close>

text \<open>C13. In every interleaving of requests, stops, turns of the thread and spurious wake-ups, however
  \<^verbatim>\<open>adb\<close> behaves: the next step of the thread and a stop are defined, so no assertion fails; no
  wake-up is lost; requests are handled in the order accepted, each once; and when the thread has
  returned, destroying the handler has released the name of every accepted file exactly once.\<close>

theorem file_handler_requests:
  assumes "file_step\<^sup>*\<^sup>* (file_start serial target w, d0) (f, d)" and "proc_inv w"
  shows "(\<exists>f'. RunFileHandler_turn f = Some f') \<and> (\<exists>f'. FileHandler_Stop f = Some f') \<and>
    (fh_pc f = Some F_Sleep \<longrightarrow> cbuf_items (fh_queue f) = [] \<and> \<not> fh_stopped f) \<and>
    fh_accepted f = map fst (fh_handled f) @ waiting_for (fh_pc f) @ cbuf_items (fh_queue f) \<and>
    (fh_pc f = Some F_Done \<longrightarrow> (\<exists>f' d'. FileHandler_Destroy f d = Some (f', d') \<and> fh_freed f' = map fr_file (fh_accepted f)))"
proof -
  have ok: "file_ok f" using file_steps_ok [OF assms(1)] file_start_ok [OF assms(2)] by simp
  then have q: "cbuf_inv (fh_queue f)" by (simp add: file_ok_def)
  have "length (cbuf_items (fh_queue f)) < cbuf_size (fh_queue f)"
  proof -
    have "0 < cbuf_size (fh_queue f)" using q by (simp add: cbuf_inv_def)
    with cb.within [OF q] show ?thesis unfolding cbuf_capacity_def by linarith
  qed
  from destroy_requests_frees [OF q this, of "fh_freed f"] obtain q' where
    "destroy_requests (cbuf_size (fh_queue f)) (fh_queue f) (fh_freed f) =
      Some (q', fh_freed f @ map fr_file (cbuf_items (fh_queue f)))" by blast
  with ok have "fh_pc f = Some F_Done \<longrightarrow>
      (\<exists>f' d'. FileHandler_Destroy f d = Some (f', d') \<and> fh_freed f' = map fr_file (fh_accepted f))"
    by (auto simp: FileHandler_Destroy_def file_ok_def)
  moreover have "\<exists>f'. RunFileHandler_turn f = Some f'" "\<exists>f'. FileHandler_Stop f = Some f'"
    using RunFileHandler_turn_ok [OF ok] FileHandler_Stop_ok [OF ok] by blast+
  moreover have "fh_pc f = Some F_Sleep \<longrightarrow> cbuf_items (fh_queue f) = [] \<and> \<not> fh_stopped f"
    "fh_accepted f = map fst (fh_handled f) @ waiting_for (fh_pc f) @ cbuf_items (fh_queue f)"
    using ok by (simp_all add: file_ok_def)
  ultimately show ?thesis by blast
qed

definition quiet_proc :: proc_world where
  "quiet_proc = \<lparr>pw_net = quiet_net [], pw_ndebug = False, pw_env = (\<lambda>_. None), pw_adb_command = None,
     pw_regular = (\<lambda>_. False), pw_exec = [], pw_exits = [], pw_kills = [], pw_next = 100, pw_children = {}, pw_fds = 0,
     pw_commands = []\<rparr>"

text \<open>
  Between the end of the wait and the next critical section the process of the last request is
  still the current one, although it has been waited for: a stop then signals a process that is
  no child any more.
\<close>

lemma stop_signals_ended_process:
  assumes "fh_pc f = Some (F_Wait req p)" and "fh_current_process f = p" and "p \<noteq> PROCESS_NONE" and "proc_inv (fh_proc f)"
    and "RunFileHandler_turn f = Some f'"
  shows "fh_current_process f' = p \<and> p \<notin> pw_children (fh_proc f')"
proof -
  obtain r w where c: "process_check_success p (fh_proc f) = (r, w)" by fastforce
  with process_check_frame [OF c assms(4)] assms(3) have "p \<notin> pw_children w" by blast
  with assms c show ?thesis by (auto simp: RunFileHandler_turn_def)
qed

theorem file_handler_requests_witness:
  "\<exists>f d. file_step\<^sup>*\<^sup>* (file_start None ''/sdcard/'' quiet_proc, \<lparr>sdl_answers = [True], sdl_live = 2, sdl_threads = 0\<rparr>) (f, d) \<and>
     fh_accepted f = [\<lparr>fr_action = ACTION_INSTALL_APK, fr_file = ''a.apk''\<rparr>] \<and> (\<exists>f'. RunFileHandler_turn f = Some f')"
proof -
  let ?s = "file_start None ''/sdcard/'' quiet_proc"
  let ?d = "\<lparr>sdl_answers = [True], sdl_live = 2, sdl_threads = 0\<rparr> :: sdl"
  obtain f d where r: "FileHandler_Request ACTION_INSTALL_APK ''a.apk'' ?s ?d = Some (True, f, d)"
    and a: "fh_accepted f = [\<lparr>fr_action = ACTION_INSTALL_APK, fr_file = ''a.apk''\<rparr>]"
    by (simp add: FileHandler_Request_def FileHandler_Start_def SDL_CreateThread_def sdl_answer_def file_start_def
      cbuf_push_def cbuf_is_full_def cbuf_is_empty_def CBUF_def cbuf_size_def FILE_QUEUE_SIZE_def store_def fh_signal_def Let_def)
  have st: "file_step\<^sup>*\<^sup>* (?s, ?d) (f, d)" by (rule r_into_rtranclp, rule file_step.fh_request, rule r)
  from file_handler_requests [OF st] st a show ?thesis by (auto simp: quiet_proc_def proc_inv_def)
qed

end
