(* ===== verification/Input_Manager.thy ===== *)
theory Input_Manager
  imports Agent_Manager File_Handler Float_Arith
begin

section \<open>The input manager (src/src/ui/input_manager.cpp, input_manager.hpp)\<close>

text \<open>
  The handlers of the main thread: they turn the events of the user into control messages for the
  device, operations of the window, requests to the file handler, and switch the frame counter.
  The state joins those of the components called; the texts that \<open>SDL_free\<close> releases are recorded
  in \<open>im_freed\<close>. A text that \<open>SDL_GetClipboardText\<close> or \<open>SDL_strdup\<close> allocates is either released
  here or owned by the message that was pushed.
\<close>

subsection \<open>State\<close>

record InputManager =
  im_am :: AgentManager
  im_screen :: Screen
  im_display :: display
  im_fh :: FileHandler
  im_sdl :: sdl
  im_prefer_text :: bool
  im_freed :: "string list"

text \<open>
  What the calls of one event return, beyond those of the agent: the clipboard, whether a text can
  be copied, the position of the mouse, the viewport and the scale of the renderer, and the size
  of each picture.
\<close>

record input_env = agent_env +
  ie_clipboard :: "string option"
  ie_strdup :: bool
  ie_mouse :: "int \<times> int"
  ie_viewport :: "int \<times> int"
  ie_scale :: "c_float \<times> c_float"
  ie_thread :: bool
  ie_dims :: "nat \<Rightarrow> int \<times> int"

text \<open>A call of \<open>agent_manager->PushDeviceControlMessage\<close>.\<close>

definition push_message :: "input_env \<Rightarrow> ControlMessage \<Rightarrow> InputManager \<Rightarrow> (bool \<times> InputManager) option" where
  "push_message env msg s = do {
     (ok, am) \<leftarrow> PushDeviceControlMessage (agent_env.truncate env) msg (im_am s);
     Some (ok, s\<lparr>im_am := am\<rparr>)
   }"

definition SDL_free :: "string \<Rightarrow> InputManager \<Rightarrow> InputManager" where
  "SDL_free t s = s\<lparr>im_freed := im_freed s @ [t]\<rparr>"

subsection \<open>Requests to the device\<close>

definition ACTION_DOWN :: u32 where "ACTION_DOWN = 1"

definition ACTION_UP :: u32 where "ACTION_UP = push_bit 1 1"

definition keycode_message :: "u32 \<Rightarrow> u32 \<Rightarrow> u32 \<Rightarrow> ControlMessage" where
  "keycode_message action keycode metastate =
     \<lparr>cm_type = CONTROL_MSG_TYPE_INJECT_KEYCODE,
      cm_body = BodyKeycode \<lparr>ik_action = action, ik_keycode = keycode, ik_metastate = metastate\<rparr>\<rparr>"

definition SendKeycode :: "input_env \<Rightarrow> u32 \<Rightarrow> u32 \<Rightarrow> InputManager \<Rightarrow> InputManager option" where
  "SendKeycode env keycode actions s = do {
     (go, s) \<leftarrow> (if actions AND ACTION_DOWN \<noteq> 0
       then push_message env (keycode_message (key_action_code AKEY_EVENT_ACTION_DOWN) keycode 0) s
       else Some (True, s));
     if \<not> go then Some s
     else if actions AND ACTION_UP \<noteq> 0 then
       map_option snd (push_message env (keycode_message (key_action_code AKEY_EVENT_ACTION_UP) keycode 0) s)
     else Some s
   }"

definition ActionHome :: "input_env \<Rightarrow> u32 \<Rightarrow> InputManager \<Rightarrow> InputManager option" where
  "ActionHome env actions = SendKeycode env AKEYCODE_HOME actions"

definition ActionBack :: "input_env \<Rightarrow> u32 \<Rightarrow> InputManager \<Rightarrow> InputManager option" where
  "ActionBack env actions = SendKeycode env AKEYCODE_BACK actions"

definition ActionAppSwitch :: "input_env \<Rightarrow> u32 \<Rightarrow> InputManager \<Rightarrow> InputManager option" where
  "ActionAppSwitch env actions = SendKeycode env AKEYCODE_APP_SWITCH actions"

definition ActionPower :: "input_env \<Rightarrow> u32 \<Rightarrow> InputManager \<Rightarrow> InputManager option" where
  "ActionPower env actions = SendKeycode env AKEYCODE_POWER actions"

definition ActionVolumeUp :: "input_env \<Rightarrow> u32 \<Rightarrow> InputManager \<Rightarrow> InputManager option" where
  "ActionVolumeUp env actions = SendKeycode env AKEYCODE_VOLUME_UP actions"

definition ActionVolumeDown :: "input_env \<Rightarrow> u32 \<Rightarrow> InputManager \<Rightarrow> InputManager option" where
  "ActionVolumeDown env actions = SendKeycode env AKEYCODE_VOLUME_DOWN actions"

definition ActionMenu :: "input_env \<Rightarrow> u32 \<Rightarrow> InputManager \<Rightarrow> InputManager option" where
  "ActionMenu env actions = SendKeycode env AKEYCODE_MENU actions"

text \<open>A message that carries nothing, as five of the requests build and push it.\<close>

definition push_simple :: "input_env \<Rightarrow> ControlMessageType \<Rightarrow> InputManager \<Rightarrow> InputManager option" where
  "push_simple env t s = map_option snd (push_message env \<lparr>cm_type = t, cm_body = Unwritten\<rparr> s)"

definition PressBackOrTurnScreenOn :: "input_env \<Rightarrow> InputManager \<Rightarrow> InputManager option" where
  "PressBackOrTurnScreenOn env = push_simple env CONTROL_MSG_TYPE_BACK_OR_SCREEN_ON"

definition ExpandNotificationPanel :: "input_env \<Rightarrow> InputManager \<Rightarrow> InputManager option" where
  "ExpandNotificationPanel env = push_simple env CONTROL_MSG_TYPE_EXPAND_NOTIFICATION_PANEL"

definition CollapseNotificationPanel :: "input_env \<Rightarrow> InputManager \<Rightarrow> InputManager option" where
  "CollapseNotificationPanel env = push_simple env CONTROL_MSG_TYPE_COLLAPSE_NOTIFICATION_PANEL"

definition RequestDeviceClipboard :: "input_env \<Rightarrow> InputManager \<Rightarrow> InputManager option" where
  "RequestDeviceClipboard env = push_simple env CONTROL_MSG_TYPE_GET_CLIPBOARD"

definition RotateDevice :: "input_env \<Rightarrow> InputManager \<Rightarrow> InputManager option" where
  "RotateDevice env = push_simple env CONTROL_MSG_TYPE_ROTATE_DEVICE"

definition SetScreenPowerMode :: "input_env \<Rightarrow> ScreenPowerMode \<Rightarrow> InputManager \<Rightarrow> InputManager option" where
  "SetScreenPowerMode env mode s =
     map_option snd (push_message env \<lparr>cm_type = CONTROL_MSG_TYPE_SET_SCREEN_POWER_MODE, cm_body = BodyPower mode\<rparr> s)"

text \<open>A message that owns a text: the text is released when the message is not accepted.\<close>

definition push_text :: "input_env \<Rightarrow> ControlMessageType \<Rightarrow> string \<Rightarrow> InputManager \<Rightarrow> InputManager option" where
  "push_text env t txt s = do {
     (ok, s) \<leftarrow> push_message env \<lparr>cm_type = t, cm_body = BodyText (Some txt)\<rparr> s;
     Some (if \<not> ok then SDL_free txt s else s)
   }"

definition push_clipboard :: "input_env \<Rightarrow> ControlMessageType \<Rightarrow> InputManager \<Rightarrow> InputManager option" where
  "push_clipboard env t s =
     (case ie_clipboard env of
        None \<Rightarrow> Some s
      | Some txt \<Rightarrow> if txt = [] then Some (SDL_free txt s) else push_text env t txt s)"

definition SetDeviceClipboard :: "input_env \<Rightarrow> InputManager \<Rightarrow> InputManager option" where
  "SetDeviceClipboard env = push_clipboard env CONTROL_MSG_TYPE_SET_CLIPBOARD"

definition PasteClipboard :: "input_env \<Rightarrow> InputManager \<Rightarrow> InputManager option" where
  "PasteClipboard env = push_clipboard env CONTROL_MSG_TYPE_INJECT_TEXT"

definition SwitchFpsCounterState :: "input_env \<Rightarrow> FpsCounter \<Rightarrow> FpsCounter" where
  "SwitchFpsCounterState env c =
     (if FpsCounter_IsStarted c then FpsCounter_Stop c else snd (FpsCounter_Start (ae_now env) (ie_thread env) c))"

text \<open>Letters of the C locale.\<close>

definition is_alpha :: "char \<Rightarrow> bool" where
  "is_alpha c \<longleftrightarrow> (let n = of_char c :: nat in 97 \<le> n \<and> n \<le> 122 \<or> 65 \<le> n \<and> n \<le> 90)"

text \<open>The text of the event is an array that holds a string.\<close>

definition ProcessTextInput :: "input_env \<Rightarrow> string \<Rightarrow> InputManager \<Rightarrow> InputManager option" where
  "ProcessTextInput env txt s = do {
     skip \<leftarrow> (if \<not> im_prefer_text s then do {
         c \<leftarrow> char_at txt 0;
         if is_alpha c \<or> c = CHR '' '' then do {
           c1 \<leftarrow> char_at txt 1;
           c_assert (c1 = NUL);
           Some True
         } else Some False
       } else Some False);
     if skip then Some s
     else if \<not> ie_strdup env then Some s
     else push_text env CONTROL_MSG_TYPE_INJECT_TEXT txt s
   }"

subsection \<open>Keys\<close>

text \<open>An operation of the window as an operation of the input manager.\<close>

definition on_screen :: "(Screen \<Rightarrow> display \<Rightarrow> (Screen \<times> display) option) \<Rightarrow> InputManager \<Rightarrow> InputManager option" where
  "on_screen f s = do {
     (scr, d) \<leftarrow> f (im_screen s) (im_display s);
     Some (s\<lparr>im_screen := scr, im_display := d\<rparr>)
   }"

definition switch_fps :: "input_env \<Rightarrow> InputManager \<Rightarrow> InputManager" where
  "switch_fps env s =
     (let am = im_am s; vb = am_video am
      in s\<lparr>im_am := am\<lparr>am_video := vb\<lparr>vb_fps := SwitchFpsCounterState env (vb_fps vb)\<rparr>\<rparr>\<rparr>)"

definition ConvertInputKey :: "SDL_KeyboardEvent \<Rightarrow> bool \<Rightarrow> ControlMessage option" where
  "ConvertInputKey from prefer_text = do {
     action \<leftarrow> ConvertKeycodeAction (key_type from);
     let m = key_mod from;
     keycode \<leftarrow> ConvertKeycode (key_sym from) m prefer_text;
     Some (keycode_message action keycode (ConvertMetaState m))
   }"

text \<open>
  The shortcuts of \<open>ProcessKey\<close>, on a platform other than macOS: those that press a key of the
  device, those that ask the device for something, and those for the window.
\<close>

definition key_shortcut :: "input_env \<Rightarrow> SDL_Keycode \<Rightarrow> u32 \<Rightarrow> bool \<Rightarrow> bool \<Rightarrow> bool \<Rightarrow> InputManager \<Rightarrow> InputManager option" where
  "key_shortcut env keycode action ok shift repeat s =
     (case keycode of
        SDLK_h \<Rightarrow> if ok \<and> \<not> shift \<and> \<not> repeat then ActionHome env action s else Some s
      | SDLK_b \<Rightarrow> if ok \<and> \<not> shift \<and> \<not> repeat then ActionBack env action s else Some s
      | SDLK_BACKSPACE \<Rightarrow> if ok \<and> \<not> shift \<and> \<not> repeat then ActionBack env action s else Some s
      | SDLK_s \<Rightarrow> if ok \<and> \<not> shift \<and> \<not> repeat then ActionAppSwitch env action s else Some s
      | SDLK_m \<Rightarrow> if ok \<and> \<not> shift \<and> \<not> repeat then ActionMenu env action s else Some s
      | SDLK_p \<Rightarrow> if ok \<and> \<not> shift \<and> \<not> repeat then ActionPower env action s else Some s
      | SDLK_DOWN \<Rightarrow> if ok \<and> \<not> shift then ActionVolumeDown env action s else Some s
      | SDLK_UP \<Rightarrow> if ok \<and> \<not> shift then ActionVolumeUp env action s else Some s
      | _ \<Rightarrow> Some s)"

definition request_shortcut :: "input_env \<Rightarrow> SDL_Keycode \<Rightarrow> bool \<Rightarrow> bool \<Rightarrow> bool \<Rightarrow> bool \<Rightarrow> InputManager \<Rightarrow> InputManager option" where
  "request_shortcut env keycode ok shift repeat down s =
     (case keycode of
        SDLK_o \<Rightarrow> if ok \<and> \<not> shift \<and> down then SetScreenPowerMode env SCREEN_POWER_MODE_OFF s else Some s
      | SDLK_c \<Rightarrow> if ok \<and> \<not> shift \<and> \<not> repeat \<and> down then RequestDeviceClipboard env s else Some s
      | SDLK_v \<Rightarrow>
          if ok \<and> \<not> repeat \<and> down
          then if shift then SetDeviceClipboard env s else PasteClipboard env s
          else Some s
      | SDLK_n \<Rightarrow>
          if ok \<and> \<not> repeat \<and> down
          then if shift then CollapseNotificationPanel env s else ExpandNotificationPanel env s
          else Some s
      | SDLK_r \<Rightarrow> if ok \<and> \<not> shift \<and> \<not> repeat \<and> down then RotateDevice env s else Some s
      | _ \<Rightarrow> Some s)"

definition window_shortcut :: "input_env \<Rightarrow> SDL_Keycode \<Rightarrow> bool \<Rightarrow> bool \<Rightarrow> bool \<Rightarrow> bool \<Rightarrow> InputManager \<Rightarrow> InputManager option" where
  "window_shortcut env keycode cmd shift repeat down s =
     (if \<not> shift \<and> cmd \<and> \<not> repeat \<and> down then
        case keycode of
          SDLK_f \<Rightarrow> on_screen SwitchFullscreen s
        | SDLK_x \<Rightarrow> on_screen ResizeToFit s
        | SDLK_g \<Rightarrow> on_screen ResizeToPixelPerfect s
        | SDLK_i \<Rightarrow> Some (switch_fps env s)
        | _ \<Rightarrow> Some s
      else Some s)"

definition device_keys :: "SDL_Keycode set" where
  "device_keys = {SDLK_h, SDLK_b, SDLK_BACKSPACE, SDLK_s, SDLK_m, SDLK_p, SDLK_DOWN, SDLK_UP}"

definition request_keys :: "SDL_Keycode set" where
  "request_keys = {SDLK_o, SDLK_c, SDLK_v, SDLK_n, SDLK_r}"

text \<open>The switch: each key belongs to one of the three groups, or to none.\<close>

definition ctrl_shortcut :: "input_env \<Rightarrow> SDL_KeyboardEvent \<Rightarrow> bool \<Rightarrow> InputManager \<Rightarrow> InputManager option" where
  "ctrl_shortcut env event control s =
     (let ctrl = ctrl_key (key_mod event); cmd = ctrl;
          keycode = key_sym event;
          down = (key_type event = SDL_KEYDOWN);
          action = (if down then ACTION_DOWN else ACTION_UP);
          repeat = (key_repeat event \<noteq> 0);
          shift = shift_key (key_mod event)
      in if keycode \<in> device_keys then key_shortcut env keycode action (control \<and> cmd) shift repeat s
         else if keycode \<in> request_keys then request_shortcut env keycode (control \<and> cmd) shift repeat down s
         else window_shortcut env keycode cmd shift repeat down s)"

definition ProcessKey :: "input_env \<Rightarrow> SDL_KeyboardEvent \<Rightarrow> bool \<Rightarrow> InputManager \<Rightarrow> InputManager option" where
  "ProcessKey env event control s =
     (let ctrl = ctrl_key (key_mod event); alt = alt_key (key_mod event); meta = meta_key (key_mod event) in
      if meta then Some s
      else let cmd = ctrl in
        if alt then Some s
        else if ctrl \<or> cmd then ctrl_shortcut env event control s
        else if \<not> control then Some s
        else (case ConvertInputKey event (im_prefer_text s) of
                None \<Rightarrow> Some s
              | Some msg \<Rightarrow> map_option snd (push_message env msg s)))"

subsection \<open>Mouse and fingers\<close>

abbreviation "SDL_TOUCH_MOUSEID \<equiv> - 1 :: u32"
abbreviation "SDL_BUTTON_LEFT \<equiv> 1 :: u8"
abbreviation "SDL_BUTTON_MIDDLE \<equiv> 2 :: u8"
abbreviation "SDL_BUTTON_RIGHT \<equiv> 3 :: u8"

text \<open>\<^verbatim>\<open>SDL_BUTTON(x)\<close> is \<open>1 << (x - 1)\<close>, on \<open>int\<close>.\<close>

definition SDL_BUTTON :: "u8 \<Rightarrow> u32 option" where
  "SDL_BUTTON b = (if b = 0 \<or> 31 < b then None else Some (push_bit (unat b - 1) 1))"

definition touch_message :: "u32 \<Rightarrow> u32 \<Rightarrow> u64 \<Rightarrow> Position \<Rightarrow> c_float \<Rightarrow> ControlMessage" where
  "touch_message action buttons pointer_id position pressure =
     \<lparr>cm_type = CONTROL_MSG_TYPE_INJECT_TOUCH_EVENT,
      cm_body = BodyTouch \<lparr>it_action = action, it_buttons = buttons, it_pointer_id = pointer_id,
        it_position = position, it_pressure = pressure\<rparr>\<rparr>"

definition ConvertMouseMotion :: "SDL_MouseMotionEvent \<Rightarrow> Screen \<Rightarrow> ControlMessage" where
  "ConvertMouseMotion from scr =
     touch_message (motion_action_code AMOTION_EVENT_ACTION_MOVE) (ConvertMouseButtons (mm_state from)) POINTER_ID_MOUSE
       \<lparr>screen_size = scr_frame_size scr, point = \<lparr>pt_x = mm_x from, pt_y = mm_y from\<rparr>\<rparr> (Fin 1)"

definition ProcessMouseMotion :: "input_env \<Rightarrow> SDL_MouseMotionEvent \<Rightarrow> InputManager \<Rightarrow> InputManager option" where
  "ProcessMouseMotion env event s =
     (if mm_state event = 0 then Some s
      else if mm_which event = SDL_TOUCH_MOUSEID then Some s
      else map_option snd (push_message env (ConvertMouseMotion event (im_screen s)) s))"

text \<open>The inner option is the result false; the outer one is a coordinate that is no \<open>int\<close>.\<close>

definition ConvertTouch :: "SDL_TouchFingerEvent \<Rightarrow> Screen \<Rightarrow> ControlMessage option option" where
  "ConvertTouch from scr =
     (case ConvertTouchAction (tf_type from) of
        None \<Rightarrow> Some None
      | Some action \<Rightarrow> do {
          let frame_size = scr_frame_size scr;
          x \<leftarrow> float_to_int (float_mult (tf_x from) (Fin (of_nat (unat (width frame_size)))));
          y \<leftarrow> float_to_int (float_mult (tf_y from) (Fin (of_nat (unat (height frame_size)))));
          Some (Some (touch_message action 0 (tf_finger from)
            \<lparr>screen_size = frame_size, point = \<lparr>pt_x = of_int x, pt_y = of_int y\<rparr>\<rparr> (tf_pressure from)))
        })"

definition ProcessTouch :: "input_env \<Rightarrow> SDL_TouchFingerEvent \<Rightarrow> InputManager \<Rightarrow> InputManager option" where
  "ProcessTouch env event s = do {
     msg \<leftarrow> ConvertTouch event (im_screen s);
     case msg of None \<Rightarrow> Some s | Some msg \<Rightarrow> map_option snd (push_message env msg s)
   }"

definition IsOutsideDeviceScreen :: "u32 \<Rightarrow> u32 \<Rightarrow> Screen \<Rightarrow> bool" where
  "IsOutsideDeviceScreen x y scr \<longleftrightarrow>
     sint x < 0 \<or> sint x \<ge> uint (width (scr_frame_size scr)) \<or>
     sint y < 0 \<or> sint y \<ge> uint (height (scr_frame_size scr))"

definition ConvertMouseButton :: "SDL_MouseButtonEvent \<Rightarrow> Screen \<Rightarrow> ControlMessage option option" where
  "ConvertMouseButton from scr =
     (case ConvertMouseAction (mb_type from) of
        None \<Rightarrow> Some None
      | Some action \<Rightarrow> do {
          mask \<leftarrow> SDL_BUTTON (mb_button from);
          Some (Some (touch_message action (ConvertMouseButtons mask) POINTER_ID_MOUSE
            \<lparr>screen_size = scr_frame_size scr, point = \<lparr>pt_x = mb_x from, pt_y = mb_y from\<rparr>\<rparr> (Fin 1)))
        })"

text \<open>The rest of \<open>ProcessMouseButton\<close>, when no shortcut of the buttons applies.\<close>

definition forward_button :: "input_env \<Rightarrow> SDL_MouseButtonEvent \<Rightarrow> bool \<Rightarrow> InputManager \<Rightarrow> InputManager option" where
  "forward_button env event control s =
     (if \<not> control then Some s
      else do {
        msg \<leftarrow> ConvertMouseButton event (im_screen s);
        case msg of None \<Rightarrow> Some s | Some msg \<Rightarrow> map_option snd (push_message env msg s)
      })"

definition ProcessMouseButton :: "input_env \<Rightarrow> SDL_MouseButtonEvent \<Rightarrow> bool \<Rightarrow> InputManager \<Rightarrow> InputManager option" where
  "ProcessMouseButton env event control s =
     (if mb_which event = SDL_TOUCH_MOUSEID then Some s
      else if mb_type event = SDL_MOUSEBUTTONDOWN then
        if control \<and> mb_button event = SDL_BUTTON_RIGHT then PressBackOrTurnScreenOn env s
        else if control \<and> mb_button event = SDL_BUTTON_MIDDLE then ActionHome env (ACTION_DOWN OR ACTION_UP) s
        else if mb_button event = SDL_BUTTON_LEFT \<and> mb_clicks event = 2
             \<and> IsOutsideDeviceScreen (mb_x event) (mb_y event) (im_screen s)
        then on_screen ResizeToFit s
        else forward_button env event control s
      else forward_button env event control s)"

definition ConvertToRendererCoordinates :: "input_env \<Rightarrow> int \<Rightarrow> int \<Rightarrow> (int \<times> int) option" where
  "ConvertToRendererCoordinates env x y = do {
     x \<leftarrow> float_to_int (float_div (f32 (of_int x)) (fst (ie_scale env)));
     y \<leftarrow> float_to_int (float_div (f32 (of_int y)) (snd (ie_scale env)));
     x \<leftarrow> checked_int (x - fst (ie_viewport env));
     y \<leftarrow> checked_int (y - snd (ie_viewport env));
     Some (x, y)
   }"

definition GetMousePoint :: "input_env \<Rightarrow> Point option" where
  "GetMousePoint env = do {
     (x, y) \<leftarrow> ConvertToRendererCoordinates env (fst (ie_mouse env)) (snd (ie_mouse env));
     Some \<lparr>pt_x = of_int x, pt_y = of_int y\<rparr>
   }"

definition ConvertMouseWheel :: "input_env \<Rightarrow> SDL_MouseWheelEvent \<Rightarrow> Screen \<Rightarrow> ControlMessage option" where
  "ConvertMouseWheel env from scr = do {
     p \<leftarrow> GetMousePoint env;
     let position = \<lparr>screen_size = scr_frame_size scr, point = p\<rparr>;
     Some \<lparr>cm_type = CONTROL_MSG_TYPE_INJECT_SCROLL_EVENT,
           cm_body = BodyScroll \<lparr>is_position = position, is_hscroll = mw_x from, is_vscroll = mw_y from\<rparr>\<rparr>
   }"

definition ProcessMouseWheel :: "input_env \<Rightarrow> SDL_MouseWheelEvent \<Rightarrow> InputManager \<Rightarrow> InputManager option" where
  "ProcessMouseWheel env event s = do {
     msg \<leftarrow> ConvertMouseWheel env event (im_screen s);
     map_option snd (push_message env msg s)
   }"

subsection \<open>Events\<close>

text \<open>\<open>strrchr\<close> finds the last point; the extension is what follows, with the point.\<close>

fun from_last_point :: "string \<Rightarrow> string option" where
  "from_last_point [] = None"
| "from_last_point (c # s) =
     (case from_last_point s of Some e \<Rightarrow> Some e | None \<Rightarrow> if c = CHR ''.'' then Some (c # s) else None)"

definition IsApk :: "string \<Rightarrow> bool" where
  "IsApk file \<longleftrightarrow> (case from_last_point file of None \<Rightarrow> False | Some ext \<Rightarrow> ext = ''.apk'')"

definition handle_new_frame :: "input_env \<Rightarrow> InputManager \<Rightarrow> InputManager option" where
  "handle_new_frame env s = do {
     s \<leftarrow> (if \<not> scr_has_frame (im_screen s) then do {
            let scr = (im_screen s)\<lparr>scr_has_frame := True\<rparr>;
            d \<leftarrow> ShowWindow scr (im_display s);
            Some (s\<lparr>im_screen := scr, im_display := d\<rparr>)
          } else Some s);
     (ok, vb, scr, d) \<leftarrow> UpdateFrame (ie_dims env) (ae_now env) (am_video (im_am s)) (im_screen s) (im_display s);
     Some (s\<lparr>im_am := (im_am s)\<lparr>am_video := vb\<rparr>, im_screen := scr, im_display := d\<rparr>)
   }"

definition handle_drop :: "string \<Rightarrow> InputManager \<Rightarrow> InputManager option" where
  "handle_drop fname s =
     (let action = (if IsApk fname then ACTION_INSTALL_APK else ACTION_PUSH_FILE) in
      if scr_file_handler (im_screen s) then do {
        (_, f, d) \<leftarrow> FileHandler_Request action fname (im_fh s) (im_sdl s);
        Some (s\<lparr>im_fh := f, im_sdl := d\<rparr>)
      } else Some s)"

definition dispatch_event :: "input_env \<Rightarrow> SDL_Event \<Rightarrow> bool \<Rightarrow> InputManager \<Rightarrow> InputManager option" where
  "dispatch_event env event control s =
     (case event of
        EVENT_NEW_FRAME \<Rightarrow> handle_new_frame env s
      | SDL_WINDOWEVENT e \<Rightarrow> on_screen (HandleWindowEvent e) s
      | SDL_TEXTINPUT txt \<Rightarrow> if \<not> control then Some s else ProcessTextInput env txt s
      | SDL_KEY key \<Rightarrow> ProcessKey env key control s
      | SDL_MOUSEMOTION motion \<Rightarrow> if \<not> control then Some s else ProcessMouseMotion env motion s
      | SDL_MOUSEWHEEL wheel \<Rightarrow> if \<not> control then Some s else ProcessMouseWheel env wheel s
      | SDL_MOUSEBUTTON button \<Rightarrow> ProcessMouseButton env button control s
      | SDL_FINGER finger \<Rightarrow> ProcessTouch env finger s
      | SDL_DROPFILE fname \<Rightarrow> if \<not> control then Some s else handle_drop fname s
      | _ \<Rightarrow> Some s)"

definition HandleEvent :: "input_env \<Rightarrow> SDL_Event \<Rightarrow> bool \<Rightarrow> InputManager \<Rightarrow> (EventResult \<times> InputManager) option" where
  "HandleEvent env event control s = do {
     (result, am) \<leftarrow> AgentManager_HandleEvent (agent_env.truncate env) event True (im_am s);
     let s = s\<lparr>im_am := am\<rparr>;
     if result = EVENT_RESULT_CONTINUE then do {
       s \<leftarrow> dispatch_event env event control s;
       Some (result, s)
     } else Some (result, s)
   }"

text \<open>The loop over the events to come, each with what its calls return; it ends in error after them.\<close>

fun EventLoop :: "(input_env \<times> SDL_Event) list \<Rightarrow> bool \<Rightarrow> InputManager \<Rightarrow> (bool \<times> InputManager) option" where
  "EventLoop [] control s = Some (False, s)"
| "EventLoop ((env, event) # events) control s =
     (case HandleEvent env event control s of
        None \<Rightarrow> None
      | Some (result, s) \<Rightarrow>
          (case result of
             EVENT_RESULT_STOPPED_BY_USER \<Rightarrow> Some (True, s)
           | EVENT_RESULT_STOPPED_BY_EOS \<Rightarrow> Some (False, s)
           | EVENT_RESULT_CONTINUE \<Rightarrow> EventLoop events control s))"

end
