(* ===== verification/Input_Events.thy ===== *)
theory Input_Events
  imports Input_Manager "HOL-Library.Multiset"
begin

section \<open>What an event does\<close>

text \<open>
  The facts about the handlers of the input manager.
\<close>

subsection \<open>Positions of fingers\<close>

lemma sint_of_coordinate: "0 \<le> i \<Longrightarrow> i < 65536 \<Longrightarrow> sint (of_int i :: u32) = i"
  by (simp add: signed_of_int signed_take_bit_int_eq_self)

lemma touch_coordinate:
  assumes "0 \<le> x" and "x \<le> 1"
  shows "\<exists>i. Option.bind (Some (float_mult (Fin x) (Fin (of_nat (unat (w :: u16)))))) float_to_int = Some i \<and>
    0 \<le> sint (of_int i :: u32) \<and> sint (of_int i :: u32) \<le> uint w"
proof -
  have n: "unat w < 65536" by simp
  from float_mult_bounds [OF assms n] obtain r where
    r: "float_mult (Fin x) (Fin (of_nat (unat w))) = Fin r" "0 \<le> r" "r \<le> of_nat (unat w)" by blast
  from float_to_int_inside [OF r(2,3) n] obtain i where
    i: "float_to_int (Fin r) = Some i" "0 \<le> i" "i \<le> int (unat w)" by blast
  have "i < 65536" using i(3) n by linarith
  with i(2) have "sint (of_int i :: u32) = i" by (rule sint_of_coordinate)
  with r(1) i show ?thesis by simp
qed


definition shown_screen :: Screen where
  "shown_screen = \<lparr>scr_window = Some 0, scr_renderer = Some 1, scr_texture = Some 2,
     scr_frame_size = \<lparr>width = 1080, height = 1920\<rparr>, scr_windowed_window_size = \<lparr>width = 540, height = 960\<rparr>,
     scr_windowed_window_size_backup = \<lparr>width = 540, height = 960\<rparr>, scr_has_frame = True, scr_fullscreen = False,
     scr_maximized = False, scr_device_screen_size = \<lparr>width = 1080, height = 1920\<rparr>, scr_file_handler = True\<rparr>"


subsection \<open>Sending a message\<close>

lemma JsonSerialize_bodyless:
  assumes "well_formed m" and "cm_type m \<notin> json_printable"
    and "\<forall>s. length (local_time s) \<le> 100" and "0 \<le> snd tv" and "snd tv < 1000000"
  shows "JsonSerialize local_time tv m \<noteq> None"
proof -
  have body: "json_body m = Some []" using assms(2) by (cases "cm_type m") (simp_all add: json_body_def json_printable_def)
  obtain ts where ts: "event_time local_time tv = Some ts" "list_all piece_fits ts" "length (text_of ts) \<le> 200"
    using event_time_ok [OF assms(3-5)] by auto
  have \<open>\<exists>t. print (2 * CONTROL_MSG_SERIALIZED_MAX_SIZE) (''{'' @ NL) (Temp (''    "event_time" : "'') # ts @ [Lit ''}'']) = Some t\<close>
    using ts unfolding print_iff by (simp add: TEMP_SIZE_def text_of_def NL_def CONTROL_MSG_SERIALIZED_MAX_SIZE_def
      CONTROL_MSG_CLIPBOARD_TEXT_MAX_LENGTH_def)
  with ts(1) body show ?thesis by (simp add: JsonSerialize_def del: print.simps)
qed

lemma JsonSerialize_defined:
  assumes "well_formed m" and "json_fits (cm_body m) \<or> cm_type m \<noteq> CONTROL_MSG_TYPE_INJECT_TEXT"
    and time: "\<forall>s. length (local_time s) \<le> 100" "0 \<le> snd tv" "snd tv < 1000000"
  shows "JsonSerialize local_time tv m \<noteq> None"
proof (cases "cm_type m \<in> json_printable")
  case True
  then have "json_fits (cm_body m)"
    using assms(1,2) unfolding well_formed_def
    by (cases "(cm_type m, cm_body m)" rule: wire_body.cases) (auto simp: json_printable_def)
  with JsonSerialize_layout [OF assms(1) True time] show ?thesis by simp
next
  case False
  with JsonSerialize_bodyless [OF assms(1) _ time] show ?thesis by blast
qed

text \<open>
  What the calls of an event may return: the clock is one, and the pictures fit the buffer of the
  stream.
\<close>

definition env_ok :: "input_env \<Rightarrow> bool" where
  "env_ok env \<longleftrightarrow> (\<forall>s. length (ae_local_time env s) \<le> 100) \<and> 0 \<le> snd (ae_tv env) \<and> snd (ae_tv env) < 1000000 \<and>
     malloc_ok (ae_malloc env) \<and>
     (\<forall>n color. 88 + length (im_bytes (fst (ae_images env n color))) + length (im_bytes (snd (ae_images env n color)))
        \<le> BLOB_MSG_SERIALIZED_MAX_SIZE)"

definition input_ok :: "InputManager \<Rightarrow> bool" where
  "input_ok s \<longleftrightarrow> controller_ok (im_am s) \<and> agent_stream_ok (am_stream (im_am s)) \<and>
     screen_ok (im_screen s, im_display s) \<and> file_ok (im_fh s)"

text \<open>The texts that were allocated: released, or owned by a message the controller accepted.\<close>

definition texts :: "InputManager \<Rightarrow> string option multiset" where
  "texts s = mset (map Some (im_freed s)) + mset (concat (map owned (wk_accepted (am_controller (im_am s)))))"

definition text_fine :: "InputManager \<Rightarrow> string \<Rightarrow> bool" where
  "text_fine s t \<longleftrightarrow> utf8_string t \<and> (am_events (im_am s) \<noteq> None \<longrightarrow> length t \<le> 235)"

text \<open>
  What a handler may do to the controller: push well-formed messages, one after the other.
\<close>

inductive fed :: "(ControlMessage, control_env) worker \<Rightarrow> (ControlMessage, control_env) worker \<Rightarrow> bool" where
  fed_refl: "fed c c"
| fed_push: "fed c c1 \<Longrightarrow> well_formed m \<Longrightarrow> Controller_PushMessage c1 m = Some (res, c') \<Longrightarrow> fed c c'"

lemma fed_trans: "fed c2 c3 \<Longrightarrow> fed c1 c2 \<Longrightarrow> fed c1 c3"
  by (induction rule: fed.induct) (auto intro: fed_push)

abbreviation feeds :: "InputManager \<Rightarrow> InputManager \<Rightarrow> bool" where
  "feeds s s' \<equiv> fed (am_controller (im_am s)) (am_controller (im_am s'))"

declare fed_refl [simp]

text \<open>
  \<open>ends T s x\<close>: the handler is defined, keeps the invariant, allocates the texts \<open>T\<close>, and pushes
  well-formed messages only.
\<close>

definition ends :: "string option multiset \<Rightarrow> InputManager \<Rightarrow> InputManager option \<Rightarrow> bool" where
  "ends T s = defined (\<lambda>s'. input_ok s' \<and> texts s' = texts s + T \<and> feeds s s')"

lemma ends_Some [simp]: "input_ok s \<Longrightarrow> ends {#} s (Some s)"
  by (simp add: ends_def)

definition sendable :: "InputManager \<Rightarrow> ControlMessage \<Rightarrow> bool" where
  "sendable s msg \<longleftrightarrow> well_formed msg \<and>
     (am_events (im_am s) \<noteq> None \<longrightarrow> json_fits (cm_body msg) \<or> cm_type msg \<noteq> CONTROL_MSG_TYPE_INJECT_TEXT)"

lemma push_message_ok:
  assumes ok: "input_ok s" and env: "env_ok env" and m: "sendable s msg"
  shows "defined (\<lambda>(sent, s'). input_ok s' \<and> im_freed s' = im_freed s \<and> feeds s s' \<and>
      texts s' = texts s + (if sent then mset (owned msg) else {#})) (push_message env msg s)"
proof -
  let ?env = "agent_env.truncate env"
  define am1 where "am1 = (case am_events (im_am s) of None \<Rightarrow> im_am s
    | Some f \<Rightarrow> (im_am s)\<lparr>am_events := Some (f @ the (JsonSerialize (ae_local_time ?env) (ae_tv ?env) msg) @ '','' @ NL)\<rparr>)"
  have same: "am_controller am1 = am_controller (im_am s)" "am_stream am1 = am_stream (im_am s)"
    by (simp_all add: am1_def split: option.split)
  have ok1: "controller_ok am1" using ok same by (simp add: controller_ok_def input_ok_def)
  from Controller_PushMessage_ok [OF ok1, of msg] obtain sent c where
    c: "Controller_PushMessage (am_controller am1) msg = Some (sent, c)" by blast
  note k = Controller_PushMessage_keeps [OF ok1 _ c]
  have "am_events (im_am s) \<noteq> None \<Longrightarrow> JsonSerialize (ae_local_time ?env) (ae_tv ?env) msg \<noteq> None"
    using m env by (intro JsonSerialize_defined) (auto simp: sendable_def env_ok_def agent_env.truncate_def)
  then have "PushDeviceControlMessage ?env msg (im_am s) = Some (sent, am1\<lparr>am_controller := c\<rparr>)"
    using c by (auto simp: PushDeviceControlMessage_def am1_def RWwrite_def split: option.splits)
  moreover have "feeds s (s\<lparr>im_am := am1\<lparr>am_controller := c\<rparr>\<rparr>)"
    using c m same by (intro fed_push [OF fed_refl]) (simp_all add: sendable_def)
  ultimately show ?thesis
    using k m ok same by (simp add: push_message_def input_ok_def texts_def sendable_def)
qed

subsection \<open>Messages without a text\<close>

lemma owned_textless: "well_formed m \<Longrightarrow> (\<And>t. cm_body m \<noteq> BodyText t) \<Longrightarrow> owned m = []"
  unfolding well_formed_def
  by (cases "cm_type m"; cases "(cm_type m, cm_body m)" rule: wire_body.cases) (auto simp: owned_def ControlMessage_Destroy_def)

lemma sendable_textless: "well_formed m \<Longrightarrow> (\<And>t. cm_body m \<noteq> BodyText t) \<Longrightarrow> sendable s m"
  by (cases "cm_body m") (auto simp: sendable_def)

lemma push_textless:
  assumes "input_ok s" and "env_ok env" and "well_formed m" and "\<And>t. cm_body m \<noteq> BodyText t"
  shows "defined (\<lambda>(sent, s'). input_ok s' \<and> texts s' = texts s \<and> feeds s s') (push_message env m s)"
  using push_message_ok [OF assms(1,2) sendable_textless [OF assms(3,4)]] owned_textless [OF assms(3,4)]
  by (auto elim!: defined_mono split: if_splits)

lemma defined_map_snd: "defined (\<lambda>(a, b). P b) x \<Longrightarrow> defined P (map_option snd x)"
  by (cases x) auto

lemma push_textless_ends:
  assumes "input_ok s" and "env_ok env" and "well_formed m" and "\<And>t. cm_body m \<noteq> BodyText t"
  shows "ends {#} s (map_option snd (push_message env m s))"
  unfolding ends_def using push_textless [OF assms] by (intro defined_map_snd) simp

lemma well_formed_messages [simp]:
  "well_formed (keycode_message a k m)"
  "well_formed (touch_message a b i p f) \<longleftrightarrow> float_ge f 0 \<and> float_le f 1"
  "\<And>t. cm_body (keycode_message a k m) \<noteq> BodyText t" "\<And>t. cm_body (touch_message a b i p f) \<noteq> BodyText t"
  by (simp_all add: well_formed_def keycode_message_def touch_message_def)

lemma SendKeycode_ends:
  assumes ok: "input_ok s" and env: "env_ok env"
  shows "ends {#} s (SendKeycode env keycode actions s)"
proof -
  let ?m = "\<lambda>a. keycode_message (key_action_code a) keycode 0"
  have "defined (\<lambda>(go, s'). input_ok s' \<and> texts s' = texts s \<and> feeds s s')
      (if actions AND ACTION_DOWN \<noteq> 0 then push_message env (?m AKEY_EVENT_ACTION_DOWN) s else Some (True, s))"
    using push_textless [OF ok env, of "?m AKEY_EVENT_ACTION_DOWN"] ok by simp
  then obtain go s1 where
    s1: "(if actions AND ACTION_DOWN \<noteq> 0 then push_message env (?m AKEY_EVENT_ACTION_DOWN) s else Some (True, s)) = Some (go, s1)"
      "input_ok s1" "texts s1 = texts s" "feeds s s1" by (rule definedE) auto
  have "ends {#} s1 (map_option snd (push_message env (?m AKEY_EVENT_ACTION_UP) s1))"
    using s1(2) env by (intro push_textless_ends) simp_all
  with s1 show ?thesis by (auto simp: SendKeycode_def ends_def elim!: defined_mono intro: fed_trans)
qed

lemma push_simple_ends:
  assumes "input_ok s" and "env_ok env" and "well_formed \<lparr>cm_type = t, cm_body = Unwritten\<rparr>"
  shows "ends {#} s (push_simple env t s)"
  unfolding push_simple_def using assms by (intro push_textless_ends) simp_all

lemma request_ends:
  assumes "input_ok s" and "env_ok env"
  shows "ends {#} s (PressBackOrTurnScreenOn env s)" and "ends {#} s (ExpandNotificationPanel env s)"
    and "ends {#} s (CollapseNotificationPanel env s)" and "ends {#} s (RequestDeviceClipboard env s)"
    and "ends {#} s (RotateDevice env s)" and "ends {#} s (SetScreenPowerMode env mode s)"
  unfolding PressBackOrTurnScreenOn_def ExpandNotificationPanel_def CollapseNotificationPanel_def
    RequestDeviceClipboard_def RotateDevice_def SetScreenPowerMode_def
  by (auto intro!: push_simple_ends push_textless_ends assms simp: well_formed_def)

lemma action_ends:
  assumes "input_ok s" and "env_ok env"
  shows "ends {#} s (ActionHome env a s)" and "ends {#} s (ActionBack env a s)" and "ends {#} s (ActionAppSwitch env a s)"
    and "ends {#} s (ActionPower env a s)" and "ends {#} s (ActionVolumeUp env a s)" and "ends {#} s (ActionVolumeDown env a s)"
    and "ends {#} s (ActionMenu env a s)"
  by (simp_all add: ActionHome_def ActionBack_def ActionAppSwitch_def ActionPower_def ActionVolumeUp_def ActionVolumeDown_def
    ActionMenu_def SendKeycode_ends assms)

subsection \<open>Messages with a text\<close>

lemma SDL_free_ok [simp]:
  "input_ok (SDL_free t s) \<longleftrightarrow> input_ok s" "texts (SDL_free t s) = texts s + {#Some t#}"
  "feeds s0 (SDL_free t s) \<longleftrightarrow> feeds s0 s"
  by (simp_all add: SDL_free_def input_ok_def texts_def)

lemma push_text_ends:
  assumes ok: "input_ok s" and env: "env_ok env" and t: "text_fine s txt"
    and "t = CONTROL_MSG_TYPE_INJECT_TEXT \<or> t = CONTROL_MSG_TYPE_SET_CLIPBOARD"
  shows "ends {#Some txt#} s (push_text env t txt s)"
proof -
  let ?m = "\<lparr>cm_type = t, cm_body = BodyText (Some txt)\<rparr>"
  have m: "sendable s ?m" using assms(3,4) by (auto simp: sendable_def text_fine_def well_formed_def)
  have o: "owned ?m = [Some txt]" using assms(4) by (auto simp: owned_def ControlMessage_Destroy_def)
  from push_message_ok [OF ok env m] obtain sent s1 where
    "push_message env ?m s = Some (sent, s1)" "input_ok s1" "feeds s s1" "texts s1 = texts s + (if sent then mset (owned ?m) else {#})"
    by (rule definedE) auto
  then show ?thesis by (simp add: push_text_def ends_def o)
qed

lemma push_clipboard_ends:
  assumes "input_ok s" and "env_ok env" and "\<And>txt. ie_clipboard env = Some txt \<Longrightarrow> text_fine s txt"
    and "t = CONTROL_MSG_TYPE_INJECT_TEXT \<or> t = CONTROL_MSG_TYPE_SET_CLIPBOARD"
  shows "ends (case ie_clipboard env of None \<Rightarrow> {#} | Some txt \<Rightarrow> {#Some txt#}) s (push_clipboard env t s)"
  using assms push_text_ends [OF assms(1,2) _ assms(4)]
  by (cases "ie_clipboard env") (auto simp: push_clipboard_def ends_def)

text \<open>A letter or a space is handled as a key, unless texts are preferred.\<close>

definition typed_as_key :: "string \<Rightarrow> bool" where
  "typed_as_key t \<longleftrightarrow> (case t of [] \<Rightarrow> False | c # cs \<Rightarrow> is_alpha c \<or> c = CHR '' '')"

lemma ProcessTextInput_ends:
  assumes ok: "input_ok s" and env: "env_ok env" and t: "text_fine s txt"
    and key: "\<not> im_prefer_text s \<Longrightarrow> typed_as_key txt \<Longrightarrow> length txt = 1"
  shows "ends (if ie_strdup env \<and> (im_prefer_text s \<or> \<not> typed_as_key txt) then {#Some txt#} else {#}) s
    (ProcessTextInput env txt s)"
proof (cases "im_prefer_text s \<or> \<not> typed_as_key txt")
  case True
  have a: "\<not> is_alpha NUL" "NUL \<noteq> CHR '' ''" by (simp_all add: is_alpha_def NUL_def)
  have "ProcessTextInput env txt s = (if \<not> ie_strdup env then Some s else push_text env CONTROL_MSG_TYPE_INJECT_TEXT txt s)"
    using True a by (cases "txt") (auto simp: ProcessTextInput_def typed_as_key_def char_at_def)
  with True ok push_text_ends [OF ok env t] show ?thesis by simp
next
  case False
  then obtain c where "txt = [c]" "is_alpha c \<or> c = CHR '' ''"
    using key by (cases "txt") (auto simp: typed_as_key_def)
  with False ok show ?thesis by (simp add: ProcessTextInput_def char_at_def)
qed

subsection \<open>The window\<close>

lemma on_screen_ends:
  assumes ok: "input_ok s" and f: "defined screen_ok (f (im_screen s) (im_display s))"
  shows "ends {#} s (on_screen f s)"
proof -
  from f obtain scr d where "f (im_screen s) (im_display s) = Some (scr, d)" "screen_ok (scr, d)" by (rule definedE) auto
  with ok show ?thesis by (simp add: on_screen_def ends_def input_ok_def texts_def)
qed

lemma window_ends:
  assumes ok: "input_ok s"
  shows "ends {#} s (on_screen SwitchFullscreen s)" and "ends {#} s (on_screen ResizeToFit s)"
    and "ends {#} s (on_screen ResizeToPixelPerfect s)"
    and "event_allowed e (im_screen s) \<Longrightarrow> ends {#} s (on_screen (HandleWindowEvent e) s)"
proof -
  have scr: "screen_ok (im_screen s, im_display s)" using ok by (simp add: input_ok_def)
  show "ends {#} s (on_screen SwitchFullscreen s)" by (simp add: on_screen_ends [OF ok] SwitchFullscreen_ok [OF scr])
  show "ends {#} s (on_screen ResizeToFit s)" by (simp add: on_screen_ends [OF ok] ResizeToFit_ok [OF scr])
  show "ends {#} s (on_screen ResizeToPixelPerfect s)" by (simp add: on_screen_ends [OF ok] ResizeToPixelPerfect_ok [OF scr])
  show "ends {#} s (on_screen (HandleWindowEvent e) s)" if "event_allowed e (im_screen s)"
    by (simp add: on_screen_ends [OF ok] HandleWindowEvent_ok [OF scr that])
qed

lemma switch_fps_ends: "input_ok s \<Longrightarrow> ends {#} s (Some (switch_fps env s))"
  by (simp add: switch_fps_def Let_def ends_def input_ok_def texts_def controller_ok_def)

lemma ShowWindow_defined: "screen_ok (s, d) \<Longrightarrow> defined (same_objects d) (ShowWindow s d)"
  by (erule screen_okE) (simp add: ShowWindow_def dp_defs same_objects_def)

lemma UpdateFrame_defined:
  assumes "screen_ok (s, d)" and "\<not> vb_rendering_frame_consumed vb" and "\<And>p. showable (dims p)"
  shows "defined (\<lambda>(ok, vb', x). screen_ok x) (UpdateFrame dims now vb s d)"
proof -
  let ?vb = "vb\<lparr>vb_rendering_frame_consumed := True, vb_fps := AddRenderedFrame now (vb_fps vb)\<rparr>"
  let ?p = "vb_picture vb (vb_rendering_frame vb)"
  from draw_picture_ok [OF assms(1) assms(3)] obtain res x where
    "draw_picture ?p (dims ?p) s d = Some (res, x)" "screen_ok x" by (rule definedE) auto
  then show ?thesis using assms(2)
    by (cases x) (simp add: UpdateFrame_def ConsumeRenderedFrame_def c_assert_bind Let_def)
qed

lemma first_frame_ok:
  assumes ok: "input_ok s"
  shows "defined (\<lambda>s'. input_ok s' \<and> texts s' = texts s \<and> im_am s' = im_am s)
    (if \<not> scr_has_frame (im_screen s) then
       let scr = (im_screen s)\<lparr>scr_has_frame := True\<rparr> in
       Option.bind (ShowWindow scr (im_display s)) (\<lambda>d. Some (s\<lparr>im_screen := scr, im_display := d\<rparr>))
     else Some s)"
proof (cases "scr_has_frame (im_screen s)")
  case False
  have "screen_ok (im_screen s, im_display s)" using ok by (simp add: input_ok_def)
  then have scr: "screen_ok ((im_screen s)\<lparr>scr_has_frame := True\<rparr>, im_display s)" by (rule screen_ok_cong) simp_all
  from ShowWindow_defined [OF scr] obtain d where
    "ShowWindow ((im_screen s)\<lparr>scr_has_frame := True\<rparr>) (im_display s) = Some d" "same_objects (im_display s) d" by (rule definedE)
  with False ok same_objects_ok [OF scr] show ?thesis by (simp add: input_ok_def texts_def)
qed (use ok in simp)

lemma handle_new_frame_ends:
  assumes ok: "input_ok s" and f: "\<not> vb_rendering_frame_consumed (am_video (im_am s))" and dims: "\<And>p. showable (ie_dims env p)"
  shows "ends {#} s (handle_new_frame env s)"
proof -
  from first_frame_ok [OF ok] obtain s1 where
    s1: "(if \<not> scr_has_frame (im_screen s) then
       let scr = (im_screen s)\<lparr>scr_has_frame := True\<rparr> in
       Option.bind (ShowWindow scr (im_display s)) (\<lambda>d. Some (s\<lparr>im_screen := scr, im_display := d\<rparr>))
     else Some s) = Some s1" "input_ok s1" "texts s1 = texts s" "im_am s1 = im_am s" by (rule definedE) blast
  have "screen_ok (im_screen s1, im_display s1)" using s1(2) by (simp add: input_ok_def)
  from UpdateFrame_defined [OF this f dims] obtain res vb scr d where
    "UpdateFrame (ie_dims env) (ae_now env) (am_video (im_am s1)) (im_screen s1) (im_display s1) = Some (res, vb, scr, d)"
    "screen_ok (scr, d)" by (rule definedE) (auto simp: s1(4))
  with s1 show ?thesis by (simp add: handle_new_frame_def ends_def input_ok_def texts_def controller_ok_def)
qed

subsection \<open>Keys, mouse, fingers and files\<close>

lemma ends_if: "(b \<Longrightarrow> ends T s x) \<Longrightarrow> (\<not> b \<Longrightarrow> ends T s y) \<Longrightarrow> ends T s (if b then x else y)"
  by simp

text \<open>The text that a shortcut pastes.\<close>

definition pasted :: "input_env \<Rightarrow> string option multiset" where
  "pasted env = (case ie_clipboard env of None \<Rightarrow> {#} | Some t \<Rightarrow> {#Some t#})"

definition plain_ctrl :: "SDL_KeyboardEvent \<Rightarrow> bool" where
  "plain_ctrl k \<longleftrightarrow> ctrl_key (key_mod k) \<and> \<not> alt_key (key_mod k) \<and> \<not> meta_key (key_mod k)"

definition pastes :: "SDL_KeyboardEvent \<Rightarrow> bool" where
  "pastes k \<longleftrightarrow> plain_ctrl k \<and> key_sym k = SDLK_v \<and> key_repeat k = 0 \<and> key_type k = SDL_KEYDOWN"

lemma key_shortcut_ends:
  assumes "input_ok s" and "env_ok env"
  shows "ends {#} s (key_shortcut env keycode a control shift repeat s)"
  by (cases keycode) (simp_all add: key_shortcut_def action_ends assms)

lemma request_shortcut_ends:
  assumes "input_ok s" and "env_ok env" and "\<And>t. keycode = SDLK_v \<Longrightarrow> ie_clipboard env = Some t \<Longrightarrow> text_fine s t"
  shows "ends (if control \<and> keycode = SDLK_v \<and> \<not> repeat \<and> down then pasted env else {#}) s
    (request_shortcut env keycode control shift repeat down s)"
  using push_clipboard_ends [OF assms(1,2)] assms
  by (cases keycode) (simp_all add: request_shortcut_def request_ends SetDeviceClipboard_def PasteClipboard_def pasted_def)

lemma window_shortcut_ends:
  assumes "input_ok s"
  shows "ends {#} s (window_shortcut env keycode cmd shift repeat down s)"
  by (cases keycode) (simp_all add: window_shortcut_def window_ends switch_fps_ends assms)

lemma ProcessKey_ends:
  assumes ok: "input_ok s" and env: "env_ok env"
    and clip: "\<And>t. key_sym k = SDLK_v \<Longrightarrow> ie_clipboard env = Some t \<Longrightarrow> text_fine s t"
  shows "ends (if control \<and> pastes k then pasted env else {#}) s (ProcessKey env k control s)"
proof (cases "ctrl_key (key_mod k) \<and> \<not> alt_key (key_mod k) \<and> \<not> meta_key (key_mod k)")
  case True
  have v: "SDLK_v \<notin> device_keys" "SDLK_v \<in> request_keys" by (simp_all add: device_keys_def request_keys_def)
  have p: "(control \<and> pastes k) = (control \<and> key_sym k = SDLK_v \<and> \<not> key_repeat k \<noteq> 0 \<and> key_type k = SDL_KEYDOWN)"
    using True by (auto simp: pastes_def plain_ctrl_def)
  have r: "ends (if control \<and> pastes k then pasted env else {#}) s (request_shortcut env (key_sym k) control
      (shift_key (key_mod k)) (key_repeat k \<noteq> 0) (key_type k = SDL_KEYDOWN) s)"
    unfolding p by (rule request_shortcut_ends [OF ok env clip])
  consider "key_sym k \<in> device_keys" | "key_sym k \<notin> device_keys" "key_sym k \<in> request_keys"
    | "key_sym k \<notin> device_keys" "key_sym k \<notin> request_keys" by blast
  then have "ends (if control \<and> pastes k then pasted env else {#}) s (ctrl_shortcut env k control s)"
  proof cases
    case 1
    with v have "\<not> pastes k" by (auto simp: pastes_def)
    with 1 show ?thesis by (simp add: ctrl_shortcut_def Let_def key_shortcut_ends [OF ok env])
  next
    case 2
    with r True show ?thesis by (simp add: ctrl_shortcut_def Let_def)
  next
    case 3
    with v have "\<not> pastes k" by (auto simp: pastes_def)
    with 3 show ?thesis by (simp add: ctrl_shortcut_def Let_def window_shortcut_ends [OF ok])
  qed
  with True show ?thesis by (simp add: ProcessKey_def)
next
  case False
  then have p: "\<not> pastes k" by (auto simp: pastes_def plain_ctrl_def)
  have "ends {#} s (case ConvertInputKey k (im_prefer_text s) of None \<Rightarrow> Some s | Some msg \<Rightarrow> map_option snd (push_message env msg s))"
    using ok env by (auto simp: ConvertInputKey_def Let_def bind_Some_iff intro!: push_textless_ends split: option.split)
  with False p ok show ?thesis by (auto simp: ProcessKey_def Let_def)
qed

lemma ProcessMouseMotion_ends:
  assumes "input_ok s" and "env_ok env"
  shows "ends {#} s (ProcessMouseMotion env e s)"
  using assms by (auto simp: ProcessMouseMotion_def ConvertMouseMotion_def intro!: push_textless_ends)

lemma forward_button_ends:
  assumes "input_ok s" and "env_ok env" and "1 \<le> mb_button b" and "mb_button b \<le> 31"
  shows "ends {#} s (forward_button env b control s)"
proof -
  have "mb_button b \<noteq> 0" using assms(3) by auto
  with assms(4) have "SDL_BUTTON (mb_button b) \<noteq> None" by (simp add: SDL_BUTTON_def not_less)
  with assms(1,2) show ?thesis
    by (auto simp: forward_button_def ConvertMouseButton_def intro!: push_textless_ends split: option.split)
qed

lemma ProcessMouseButton_ends:
  assumes "input_ok s" and "env_ok env" and "1 \<le> mb_button b" and "mb_button b \<le> 31"
  shows "ends {#} s (ProcessMouseButton env b control s)"
  using assms forward_button_ends [OF assms]
  by (simp add: ProcessMouseButton_def request_ends action_ends window_ends)

lemma ProcessMouseWheel_ends:
  assumes "input_ok s" and "env_ok env" and "GetMousePoint env \<noteq> None"
  shows "ends {#} s (ProcessMouseWheel env w s)"
  using assms by (auto simp: ProcessMouseWheel_def ConvertMouseWheel_def well_formed_def intro!: push_textless_ends)

definition unit_float :: "c_float \<Rightarrow> bool" where
  "unit_float f \<longleftrightarrow> (case f of Fin q \<Rightarrow> 0 \<le> q \<and> q \<le> 1 | _ \<Rightarrow> False)"

lemma ConvertTouch_defined:
  assumes "unit_float (tf_x e)" and "unit_float (tf_y e)"
  shows "\<exists>p. ConvertTouch e scr = Some (map_option (\<lambda>a. touch_message a 0 (tf_finger e)
        \<lparr>screen_size = scr_frame_size scr, point = p\<rparr> (tf_pressure e)) (ConvertTouchAction (tf_type e)))"
proof -
  from assms obtain x y where xy: "tf_x e = Fin x" "0 \<le> x" "x \<le> 1" "tf_y e = Fin y" "0 \<le> y" "y \<le> 1"
    by (auto simp: unit_float_def split: c_float.splits)
  from touch_coordinate [OF xy(2,3), of "width (scr_frame_size scr)"] touch_coordinate [OF xy(5,6), of "height (scr_frame_size scr)"]
  obtain i j where
    "float_to_int (float_mult (Fin x) (Fin (of_nat (unat (width (scr_frame_size scr)))))) = Some i"
    "float_to_int (float_mult (Fin y) (Fin (of_nat (unat (height (scr_frame_size scr)))))) = Some j" by auto
  then show ?thesis
    by (intro exI [of _ "\<lparr>pt_x = of_int i, pt_y = of_int j\<rparr>"]) (simp add: ConvertTouch_def xy Let_def split: option.split)
qed

lemma ProcessTouch_ends:
  assumes "input_ok s" and "env_ok env" and "unit_float (tf_x e)" and "unit_float (tf_y e)" and "unit_float (tf_pressure e)"
  shows "ends {#} s (ProcessTouch env e s)"
proof -
  from ConvertTouch_defined [OF assms(3,4), of "im_screen s"] obtain p where
    p: "ConvertTouch e (im_screen s) = Some (map_option (\<lambda>a. touch_message a 0 (tf_finger e)
        \<lparr>screen_size = scr_frame_size (im_screen s), point = p\<rparr> (tf_pressure e)) (ConvertTouchAction (tf_type e)))" by blast
  have "float_ge (tf_pressure e) 0 \<and> float_le (tf_pressure e) 1" using assms(5) by (auto simp: unit_float_def split: c_float.splits)
  with assms(1,2) show ?thesis
    by (cases "ConvertTouchAction (tf_type e)") (auto simp: ProcessTouch_def p intro!: push_textless_ends)
qed

lemma Request_defined:
  assumes "file_ok f"
  shows "defined (\<lambda>(res, f', d'). file_ok f') (FileHandler_Request action fname f d)"
proof -
  have q: "cbuf_inv (fh_queue f)" using assms by (simp add: file_ok_def)
  have "FileHandler_Request action fname f d \<noteq> None"
    using cb.push_decides [OF q, of "\<lparr>fr_action = action, fr_file = fname\<rparr>"]
    by (auto simp: FileHandler_Request_def FileHandler_Start_def Let_def split: prod.splits)
  then show ?thesis using FileHandler_Request_ok [OF assms] by auto
qed

lemma handle_drop_ends:
  assumes ok: "input_ok s"
  shows "ends {#} s (handle_drop fname s)"
proof -
  let ?a = "if IsApk fname then ACTION_INSTALL_APK else ACTION_PUSH_FILE"
  have "file_ok (im_fh s)" using ok by (simp add: input_ok_def)
  from Request_defined [OF this] obtain res f d where
    "FileHandler_Request ?a fname (im_fh s) (im_sdl s) = Some (res, f, d)" "file_ok f" by (rule definedE) auto
  with ok show ?thesis by (simp add: handle_drop_def ends_def input_ok_def texts_def)
qed

subsection \<open>The agent's part of an event\<close>

lemma image_block_total:
  assumes "malloc_ok SDL_malloc" and "int (length (im_bytes im)) + 16 \<le> INT_MAX"
  shows "\<exists>b' r. image_block SDL_malloc im b = Some (b', r) \<and>
    (r \<longrightarrow> buffer_ok b' \<and> length (wire_buffer b') = length (im_bytes im) + 24)"
proof (cases "SDL_malloc (length (im_bytes im) + 16)")
  case None
  then show ?thesis by (auto simp: image_block_def Let_def)
next
  case (Some blk)
  with image_block_ok [OF assms(1) _ assms(2), of b] show ?thesis by auto
qed

lemma BuildImageMessage_total:
  assumes "malloc_ok SDL_malloc"
    and fits: "88 + length (im_bytes mat) + length (im_bytes hash) \<le> BLOB_MSG_SERIALIZED_MAX_SIZE"
  shows "\<exists>m r. BuildImageMessage SDL_malloc now t mat hash = Some (m, r) \<and> (r \<longrightarrow> good_blob m)"
proof -
  let ?e = "\<lparr>bb_length = 0, bb_data = None\<rparr>"
  have l: "int (length (im_bytes mat)) + 24 \<le> INT_MAX" "int (length (im_bytes hash)) + 24 \<le> INT_MAX"
    using fits by (simp_all add: BLOB_MSG_SERIALIZED_MAX_SIZE_def INT_MAX_def)
  obtain b0 r0 where b0: "image_block SDL_malloc mat ?e = Some (b0, r0)"
    "r0 \<Longrightarrow> buffer_ok b0" "r0 \<Longrightarrow> length (wire_buffer b0) = length (im_bytes mat) + 24"
    using image_block_total [OF assms(1), of mat ?e] l by auto
  obtain b1 r1 where b1: "image_block SDL_malloc hash ?e = Some (b1, r1)"
    "r1 \<Longrightarrow> buffer_ok b1" "r1 \<Longrightarrow> length (wire_buffer b1) = length (im_bytes hash) + 24"
    using image_block_total [OF assms(1), of hash ?e] l by auto
  have c: "checked_int (int (length (im_bytes mat)) + 24) = Some (int (length (im_bytes mat)) + 24)"
    "checked_int (int (length (im_bytes hash)) + 24) = Some (int (length (im_bytes hash)) + 24)"
    using l by (simp_all add: checked_int_def INT_MIN_def INT_MAX_def)
  have e: "bm_buffers blob_empty = ?e # ?e # replicate 14 ?e"
    by (simp add: blob_empty_def BLOB_MSG_DATA_MAX_COUNT_def numeral_eq_Suc)
  define m where "m = \<lparr>bm_type = t, bm_timestamp = now, bm_id = 0, bm_count = 2,
    bm_total_length = of_nat (length (im_bytes mat) + 24) + of_nat (length (im_bytes hash) + 24),
    bm_buffers = b0 # b1 # replicate 14 ?e\<rparr>"
  have "BuildImageMessage SDL_malloc now t mat hash = Some (m, r0 \<and> r1)"
    using b0(1) b1(1) by (simp add: BuildImageMessage_def c e load_def m_def)
  moreover have "r0 \<and> r1 \<longrightarrow> good_blob m"
    using b0(2,3) b1(2,3) fits by (simp add: good_blob_def blob_ok_def blob_wire_def m_def)
  ultimately show ?thesis by blast
qed

lemma Push_defined:
  assumes "agent_stream_ok st" and "good_blob m"
  shows "defined (\<lambda>(res, st'). agent_stream_ok st') (AgentStream_PushMessage m st)"
proof -
  have q: "cbuf_inv (as_queue st)" using assms(1) by (simp add: agent_stream_ok_def)
  have "AgentStream_PushMessage m st \<noteq> None"
    using cb.push_decides [OF q, of m] by (auto simp: AgentStream_PushMessage_def Let_def)
  then show ?thesis using PushMessage_ok [OF assms] by auto
qed

text \<open>The manager sends pictures and starts or stops recording, and leaves the rest alone.\<close>

definition agent_keeps :: "AgentManager \<Rightarrow> AgentManager \<Rightarrow> bool" where
  "agent_keeps am am' \<longleftrightarrow> am_controller am' = am_controller am \<and> am_video am' = am_video am \<and>
     agent_stream_ok (am_stream am')"

lemma SendOpenCVImage_ok:
  assumes "agent_stream_ok (am_stream am)" and "env_ok env"
  shows "defined (agent_keeps am) (SendOpenCVImage (agent_env.truncate env) t n color am)"
proof -
  obtain mat hash where im: "ae_images env n color = (mat, hash)" by fastforce
  have "88 + length (im_bytes (fst (ae_images env n color))) + length (im_bytes (snd (ae_images env n color))) \<le> BLOB_MSG_SERIALIZED_MAX_SIZE"
    using assms(2) unfolding env_ok_def by blast
  then have "malloc_ok (ae_malloc env)" "88 + length (im_bytes mat) + length (im_bytes hash) \<le> BLOB_MSG_SERIALIZED_MAX_SIZE"
    using assms(2) im by (simp_all add: env_ok_def)
  from BuildImageMessage_total [OF this, of "ae_now_ms env" t] obtain m r where
    b: "BuildImageMessage (ae_malloc env) (ae_now_ms env) t mat hash = Some (m, r)" "r \<Longrightarrow> good_blob m" by blast
  show ?thesis
  proof (cases "AgentStream_IsConnected (ae_errno env) (am_stream am) \<and> r")
    case True
    with b have "good_blob m" by simp
    from Push_defined [OF assms(1) this] obtain res st where
      "AgentStream_PushMessage m (am_stream am) = Some (res, st)" "agent_stream_ok st" by (rule definedE) auto
    with True b im show ?thesis by (simp add: SendOpenCVImage_def agent_env.truncate_def agent_keeps_def)
  next
    case False
    with b im assms(1) show ?thesis by (auto simp: SendOpenCVImage_def agent_env.truncate_def agent_keeps_def)
  qed
qed

lemma send_both_images_ok:
  assumes "agent_stream_ok (am_stream am)" and "env_ok env"
  shows "defined (agent_keeps am) (send_both_images (agent_env.truncate env) am)"
proof -
  from SendOpenCVImage_ok [OF assms, of BLOB_MSG_TYPE_OPENCV_MAT 800 False] obtain am1 where
    am1: "SendOpenCVImage (agent_env.truncate env) BLOB_MSG_TYPE_OPENCV_MAT 800 False am = Some am1" "agent_keeps am am1"
    by (rule definedE)
  have "agent_stream_ok (am_stream am1)" using am1(2) by (simp add: agent_keeps_def)
  from SendOpenCVImage_ok [OF this assms(2), of BLOB_MSG_TYPE_SCREEN_SHOT 240 True] am1 show ?thesis
    by (auto simp: send_both_images_def agent_keeps_def elim!: defined_mono)
qed

text \<open>Recording starts when the file can be opened.\<close>

definition record_key_fine :: "SDL_KeyboardEvent \<Rightarrow> AgentManager \<Rightarrow> bool" where
  "record_key_fine k am \<longleftrightarrow> (key_sym k = SDLK_e \<and> am_events am = None \<longrightarrow> (\<exists>oks. am_opens am = True # oks))"

lemma record_toggle_ok:
  assumes "agent_stream_ok (am_stream am)" and "am_events am = None \<Longrightarrow> \<exists>oks. am_opens am = True # oks"
  shows "defined (agent_keeps am) (if am_events am = None then StartRecordEvents am else StopRecordEvents am)"
  using assms by (auto simp: StartRecordEvents_def RWFromFile_def StopRecordEvents_def RWwrite_def agent_keeps_def)

lemma agent_ProcessKey_ok:
  assumes st: "agent_stream_ok (am_stream am)" and "record_key_fine k am"
  shows "defined (\<lambda>am'. agent_keeps am am' \<and> (key_sym k \<noteq> SDLK_e \<longrightarrow> am_events am' = am_events am)) (AgentManager_ProcessKey k am)"
proof -
  have keep: "agent_keeps am am" "agent_keeps am (am\<lparr>am_saved := x\<rparr>)" for x using st by (simp_all add: agent_keeps_def)
  show ?thesis
  proof (cases "key_sym k = SDLK_e")
    case True
    have "defined (agent_keeps am) (if am_events am = None then StartRecordEvents am else StopRecordEvents am)"
      using assms True by (intro record_toggle_ok) (simp_all add: record_key_fine_def)
    with True keep show ?thesis by (simp add: AgentManager_ProcessKey_def Let_def)
  next
    case False
    with keep show ?thesis by (cases "key_sym k") (simp_all add: AgentManager_ProcessKey_def Let_def)
  qed
qed

subsection \<open>Every event\<close>

text \<open>
  What an event must satisfy: SDL gives text as UTF-8, fractions for fingers, buttons from 1 to 31;
  a frame is announced when there is one; a text that is recorded must fit the line of the printer.
\<close>

definition dispatch_fine :: "input_env \<Rightarrow> SDL_Event \<Rightarrow> InputManager \<Rightarrow> bool" where
  "dispatch_fine env e s \<longleftrightarrow> env_ok env \<and>
     (case e of
        EVENT_NEW_FRAME \<Rightarrow> \<not> vb_rendering_frame_consumed (am_video (im_am s)) \<and> (\<forall>p. showable (ie_dims env p))
      | SDL_WINDOWEVENT w \<Rightarrow> event_allowed w (im_screen s)
      | SDL_TEXTINPUT t \<Rightarrow> text_fine s t \<and> (\<not> im_prefer_text s \<and> typed_as_key t \<longrightarrow> length t = 1)
      | SDL_KEY k \<Rightarrow> (\<forall>t. key_sym k = SDLK_v \<and> ie_clipboard env = Some t \<longrightarrow> text_fine s t)
      | SDL_MOUSEWHEEL w \<Rightarrow> GetMousePoint env \<noteq> None
      | SDL_MOUSEBUTTON b \<Rightarrow> 1 \<le> mb_button b \<and> mb_button b \<le> 31
      | SDL_FINGER f \<Rightarrow> unit_float (tf_x f) \<and> unit_float (tf_y f) \<and> unit_float (tf_pressure f)
      | _ \<Rightarrow> True)"

definition event_fine :: "input_env \<Rightarrow> SDL_Event \<Rightarrow> InputManager \<Rightarrow> bool" where
  "event_fine env e s \<longleftrightarrow> dispatch_fine env e s \<and>
     (case e of SDL_KEY k \<Rightarrow> record_key_fine k (im_am s) | _ \<Rightarrow> True)"

text \<open>The text an event allocates.\<close>

definition obtained :: "input_env \<Rightarrow> SDL_Event \<Rightarrow> bool \<Rightarrow> InputManager \<Rightarrow> string option multiset" where
  "obtained env e control s =
     (case e of
        SDL_TEXTINPUT t \<Rightarrow> if control \<and> ie_strdup env \<and> (im_prefer_text s \<or> \<not> typed_as_key t) then {#Some t#} else {#}
      | SDL_KEY k \<Rightarrow> if control \<and> pastes k then pasted env else {#}
      | _ \<Rightarrow> {#})"

definition event_result :: "SDL_Event \<Rightarrow> EventResult" where
  "event_result e = (case e of EVENT_STREAM_STOPPED \<Rightarrow> EVENT_RESULT_STOPPED_BY_EOS
     | SDL_QUIT \<Rightarrow> EVENT_RESULT_STOPPED_BY_USER | _ \<Rightarrow> EVENT_RESULT_CONTINUE)"

lemma dispatch_ends:
  assumes ok: "input_ok s" and fine: "dispatch_fine env e s"
  shows "ends (obtained env e control s) s (dispatch_event env e control s)"
proof -
  have env: "env_ok env" using fine by (simp add: dispatch_fine_def)
  show ?thesis
  proof (cases e)
    case EVENT_NEW_FRAME
    with fine show ?thesis by (simp add: dispatch_event_def obtained_def dispatch_fine_def handle_new_frame_ends [OF ok])
  next
    case (SDL_WINDOWEVENT w)
    with fine show ?thesis by (simp add: dispatch_event_def obtained_def dispatch_fine_def window_ends [OF ok])
  next
    case (SDL_TEXTINPUT t)
    with fine ok ProcessTextInput_ends [OF ok env, of t] show ?thesis
      by (simp add: dispatch_event_def obtained_def dispatch_fine_def)
  next
    case (SDL_KEY k)
    with fine show ?thesis by (simp add: dispatch_event_def obtained_def dispatch_fine_def ProcessKey_ends [OF ok env])
  next
    case (SDL_MOUSEMOTION m)
    with ok show ?thesis by (simp add: dispatch_event_def obtained_def ProcessMouseMotion_ends [OF ok env])
  next
    case (SDL_MOUSEWHEEL w)
    with fine ok show ?thesis by (simp add: dispatch_event_def obtained_def dispatch_fine_def ProcessMouseWheel_ends [OF ok env])
  next
    case (SDL_MOUSEBUTTON b)
    with fine show ?thesis by (simp add: dispatch_event_def obtained_def dispatch_fine_def ProcessMouseButton_ends [OF ok env])
  next
    case (SDL_FINGER f)
    with fine show ?thesis by (simp add: dispatch_event_def obtained_def dispatch_fine_def ProcessTouch_ends [OF ok env])
  next
    case (SDL_DROPFILE f)
    with ok show ?thesis by (simp add: dispatch_event_def obtained_def handle_drop_ends [OF ok])
  qed (use ok in \<open>simp_all add: dispatch_event_def obtained_def\<close>)
qed

lemma AgentManager_HandleEvent_ok:
  assumes ok: "input_ok s" and fine: "event_fine env e s"
  shows "defined (\<lambda>(r, am). r = event_result e \<and> agent_keeps (im_am s) am \<and>
      ((\<exists>t. e = SDL_TEXTINPUT t) \<or> (\<exists>k. e = SDL_KEY k \<and> key_sym k \<noteq> SDLK_e) \<longrightarrow> am_events am = am_events (im_am s)))
    (AgentManager_HandleEvent (agent_env.truncate env) e True (im_am s))"
proof -
  have st: "agent_stream_ok (am_stream (im_am s))" and env: "env_ok env"
    using ok fine by (simp_all add: input_ok_def event_fine_def dispatch_fine_def)
  then have keep: "agent_keeps (im_am s) (im_am s)" by (simp add: agent_keeps_def)
  from send_both_images_ok [OF st env] obtain am where
    am: "send_both_images (agent_env.truncate env) (im_am s) = Some am" "agent_keeps (im_am s) am" by (rule definedE)
  show ?thesis
  proof (cases e)
    case (SDL_KEY k)
    with fine have "record_key_fine k (im_am s)" by (simp add: event_fine_def)
    from agent_ProcessKey_ok [OF st this] obtain am where "AgentManager_ProcessKey k (im_am s) = Some am"
      "agent_keeps (im_am s) am" "key_sym k \<noteq> SDLK_e \<longrightarrow> am_events am = am_events (im_am s)" by (rule definedE) blast
    with SDL_KEY show ?thesis by (simp add: AgentManager_HandleEvent_def event_result_def)
  qed (use keep am in \<open>simp_all add: AgentManager_HandleEvent_def event_result_def\<close>)
qed

lemma dispatch_fine_keeps:
  assumes "dispatch_fine env e s" and "agent_keeps (im_am s) am"
    and "(\<exists>t. e = SDL_TEXTINPUT t) \<or> (\<exists>k. e = SDL_KEY k \<and> key_sym k \<noteq> SDLK_e) \<longrightarrow> am_events am = am_events (im_am s)"
  shows "dispatch_fine env e (s\<lparr>im_am := am\<rparr>)"
  using assms by (cases e) (auto simp: dispatch_fine_def agent_keeps_def text_fine_def)

lemma HandleEvent_ok:
  assumes "input_ok s" and "event_fine env e s"
  shows "defined (\<lambda>(r, s'). r = event_result e \<and> input_ok s' \<and> feeds s s' \<and>
      texts s' = texts s + (if r = EVENT_RESULT_CONTINUE then obtained env e control s else {#}))
    (HandleEvent env e control s)"
proof -
  from AgentManager_HandleEvent_ok [OF assms] obtain am where
    am: "AgentManager_HandleEvent (agent_env.truncate env) e True (im_am s) = Some (event_result e, am)"
      "agent_keeps (im_am s) am"
      "(\<exists>t. e = SDL_TEXTINPUT t) \<or> (\<exists>k. e = SDL_KEY k \<and> key_sym k \<noteq> SDLK_e) \<longrightarrow> am_events am = am_events (im_am s)"
    by (rule definedE) auto
  let ?s = "s\<lparr>im_am := am\<rparr>"
  have ok: "input_ok ?s" using assms(1) am(2) by (simp add: input_ok_def agent_keeps_def controller_ok_def)
  have fine: "dispatch_fine env e ?s"
    using assms(2) am by (intro dispatch_fine_keeps) (simp_all add: event_fine_def)
  have "texts ?s = texts s" "obtained env e control ?s = obtained env e control s"
    using am(2) by (simp_all add: texts_def agent_keeps_def obtained_def split: SDL_Event.split)
  moreover have p: "feeds s ?s" using am(2) by (simp add: agent_keeps_def)
  ultimately show ?thesis using dispatch_ends [OF ok fine, of control] ok
    by (auto simp: HandleEvent_def am(1) ends_def Let_def elim!: definedE intro: fed_trans)
qed


subsection \<open>The loop\<close>

text \<open>Every event of a run is as SDL delivers it, in the state in which it arrives.\<close>

fun run_fine :: "(input_env \<times> SDL_Event) list \<Rightarrow> bool \<Rightarrow> InputManager \<Rightarrow> bool" where
  "run_fine [] control s \<longleftrightarrow> True"
| "run_fine ((env, e) # es) control s \<longleftrightarrow> event_fine env e s \<and>
     (case HandleEvent env e control s of None \<Rightarrow> True | Some (r, s') \<Rightarrow> run_fine es control s')"

definition stopping_event :: "(input_env \<times> SDL_Event) list \<Rightarrow> SDL_Event option" where
  "stopping_event es = map_option snd (List.find (\<lambda>(env, e). event_result e \<noteq> EVENT_RESULT_CONTINUE) es)"

lemma stopping_event_simps [simp]:
  "stopping_event [] = None"
  "stopping_event ((env, e) # es) = (if event_result e \<noteq> EVENT_RESULT_CONTINUE then Some e else stopping_event es)"
  by (simp_all add: stopping_event_def)

lemma event_result_quit: "event_result e = EVENT_RESULT_STOPPED_BY_USER \<longleftrightarrow> e = SDL_QUIT"
  by (cases e) (simp_all add: event_result_def)

text \<open>The event loop handles the events of a run in order until one ends it and then returns, with
  success exactly when the event that ended it was the request of the user to quit; an end of the
  stream, or a failure of \<open>SDL_WaitEvent\<close>, is a failure. The state stays well formed throughout.\<close>

theorem event_loop_ends:
  assumes "input_ok s" and "run_fine es control s"
  shows "\<exists>s'. EventLoop es control s = Some (stopping_event es = Some SDL_QUIT, s') \<and> input_ok s'"
  using assms
proof (induction es arbitrary: s)
  case (Cons x es)
  obtain env e where x: "x = (env, e)" by (cases x)
  from HandleEvent_ok [OF Cons.prems(1), of env e control] Cons.prems(2) obtain s1 where
    s1: "HandleEvent env e control s = Some (event_result e, s1)" "input_ok s1" by (auto simp: x elim!: definedE)
  show ?case
  proof (cases "event_result e")
    case EVENT_RESULT_CONTINUE
    with Cons.IH [OF s1(2)] Cons.prems(2) s1 show ?thesis by (simp add: x)
  next
    case EVENT_RESULT_STOPPED_BY_USER
    moreover from this have "e = SDL_QUIT" by (simp add: event_result_quit)
    ultimately show ?thesis using s1 by (simp add: x)
  next
    case EVENT_RESULT_STOPPED_BY_EOS
    then have "e \<noteq> SDL_QUIT" by (auto simp: event_result_def)
    with s1 EVENT_RESULT_STOPPED_BY_EOS show ?thesis by (simp add: x)
  qed
qed simp

subsection \<open>Without control\<close>

text \<open>\<open>silent s x\<close>: if the handler is defined, it sends nothing to the device and requests no file.\<close>

definition silent :: "InputManager \<Rightarrow> InputManager option \<Rightarrow> bool" where
  "silent s x \<longleftrightarrow> (case x of None \<Rightarrow> True | Some s' \<Rightarrow> am_controller (im_am s') = am_controller (im_am s) \<and> im_fh s' = im_fh s)"

lemma silent_Some [simp]: "silent s (Some s)"
  by (simp add: silent_def)

lemma on_screen_silent [simp]: "silent s (on_screen f s)"
  by (simp add: silent_def on_screen_def split: bind_split)

lemma switch_fps_silent [simp]: "silent s (Some (switch_fps env s))"
  by (simp add: silent_def switch_fps_def Let_def)

lemma handle_new_frame_silent: "silent s (handle_new_frame env s)"
  by (auto simp: silent_def handle_new_frame_def Let_def split: bind_split if_splits option.splits prod.splits)

lemma ProcessKey_silent: "silent s (ProcessKey env k False s)"
  by (cases "key_sym k")
    (simp_all add: ProcessKey_def ctrl_shortcut_def key_shortcut_def request_shortcut_def window_shortcut_def Let_def)

lemma ProcessMouseButton_silent: "silent s (ProcessMouseButton env b False s)"
  by (simp add: ProcessMouseButton_def forward_button_def)

lemma dispatch_silent: "(\<And>f. e \<noteq> SDL_FINGER f) \<Longrightarrow> silent s (dispatch_event env e False s)"
  by (cases e) (auto simp: dispatch_event_def handle_new_frame_silent ProcessKey_silent ProcessMouseButton_silent)

lemma SendOpenCVImage_controller:
  "SendOpenCVImage env t n color am = Some am' \<Longrightarrow> am_controller am' = am_controller am"
  by (auto simp: SendOpenCVImage_def bind_Some_iff Let_def split: if_splits prod.splits)

lemma agent_ProcessKey_controller:
  "AgentManager_ProcessKey k am = Some am' \<Longrightarrow> am_controller am' = am_controller am"
  by (auto simp: AgentManager_ProcessKey_def StartRecordEvents_def RWFromFile_def StopRecordEvents_def RWwrite_def
    bind_Some_iff Let_def split: if_splits SDL_Keycode.splits option.splits list.splits)

lemma agent_HandleEvent_controller:
  "AgentManager_HandleEvent env e True am = Some (r, am') \<Longrightarrow> am_controller am' = am_controller am"
  by (cases e) (auto simp: AgentManager_HandleEvent_def send_both_images_def bind_Some_iff
    dest!: SendOpenCVImage_controller agent_ProcessKey_controller)

text \<open>C35. When control is disabled, no event but those of fingers sends a message to the device or
  requests the transfer of a file: keys, text, mouse and dropped files only act on the window, the
  frame counter and the recording.\<close>

theorem no_control_silent:
  assumes "HandleEvent env e False s = Some (r, s')" and "\<And>f. e \<noteq> SDL_FINGER f"
  shows "am_controller (im_am s') = am_controller (im_am s) \<and> im_fh s' = im_fh s"
proof -
  from assms(1) obtain am where am: "AgentManager_HandleEvent (agent_env.truncate env) e True (im_am s) = Some (r, am)"
    and s': "s' = s\<lparr>im_am := am\<rparr> \<or> dispatch_event env e False (s\<lparr>im_am := am\<rparr>) = Some s'"
    by (auto simp: HandleEvent_def bind_Some_iff Let_def split: if_splits)
  from s' dispatch_silent [OF assms(2), of "s\<lparr>im_am := am\<rparr>" env] agent_HandleEvent_controller [OF am] show ?thesis
    by (auto simp: silent_def)
qed

text \<open>Finger events are forwarded whether control is enabled or not.\<close>

lemma finger_ignores_control: "HandleEvent env (SDL_FINGER f) False s = HandleEvent env (SDL_FINGER f) True s"
proof -
  have "dispatch_event env (SDL_FINGER f) False = dispatch_event env (SDL_FINGER f) True"
    by (simp add: fun_eq_iff dispatch_event_def)
  then show ?thesis by (simp only: HandleEvent_def)
qed

subsection \<open>Instances\<close>

definition quiet_env :: input_env where
  "quiet_env = \<lparr>ae_now = 0, ae_now_ms = 0, ae_errno = 0, ae_malloc = (\<lambda>n. None),
     ae_images = (\<lambda>n color. (\<lparr>im_width = 0, im_height = 0, im_bytes = []\<rparr>, \<lparr>im_width = 0, im_height = 0, im_bytes = []\<rparr>)),
     ae_local_time = (\<lambda>s. ''2020-03-25 10:00:00''), ae_tv = (0, 0), ie_clipboard = Some ''hi'', ie_strdup = True,
     ie_mouse = (10, 20), ie_viewport = (0, 0), ie_scale = (Fin 1, Fin 1), ie_thread = True, ie_dims = (\<lambda>p. (1080, 1920))\<rparr>"

definition input_start :: InputManager where
  "input_start = \<lparr>im_am = manager_start [True], im_screen = shown_screen,
     im_display = (display_start None [])\<lparr>dp_next := 3, dp_windows := [0], dp_renderers := [1],
       dp_textures := [(2, \<lparr>width = 1080, height = 1920\<rparr>)]\<rparr>,
     im_fh = file_start None DEFAULT_PUSH_TARGET quiet_proc, im_sdl = \<lparr>sdl_answers = [True], sdl_live = 2, sdl_threads = 0\<rparr>,
     im_prefer_text = False, im_freed = []\<rparr>"

lemma input_start_ok: "input_ok input_start"
  using manager_start_ok [of "[True]"] stream_start_ok [of "quiet_net []"] file_start_ok [of quiet_proc None DEFAULT_PUSH_TARGET]
  by (simp add: input_ok_def input_start_def screen_ok_def shown_screen_def display_start_def manager_start_def quiet_proc_def proc_inv_def)

lemma quiet_env_ok: "env_ok quiet_env"
  by (simp add: env_ok_def quiet_env_def malloc_ok_def BLOB_MSG_SERIALIZED_MAX_SIZE_def)

definition paste_key :: SDL_KeyboardEvent where
  "paste_key = \<lparr>key_type = SDL_KEYDOWN, key_repeat = 0, key_sym = SDLK_v, key_mod = KMOD_LCTRL\<rparr>"

lemma paste_key_fine: "event_fine quiet_env (SDL_KEY paste_key) input_start"
proof -
  have "utf8_string ''hi''" unfolding utf8_string_def
    by (rule exI [of _ "[''h'', ''i'']"]) (auto simp: utf8_char_def utf8_continues_def byte_of_def)
  then show ?thesis
    by (simp add: event_fine_def dispatch_fine_def quiet_env_ok paste_key_def record_key_fine_def text_fine_def
      input_start_def manager_start_def) (simp add: quiet_env_def)
qed


theorem event_loop_ends_witness:
  "\<exists>s'. EventLoop [(quiet_env, SDL_KEY paste_key), (quiet_env, SDL_QUIT)] True input_start = Some (True, s')"
proof -
  have "run_fine [(quiet_env, SDL_KEY paste_key), (quiet_env, SDL_QUIT)] True input_start"
    using paste_key_fine by (simp add: event_fine_def dispatch_fine_def quiet_env_ok split: option.split)
  from event_loop_ends [OF input_start_ok this] show ?thesis by (auto simp: event_result_def)
qed

theorem no_control_silent_witness:
  "\<exists>r s'. HandleEvent quiet_env (SDL_KEY paste_key) False input_start = Some (r, s') \<and>
     wk_accepted (am_controller (im_am s')) = []"
proof -
  from HandleEvent_ok [OF input_start_ok paste_key_fine, of False] obtain r s' where
    h: "HandleEvent quiet_env (SDL_KEY paste_key) False input_start = Some (r, s')" by (rule definedE) auto
  from no_control_silent [OF h] h show ?thesis
    by (simp add: input_start_def manager_start_def controller_start_def worker_start_def)
qed

end
