(* ===== verification/Session.thy ===== *)
theory Session
  imports Input_Events
begin

section \<open>The threads of a session\<close>

text \<open>
  The main thread with its handlers of events, the receiving thread of the agent and the thread of
  the controller share the controller's queue. Here they are put together: a step of a session is
  an event that the main thread handles, a message of the agent's client that its thread hands to
  the manager, or a step of the controller's thread. The critical sections on the queue are
  atomic. An event is one step: that the other threads run between two pushes of one event is not
  modelled here, the controller's own steps allow it. Messages of the client that carry a text are
  left out, because the agent releases the text too early (see the agent manager).
\<close>

definition on_controller ::
  "((ControlMessage, control_env) worker \<Rightarrow> (ControlMessage, control_env) worker) \<Rightarrow> InputManager \<Rightarrow> InputManager" where
  "on_controller f s = s\<lparr>im_am := (im_am s)\<lparr>am_controller := f (am_controller (im_am s))\<rparr>\<rparr>"

abbreviation ctl :: "InputManager \<Rightarrow> (ControlMessage, control_env) worker" where
  "ctl s \<equiv> am_controller (im_am s)"

inductive session_step :: "socket_t \<Rightarrow> bool \<Rightarrow> InputManager \<Rightarrow> InputManager \<Rightarrow> bool" for sock control where
  session_event: "event_fine env e s \<Longrightarrow> HandleEvent env e control s = Some (r, s') \<Longrightarrow> session_step sock control s s'"
| session_client: "well_formed m \<Longrightarrow> owned m = [] \<Longrightarrow> ProcessAgentControlMessage m (im_am s) = Some am \<Longrightarrow>
     session_step sock control s (s\<lparr>im_am := am\<rparr>)"
| session_thread: "RunController_turn sock (ctl s) = Some c \<Longrightarrow> session_step sock control s (on_controller (\<lambda>_. c) s)"
| session_spurious: "wk_pc (ctl s) = W_Sleep \<Longrightarrow>
     session_step sock control s (on_controller (\<lambda>c. c\<lparr>wk_pc := W_Loop\<rparr>) s)"
| session_stop: "session_step sock control s (on_controller Actor_Stop s)"

subsection \<open>A session is a run of the controller\<close>

lemma fed_steps: "fed c c' \<Longrightarrow> (controller_step sock)\<^sup>*\<^sup>* c c'"
  by (induction rule: fed.induct)
    (auto simp: Controller_PushMessage_def intro: step_push rtranclp.rtrancl_into_rtrancl)

lemma on_controller_simps [simp]: "ctl (on_controller f s) = f (ctl s)"
  by (simp add: on_controller_def)

lemma on_controller_ok:
  assumes "input_ok s" and "worker_inv well_formed CONTROL_QUEUE_SIZE (f (ctl s))"
  shows "input_ok (on_controller f s)"
  using assms by (simp add: input_ok_def on_controller_def controller_ok_def)

lemma client_step_ok:
  assumes ok: "input_ok s" and m: "well_formed m" and p: "ProcessAgentControlMessage m (im_am s) = Some am"
  shows "input_ok (s\<lparr>im_am := am\<rparr>)" and "fed (ctl s) (am_controller am)"
proof -
  have c: "controller_ok (im_am s)" using ok by (simp add: input_ok_def)
  have "controller_ok am \<and> am_stream am = am_stream (im_am s) \<and> fed (ctl s) (am_controller am)"
  proof (cases "forwards m")
    case True
    with p obtain res q where q: "Controller_PushMessage (ctl s) m = Some (res, q)" "am = (im_am s)\<lparr>am_controller := q\<rparr>"
      by (auto simp: ProcessAgentControlMessage_forwards)
    with Controller_PushMessage_keeps [OF c m q(1)] m show ?thesis by (auto intro: fed_push [OF fed_refl])
  next
    case False
    with p have "StartRecordEvents (im_am s) = Some am \<or> StopRecordEvents (im_am s) = Some am"
      by (auto simp: forwards_def ProcessAgentControlMessage_def)
    with c show ?thesis
      by (auto simp: StartRecordEvents_def StopRecordEvents_def RWFromFile_def RWwrite_def controller_ok_def bind_Some_iff
        Let_def split: option.splits list.splits if_splits)
  qed
  with ok show "input_ok (s\<lparr>im_am := am\<rparr>)" "fed (ctl s) (am_controller am)" by (simp_all add: input_ok_def)
qed

lemma session_step_ok:
  assumes "session_step sock control s s'" and "input_ok s"
  shows "input_ok s' \<and> (controller_step sock)\<^sup>*\<^sup>* (ctl s) (ctl s')"
  using assms
proof cases
  case (session_event env e r)
  with HandleEvent_ok [OF assms(2), of env e control] show ?thesis by (auto intro: fed_steps)
next
  case (session_client m am)
  with client_step_ok [OF assms(2)] show ?thesis by (auto intro: fed_steps)
next
  case (session_thread c)
  have st: "controller_step sock (ctl s) c"
    using session_thread by (intro step_turn) (simp add: RunController_turn_def)
  have "worker_inv well_formed CONTROL_QUEUE_SIZE (ctl s)" using assms(2) by (simp add: input_ok_def controller_ok_def)
  from on_controller_ok [OF assms(2), of "\<lambda>_. c"] worker_step_inv [OF st this] st session_thread show ?thesis by auto
next
  case session_spurious
  then have st: "controller_step sock (ctl s) ((ctl s)\<lparr>wk_pc := W_Loop\<rparr>)" by (intro step_spurious)
  have "worker_inv well_formed CONTROL_QUEUE_SIZE (ctl s)" using assms(2) by (simp add: input_ok_def controller_ok_def)
  from on_controller_ok [OF assms(2), of "\<lambda>c. c\<lparr>wk_pc := W_Loop\<rparr>"] worker_step_inv [OF st this] st session_spurious
  show ?thesis by auto
next
  case session_stop
  have st: "controller_step sock (ctl s) (Actor_Stop (ctl s))" by (rule step_stop)
  have "worker_inv well_formed CONTROL_QUEUE_SIZE (ctl s)" using assms(2) by (simp add: input_ok_def controller_ok_def)
  from on_controller_ok [OF assms(2), of Actor_Stop] worker_step_inv [OF st this] st session_stop show ?thesis by auto
qed

lemma session_reachable:
  assumes "(session_step sock control)\<^sup>*\<^sup>* s0 s" and "input_ok s0"
  shows "input_ok s \<and> (controller_step sock)\<^sup>*\<^sup>* (ctl s0) (ctl s)"
  using assms
proof (induction rule: rtranclp_induct)
  case (step y z)
  with session_step_ok [OF step.hyps(2)] show ?case by (meson rtranclp_trans)
qed simp

lemma fed_fields:
  assumes "fed c c'"
  shows "wk_env c' = wk_env c" and "wk_stopped c' = wk_stopped c"
    and "wk_pc c = W_Loop \<or> wk_pc c = W_Sleep \<Longrightarrow> wk_pc c' = W_Loop \<or> wk_pc c' = W_Sleep"
    and "\<exists>ms. wk_accepted c' = wk_accepted c @ ms"
  using assms
proof (induction rule: fed.induct)
  case (fed_push c c1 m res c')
  note f = worker_push_fields [OF fed_push.hyps(3) [unfolded Controller_PushMessage_def]]
  have pc: "wk_pc c' = wk_pc c1 \<or> wk_pc c' = W_Loop"
    using fed_push.hyps(3) by (auto simp: Controller_PushMessage_def worker_push_def cond_signal_def Let_def bind_Some_iff)
  {
    case 1
    then show ?case using fed_push.IH f by simp
  next
    case 2
    then show ?case using fed_push.IH f by simp
  next
    case 3
    then show ?case using fed_push.IH pc by auto
  next
    case 4
    then show ?case using fed_push.IH f by auto
  }
qed auto

lemma controller_drains_any:
  assumes r: "(controller_step sock)\<^sup>*\<^sup>* (controller_start w) c" and w: "nw_sent w = []"
    and go: "\<not> wk_stopped c" "wk_pc c = W_Loop \<or> wk_pc c = W_Sleep"
    and ready: "net_ready (length (cbuf_items (wk_queue c))) (wk_env c)"
  shows "\<exists>c'. worker_run (controller_handle sock) (2 * length (cbuf_items (wk_queue c)) + 1) c = Some c' \<and>
    wk_pc c' = W_Sleep \<and> wk_accepted c' = wk_accepted c \<and>
    nw_sent (ce_net (wk_env c')) = concat (map wire (wk_accepted c))"
proof -
  have inv: "worker_inv well_formed CONTROL_QUEUE_SIZE c"
    using worker_reachable_inv [OF r [unfolded controller_start_def]] by simp
  have "\<exists>c'. worker_run (controller_handle sock) (2 * length (cbuf_items (wk_queue c)) + 1) c = Some c' \<and>
    wk_pc c' = W_Sleep \<and> wk_handled c' = wk_accepted c \<and> wk_accepted c' = wk_accepted c"
  proof (cases "wk_pc c = W_Loop")
    case True
    from worker_drains_loop [where ready = net_ready and process = "controller_handle sock",
        OF controller_handle_ready inv go(1) this ready] show ?thesis by blast
  next
    case False
    with go(2) have p: "wk_pc c = W_Sleep" by simp
    with inv have "cbuf_items (wk_queue c) = []" "wk_handled c = wk_accepted c" by (simp_all add: worker_inv_def)
    with p show ?thesis by (simp add: worker_turn_def)
  qed
  then obtain c' where c': "worker_run (controller_handle sock) (2 * length (cbuf_items (wk_queue c)) + 1) c = Some c'"
    "wk_pc c' = W_Sleep" "wk_handled c' = wk_accepted c" "wk_accepted c' = wk_accepted c" by blast
  from r worker_run_steps [OF c'(1)] have "(controller_step sock)\<^sup>*\<^sup>* (controller_start w) c'" by (rule rtranclp_trans)
  from controller_sink.stream_handled [OF this [unfolded controller_start_def]] c' w show ?thesis by auto
qed

subsection \<open>The messages an event stands for\<close>

text \<open>
  The specification of the plain input of a user, without shortcuts: a key, a text, a movement, a
  click with the left button, a turn of the wheel or a finger stands for at most one message.
\<close>

definition text_message :: "string \<Rightarrow> ControlMessage" where
  "text_message t = \<lparr>cm_type = CONTROL_MSG_TYPE_INJECT_TEXT, cm_body = BodyText (Some t)\<rparr>"

definition plain_input :: "SDL_Event \<Rightarrow> bool" where
  "plain_input e \<longleftrightarrow> (case e of
       SDL_KEY k \<Rightarrow> \<not> ctrl_key (key_mod k) \<and> \<not> alt_key (key_mod k) \<and> \<not> meta_key (key_mod k)
     | SDL_MOUSEBUTTON b \<Rightarrow> mb_which b \<noteq> SDL_TOUCH_MOUSEID \<and> mb_button b = SDL_BUTTON_LEFT \<and> mb_clicks b \<noteq> 2
     | _ \<Rightarrow> True)"

definition stands_for :: "input_env \<Rightarrow> SDL_Event \<Rightarrow> InputManager \<Rightarrow> ControlMessage list" where
  "stands_for env e s = (case e of
       SDL_KEY k \<Rightarrow> (case ConvertInputKey k (im_prefer_text s) of None \<Rightarrow> [] | Some m \<Rightarrow> [m])
     | SDL_TEXTINPUT t \<Rightarrow> if ie_strdup env \<and> (im_prefer_text s \<or> \<not> typed_as_key t) then [text_message t] else []
     | SDL_MOUSEMOTION m \<Rightarrow>
         if mm_state m = 0 \<or> mm_which m = SDL_TOUCH_MOUSEID then [] else [ConvertMouseMotion m (im_screen s)]
     | SDL_MOUSEWHEEL w \<Rightarrow> (case ConvertMouseWheel env w (im_screen s) of None \<Rightarrow> [] | Some m \<Rightarrow> [m])
     | SDL_MOUSEBUTTON b \<Rightarrow> (case ConvertMouseButton b (im_screen s) of Some (Some m) \<Rightarrow> [m] | _ \<Rightarrow> [])
     | SDL_FINGER f \<Rightarrow> (case ConvertTouch f (im_screen s) of Some (Some m) \<Rightarrow> [m] | _ \<Rightarrow> [])
     | _ \<Rightarrow> [])"

definition has_room :: "InputManager \<Rightarrow> bool" where
  "has_room s \<longleftrightarrow> length (cbuf_items (wk_queue (ctl s))) < CONTROL_QUEUE_SIZE"

text \<open>\<open>adds s x ms\<close>: if the handler is defined, the controller has accepted \<open>ms\<close> more.\<close>

definition adds :: "InputManager \<Rightarrow> InputManager option \<Rightarrow> ControlMessage list \<Rightarrow> bool" where
  "adds s x ms \<longleftrightarrow> (case x of None \<Rightarrow> True | Some s' \<Rightarrow> wk_accepted (ctl s') = wk_accepted (ctl s) @ ms)"

lemma adds_simps [simp]: "adds s (Some s) []" "adds s None ms"
  by (simp_all add: adds_def)

lemma adds_silent: "silent s x \<Longrightarrow> adds s x []"
  by (cases x) (simp_all add: adds_def silent_def)

lemma push_message_pushes:
  "push_message env m s = Some (sent, s') \<Longrightarrow> Controller_PushMessage (ctl s) m = Some (sent, ctl s')"
  by (auto simp: push_message_def PushDeviceControlMessage_def RWwrite_def bind_Some_iff split: if_splits option.splits)

lemma push_message_adds:
  assumes "input_ok s" and "has_room s"
  shows "adds s (map_option snd (push_message env m s)) [m]"
proof (cases "push_message env m s")
  case (Some x)
  obtain sent s' where x: "x = (sent, s')" by (cases x)
  have "controller_ok (im_am s)" using assms(1) by (simp add: input_ok_def)
  from Controller_PushMessage_ok [OF this, of m] push_message_pushes [OF Some [unfolded x]] assms(2)
  have "Controller_PushMessage (ctl s) m = Some (True, ctl s')" by (auto simp: has_room_def)
  with worker_push_fields(4) [of "ctl s" m True "ctl s'"] Some x show ?thesis
    by (simp add: adds_def Controller_PushMessage_def)
qed (simp add: adds_def)

lemma push_text_adds:
  assumes "input_ok s" and "has_room s"
  shows "adds s (push_text env t txt s) [\<lparr>cm_type = t, cm_body = BodyText (Some txt)\<rparr>]"
  using push_message_adds [OF assms, of env "\<lparr>cm_type = t, cm_body = BodyText (Some txt)\<rparr>"]
  by (cases "push_message env \<lparr>cm_type = t, cm_body = BodyText (Some txt)\<rparr> s")
    (auto simp: push_text_def adds_def SDL_free_def split: if_splits prod.splits)

lemma ProcessTextInput_adds:
  assumes ok: "input_ok s" and room: "has_room s"
  shows "adds s (ProcessTextInput env t s) (stands_for env (SDL_TEXTINPUT t) s)"
proof -
  have a: "\<not> is_alpha NUL" "NUL \<noteq> CHR '' ''" by (simp_all add: is_alpha_def NUL_def)
  have "adds s (push_text env CONTROL_MSG_TYPE_INJECT_TEXT t s) [text_message t]"
    using push_text_adds [OF ok room] by (simp add: text_message_def)
  with a show ?thesis
    by (cases t) (auto simp: ProcessTextInput_def stands_for_def typed_as_key_def char_at_def adds_def split: bind_split)
qed

lemma dispatch_adds:
  assumes ok: "input_ok s" and room: "has_room s" and plain: "plain_input e"
  shows "adds s (dispatch_event env e True s) (stands_for env e s)"
proof (cases e)
  case EVENT_NEW_FRAME
  then show ?thesis by (simp add: dispatch_event_def stands_for_def adds_silent handle_new_frame_silent)
next
  case (SDL_WINDOWEVENT w)
  then show ?thesis by (simp add: dispatch_event_def stands_for_def adds_silent)
next
  case (SDL_TEXTINPUT t)
  with ProcessTextInput_adds [OF ok room] show ?thesis by (simp add: dispatch_event_def)
next
  case (SDL_KEY k)
  with plain push_message_adds [OF ok room] show ?thesis
    by (simp add: dispatch_event_def stands_for_def plain_input_def ProcessKey_def Let_def split: option.split)
next
  case (SDL_MOUSEMOTION m)
  with push_message_adds [OF ok room] show ?thesis by (simp add: dispatch_event_def stands_for_def ProcessMouseMotion_def)
next
  case (SDL_MOUSEWHEEL w)
  with push_message_adds [OF ok room] show ?thesis
    by (cases "ConvertMouseWheel env w (im_screen s)")
      (simp_all add: dispatch_event_def stands_for_def ProcessMouseWheel_def adds_def)
next
  case (SDL_MOUSEBUTTON b)
  with plain push_message_adds [OF ok room] show ?thesis
    by (cases "ConvertMouseButton b (im_screen s)")
      (auto simp: dispatch_event_def stands_for_def plain_input_def ProcessMouseButton_def forward_button_def
        split: option.split)
next
  case (SDL_FINGER f)
  with push_message_adds [OF ok room] show ?thesis
    by (cases "ConvertTouch f (im_screen s)")
      (auto simp: dispatch_event_def stands_for_def ProcessTouch_def split: option.split)
next
  case (SDL_DROPFILE f)
  then show ?thesis
    by (auto simp: dispatch_event_def stands_for_def adds_def handle_drop_def Let_def split: option.splits bind_splits prod.splits if_splits)
qed (simp_all add: dispatch_event_def stands_for_def)

lemma HandleEvent_adds:
  assumes ok: "input_ok s" and room: "has_room s" and plain: "plain_input e"
    and h: "HandleEvent env e True s = Some (r, s')" and fine: "event_fine env e s"
  shows "wk_accepted (ctl s') = wk_accepted (ctl s) @ stands_for env e s"
proof -
  from AgentManager_HandleEvent_ok [OF ok fine] obtain am where
    am: "AgentManager_HandleEvent (agent_env.truncate env) e True (im_am s) = Some (event_result e, am)"
      "agent_keeps (im_am s) am" by (rule definedE) auto
  let ?s = "s\<lparr>im_am := am\<rparr>"
  have "input_ok ?s" "has_room ?s" using ok room am(2) by (simp_all add: input_ok_def agent_keeps_def controller_ok_def has_room_def)
  from dispatch_adds [OF this plain, of env] have d: "adds ?s (dispatch_event env e True ?s) (stands_for env e ?s)" .
  have same: "stands_for env e ?s = stands_for env e s" by (simp add: stands_for_def split: SDL_Event.split)
  show ?thesis
  proof (cases "event_result e = EVENT_RESULT_CONTINUE")
    case True
    with h am have "dispatch_event env e True ?s = Some s'" by (auto simp: HandleEvent_def bind_Some_iff)
    with d same am(2) show ?thesis by (simp add: adds_def agent_keeps_def)
  next
    case False
    then have "stands_for env e s = []" by (cases e) (simp_all add: event_result_def stands_for_def)
    with False h am show ?thesis by (auto simp: HandleEvent_def agent_keeps_def)
  qed
qed

subsection \<open>Properties\<close>


text \<open>C1. In every session with control whose controller is running and has room for a message, the plain
  input of the user reaches the device: once the main thread has handled the event, the
  controller's thread, left alone with a socket that accepts data, sends all that waits, in two
  turns for each message and one more; the device then decodes all messages accepted before, in
  order, followed by exactly the message the event stands for.\<close>

theorem session_delivers:
  assumes "(session_step sock True)\<^sup>*\<^sup>* s0 s" and "input_ok s0"
    and "ctl s0 = controller_start w" and "nw_sent w = []"
    and "\<not> wk_stopped (ctl s)" and "wk_pc (ctl s) = W_Loop \<or> wk_pc (ctl s) = W_Sleep"
    and "event_fine env e s" and "plain_input e" and "has_room s"
    and "net_ready CONTROL_QUEUE_SIZE (wk_env (ctl s))"
  shows "\<exists>s' n c. HandleEvent env e True s = Some (event_result e, s') \<and>
    n = length (cbuf_items (wk_queue (ctl s'))) \<and>
    worker_run (controller_handle sock) (2 * n + 1) (ctl s') = Some c \<and> wk_pc c = W_Sleep \<and>
    decode_all (length (wk_accepted (ctl s'))) (nw_sent (ce_net (wk_env c))) =
      Some (map carried (wk_accepted (ctl s)) @ map carried (stands_for env e s))"
proof -
  from session_reachable [OF assms(1,2)] have ok: "input_ok s" by simp
  from HandleEvent_ok [OF ok assms(7), of True] obtain s' where
    s': "HandleEvent env e True s = Some (event_result e, s')" "input_ok s'" "fed (ctl s) (ctl s')" by (auto elim!: definedE)
  from assms(1) session_event [OF assms(7) s'(1)] have "(session_step sock True)\<^sup>*\<^sup>* s0 s'"
    by (rule rtranclp.rtrancl_into_rtrancl)
  with session_reachable [OF _ assms(2)] have r: "(controller_step sock)\<^sup>*\<^sup>* (controller_start w) (ctl s')"
    by (simp add: assms(3))
  note f = fed_fields [OF s'(3)]
  have inv: "worker_inv well_formed CONTROL_QUEUE_SIZE (ctl s')" using s'(2) by (simp add: input_ok_def controller_ok_def)
  then have "net_ready (length (cbuf_items (wk_queue (ctl s')))) (wk_env (ctl s'))"
    using net_ready_less [OF assms(10)] worker_room [OF inv] by (simp add: f(1))
  with controller_drains_any [OF r assms(4)] f(2,3) assms(5,6) obtain c where
    c: "worker_run (controller_handle sock) (2 * length (cbuf_items (wk_queue (ctl s'))) + 1) (ctl s') = Some c"
      "wk_pc c = W_Sleep" "nw_sent (ce_net (wk_env c)) = concat (map wire (wk_accepted (ctl s')))" by blast
  have "\<forall>m \<in> set (wk_accepted (ctl s')). well_formed m" using inv by (simp add: worker_inv_def)
  from decode_all_wire [OF this order_refl] c s'(1) HandleEvent_adds [OF ok assms(9,8) s'(1) assms(7)]
  show ?thesis by auto
qed

subsection \<open>Instances\<close>

definition session_start :: InputManager where
  "session_start = on_controller (\<lambda>_. controller_start (quiet_net (replicate 64 4096))) input_start"

lemma session_start_ok: "input_ok session_start"
  unfolding session_start_def
  by (rule on_controller_ok [OF input_start_ok]) (simp add: controller_start_def worker_inv_start)

lemma session_start_ctl: "ctl session_start = controller_start (quiet_net (replicate 64 4096))"
  by (simp add: session_start_def)


text \<open>A movement of the mouse with the left button held.\<close>

definition drag :: SDL_MouseMotionEvent where
  "drag = \<lparr>mm_which = 0, mm_state = 1, mm_x = 10, mm_y = 20\<rparr>"

theorem session_delivers_witness:
  "\<exists>s' n c. HandleEvent quiet_env (SDL_MOUSEMOTION drag) True session_start = Some (EVENT_RESULT_CONTINUE, s') \<and>
    worker_run (controller_handle 3) n (ctl s') = Some c \<and>
    (\<exists>k. decode_all k (nw_sent (ce_net (wk_env c))) = Some [carried (ConvertMouseMotion drag (im_screen session_start))])"
proof -
  have n: "nw_sent (quiet_net (replicate 64 4096)) = []" by (simp add: quiet_net_def)
  have c: "\<not> wk_stopped (ctl session_start)" "wk_pc (ctl session_start) = W_Loop" "has_room session_start"
    "wk_accepted (ctl session_start) = []"
    by (simp_all add: session_start_ctl has_room_def controller_start_def worker_start_def CONTROL_QUEUE_SIZE_def)
  have fine: "event_fine quiet_env (SDL_MOUSEMOTION drag) session_start"
    by (simp add: event_fine_def dispatch_fine_def quiet_env_ok)
  have plain: "plain_input (SDL_MOUSEMOTION drag)" by (simp add: plain_input_def)
  have ready: "net_ready CONTROL_QUEUE_SIZE (wk_env (ctl session_start))"
    by (simp add: session_start_ctl net_ready_def controller_start_def worker_start_def quiet_net_def CONTROL_QUEUE_SIZE_def
        CONTROL_MSG_SERIALIZED_MAX_SIZE_def CONTROL_MSG_CLIPBOARD_TEXT_MAX_LENGTH_def)
  have "stands_for quiet_env (SDL_MOUSEMOTION drag) session_start = [ConvertMouseMotion drag (im_screen session_start)]"
    by (simp add: stands_for_def drag_def)
  with session_delivers [OF rtranclp.rtrancl_refl session_start_ok session_start_ctl n c(1) disjI1 [OF c(2)] fine plain c(3) ready, of 3]
  obtain s' n c where
    "HandleEvent quiet_env (SDL_MOUSEMOTION drag) True session_start = Some (EVENT_RESULT_CONTINUE, s')"
    "worker_run (controller_handle 3) (2 * n + 1) (ctl s') = Some c"
    "decode_all (length (wk_accepted (ctl s'))) (nw_sent (ce_net (wk_env c))) =
      Some [carried (ConvertMouseMotion drag (im_screen session_start))]"
    by (auto simp: c(4) event_result_def simp del: worker_run.simps)
  then show ?thesis by blast
qed

end
