(* ===== verification/Locks.thy ===== *)
theory Locks
  imports Worker
begin

section \<open>Locks, and actors at the level of their locks (src/src/util/lock.hpp, core/actor.cpp)\<close>

text \<open>
  The worker takes each critical section as one step. Here the sections are taken apart: every
  call of \<open>mutex_lock\<close>, \<open>cond_wait\<close>, \<open>cond_signal\<close> and \<open>mutex_unlock\<close>, every test and every
  operation on the queue is a step of its own, and any number of clients interleave with the
  thread. The two levels are related by a simulation, so what is proved of the worker holds here.

  The mutex and the condition variable are SDL's, so its calls are parameters, the fields of
  \<open>sdl_sync\<close>; \<open>sync_ok\<close> is what its documentation promises. The state is what it speaks of: the
  thread that holds the mutex and how often, and whether a thread waits for the condition. A call
  whose precondition does not hold may do anything, and where it reports an error the wrappers
  abort the program, in builds with assertions.
\<close>

datatype thread = Client nat | Loop_Thread

record lock =
  lk_owner :: "thread option"
  lk_count :: nat
  lk_waiting :: bool

text \<open>\<open>SDL_CondWait\<close> has two halves: it releases the mutex and sleeps; woken, it takes the mutex and returns.\<close>

record sdl_sync =
  SDL_LockMutex :: "thread \<Rightarrow> lock \<Rightarrow> int \<times> lock"
  SDL_UnlockMutex :: "thread \<Rightarrow> lock \<Rightarrow> int \<times> lock"
  SDL_CondWait :: "thread \<Rightarrow> lock \<Rightarrow> lock"
  SDL_CondWait_return :: "thread \<Rightarrow> lock \<Rightarrow> int \<times> lock"
  SDL_CondSignal :: "lock \<Rightarrow> int \<times> lock"

definition lock_free :: "thread \<Rightarrow> lock \<Rightarrow> bool" where
  "lock_free t l \<longleftrightarrow> lk_owner l = None \<or> lk_owner l = Some t"

definition sync_ok :: "sdl_sync \<Rightarrow> bool" where
  "sync_ok sdl \<longleftrightarrow>
     (\<forall>t l. lock_free t l \<longrightarrow>
        SDL_LockMutex sdl t l = (0, l\<lparr>lk_owner := Some t, lk_count := lk_count l + 1\<rparr>)) \<and>
     (\<forall>t l. lk_owner l = Some t \<longrightarrow> lk_count l = 1 \<longrightarrow>
        SDL_UnlockMutex sdl t l = (0, l\<lparr>lk_owner := None, lk_count := 0\<rparr>)) \<and>
     (\<forall>t l. lk_owner l = Some t \<longrightarrow> lk_count l = 1 \<longrightarrow>
        SDL_CondWait sdl t l = l\<lparr>lk_owner := None, lk_count := 0, lk_waiting := True\<rparr>) \<and>
     (\<forall>t l. lk_owner l = None \<longrightarrow> \<not> lk_waiting l \<longrightarrow>
        SDL_CondWait_return sdl t l = (0, l\<lparr>lk_owner := Some t, lk_count := 1\<rparr>)) \<and>
     (\<forall>l. SDL_CondSignal sdl l = (0, l\<lparr>lk_waiting := False\<rparr>))"

definition mutex_log :: "bool \<Rightarrow> int \<Rightarrow> unit option" where
  "mutex_log ndebug r = (if \<not> ndebug \<and> r \<noteq> 0 then None else Some ())"

definition mutex_lock :: "sdl_sync \<Rightarrow> bool \<Rightarrow> thread \<Rightarrow> lock \<Rightarrow> lock option" where
  "mutex_lock sdl ndebug t l = (let (r, l) = SDL_LockMutex sdl t l in do { mutex_log ndebug r; Some l })"

definition mutex_unlock :: "sdl_sync \<Rightarrow> bool \<Rightarrow> thread \<Rightarrow> lock \<Rightarrow> lock option" where
  "mutex_unlock sdl ndebug t l = (let (r, l) = SDL_UnlockMutex sdl t l in do { mutex_log ndebug r; Some l })"

definition cond_wait_return :: "sdl_sync \<Rightarrow> bool \<Rightarrow> thread \<Rightarrow> lock \<Rightarrow> lock option" where
  "cond_wait_return sdl ndebug t l = (let (r, l) = SDL_CondWait_return sdl t l in do { mutex_log ndebug r; Some l })"

definition lock_signal :: "sdl_sync \<Rightarrow> bool \<Rightarrow> lock \<Rightarrow> lock option" where
  "lock_signal sdl ndebug l = (let (r, l) = SDL_CondSignal sdl l in do { mutex_log ndebug r; Some l })"

lemma lock_calls:
  assumes "sync_ok sdl"
  shows "lock_free t l \<Longrightarrow> mutex_lock sdl ndebug t l = Some (l\<lparr>lk_owner := Some t, lk_count := lk_count l + 1\<rparr>)"
    and "lk_owner l = Some t \<Longrightarrow> lk_count l = 1 \<Longrightarrow>
      mutex_unlock sdl ndebug t l = Some (l\<lparr>lk_owner := None, lk_count := 0\<rparr>)"
    and "lk_owner l = Some t \<Longrightarrow> lk_count l = 1 \<Longrightarrow>
      SDL_CondWait sdl t l = l\<lparr>lk_owner := None, lk_count := 0, lk_waiting := True\<rparr>"
    and "lk_owner l = None \<Longrightarrow> \<not> lk_waiting l \<Longrightarrow>
      cond_wait_return sdl ndebug t l = Some (l\<lparr>lk_owner := Some t, lk_count := 1\<rparr>)"
    and "lock_signal sdl ndebug l = Some (l\<lparr>lk_waiting := False\<rparr>)"
  using assms
  by (simp_all add: sync_ok_def mutex_lock_def mutex_unlock_def cond_wait_return_def lock_signal_def mutex_log_def)

subsection \<open>The threads\<close>

text \<open>
  Where the loop of the actor and a client stand: before the call or the test named. \<open>C_Signal\<close>
  says whether the condition is to be signalled.
\<close>

datatype 'm loop_pc =
  L_Lock | L_Test | L_Wait | L_Waiting | L_Exit | L_Take | L_Unlock 'm | L_Process 'm | L_Done

datatype 'm client_pc =
  C_Idle | C_Lock_Push 'm | C_Test 'm | C_Push 'm bool | C_Lock_Stop | C_Set | C_Signal bool | C_Unlock

record ('m, 'e) threads =
  th_lock :: lock
  th_queue :: "'m cbuf"
  th_stopped :: bool
  th_env :: 'e
  th_loop :: "'m loop_pc"
  th_client :: "nat \<Rightarrow> 'm client_pc"
  th_accepted :: "'m list"
  th_handled :: "'m list"

definition loop_step ::
  "sdl_sync \<Rightarrow> bool \<Rightarrow> ('m \<Rightarrow> 'e \<Rightarrow> (bool \<times> 'e) option) \<Rightarrow> ('m, 'e) threads \<Rightarrow> ('m, 'e) threads option" where
  "loop_step sdl ndebug process s =
     (case th_loop s of
        L_Lock \<Rightarrow> do {
          l \<leftarrow> mutex_lock sdl ndebug Loop_Thread (th_lock s);
          Some (s\<lparr>th_lock := l, th_loop := L_Test\<rparr>)
        }
      | L_Test \<Rightarrow>
          Some (s\<lparr>th_loop := (if \<not> th_stopped s \<and> cbuf_is_empty (th_queue s) then L_Wait
                             else if th_stopped s then L_Exit else L_Take)\<rparr>)
      | L_Wait \<Rightarrow>
          Some (s\<lparr>th_lock := SDL_CondWait sdl Loop_Thread (th_lock s), th_loop := L_Waiting\<rparr>)
      | L_Waiting \<Rightarrow> do {
          l \<leftarrow> cond_wait_return sdl ndebug Loop_Thread (th_lock s);
          Some (s\<lparr>th_lock := l, th_loop := L_Test\<rparr>)
        }
      | L_Exit \<Rightarrow> do {
          l \<leftarrow> mutex_unlock sdl ndebug Loop_Thread (th_lock s);
          Some (s\<lparr>th_lock := l, th_loop := L_Done\<rparr>)
        }
      | L_Take \<Rightarrow> do {
          (r, q) \<leftarrow> cbuf_take (th_queue s);
          c_assert (r \<noteq> None);
          m \<leftarrow> r;
          Some (s\<lparr>th_queue := q, th_loop := L_Unlock m\<rparr>)
        }
      | L_Unlock m \<Rightarrow> do {
          l \<leftarrow> mutex_unlock sdl ndebug Loop_Thread (th_lock s);
          Some (s\<lparr>th_lock := l, th_loop := L_Process m\<rparr>)
        }
      | L_Process m \<Rightarrow> do {
          (ok, e) \<leftarrow> process m (th_env s);
          Some (s\<lparr>th_env := e, th_handled := th_handled s @ [m], th_loop := (if ok then L_Lock else L_Done)\<rparr>)
        }
      | L_Done \<Rightarrow> Some s)"

definition loop_blocked :: "('m, 'e) threads \<Rightarrow> bool" where
  "loop_blocked s \<longleftrightarrow>
     (case th_loop s of
        L_Lock \<Rightarrow> \<not> lock_free Loop_Thread (th_lock s)
      | L_Waiting \<Rightarrow> lk_waiting (th_lock s) \<or> lk_owner (th_lock s) \<noteq> None
      | L_Done \<Rightarrow> True
      | _ \<Rightarrow> False)"

definition client_step :: "sdl_sync \<Rightarrow> bool \<Rightarrow> nat \<Rightarrow> ('m, 'e) threads \<Rightarrow> ('m, 'e) threads option" where
  "client_step sdl ndebug i s =
     (let go = (\<lambda>p s. s\<lparr>th_client := (th_client s)(i := p)\<rparr>) in
      case th_client s i of
        C_Idle \<Rightarrow> Some s
      | C_Lock_Push m \<Rightarrow> do {
          l \<leftarrow> mutex_lock sdl ndebug (Client i) (th_lock s);
          Some (go (C_Test m) (s\<lparr>th_lock := l\<rparr>))
        }
      | C_Test m \<Rightarrow> Some (go (C_Push m (cbuf_is_empty (th_queue s))) s)
      | C_Push m was_empty \<Rightarrow> do {
          (res, q) \<leftarrow> cbuf_push (th_queue s) m;
          Some (go (C_Signal was_empty) (s\<lparr>th_queue := q, th_accepted := th_accepted s @ (if res then [m] else [])\<rparr>))
        }
      | C_Lock_Stop \<Rightarrow> do {
          l \<leftarrow> mutex_lock sdl ndebug (Client i) (th_lock s);
          Some (go C_Set (s\<lparr>th_lock := l\<rparr>))
        }
      | C_Set \<Rightarrow> Some (go (C_Signal True) (s\<lparr>th_stopped := True\<rparr>))
      | C_Signal b \<Rightarrow> do {
          l \<leftarrow> (if b then lock_signal sdl ndebug (th_lock s) else Some (th_lock s));
          Some (go C_Unlock (s\<lparr>th_lock := l\<rparr>))
        }
      | C_Unlock \<Rightarrow> do {
          l \<leftarrow> mutex_unlock sdl ndebug (Client i) (th_lock s);
          Some (go C_Idle (s\<lparr>th_lock := l\<rparr>))
        })"

definition client_blocked :: "nat \<Rightarrow> ('m, 'e) threads \<Rightarrow> bool" where
  "client_blocked i s \<longleftrightarrow>
     (case th_client s i of
        C_Lock_Push m \<Rightarrow> \<not> lock_free (Client i) (th_lock s)
      | C_Lock_Stop \<Rightarrow> \<not> lock_free (Client i) (th_lock s)
      | _ \<Rightarrow> False)"

text \<open>An idle client may call, with a message that keeps the contract; a thread that waits may wake for no reason.\<close>

inductive thread_step ::
  "sdl_sync \<Rightarrow> bool \<Rightarrow> ('m \<Rightarrow> 'e \<Rightarrow> (bool \<times> 'e) option) \<Rightarrow> ('m \<Rightarrow> bool) \<Rightarrow> ('m, 'e) threads \<Rightarrow> ('m, 'e) threads \<Rightarrow> bool"
  for sdl ndebug process good where
  call_push: "th_client s i = C_Idle \<Longrightarrow> good m \<Longrightarrow>
     thread_step sdl ndebug process good s (s\<lparr>th_client := (th_client s)(i := C_Lock_Push m)\<rparr>)"
| call_stop: "th_client s i = C_Idle \<Longrightarrow>
     thread_step sdl ndebug process good s (s\<lparr>th_client := (th_client s)(i := C_Lock_Stop)\<rparr>)"
| client_goes: "\<not> client_blocked i s \<Longrightarrow> client_step sdl ndebug i s = Some s' \<Longrightarrow> thread_step sdl ndebug process good s s'"
| loop_goes: "\<not> loop_blocked s \<Longrightarrow> loop_step sdl ndebug process s = Some s' \<Longrightarrow> thread_step sdl ndebug process good s s'"
| wakes: "lk_waiting (th_lock s) \<Longrightarrow>
     thread_step sdl ndebug process good s (s\<lparr>th_lock := (th_lock s)\<lparr>lk_waiting := False\<rparr>\<rparr>)"

definition threads_start :: "'m \<Rightarrow> nat \<Rightarrow> 'e \<Rightarrow> ('m, 'e) threads" where
  "threads_start d capacity e =
     \<lparr>th_lock = \<lparr>lk_owner = None, lk_count = 0, lk_waiting = False\<rparr>, th_queue = CBUF d capacity, th_stopped = False,
      th_env = e, th_loop = L_Lock, th_client = (\<lambda>_. C_Idle), th_accepted = [], th_handled = []\<rparr>"

subsection \<open>The invariant of the lock\<close>

fun client_critical :: "'m client_pc \<Rightarrow> bool" where
  "client_critical C_Idle \<longleftrightarrow> False"
| "client_critical (C_Lock_Push m) \<longleftrightarrow> False"
| "client_critical C_Lock_Stop \<longleftrightarrow> False"
| "client_critical (C_Test m) \<longleftrightarrow> True"
| "client_critical (C_Push m b) \<longleftrightarrow> True"
| "client_critical C_Set \<longleftrightarrow> True"
| "client_critical (C_Signal b) \<longleftrightarrow> True"
| "client_critical C_Unlock \<longleftrightarrow> True"

fun loop_critical :: "'m loop_pc \<Rightarrow> bool" where
  "loop_critical L_Lock \<longleftrightarrow> False"
| "loop_critical L_Test \<longleftrightarrow> True"
| "loop_critical L_Wait \<longleftrightarrow> True"
| "loop_critical L_Waiting \<longleftrightarrow> False"
| "loop_critical L_Exit \<longleftrightarrow> True"
| "loop_critical L_Take \<longleftrightarrow> True"
| "loop_critical (L_Unlock m) \<longleftrightarrow> True"
| "loop_critical (L_Process m) \<longleftrightarrow> False"
| "loop_critical L_Done \<longleftrightarrow> False"

fun critical :: "('m, 'e) threads \<Rightarrow> thread \<Rightarrow> bool" where
  "critical s (Client i) \<longleftrightarrow> client_critical (th_client s i)"
| "critical s Loop_Thread \<longleftrightarrow> loop_critical (th_loop s)"

text \<open>What a thread has tested, or been called with.\<close>

fun client_knows :: "('m \<Rightarrow> bool) \<Rightarrow> bool \<Rightarrow> 'm client_pc \<Rightarrow> bool" where
  "client_knows good none (C_Lock_Push m) \<longleftrightarrow> good m"
| "client_knows good none (C_Test m) \<longleftrightarrow> good m"
| "client_knows good none (C_Push m b) \<longleftrightarrow> good m \<and> b = none"
| "client_knows good none p \<longleftrightarrow> True"

fun loop_knows :: "bool \<Rightarrow> bool \<Rightarrow> 'm loop_pc \<Rightarrow> bool" where
  "loop_knows stop none L_Wait \<longleftrightarrow> \<not> stop \<and> none"
| "loop_knows stop none L_Exit \<longleftrightarrow> stop"
| "loop_knows stop none L_Take \<longleftrightarrow> \<not> stop \<and> \<not> none"
| "loop_knows stop none p \<longleftrightarrow> True"

text \<open>A thread owns the mutex exactly inside its critical section, and what it has tested is still true there.\<close>

definition lock_inv :: "('m \<Rightarrow> bool) \<Rightarrow> ('m, 'e) threads \<Rightarrow> bool" where
  "lock_inv good s \<longleftrightarrow>
     (\<forall>t. critical s t \<longleftrightarrow> lk_owner (th_lock s) = Some t) \<and>
     lk_count (th_lock s) = (if lk_owner (th_lock s) = None then 0 else 1) \<and>
     (lk_waiting (th_lock s) \<longrightarrow> th_loop s = L_Waiting) \<and>
     loop_knows (th_stopped s) (cbuf_is_empty (th_queue s)) (th_loop s) \<and>
     (\<forall>i. client_knows good (cbuf_is_empty (th_queue s)) (th_client s i))"

lemma knows_outside:
  "\<not> loop_critical p \<Longrightarrow> loop_knows stop none p"
  "\<not> client_critical c \<Longrightarrow> client_knows good none c = client_knows good none' c"
  by (cases p; simp) (cases c; simp)

lemma owner_alone: "lock_inv good s \<Longrightarrow> critical s t \<Longrightarrow> critical s t' \<Longrightarrow> t = t'"
  by (auto simp: lock_inv_def)

text \<open>The worker that the threads implement: between the change of its data and the signal it is already awake.\<close>

definition signalling :: "('m, 'e) threads \<Rightarrow> bool" where
  "signalling s \<longleftrightarrow> (case lk_owner (th_lock s) of Some (Client i) \<Rightarrow> th_client s i = C_Signal True | _ \<Rightarrow> False)"

definition worker_pc :: "('m, 'e) threads \<Rightarrow> 'm pc" where
  "worker_pc s =
     (case th_loop s of
        L_Waiting \<Rightarrow> if lk_waiting (th_lock s) \<and> \<not> signalling s then W_Sleep else W_Loop
      | L_Unlock m \<Rightarrow> W_Process m
      | L_Process m \<Rightarrow> W_Process m
      | L_Done \<Rightarrow> W_Done
      | _ \<Rightarrow> W_Loop)"

definition worker_of :: "('m, 'e) threads \<Rightarrow> ('m, 'e) worker" where
  "worker_of s = \<lparr>wk_queue = th_queue s, wk_stopped = th_stopped s, wk_pc = worker_pc s, wk_env = th_env s,
     wk_accepted = th_accepted s, wk_handled = th_handled s\<rparr>"

lemma worker_of_simps [simp]:
  "wk_queue (worker_of s) = th_queue s" "wk_stopped (worker_of s) = th_stopped s" "wk_pc (worker_of s) = worker_pc s"
  "wk_env (worker_of s) = th_env s" "wk_accepted (worker_of s) = th_accepted s" "wk_handled (worker_of s) = th_handled s"
  by (simp_all add: worker_of_def)

lemma start_inv: "lock_inv good (threads_start d capacity e)"
  unfolding lock_inv_def
proof (intro conjI allI)
  fix t
  show "critical (threads_start d capacity e) t \<longleftrightarrow> lk_owner (th_lock (threads_start d capacity e)) = Some t"
    by (cases t) (simp_all add: threads_start_def)
qed (simp_all add: threads_start_def)

lemma worker_of_start: "worker_of (threads_start d capacity e) = worker_start d capacity e"
  by (simp add: worker_of_def worker_pc_def threads_start_def worker_start_def)

subsection \<open>The simulation\<close>

text \<open>How the invariant is established again after a client's step, and after one of the loop's.\<close>

lemma client_inv:
  assumes inv: "lock_inv good s" and alone: "lock_free (Client i) (th_lock s)"
    and loop: "th_loop s' = th_loop s" and cl: "th_client s' = (th_client s)(i := p)"
    and own: "lk_owner (th_lock s') = (if client_critical p then Some (Client i) else None)"
    and cnt: "lk_count (th_lock s') = (if client_critical p then 1 else 0)"
    and wt: "lk_waiting (th_lock s') \<Longrightarrow> lk_waiting (th_lock s)"
    and knows: "client_knows good (cbuf_is_empty (th_queue s')) p"
  shows "lock_inv good s'"
proof -
  have loop_out: "\<not> loop_critical (th_loop s)" and out: "\<And>j. j \<noteq> i \<Longrightarrow> \<not> client_critical (th_client s j)"
    using inv alone by (auto simp: lock_inv_def lock_free_def simp flip: critical.simps)
  show ?thesis
    unfolding lock_inv_def
  proof (intro conjI allI)
    fix t
    show "critical s' t \<longleftrightarrow> lk_owner (th_lock s') = Some t"
      using loop_out out loop cl own by (cases t) auto
  next
    fix j
    have "client_knows good (cbuf_is_empty (th_queue s)) (th_client s j)" using inv by (simp add: lock_inv_def)
    with out knows cl show "client_knows good (cbuf_is_empty (th_queue s')) (th_client s' j)"
      using knows_outside(2) by fastforce
  qed (use inv loop loop_out own cnt wt in \<open>auto simp: lock_inv_def knows_outside(1)\<close>)
qed

lemma loop_inv:
  assumes inv: "lock_inv good s" and alone: "lock_free Loop_Thread (th_lock s)"
    and loop: "th_loop s' = p" and cl: "th_client s' = th_client s"
    and own: "lk_owner (th_lock s') = (if loop_critical p then Some Loop_Thread else None)"
    and cnt: "lk_count (th_lock s') = (if loop_critical p then 1 else 0)"
    and wt: "lk_waiting (th_lock s') \<Longrightarrow> p = L_Waiting"
    and knows: "loop_knows (th_stopped s') (cbuf_is_empty (th_queue s')) p"
  shows "lock_inv good s'"
proof -
  have out: "\<not> client_critical (th_client s j)" for j
    using inv alone by (auto simp: lock_inv_def lock_free_def simp flip: critical.simps)
  show ?thesis
    unfolding lock_inv_def
  proof (intro conjI allI)
    fix t
    show "critical s' t \<longleftrightarrow> lk_owner (th_lock s') = Some t"
      using out loop cl own by (cases t) auto
  next
    fix j
    have "client_knows good (cbuf_is_empty (th_queue s)) (th_client s j)" using inv by (simp add: lock_inv_def)
    with out [of j] cl show "client_knows good (cbuf_is_empty (th_queue s')) (th_client s' j)"
      using knows_outside(2) by fastforce
  qed (use loop own cnt wt knows in auto)
qed

text \<open>Who stands outside or inside, from where it stands.\<close>

lemma outside_free: "lock_inv good s \<Longrightarrow> lock_free t (th_lock s) \<Longrightarrow> \<not> critical s t \<Longrightarrow>
  lk_owner (th_lock s) = None \<and> lk_count (th_lock s) = 0"
  by (auto simp: lock_inv_def lock_free_def)

lemma inside_owner: "lock_inv good s \<Longrightarrow> critical s t \<Longrightarrow>
  lk_owner (th_lock s) = Some t \<and> lk_count (th_lock s) = 1"
  by (auto simp: lock_inv_def)

lemma worker_pc_same:
  "th_loop s' = th_loop s \<Longrightarrow>
   (lk_waiting (th_lock s') \<and> \<not> signalling s') = (lk_waiting (th_lock s) \<and> \<not> signalling s) \<Longrightarrow>
   worker_pc s' = worker_pc s"
  by (simp add: worker_pc_def split: loop_pc.split)

lemma worker_of_same:
  assumes "th_loop s' = th_loop s"
    and "(lk_waiting (th_lock s') \<and> \<not> signalling s') = (lk_waiting (th_lock s) \<and> \<not> signalling s)"
    and "th_queue s' = th_queue s" "th_stopped s' = th_stopped s" "th_env s' = th_env s"
    and "th_accepted s' = th_accepted s" "th_handled s' = th_handled s"
  shows "worker_of s' = worker_of s"
  using worker_pc_same [OF assms(1,2)] assms(3-) by (simp add: worker_of_def)

definition simulated ::
  "('m \<Rightarrow> 'e \<Rightarrow> (bool \<times> 'e) option) \<Rightarrow> ('m \<Rightarrow> bool) \<Rightarrow> ('m, 'e) threads \<Rightarrow> ('m, 'e) threads \<Rightarrow> bool" where
  "simulated process good s s' \<longleftrightarrow>
     lock_inv good s' \<and> (worker_of s' = worker_of s \<or> worker_step process good (worker_of s) (worker_of s'))"

text \<open>A client's step that changes nothing but the lock, its own place and whether it is about to signal.\<close>

lemma client_quiet:
  assumes inv: "lock_inv good s" and fr: "lock_free (Client i) (th_lock s)"
    and own: "lk_owner l = (if client_critical p then Some (Client i) else None)"
    and cnt: "lk_count l = (if client_critical p then 1 else 0)"
    and wt: "(lk_waiting l \<and> p \<noteq> C_Signal True) = (lk_waiting (th_lock s) \<and> th_client s i \<noteq> C_Signal True)"
    and keeps: "lk_waiting l \<Longrightarrow> lk_waiting (th_lock s)"
    and knows: "client_knows good (cbuf_is_empty (th_queue s)) p"
  shows "simulated process good s (s\<lparr>th_lock := l, th_client := (th_client s)(i := p)\<rparr>)"
proof -
  let ?s = "s\<lparr>th_lock := l, th_client := (th_client s)(i := p)\<rparr>"
  have "lock_inv good ?s"
    by (rule client_inv [OF inv fr, where p = p]) (use own cnt keeps knows in simp_all)
  moreover have "worker_of ?s = worker_of s"
  proof (rule worker_of_same)
    have "critical s (Client i) \<longleftrightarrow> lk_owner (th_lock s) = Some (Client i)"
      using inv unfolding lock_inv_def by blast
    then have "signalling s \<longleftrightarrow> th_client s i = C_Signal True"
      using fr by (auto simp: signalling_def lock_free_def)
    moreover have "signalling ?s \<longleftrightarrow> p = C_Signal True" using own by (auto simp: signalling_def)
    ultimately show "(lk_waiting (th_lock ?s) \<and> \<not> signalling ?s) = (lk_waiting (th_lock s) \<and> \<not> signalling s)"
      using wt by simp
  qed simp_all
  ultimately show ?thesis by (simp add: simulated_def)
qed

lemma same_lock: "s\<lparr>th_lock := th_lock s, th_client := c\<rparr> = s\<lparr>th_client := c\<rparr>"
  by (cases s) simp

lemmas client_quiet_same = client_quiet [where l = "th_lock s" and s = s for s, unfolded same_lock]

lemma client_locks:
  assumes sdl: "sync_ok sdl" and inv: "lock_inv good s" and free: "lock_free (Client i) (th_lock s)"
    and out: "\<not> client_critical (th_client s i)" and into: "client_critical p" "p \<noteq> C_Signal True"
    and knows: "client_knows good (cbuf_is_empty (th_queue s)) p"
  shows "\<exists>l. mutex_lock sdl ndebug (Client i) (th_lock s) = Some l \<and>
    simulated process good s (s\<lparr>th_lock := l, th_client := (th_client s)(i := p)\<rparr>)"
  using outside_free [OF inv free] out into knows lock_calls(1) [OF sdl free, of ndebug]
  by (auto intro!: client_quiet [OF inv free])

lemma client_pushes:
  assumes inv: "lock_inv good s" and q: "cbuf_inv (th_queue s)" and c: "th_client s i = C_Push m b"
  shows "\<exists>res q'. cbuf_push (th_queue s) m = Some (res, q') \<and>
    simulated process good s (s\<lparr>th_queue := q', th_accepted := th_accepted s @ (if res then [m] else []),
      th_client := (th_client s)(i := C_Signal b)\<rparr>)"
proof -
  from inside_owner [OF inv, of "Client i"] c
  have own: "lk_owner (th_lock s) = Some (Client i)" "lk_count (th_lock s) = 1" by simp_all
  have knows: "good m" "b = cbuf_is_empty (th_queue s)"
    using inv c by (metis client_knows.simps(3) lock_inv_def)+
  from cb.push_decides [OF q, of m] obtain res q' where p: "cbuf_push (th_queue s) m = Some (res, q')" by blast
  let ?s = "s\<lparr>th_queue := q', th_accepted := th_accepted s @ (if res then [m] else []),
    th_client := (th_client s)(i := C_Signal b)\<rparr>"
  have "lock_inv good ?s"
    by (rule client_inv [OF inv, where p = "C_Signal b"]) (use own in \<open>simp_all add: lock_free_def\<close>)
  moreover have "worker_push (worker_of s) m = Some (res, worker_of ?s)"
    using own c p knows(2)
    by (cases "th_loop s"; simp add: worker_push_def cond_signal_def worker_of_def worker_pc_def signalling_def Let_def)
  then have "worker_step process good (worker_of s) (worker_of ?s)"
    by (rule step_push [rotated]) (rule knows(1))
  ultimately show ?thesis using p by (auto simp: simulated_def)
qed

lemma client_stops:
  assumes inv: "lock_inv good s" and c: "th_client s i = C_Set"
  shows "simulated process good s (s\<lparr>th_stopped := True, th_client := (th_client s)(i := C_Signal True)\<rparr>)"
proof -
  from inside_owner [OF inv, of "Client i"] c
  have own: "lk_owner (th_lock s) = Some (Client i)" "lk_count (th_lock s) = 1" by simp_all
  let ?s = "s\<lparr>th_stopped := True, th_client := (th_client s)(i := C_Signal True)\<rparr>"
  have "lock_inv good ?s"
    by (rule client_inv [OF inv, where p = "C_Signal True"]) (use own in \<open>simp_all add: lock_free_def\<close>)
  moreover have "worker_of ?s = Actor_Stop (worker_of s)"
    using own c
    by (cases "th_loop s"; simp add: Actor_Stop_def cond_signal_def worker_of_def worker_pc_def signalling_def)
  then have "worker_step process good (worker_of s) (worker_of ?s)" using step_stop by metis
  ultimately show ?thesis by (simp add: simulated_def)
qed

text \<open>A client that is not blocked goes on, with no undefined operation and no abort.\<close>

lemma client_step_sim:
  assumes sdl: "sync_ok sdl" and inv: "lock_inv good s" and q: "cbuf_inv (th_queue s)"
    and go: "\<not> client_blocked i s"
  shows "\<exists>s'. client_step sdl ndebug i s = Some s' \<and> simulated process good s s'"
proof -
  have knows: "client_knows good (cbuf_is_empty (th_queue s)) (th_client s i)"
    using inv by (simp add: lock_inv_def)
  have own: "lk_owner (th_lock s) = Some (Client i) \<and> lk_count (th_lock s) = 1" if "client_critical (th_client s i)"
    using inside_owner [OF inv, of "Client i"] that by simp
  show ?thesis
  proof (cases "th_client s i")
    case C_Idle
    with inv show ?thesis by (simp add: client_step_def simulated_def)
  next
    case (C_Lock_Push m)
    with go client_locks [OF sdl inv, of i "C_Test m" ndebug] knows obtain l where
      "mutex_lock sdl ndebug (Client i) (th_lock s) = Some l"
      "simulated process good s (s\<lparr>th_lock := l, th_client := (th_client s)(i := C_Test m)\<rparr>)"
      by (auto simp: client_blocked_def)
    with C_Lock_Push show ?thesis by (simp add: client_step_def)
  next
    case (C_Test m)
    with own knows show ?thesis
      by (auto simp: client_step_def lock_free_def intro!: client_quiet_same [OF inv])
  next
    case (C_Push m b)
    with client_pushes [OF inv q C_Push] show ?thesis by (fastforce simp: client_step_def)
  next
    case C_Lock_Stop
    with go client_locks [OF sdl inv, of i C_Set ndebug] obtain l where
      "mutex_lock sdl ndebug (Client i) (th_lock s) = Some l"
      "simulated process good s (s\<lparr>th_lock := l, th_client := (th_client s)(i := C_Set)\<rparr>)"
      by (auto simp: client_blocked_def)
    with C_Lock_Stop show ?thesis by (simp add: client_step_def)
  next
    case C_Set
    with client_stops [OF inv C_Set] show ?thesis by (simp add: client_step_def)
  next
    case (C_Signal b)
    with own show ?thesis
      by (cases b) (auto simp: client_step_def lock_calls(5) [OF sdl] lock_free_def same_lock
        intro!: client_quiet [OF inv] client_quiet_same [OF inv])
  next
    case C_Unlock
    with own show ?thesis
      by (auto simp: client_step_def lock_calls(2) [OF sdl] lock_free_def intro!: client_quiet [OF inv])
  qed
qed

text \<open>The steps of the loop that the worker does not see, and those that are a turn of the worker.\<close>

lemma loop_quiet:
  assumes inv: "lock_inv good s" and fr: "lock_free Loop_Thread (th_lock s)"
    and own: "lk_owner l = (if loop_critical p then Some Loop_Thread else None)"
    and cnt: "lk_count l = (if loop_critical p then 1 else 0)" and wt: "\<not> lk_waiting l"
    and knows: "loop_knows (th_stopped s) (cbuf_is_empty (th_queue s)) p"
    and pc: "worker_pc (s\<lparr>th_lock := l, th_loop := p\<rparr>) = worker_pc s"
  shows "simulated process good s (s\<lparr>th_lock := l, th_loop := p\<rparr>)"
proof -
  let ?s = "s\<lparr>th_lock := l, th_loop := p\<rparr>"
  have "lock_inv good ?s"
    by (rule loop_inv [OF inv fr, where p = p]) (use own cnt wt knows in simp_all)
  moreover have "worker_of ?s = worker_of s" using pc by (simp add: worker_of_def)
  ultimately show ?thesis by (simp add: simulated_def)
qed

lemma loop_turn:
  assumes "lock_inv good s'" and "worker_turn process (worker_of s) = Some (worker_of s')"
  shows "simulated process good s s'"
  using assms by (auto simp: simulated_def intro: step_turn)

lemma loop_waits:
  assumes inv: "lock_inv good s" and c: "th_loop s = L_Wait"
  shows "simulated process good s (s\<lparr>th_lock := (th_lock s)\<lparr>lk_owner := None, lk_count := 0, lk_waiting := True\<rparr>,
    th_loop := L_Waiting\<rparr>)"
proof (rule loop_turn)
  have fr: "lock_free Loop_Thread (th_lock s)" using inside_owner [OF inv, of Loop_Thread] c by (simp add: lock_free_def)
  let ?s = "s\<lparr>th_lock := (th_lock s)\<lparr>lk_owner := None, lk_count := 0, lk_waiting := True\<rparr>, th_loop := L_Waiting\<rparr>"
  show "lock_inv good ?s" by (rule loop_inv [OF inv fr, where p = L_Waiting]) simp_all
  show "worker_turn process (worker_of s) = Some (worker_of ?s)"
    using inv c by (simp add: lock_inv_def worker_turn_def worker_of_def worker_pc_def signalling_def)
qed

lemma loop_exits:
  assumes inv: "lock_inv good s" and c: "th_loop s = L_Exit"
  shows "simulated process good s (s\<lparr>th_lock := (th_lock s)\<lparr>lk_owner := None, lk_count := 0\<rparr>, th_loop := L_Done\<rparr>)"
proof (rule loop_turn)
  have fr: "lock_free Loop_Thread (th_lock s)" using inside_owner [OF inv, of Loop_Thread] c by (simp add: lock_free_def)
  let ?s = "s\<lparr>th_lock := (th_lock s)\<lparr>lk_owner := None, lk_count := 0\<rparr>, th_loop := L_Done\<rparr>"
  have "\<not> lk_waiting (th_lock s)" using inv c by (auto simp: lock_inv_def)
  then show "lock_inv good ?s" by (intro loop_inv [OF inv fr, where p = L_Done]) simp_all
  show "worker_turn process (worker_of s) = Some (worker_of ?s)"
    using inv c by (simp add: lock_inv_def worker_turn_def worker_of_def worker_pc_def signalling_def)
qed

lemma loop_takes:
  assumes inv: "lock_inv good s" and q: "cbuf_inv (th_queue s)" and c: "th_loop s = L_Take"
  shows "\<exists>m q'. cbuf_take (th_queue s) = Some (Some m, q') \<and>
    simulated process good s (s\<lparr>th_queue := q', th_loop := L_Unlock m\<rparr>)"
proof -
  have own: "lk_owner (th_lock s) = Some Loop_Thread" "lk_count (th_lock s) = 1"
    using inside_owner [OF inv, of Loop_Thread] c by simp_all
  have st: "\<not> lk_waiting (th_lock s)" "\<not> th_stopped s" "\<not> cbuf_is_empty (th_queue s)"
    using inv c by (auto simp: lock_inv_def)
  then obtain m ms where "cbuf_items (th_queue s) = m # ms"
    using cb.is_empty [OF q] by (cases "cbuf_items (th_queue s)") auto
  from cb.tke_some [OF q this] obtain q' where t: "cbuf_take (th_queue s) = Some (Some m, q')" by blast
  let ?s = "s\<lparr>th_queue := q', th_loop := L_Unlock m\<rparr>"
  have "lock_inv good ?s"
    by (rule loop_inv [OF inv, where p = "L_Unlock m"]) (use own st in \<open>simp_all add: lock_free_def\<close>)
  moreover have "worker_turn process (worker_of s) = Some (worker_of ?s)"
    using st t c by (simp add: worker_turn_def worker_of_def worker_pc_def)
  ultimately show ?thesis using t loop_turn by blast
qed

lemma loop_processes:
  assumes inv: "lock_inv good s" and c: "th_loop s = L_Process m" and pr: "process m (th_env s) = Some (ok, e)"
  shows "simulated process good s (s\<lparr>th_env := e, th_handled := th_handled s @ [m],
    th_loop := (if ok then L_Lock else L_Done)\<rparr>)"
proof (rule loop_turn)
  let ?s = "s\<lparr>th_env := e, th_handled := th_handled s @ [m], th_loop := (if ok then L_Lock else L_Done)\<rparr>"
  have "critical ?s t \<longleftrightarrow> critical s t" for t using c by (cases t) simp_all
  with inv c show "lock_inv good ?s" by (auto simp: lock_inv_def)
  show "worker_turn process (worker_of s) = Some (worker_of ?s)"
    using c pr by (simp add: worker_turn_def worker_of_def worker_pc_def)
qed

lemma same_lock_loop: "s\<lparr>th_lock := th_lock s, th_loop := c\<rparr> = s\<lparr>th_loop := c\<rparr>"
  by (cases s) simp

lemmas loop_quiet_same = loop_quiet [where l = "th_lock s" and s = s for s, unfolded same_lock_loop]

text \<open>The loop, not blocked, goes on with no undefined operation and no abort, as long as its messages can be processed.\<close>

lemma loop_step_sim:
  assumes sdl: "sync_ok sdl" and inv: "lock_inv good s" and q: "cbuf_inv (th_queue s)"
    and go: "\<not> loop_blocked s" and pr: "\<And>m. th_loop s = L_Process m \<Longrightarrow> process m (th_env s) \<noteq> None"
  shows "\<exists>s'. loop_step sdl ndebug process s = Some s' \<and> simulated process good s s'"
proof -
  have own: "lk_owner (th_lock s) = Some Loop_Thread \<and> lk_count (th_lock s) = 1" if "loop_critical (th_loop s)"
    using inside_owner [OF inv, of Loop_Thread] that by simp
  have wt: "\<not> lk_waiting (th_lock s)" if "th_loop s \<noteq> L_Waiting"
    using inv that by (auto simp: lock_inv_def)
  show ?thesis
  proof (cases "th_loop s")
    case L_Lock
    then have fr: "lock_free Loop_Thread (th_lock s)" using go by (simp add: loop_blocked_def)
    with L_Lock outside_free [OF inv fr] wt show ?thesis
      by (auto simp: loop_step_def lock_calls(1) [OF sdl] worker_pc_def intro!: loop_quiet [OF inv fr])
  next
    case L_Test
    with own wt show ?thesis
      by (auto simp: loop_step_def lock_free_def worker_pc_def intro!: loop_quiet_same [OF inv])
  next
    case L_Wait
    with own loop_waits [OF inv L_Wait] show ?thesis by (simp add: loop_step_def lock_calls(3) [OF sdl])
  next
    case L_Waiting
    then have fr: "lk_owner (th_lock s) = None" "\<not> lk_waiting (th_lock s)" using go by (auto simp: loop_blocked_def)
    with L_Waiting show ?thesis
      by (auto simp: loop_step_def lock_calls(4) [OF sdl] lock_free_def worker_pc_def intro!: loop_quiet [OF inv])
  next
    case L_Exit
    with own loop_exits [OF inv L_Exit] show ?thesis by (simp add: loop_step_def lock_calls(2) [OF sdl])
  next
    case L_Take
    with loop_takes [OF inv q L_Take, of process] show ?thesis by (auto simp: loop_step_def)
  next
    case (L_Unlock m)
    with own wt show ?thesis
      by (auto simp: loop_step_def lock_calls(2) [OF sdl] lock_free_def worker_pc_def intro!: loop_quiet [OF inv])
  next
    case (L_Process m)
    from pr [OF this] obtain ok e where "process m (th_env s) = Some (ok, e)" by fastforce
    with L_Process loop_processes [OF inv L_Process] show ?thesis by (simp add: loop_step_def)
  next
    case L_Done
    with go show ?thesis by (simp add: loop_blocked_def)
  qed
qed

text \<open>Every step of the threads is a step of the worker, or one that the worker does not see.\<close>

lemma thread_step_sim:
  assumes sdl: "sync_ok sdl" and step: "thread_step sdl ndebug process good s s'"
    and inv: "lock_inv good s" and q: "cbuf_inv (th_queue s)"
  shows "simulated process good s s'"
  using step
proof cases
  case (call_push i m)
  have "\<not> client_critical (th_client s i)" using call_push by simp
  have "critical s' t \<longleftrightarrow> critical s t" for t using call_push by (cases t) simp_all
  moreover have "worker_of s' = worker_of s"
    by (rule worker_of_same)
      (use call_push in \<open>auto simp: signalling_def split: option.split thread.split\<close>)
  ultimately show ?thesis using call_push inv by (simp add: simulated_def lock_inv_def)
next
  case (call_stop i)
  have "critical s' t \<longleftrightarrow> critical s t" for t using call_stop by (cases t) simp_all
  moreover have "worker_of s' = worker_of s"
    by (rule worker_of_same)
      (use call_stop in \<open>auto simp: signalling_def split: option.split thread.split\<close>)
  ultimately show ?thesis using call_stop inv by (simp add: simulated_def lock_inv_def)
next
  case (client_goes i)
  with client_step_sim [OF sdl inv q, of i ndebug process] show ?thesis by auto
next
  case loop_goes
  have "process m (th_env s) \<noteq> None" if "th_loop s = L_Process m" for m
    using loop_goes(2) that by (auto simp: loop_step_def bind_Some_iff)
  with loop_step_sim [OF sdl inv q loop_goes(1), of process ndebug] loop_goes(2) show ?thesis by auto
next
  case wakes
  have "critical s' t \<longleftrightarrow> critical s t" for t using wakes by (cases t) simp_all
  then have "lock_inv good s'" using inv wakes by (auto simp: lock_inv_def)
  moreover have "th_loop s = L_Waiting" using inv wakes by (simp add: lock_inv_def)
  then have "worker_of s' = worker_of s \<or> wk_pc (worker_of s) = W_Sleep \<and> worker_of s' = (worker_of s)\<lparr>wk_pc := W_Loop\<rparr>"
    using wakes by (simp add: worker_of_def worker_pc_def)
  then have "worker_of s' = worker_of s \<or> worker_step process good (worker_of s) (worker_of s')"
    using step_spurious by metis
  ultimately show ?thesis by (simp add: simulated_def)
qed

subsection \<open>What holds in every reachable state\<close>

lemma threads_refine_worker:
  assumes sdl: "sync_ok sdl"
    and run: "(thread_step sdl ndebug process good)\<^sup>*\<^sup>* (threads_start d capacity e) s"
  shows "lock_inv good s \<and> (worker_step process good)\<^sup>*\<^sup>* (worker_start d capacity e) (worker_of s)"
  using run
proof (induction rule: rtranclp_induct)
  case base
  then show ?case by (simp add: start_inv worker_of_start)
next
  case (step s s')
  then have inv: "lock_inv good s" and r: "(worker_step process good)\<^sup>*\<^sup>* (worker_start d capacity e) (worker_of s)"
    by simp_all
  have "cbuf_inv (th_queue s)" using worker_reachable_inv [OF r] by (simp add: worker_inv_def)
  from thread_step_sim [OF sdl step.hyps(2) inv this]
  have "lock_inv good s'" "worker_of s' = worker_of s \<or> worker_step process good (worker_of s) (worker_of s')"
    by (simp_all add: simulated_def)
  with r show ?case by (auto intro: rtranclp.rtrancl_into_rtrancl)
qed

text \<open>When no thread can move but by a new call, the loop has ended or everything accepted is handled.\<close>

lemma quiet_threads_done:
  assumes inv: "lock_inv good s" and w: "worker_inv good capacity (worker_of s)"
    and loop: "loop_blocked s" and cl: "\<And>i. th_client s i = C_Idle \<or> client_blocked i s"
  shows "th_loop s = L_Done \<or> \<not> th_stopped s \<and> cbuf_items (th_queue s) = [] \<and> th_handled s = th_accepted s"
proof -
  have out: "\<not> client_critical (th_client s i)" for i
    using cl [of i] by (cases "th_client s i") (auto simp: client_blocked_def)
  have "\<not> loop_critical (th_loop s)" using loop by (cases "th_loop s") (auto simp: loop_blocked_def)
  then have "\<not> critical s t" for t using out by (cases t) simp_all
  then have free: "lk_owner (th_lock s) = None" using inv by (auto simp: lock_inv_def)
  show ?thesis
  proof (cases "th_loop s")
    case L_Waiting
    with free loop have "worker_pc s = W_Sleep" by (simp add: worker_pc_def signalling_def loop_blocked_def)
    with w show ?thesis by (simp add: worker_inv_def)
  qed (use loop free in \<open>auto simp: loop_blocked_def lock_free_def\<close>)
qed

text \<open>
  The threads of an actor whose messages can be processed: one thread at a time is in a critical
  section, no step is undefined and no call to the mutex fails, and no wake-up is lost.
\<close>

lemma threads_safe:
  assumes sdl: "sync_ok sdl"
    and run: "(thread_step sdl ndebug process good)\<^sup>*\<^sup>* (threads_start d capacity e) s"
    and defined: "\<And>m e. good m \<Longrightarrow> process m e \<noteq> None"
  shows "critical s t \<Longrightarrow> critical s t' \<Longrightarrow> t = t'"
    and "\<not> client_blocked i s \<Longrightarrow> client_step sdl ndebug i s \<noteq> None"
    and "\<not> loop_blocked s \<Longrightarrow> loop_step sdl ndebug process s \<noteq> None"
    and "loop_blocked s \<Longrightarrow> (\<And>i. th_client s i = C_Idle \<or> client_blocked i s) \<Longrightarrow>
      th_loop s = L_Done \<or> \<not> th_stopped s \<and> cbuf_items (th_queue s) = [] \<and> th_handled s = th_accepted s"
proof -
  from threads_refine_worker [OF sdl run] have inv: "lock_inv good s"
    and r: "(worker_step process good)\<^sup>*\<^sup>* (worker_start d capacity e) (worker_of s)" by simp_all
  from worker_reachable_inv [OF r] have w: "worker_inv good capacity (worker_of s)" .
  then have q: "cbuf_inv (th_queue s)" by (simp add: worker_inv_def)
  show "critical s t \<Longrightarrow> critical s t' \<Longrightarrow> t = t'" by (rule owner_alone [OF inv])
  show "\<not> client_blocked i s \<Longrightarrow> client_step sdl ndebug i s \<noteq> None"
    using client_step_sim [OF sdl inv q, of i ndebug] by force
  have "process m (th_env s) \<noteq> None" if "th_loop s = L_Process m" for m
    using w that defined by (simp add: worker_inv_def worker_pc_def)
  then show "\<not> loop_blocked s \<Longrightarrow> loop_step sdl ndebug process s \<noteq> None"
    using loop_step_sim [OF sdl inv q, of process ndebug] by force
  show "loop_blocked s \<Longrightarrow> (\<And>i. th_client s i = C_Idle \<or> client_blocked i s) \<Longrightarrow>
      th_loop s = L_Done \<or> \<not> th_stopped s \<and> cbuf_items (th_queue s) = [] \<and> th_handled s = th_accepted s"
    by (rule quiet_threads_done [OF inv w])
qed

text \<open>A schedule: the threads named go on, in this order, none of them blocked.\<close>

fun run_schedule ::
  "sdl_sync \<Rightarrow> bool \<Rightarrow> ('m \<Rightarrow> 'e \<Rightarrow> (bool \<times> 'e) option) \<Rightarrow> thread list \<Rightarrow> ('m, 'e) threads \<Rightarrow> ('m, 'e) threads option" where
  "run_schedule sdl ndebug process [] s = Some s"
| "run_schedule sdl ndebug process (Client i # ts) s =
     (if client_blocked i s then None else do { s \<leftarrow> client_step sdl ndebug i s; run_schedule sdl ndebug process ts s })"
| "run_schedule sdl ndebug process (Loop_Thread # ts) s =
     (if loop_blocked s then None else do { s \<leftarrow> loop_step sdl ndebug process s; run_schedule sdl ndebug process ts s })"

lemma run_schedule_steps:
  assumes "run_schedule sdl ndebug process ts s = Some s'"
  shows "(thread_step sdl ndebug process good)\<^sup>*\<^sup>* s s'"
  using assms
proof (induction ts arbitrary: s)
  case (Cons t ts)
  show ?case
  proof (cases t)
    case (Client i)
    with Cons.prems obtain s1 where "\<not> client_blocked i s" "client_step sdl ndebug i s = Some s1"
      "run_schedule sdl ndebug process ts s1 = Some s'" by (auto simp: bind_Some_iff split: if_splits)
    then show ?thesis by (meson client_goes Cons.IH converse_rtranclp_into_rtranclp)
  next
    case Loop_Thread
    with Cons.prems obtain s1 where "\<not> loop_blocked s" "loop_step sdl ndebug process s = Some s1"
      "run_schedule sdl ndebug process ts s1 = Some s'" by (auto simp: bind_Some_iff split: if_splits)
    then show ?thesis by (meson loop_goes Cons.IH converse_rtranclp_into_rtranclp)
  qed
qed simp

text \<open>A mutex and a condition that do what is promised, with the errors of a recursive mutex.\<close>

definition recursive_mutex :: sdl_sync where
  "recursive_mutex = \<lparr>
     SDL_LockMutex = (\<lambda>t l. (0, l\<lparr>lk_owner := Some t, lk_count := lk_count l + 1\<rparr>)),
     SDL_UnlockMutex = (\<lambda>t l. if lk_owner l \<noteq> Some t then (- 1, l)
       else if lk_count l = 1 then (0, l\<lparr>lk_owner := None, lk_count := 0\<rparr>) else (0, l\<lparr>lk_count := lk_count l - 1\<rparr>)),
     SDL_CondWait = (\<lambda>t l. l\<lparr>lk_owner := None, lk_count := 0, lk_waiting := True\<rparr>),
     SDL_CondWait_return = (\<lambda>t l. (0, l\<lparr>lk_owner := Some t, lk_count := 1\<rparr>)),
     SDL_CondSignal = (\<lambda>l. (0, l\<lparr>lk_waiting := False\<rparr>))\<rparr>"

lemma recursive_mutex_ok: "sync_ok recursive_mutex"
  by (simp add: sync_ok_def recursive_mutex_def)

end
