(* ===== verification/Controller_Locks.thy ===== *)
theory Controller_Locks
  imports Locks Controller
begin

section \<open>The controller at the level of its locks (src/src/core/controller.cpp)\<close>

text \<open>
  The controller's thread and any number of threads that push messages to it or stop it, as the
  threads of \<open>Locks\<close>: \<open>loop_step\<close> with \<open>controller_handle\<close> is the body of \<open>RunController\<close>,
  \<open>client_step\<close> the bodies of \<open>Controller::PushMessage\<close> and \<open>Actor::Stop\<close>. What the stream of the
  control socket carries follows from the theorems on the worker through the simulation.
\<close>

abbreviation "controller_threads sdl ndebug sock \<equiv> thread_step sdl ndebug (controller_handle sock) well_formed"

definition controller_boot :: "net_world \<Rightarrow> (ControlMessage, control_env) threads" where
  "controller_boot w =
     threads_start \<lparr>cm_type = CONTROL_MSG_TYPE_INJECT_KEYCODE, cm_body = Unwritten\<rparr> CONTROL_QUEUE_SIZE
       \<lparr>ce_net = w, ce_freed = []\<rparr>"

lemma controller_refines:
  assumes "sync_ok sdl" and "(controller_threads sdl ndebug sock)\<^sup>*\<^sup>* (controller_boot w) s"
  shows "(controller_step sock)\<^sup>*\<^sup>* (controller_start w) (worker_of s)"
  using threads_refine_worker [OF assms(1) assms(2) [unfolded controller_boot_def]]
  by (simp add: controller_start_def)

text \<open>C4. Under every interleaving of the calls on the mutex and the condition, with any number of
  threads that push messages and stop the controller: at most one thread is inside a critical
  section; no step is undefined, no call on the mutex fails and the assertion holds; when no thread
  can go on by itself the loop has ended, or it waits with nothing left to do; and the control
  socket carries a prefix of the accepted messages, in the order in which they were accepted.\<close>

theorem controller_thread_safety:
  assumes "sync_ok sdl" and "(controller_threads sdl ndebug sock)\<^sup>*\<^sup>* (controller_boot w) s"
    and "nw_sent w = []"
  shows "(\<forall>t t'. critical s t \<longrightarrow> critical s t' \<longrightarrow> t = t') \<and>
    (\<forall>i. \<not> client_blocked i s \<longrightarrow> client_step sdl ndebug i s \<noteq> None) \<and>
    (\<not> loop_blocked s \<longrightarrow> loop_step sdl ndebug (controller_handle sock) s \<noteq> None) \<and>
    (loop_blocked s \<and> (\<forall>i. th_client s i = C_Idle \<or> client_blocked i s) \<longrightarrow>
       th_loop s = L_Done \<or> \<not> th_stopped s \<and> cbuf_items (th_queue s) = [] \<and> th_handled s = th_accepted s) \<and>
    (\<exists>rest. concat (map wire (th_accepted s)) = nw_sent (ce_net (th_env s)) @ rest)"
proof -
  note safe = threads_safe [OF assms(1) assms(2) [unfolded controller_boot_def] controller_sink.process_defined]
  have "\<exists>rest. concat (map wire (th_accepted s)) = nw_sent (ce_net (th_env s)) @ rest"
    using controller_prefix [OF controller_refines [OF assms(1,2)] assms(3)] by simp
  with safe show ?thesis by blast
qed

text \<open>A client has pushed a message, which the loop is about to take away, while another waits to push one.\<close>

definition two_clients :: "(ControlMessage, control_env) threads" where
  "two_clients = (let s = controller_boot (quiet_net [4096]) in
     s\<lparr>th_client := (\<lambda>i. if i < 2 then C_Lock_Push power_off else C_Idle)\<rparr>)"

lemma two_clients_reachable:
  "(controller_threads sdl ndebug sock)\<^sup>*\<^sup>* (controller_boot (quiet_net [4096])) two_clients"
proof -
  let ?step = "controller_threads sdl ndebug sock"
  let ?s0 = "controller_boot (quiet_net [4096])"
  let ?s1 = "?s0\<lparr>th_client := (th_client ?s0)(0 := C_Lock_Push power_off)\<rparr>"
  have "?step ?s0 ?s1"
    by (rule call_push) (simp_all add: well_formed_power_off controller_boot_def threads_start_def)
  moreover have "?step ?s1 (?s1\<lparr>th_client := (th_client ?s1)(1 := C_Lock_Push power_off)\<rparr>)"
    by (rule call_push) (simp_all add: well_formed_power_off controller_boot_def threads_start_def)
  moreover have "?s1\<lparr>th_client := (th_client ?s1)(1 := C_Lock_Push power_off)\<rparr> = two_clients"
    by (auto simp: two_clients_def controller_boot_def threads_start_def fun_eq_iff)
  ultimately show ?thesis by (metis rtranclp.simps)
qed

definition first_push :: "thread list" where
  "first_push = [Client 0, Client 0, Client 0, Client 0, Client 0, Loop_Thread, Loop_Thread, Loop_Thread]"

lemma first_push_runs:
  "\<exists>s. run_schedule recursive_mutex False process first_push two_clients = Some s \<and>
     th_loop s = L_Unlock power_off \<and> th_client s 1 = C_Lock_Push power_off \<and> th_accepted s = [power_off] \<and>
     lk_owner (th_lock s) = Some Loop_Thread"
proof -
  let ?q = "CBUF \<lparr>cm_type = CONTROL_MSG_TYPE_INJECT_KEYCODE, cm_body = Unwritten\<rparr> CONTROL_QUEUE_SIZE"
  have e: "cbuf_is_empty ?q" by (simp add: cb.is_empty)
  obtain q1 where q1: "cbuf_push ?q power_off = Some (True, q1)" "cbuf_inv q1" "cbuf_items q1 = [power_off]"
    using cbuf_push_room [of ?q power_off]
    by (auto simp: CONTROL_QUEUE_SIZE_def cbuf_count_def CBUF_def cbuf_size_def cbuf_items_def cbuf_inv_def)
  then have e1: "\<not> cbuf_is_empty q1" by (simp add: cb.is_empty)
  obtain q2 where q2: "cbuf_take q1 = Some (Some power_off, q2)" using cb.tke_some [OF q1(2,3)] by blast
  note call = lock_calls [OF recursive_mutex_ok]
  show ?thesis
    by (simp add: first_push_def two_clients_def controller_boot_def threads_start_def client_blocked_def
      client_step_def loop_blocked_def loop_step_def lock_free_def call e q1(1) e1 q2)
qed

theorem controller_thread_safety_witness:
  "\<exists>s. (controller_threads recursive_mutex False 3)\<^sup>*\<^sup>* (controller_boot (quiet_net [4096])) s \<and>
     critical s Loop_Thread \<and> client_blocked 1 s \<and> th_accepted s = [power_off] \<and>
     loop_step recursive_mutex False (controller_handle 3) s \<noteq> None \<and>
     (\<exists>rest. wire power_off = nw_sent (ce_net (th_env s)) @ rest)"
proof -
  obtain s where s: "run_schedule recursive_mutex False (controller_handle 3) first_push two_clients = Some s"
    "th_loop s = L_Unlock power_off" "th_client s 1 = C_Lock_Push power_off" "th_accepted s = [power_off]"
    "lk_owner (th_lock s) = Some Loop_Thread" using first_push_runs by blast
  have run: "(controller_threads recursive_mutex False 3)\<^sup>*\<^sup>* (controller_boot (quiet_net [4096])) s"
    using two_clients_reachable run_schedule_steps [OF s(1)] by (rule rtranclp_trans)
  have "nw_sent (quiet_net [4096]) = []" by (simp add: quiet_net_def)
  from controller_thread_safety [OF recursive_mutex_ok run this] run s(2-5) show ?thesis
    by (intro exI [of _ s]) (simp add: loop_blocked_def client_blocked_def lock_free_def)
qed

end
