(* ===== verification/Cli.thy ===== *)
theory Cli
  imports Str_Util Recorder "HOL-Library.Sublist"
begin

section \<open>The command line (src/src/core/irobot_core.cpp, irobot_core.hpp)\<close>

text \<open>
  The options of the program, the parsers of their values, and \<open>ParseArgs\<close> over \<open>getopt_long\<close>
  of the C library. An option code is the character of a short option or one of the \<open>OPT_\<close>
  constants; a value that is not there is the null pointer.
\<close>

subsection \<open>The options\<close>

record IRobotCore =
  opt_serial :: "string option"
  opt_crop :: "string option"
  opt_record_filename :: "string option"
  opt_window_title :: "string option"
  opt_push_target :: "string option"
  opt_record_format :: RecordFormat
  opt_port :: u16
  opt_max_size :: u16
  opt_bit_rate :: u32
  opt_max_fps :: u16
  opt_window_x :: "16 word"
  opt_window_y :: "16 word"
  opt_window_width :: u16
  opt_window_height :: u16
  opt_show_touches :: bool
  opt_fullscreen :: bool
  opt_always_on_top :: bool
  opt_control :: bool
  opt_display :: bool
  opt_turn_screen_off :: bool
  opt_render_expired_frames :: bool
  opt_prefer_text :: bool
  opt_window_borderless :: bool
  opt_headless :: bool
  opt_screen_width :: u16
  opt_screen_height :: u16
  opt_help :: bool
  opt_version :: bool

definition DEFAULT_LOCAL_PORT :: u16 where "DEFAULT_LOCAL_PORT = 27183"
definition DEFAULT_MAX_SIZE :: u16 where "DEFAULT_MAX_SIZE = 0"
definition DEFAULT_BIT_RATE :: u32 where "DEFAULT_BIT_RATE = 8000000"

definition IRobotCore_new :: IRobotCore where
  "IRobotCore_new = \<lparr>opt_serial = None, opt_crop = None, opt_record_filename = None, opt_window_title = None,
     opt_push_target = None, opt_record_format = RECORDER_FORMAT_AUTO, opt_port = DEFAULT_LOCAL_PORT,
     opt_max_size = DEFAULT_MAX_SIZE, opt_bit_rate = DEFAULT_BIT_RATE, opt_max_fps = 0, opt_window_x = - 1,
     opt_window_y = - 1, opt_window_width = 0, opt_window_height = 0, opt_show_touches = False,
     opt_fullscreen = False, opt_always_on_top = False, opt_control = True, opt_display = True,
     opt_turn_screen_off = False, opt_render_expired_frames = False, opt_prefer_text = False,
     opt_window_borderless = False, opt_headless = False, opt_screen_width = 0, opt_screen_height = 0,
     opt_help = False, opt_version = False\<rparr>"

subsection \<open>Values\<close>

definition ParseIntegerArg :: "string \<Rightarrow> bool \<Rightarrow> int \<Rightarrow> int \<Rightarrow> int option" where
  "ParseIntegerArg s accept_suffix lo hi = do {
     v \<leftarrow> (if accept_suffix then parse_integer_with_suffix s else parse_integer s);
     if v < lo \<or> v > hi then None else Some v
   }"

definition ParseBitRate :: "string \<Rightarrow> u32 option" where
  "ParseBitRate s = map_option of_int (ParseIntegerArg s True 0 0x7FFFFFFF)"

definition ParseMaxSize :: "string \<Rightarrow> u16 option" where
  "ParseMaxSize s = map_option of_int (ParseIntegerArg s False 0 0xFFFF)"

definition ParseMaxFps :: "string \<Rightarrow> u16 option" where
  "ParseMaxFps s = map_option of_int (ParseIntegerArg s False 0 1000)"

definition ParseWindowPosition :: "string \<Rightarrow> 16 word option" where
  "ParseWindowPosition s = map_option of_int (ParseIntegerArg s False (- 1) 0x7FFF)"

definition ParseWindowDimension :: "string \<Rightarrow> u16 option" where
  "ParseWindowDimension s = map_option of_int (ParseIntegerArg s False 0 0xFFFF)"

definition ParsePort :: "string \<Rightarrow> u16 option" where
  "ParsePort s = map_option of_int (ParseIntegerArg s False 0 0xFFFF)"

definition ParseRecordFormat :: "string \<Rightarrow> RecordFormat option" where
  "ParseRecordFormat opt_arg =
     (if opt_arg = ''mp4'' then Some RECORDER_FORMAT_MP4
      else if opt_arg = ''mkv'' then Some RECORDER_FORMAT_MKV else None)"

definition GuessRecordFormat :: "string \<Rightarrow> RecordFormat" where
  "GuessRecordFormat filename =
     (let len = length filename in
      if len < 4 then RECORDER_FORMAT_AUTO
      else let ext = drop (len - 4) filename in
        if ext = ''.mp4'' then RECORDER_FORMAT_MP4
        else if ext = ''.mkv'' then RECORDER_FORMAT_MKV else RECORDER_FORMAT_AUTO)"

subsection \<open>\<open>getopt_long\<close> of the C library\<close>

text \<open>
  The function permutes: options and arguments may be mixed, and two dashes end the options. A
  long option may be abbreviated as long as it is unique, and takes its value after an equals
  sign or from the next argument; short options may be grouped. An error is the code \<open>?\<close>, after
  which the program asks for nothing more.
\<close>

datatype opt_code =
    Chr char
  | OPT_RENDER_EXPIRED_FRAMES | OPT_WINDOW_TITLE | OPT_PUSH_TARGET | OPT_ALWAYS_ON_TOP | OPT_CROP
  | OPT_RECORD_FORMAT | OPT_PREFER_TEXT | OPT_WINDOW_X | OPT_WINDOW_Y | OPT_WINDOW_WIDTH
  | OPT_WINDOW_HEIGHT | OPT_WINDOW_BORDERLESS | OPT_MAX_FPS | OPT_SCREEN_WIDTH | OPT_SCREEN_HEIGHT
  | OPT_HEADLESS

definition short_options :: string where
  "short_options = ''b:c:fF:hm:nNp:r:s:StTv''"

text \<open>The name, whether it requires a value, and the code.\<close>

definition long_options :: "(string \<times> bool \<times> opt_code) list" where
  "long_options =
     [(''always-on-top'', False, OPT_ALWAYS_ON_TOP),
      (''bit-rate'', True, Chr (CHR ''b'')),
      (''crop'', True, OPT_CROP),
      (''fullscreen'', False, Chr (CHR ''f'')),
      (''help'', False, Chr (CHR ''h'')),
      (''max-fps'', True, OPT_MAX_FPS),
      (''max-size'', True, Chr (CHR ''m'')),
      (''no-control'', False, Chr (CHR ''n'')),
      (''no-display'', False, Chr (CHR ''N'')),
      (''port'', True, Chr (CHR ''p'')),
      (''push-target'', True, OPT_PUSH_TARGET),
      (''record'', True, Chr (CHR ''r'')),
      (''record-format'', True, OPT_RECORD_FORMAT),
      (''render-expired-frames'', False, OPT_RENDER_EXPIRED_FRAMES),
      (''serial'', True, Chr (CHR ''s'')),
      (''show-touches'', False, Chr (CHR ''t'')),
      (''turn-screen-off'', False, Chr (CHR ''S'')),
      (''prefer-text'', False, OPT_PREFER_TEXT),
      (''version'', False, Chr (CHR ''v'')),
      (''window-title'', True, OPT_WINDOW_TITLE),
      (''window-x'', True, OPT_WINDOW_X),
      (''window-y'', True, OPT_WINDOW_Y),
      (''window-width'', True, OPT_WINDOW_WIDTH),
      (''window-height'', True, OPT_WINDOW_HEIGHT),
      (''screen-width'', True, OPT_SCREEN_WIDTH),
      (''screen-height'', True, OPT_SCREEN_HEIGHT),
      (''window-borderless'', False, OPT_WINDOW_BORDERLESS),
      (''headless'', False, OPT_HEADLESS)]"

fun short_arg :: "string \<Rightarrow> char \<Rightarrow> bool option" where
  "short_arg [] c = None"
| "short_arg (x # os) c =
     (if x = c \<and> x \<noteq> CHR '':'' then Some (case os of [] \<Rightarrow> False | y # _ \<Rightarrow> y = CHR '':'') else short_arg os c)"

definition long_match :: "string \<Rightarrow> (bool \<times> opt_code) option" where
  "long_match name =
     (case map_of long_options name of
        Some x \<Rightarrow> Some x
      | None \<Rightarrow> (case filter (\<lambda>(n, _). prefix name n) long_options of [(_, x)] \<Rightarrow> Some x | _ \<Rightarrow> None))"

definition bad_option :: "(opt_code \<times> string) list \<times> string list" where
  "bad_option = ([(Chr (CHR ''?''), [])], [])"

definition also_option :: "opt_code \<Rightarrow> string \<Rightarrow> (opt_code \<times> string) list \<times> string list \<Rightarrow> (opt_code \<times> string) list \<times> string list" where
  "also_option code v res = (case res of (os, args) \<Rightarrow> ((code, v) # os, args))"

text \<open>The options in order, with their values, and the arguments that are no options.\<close>

function getopt_long :: "string list \<Rightarrow> (opt_code \<times> string) list \<times> string list"
  and getopt_short :: "string \<Rightarrow> string list \<Rightarrow> (opt_code \<times> string) list \<times> string list" where
  "getopt_long [] = ([], [])"
| "getopt_long (a # argv) =
     (if a = ''--'' then ([], argv)
      else if take 2 a = ''--'' then
        (let name = takeWhile (\<lambda>c. c \<noteq> CHR ''='') (drop 2 a); v = drop (length name + 3) a; has_value = (CHR ''='' \<in> set a) in
         case long_match name of
           None \<Rightarrow> bad_option
         | Some (has_arg, code) \<Rightarrow>
             if has_arg then
               if has_value then also_option code v (getopt_long argv)
               else (case argv of [] \<Rightarrow> bad_option | v # argv' \<Rightarrow> also_option code v (getopt_long argv'))
             else if has_value then bad_option else also_option code [] (getopt_long argv))
      else if take 1 a = ''-'' \<and> a \<noteq> ''-'' then getopt_short (drop 1 a) argv
      else (case getopt_long argv of (os, args) \<Rightarrow> (os, a # args)))"
| "getopt_short [] argv = getopt_long argv"
| "getopt_short (c # cs) argv =
     (case short_arg short_options c of
        None \<Rightarrow> bad_option
      | Some False \<Rightarrow> also_option (Chr c) [] (getopt_short cs argv)
      | Some True \<Rightarrow>
          if cs \<noteq> [] then also_option (Chr c) cs (getopt_long argv)
          else (case argv of [] \<Rightarrow> bad_option | v # argv' \<Rightarrow> also_option (Chr c) v (getopt_long argv')))"
  by pat_completeness auto
termination
  by (relation "measure (\<lambda>x. case x of Inl argv \<Rightarrow> sum_list (map (\<lambda>a. length a + 1) argv) * 2
      | Inr (cs, argv) \<Rightarrow> length cs * 2 + sum_list (map (\<lambda>a. length a + 1) argv) * 2 + 1)") auto

declare getopt_long.simps [simp del] getopt_short.simps [simp del]

subsection \<open>\<open>ParseArgs\<close>\<close>

text \<open>A value that parses is stored; otherwise the parse fails and the options stay.\<close>

definition set_option :: "'a option \<Rightarrow> ('a \<Rightarrow> IRobotCore) \<Rightarrow> IRobotCore \<Rightarrow> bool \<times> IRobotCore" where
  "set_option v upd p = (case v of None \<Rightarrow> (False, p) | Some x \<Rightarrow> (True, upd x))"

text \<open>The switch on a short option and on the others; three short options are deprecated names.\<close>

definition parse_short :: "char \<Rightarrow> string \<Rightarrow> IRobotCore \<Rightarrow> bool \<times> IRobotCore" where
  "parse_short c optarg p =
     (if c = CHR ''b'' then set_option (ParseBitRate optarg) (\<lambda>x. p\<lparr>opt_bit_rate := x\<rparr>) p
      else if c = CHR ''c'' then (True, p\<lparr>opt_crop := Some optarg\<rparr>)
      else if c = CHR ''f'' then (True, p\<lparr>opt_fullscreen := True\<rparr>)
      else if c = CHR ''F'' then set_option (ParseRecordFormat optarg) (\<lambda>x. p\<lparr>opt_record_format := x\<rparr>) p
      else if c = CHR ''h'' then (True, p\<lparr>opt_help := True\<rparr>)
      else if c = CHR ''m'' then set_option (ParseMaxSize optarg) (\<lambda>x. p\<lparr>opt_max_size := x\<rparr>) p
      else if c = CHR ''n'' then (True, p\<lparr>opt_control := False\<rparr>)
      else if c = CHR ''N'' then (True, p\<lparr>opt_display := False\<rparr>)
      else if c = CHR ''p'' then set_option (ParsePort optarg) (\<lambda>x. p\<lparr>opt_port := x\<rparr>) p
      else if c = CHR ''r'' then (True, p\<lparr>opt_record_filename := Some optarg\<rparr>)
      else if c = CHR ''s'' then (True, p\<lparr>opt_serial := Some optarg\<rparr>)
      else if c = CHR ''S'' then (True, p\<lparr>opt_turn_screen_off := True\<rparr>)
      else if c = CHR ''t'' then (True, p\<lparr>opt_show_touches := True\<rparr>)
      else if c = CHR ''T'' then (True, p\<lparr>opt_always_on_top := True\<rparr>)
      else if c = CHR ''v'' then (True, p\<lparr>opt_version := True\<rparr>)
      else (False, p))"

definition parse_option :: "opt_code \<Rightarrow> string \<Rightarrow> IRobotCore \<Rightarrow> bool \<times> IRobotCore" where
  "parse_option code optarg p =
     (case code of
        Chr c \<Rightarrow> parse_short c optarg p
      | OPT_CROP \<Rightarrow> (True, p\<lparr>opt_crop := Some optarg\<rparr>)
      | OPT_RECORD_FORMAT \<Rightarrow> set_option (ParseRecordFormat optarg) (\<lambda>x. p\<lparr>opt_record_format := x\<rparr>) p
      | OPT_MAX_FPS \<Rightarrow> set_option (ParseMaxFps optarg) (\<lambda>x. p\<lparr>opt_max_fps := x\<rparr>) p
      | OPT_ALWAYS_ON_TOP \<Rightarrow> (True, p\<lparr>opt_always_on_top := True\<rparr>)
      | OPT_RENDER_EXPIRED_FRAMES \<Rightarrow> (True, p\<lparr>opt_render_expired_frames := True\<rparr>)
      | OPT_WINDOW_TITLE \<Rightarrow> (True, p\<lparr>opt_window_title := Some optarg\<rparr>)
      | OPT_WINDOW_X \<Rightarrow> set_option (ParseWindowPosition optarg) (\<lambda>x. p\<lparr>opt_window_x := x\<rparr>) p
      | OPT_WINDOW_Y \<Rightarrow> set_option (ParseWindowPosition optarg) (\<lambda>x. p\<lparr>opt_window_y := x\<rparr>) p
      | OPT_WINDOW_WIDTH \<Rightarrow> set_option (ParseWindowDimension optarg) (\<lambda>x. p\<lparr>opt_window_width := x\<rparr>) p
      | OPT_WINDOW_HEIGHT \<Rightarrow> set_option (ParseWindowDimension optarg) (\<lambda>x. p\<lparr>opt_window_height := x\<rparr>) p
      | OPT_SCREEN_WIDTH \<Rightarrow> set_option (ParseWindowDimension optarg) (\<lambda>x. p\<lparr>opt_screen_width := x\<rparr>) p
      | OPT_SCREEN_HEIGHT \<Rightarrow> set_option (ParseWindowDimension optarg) (\<lambda>x. p\<lparr>opt_screen_height := x\<rparr>) p
      | OPT_WINDOW_BORDERLESS \<Rightarrow> (True, p\<lparr>opt_window_borderless := True\<rparr>)
      | OPT_HEADLESS \<Rightarrow> (True, p\<lparr>opt_headless := True\<rparr>)
      | OPT_PUSH_TARGET \<Rightarrow> (True, p\<lparr>opt_push_target := Some optarg\<rparr>)
      | OPT_PREFER_TEXT \<Rightarrow> (True, p\<lparr>opt_prefer_text := True\<rparr>))"

fun parse_options :: "(opt_code \<times> string) list \<Rightarrow> IRobotCore \<Rightarrow> bool \<times> IRobotCore" where
  "parse_options [] p = (True, p)"
| "parse_options ((code, v) # os) p = (let (ok, p) = parse_option code v p in if \<not> ok then (False, p) else parse_options os p)"

definition check_options :: "bool \<Rightarrow> IRobotCore \<Rightarrow> bool \<times> IRobotCore" where
  "check_options additional p =
     (if \<not> opt_display p \<and> opt_record_filename p = None then (False, p)
      else if \<not> opt_display p \<and> opt_fullscreen p then (False, p)
      else if additional then (False, p)
      else if opt_record_format p \<noteq> RECORDER_FORMAT_AUTO \<and> opt_record_filename p = None then (False, p)
      else
        let (ok, p) =
          (case opt_record_filename p of
             Some f \<Rightarrow>
               if opt_record_format p = RECORDER_FORMAT_AUTO then
                 let p = p\<lparr>opt_record_format := GuessRecordFormat f\<rparr>
                 in (opt_record_format p \<noteq> RECORDER_FORMAT_AUTO, p)
               else (True, p)
           | None \<Rightarrow> (True, p))
        in if \<not> ok then (False, p)
           else if \<not> opt_control p \<and> opt_turn_screen_off p then (False, p)
           else (True, p))"

text \<open>The arguments after the name of the program.\<close>

definition ParseArgs :: "string list \<Rightarrow> IRobotCore \<Rightarrow> bool \<times> IRobotCore" where
  "ParseArgs argv p =
     (let (os, args) = getopt_long argv; (ok, p) = parse_options os p
      in if \<not> ok then (False, p) else check_options (args \<noteq> []) p)"

subsection \<open>What is accepted\<close>

text \<open>The ranges of the numbers, and the options a successful parse can yield.\<close>

definition values_ok :: "IRobotCore \<Rightarrow> bool" where
  "values_ok p \<longleftrightarrow> uint (opt_bit_rate p) \<le> 0x7FFFFFFF \<and> uint (opt_max_fps p) \<le> 1000 \<and>
     - 1 \<le> sint (opt_window_x p) \<and> - 1 \<le> sint (opt_window_y p)"

definition options_ok :: "IRobotCore \<Rightarrow> bool" where
  "options_ok p \<longleftrightarrow> (opt_display p \<or> opt_record_filename p \<noteq> None) \<and> (opt_fullscreen p \<longrightarrow> opt_display p) \<and>
     (opt_record_format p = RECORDER_FORMAT_AUTO \<longleftrightarrow> opt_record_filename p = None) \<and>
     (opt_turn_screen_off p \<longrightarrow> opt_control p) \<and> values_ok p"

lemma ParseIntegerArg_range: "ParseIntegerArg s b lo hi = Some v \<Longrightarrow> lo \<le> v \<and> v \<le> hi"
  by (auto simp: ParseIntegerArg_def bind_Some_iff split: if_splits)

lemma ParseBitRate_range: "ParseBitRate s = Some x \<Longrightarrow> uint x \<le> 0x7FFFFFFF"
  by (auto simp: ParseBitRate_def unsigned_of_int take_bit_int_eq_self dest!: ParseIntegerArg_range)

lemma ParseMaxFps_range: "ParseMaxFps s = Some x \<Longrightarrow> uint x \<le> 1000"
  by (auto simp: ParseMaxFps_def unsigned_of_int take_bit_int_eq_self dest!: ParseIntegerArg_range)

lemma ParseWindowPosition_range: "ParseWindowPosition s = Some x \<Longrightarrow> - 1 \<le> sint x"
  by (auto simp: ParseWindowPosition_def signed_of_int signed_take_bit_int_eq_self dest!: ParseIntegerArg_range)

lemma parse_option_values: "parse_option code v p = (ok, p') \<Longrightarrow> values_ok p \<Longrightarrow> values_ok p'"
  by (cases code) (auto simp: parse_option_def parse_short_def set_option_def values_ok_def
    split: if_splits option.splits dest!: ParseBitRate_range ParseMaxFps_range ParseWindowPosition_range)

lemma parse_options_values: "parse_options os p = (ok, p') \<Longrightarrow> values_ok p \<Longrightarrow> values_ok p'"
  by (induction os p rule: parse_options.induct) (auto split: prod.splits if_splits dest: parse_option_values)

text \<open>C37. Options that the command line parser accepts are consistent: without a display there is a
  recording and no full screen, a format is known exactly when a file is recorded, the screen is
  only turned off when there is control, and every number is in its documented range.\<close>

theorem parse_args_sound:
  assumes "ParseArgs argv IRobotCore_new = (True, p)"
  shows "options_ok p"
proof -
  obtain os args where g: "getopt_long argv = (os, args)" by fastforce
  obtain ok q where q: "parse_options os IRobotCore_new = (ok, q)" by fastforce
  have "values_ok IRobotCore_new" by (simp add: values_ok_def IRobotCore_new_def DEFAULT_BIT_RATE_def)
  from parse_options_values [OF q this] have v: "values_ok q" .
  have "check_options (args \<noteq> []) q = (True, p)" using assms g q by (auto simp: ParseArgs_def split: if_splits)
  with v show ?thesis
    by (auto simp: check_options_def options_ok_def values_ok_def Let_def split: if_splits option.splits)
qed

text \<open>A command line for given options: long options, a value after an equals sign.\<close>

fun render :: "string \<times> string option \<Rightarrow> string" where
  "render (name, None) = ''--'' @ name"
| "render (name, Some v) = ''--'' @ name @ ''='' @ v"

definition flag_entry :: "string \<Rightarrow> bool \<Rightarrow> (string \<times> string option) list" where
  "flag_entry name b = (if b then [(name, None)] else [])"

definition text_entry :: "string \<Rightarrow> string option \<Rightarrow> (string \<times> string option) list" where
  "text_entry name v = (case v of None \<Rightarrow> [] | Some s \<Rightarrow> [(name, Some s)])"

definition number_entry :: "string \<Rightarrow> int \<Rightarrow> (string \<times> string option) list" where
  "number_entry name i = [(name, Some (dec_int i))]"

definition format_entry :: "RecordFormat \<Rightarrow> (string \<times> string option) list" where
  "format_entry f = (case f of RECORDER_FORMAT_AUTO \<Rightarrow> []
     | RECORDER_FORMAT_MP4 \<Rightarrow> [(''record-format'', Some ''mp4'')] | RECORDER_FORMAT_MKV \<Rightarrow> [(''record-format'', Some ''mkv'')])"

definition entries :: "IRobotCore \<Rightarrow> (string \<times> string option) list" where
  "entries p = text_entry ''serial'' (opt_serial p) @ text_entry ''crop'' (opt_crop p)
     @ text_entry ''record'' (opt_record_filename p) @ text_entry ''window-title'' (opt_window_title p)
     @ text_entry ''push-target'' (opt_push_target p) @ format_entry (opt_record_format p)
     @ number_entry ''port'' (uint (opt_port p)) @ number_entry ''max-size'' (uint (opt_max_size p))
     @ number_entry ''bit-rate'' (uint (opt_bit_rate p)) @ number_entry ''max-fps'' (uint (opt_max_fps p))
     @ number_entry ''window-x'' (sint (opt_window_x p)) @ number_entry ''window-y'' (sint (opt_window_y p))
     @ number_entry ''window-width'' (uint (opt_window_width p)) @ number_entry ''window-height'' (uint (opt_window_height p))
     @ number_entry ''screen-width'' (uint (opt_screen_width p)) @ number_entry ''screen-height'' (uint (opt_screen_height p))
     @ flag_entry ''show-touches'' (opt_show_touches p) @ flag_entry ''fullscreen'' (opt_fullscreen p)
     @ flag_entry ''always-on-top'' (opt_always_on_top p) @ flag_entry ''no-control'' (\<not> opt_control p)
     @ flag_entry ''no-display'' (\<not> opt_display p) @ flag_entry ''turn-screen-off'' (opt_turn_screen_off p)
     @ flag_entry ''render-expired-frames'' (opt_render_expired_frames p) @ flag_entry ''prefer-text'' (opt_prefer_text p)
     @ flag_entry ''window-borderless'' (opt_window_borderless p) @ flag_entry ''headless'' (opt_headless p)
     @ flag_entry ''help'' (opt_help p) @ flag_entry ''version'' (opt_version p)"

definition print_args :: "IRobotCore \<Rightarrow> string list" where
  "print_args p = map render (entries p)"

definition entry_ok :: "string \<times> string option \<Rightarrow> bool" where
  "entry_ok e \<longleftrightarrow> fst e \<noteq> [] \<and> CHR ''='' \<notin> set (fst e) \<and>
     (case map_of long_options (fst e) of None \<Rightarrow> False | Some (has_arg, code) \<Rightarrow> has_arg = (snd e \<noteq> None))"

definition parsed :: "string \<times> string option \<Rightarrow> opt_code \<times> string" where
  "parsed e = (snd (the (map_of long_options (fst e))), case snd e of None \<Rightarrow> [] | Some v \<Rightarrow> v)"

lemma getopt_render:
  assumes "entry_ok e"
  shows "getopt_long (render e # argv) = also_option (fst (parsed e)) (snd (parsed e)) (getopt_long argv)"
proof -
  obtain name v where e: "e = (name, v)" by (cases e)
  from assms obtain code where n: "name \<noteq> []" "CHR ''='' \<notin> set name" "map_of long_options name = Some (v \<noteq> None, code)"
    by (auto simp: entry_ok_def e split: option.splits)
  have m: "long_match name = Some (v \<noteq> None, code)" by (simp add: long_match_def n(3))
  show ?thesis
  proof (cases v)
    case None
    have "takeWhile (\<lambda>c. c \<noteq> CHR ''='') name = name" using n(2) by (induction name) auto
    with None n m show ?thesis
      by (simp add: getopt_long.simps(2) e parsed_def Let_def del: takeWhile_eq_all_conv)
  next
    case (Some s)
    have "takeWhile (\<lambda>c. c \<noteq> CHR ''='') (name @ CHR ''='' # s) = name" using n(2) by (subst takeWhile_append2) auto
    moreover have "drop (length name + 3) (CHR ''-'' # CHR ''-'' # name @ CHR ''='' # s) = s" by (simp add: numeral_eq_Suc)
    ultimately show ?thesis using Some n m by (simp add: getopt_long.simps(2) e parsed_def Let_def)
  qed
qed

lemma getopt_entries: "\<forall>e \<in> set es. entry_ok e \<Longrightarrow> getopt_long (map render es) = (map parsed es, [])"
  by (induction es) (simp_all add: getopt_render also_option_def getopt_long.simps(1))

lemma entries_ok: "\<forall>e \<in> set (entries p). entry_ok e"
proof -
  have t: "\<forall>e \<in> set (text_entry name v). entry_ok e" if "entry_ok (name, Some [])" for name v
    using that by (auto simp: text_entry_def entry_ok_def split: option.splits)
  have b: "\<forall>e \<in> set (flag_entry name v). entry_ok e" if "entry_ok (name, None)" for name v
    using that by (auto simp: flag_entry_def)
  have n: "\<forall>e \<in> set (number_entry name v). entry_ok e" if "entry_ok (name, Some [])" for name v
    using that by (auto simp: number_entry_def entry_ok_def split: option.splits)
  have f: "\<forall>e \<in> set (format_entry v). entry_ok e" for v
    by (simp add: format_entry_def entry_ok_def long_options_def split: RecordFormat.split)
  show ?thesis
    unfolding entries_def set_append ball_Un by (intro conjI t b n f) (simp_all add: entry_ok_def long_options_def)
qed

lemma parse_options_append:
  "parse_options (xs @ ys) p = (let (ok, p') = parse_options xs p in if \<not> ok then (False, p') else parse_options ys p')"
  by (induction xs p rule: parse_options.induct) (auto split: prod.split)

lemma parse_dec_int:
  assumes "lo \<le> i" and "i \<le> hi" and "LONG_MIN \<le> lo" and "hi \<le> LONG_MAX"
  shows "ParseIntegerArg (dec_int i) False lo hi = Some i"
  using assms by (simp add: ParseIntegerArg_def parse_integer_dec_int)

lemma of_int_uint_16 [simp]: "of_int (uint x) = x" for x :: u16
  by simp

lemma number_values:
  "ParsePort (dec_int (uint (x :: u16))) = Some x" "ParseMaxSize (dec_int (uint x)) = Some x"
  "ParseWindowDimension (dec_int (uint x)) = Some x"
  "uint x \<le> 1000 \<Longrightarrow> ParseMaxFps (dec_int (uint x)) = Some x"
  "- 1 \<le> sint y \<Longrightarrow> ParseWindowPosition (dec_int (sint (y :: 16 word))) = Some y"
  "uint z \<le> 0x7FFFFFFF \<Longrightarrow> ParseBitRate (dec_int (uint (z :: u32))) = Some z"
proof -
  have u: "uint x \<le> 0xFFFF" for x :: u16 using uint_bounded [of x] by simp
  have s: "sint y \<le> 0x7FFF" using sint_lt [of y] by simp
  have d: "ParseIntegerArg (dec_int (uint x)) False 0 0xFFFF = Some (uint x)" for x :: u16
    using u [of x] by (intro parse_dec_int) (simp_all add: LONG_MIN_def LONG_MAX_def)
  show "ParsePort (dec_int (uint x)) = Some x" "ParseMaxSize (dec_int (uint x)) = Some x"
    "ParseWindowDimension (dec_int (uint x)) = Some x"
    by (simp_all add: ParsePort_def ParseMaxSize_def ParseWindowDimension_def d)
  show "ParseMaxFps (dec_int (uint x)) = Some x" if "uint x \<le> 1000"
    using that parse_dec_int [of 0 "uint x" 1000] by (simp add: ParseMaxFps_def LONG_MIN_def LONG_MAX_def)
  show "ParseWindowPosition (dec_int (sint y)) = Some y" if "- 1 \<le> sint y"
    using that s parse_dec_int [of "- 1" "sint y" "0x7FFF"] by (simp add: ParseWindowPosition_def LONG_MIN_def LONG_MAX_def)
  show "ParseBitRate (dec_int (uint z)) = Some z" if z: "uint z \<le> 0x7FFFFFFF"
  proof -
    have "LONG_MIN \<le> 0" "0x7FFFFFFF \<le> LONG_MAX" by (simp_all add: LONG_MIN_def LONG_MAX_def)
    then have "LONG_MIN \<le> uint z" "uint z \<le> LONG_MAX" using z uint_ge_0 [of z] by linarith+
    with parse_integer_with_suffix_dec_int [of "[]" "uint z"] have "parse_integer_with_suffix (dec_int (uint z)) = Some (uint z)"
      by (simp add: suffix_factor_def)
    with z show ?thesis by (simp add: ParseBitRate_def ParseIntegerArg_def not_less)
  qed
qed

definition given :: "'a option \<Rightarrow> 'a option \<Rightarrow> 'a option" where
  "given v d = (case v of None \<Rightarrow> d | Some s \<Rightarrow> Some s)"

lemma given_None [simp]: "given v None = v"
  by (cases v) (simp_all add: given_def)

lemmas entry_steps = parsed_def long_options_def parse_option_def parse_short_def set_option_def

lemma parse_texts:
  "parse_options (map parsed (text_entry ''serial'' v)) p = (True, p\<lparr>opt_serial := given v (opt_serial p)\<rparr>)"
  "parse_options (map parsed (text_entry ''crop'' v)) p = (True, p\<lparr>opt_crop := given v (opt_crop p)\<rparr>)"
  "parse_options (map parsed (text_entry ''record'' v)) p = (True, p\<lparr>opt_record_filename := given v (opt_record_filename p)\<rparr>)"
  "parse_options (map parsed (text_entry ''window-title'' v)) p = (True, p\<lparr>opt_window_title := given v (opt_window_title p)\<rparr>)"
  "parse_options (map parsed (text_entry ''push-target'' v)) p = (True, p\<lparr>opt_push_target := given v (opt_push_target p)\<rparr>)"
  by (cases v; simp add: text_entry_def given_def entry_steps)+

lemma parse_format:
  "parse_options (map parsed (format_entry f)) p =
     (True, p\<lparr>opt_record_format := (if f = RECORDER_FORMAT_AUTO then opt_record_format p else f)\<rparr>)"
  by (cases f) (simp_all add: format_entry_def entry_steps ParseRecordFormat_def)

lemma parse_numbers:
  "parse_options (map parsed (number_entry ''port'' (uint x))) p = (True, p\<lparr>opt_port := x\<rparr>)"
  "parse_options (map parsed (number_entry ''max-size'' (uint x))) p = (True, p\<lparr>opt_max_size := x\<rparr>)"
  "parse_options (map parsed (number_entry ''window-width'' (uint x))) p = (True, p\<lparr>opt_window_width := x\<rparr>)"
  "parse_options (map parsed (number_entry ''window-height'' (uint x))) p = (True, p\<lparr>opt_window_height := x\<rparr>)"
  "parse_options (map parsed (number_entry ''screen-width'' (uint x))) p = (True, p\<lparr>opt_screen_width := x\<rparr>)"
  "parse_options (map parsed (number_entry ''screen-height'' (uint x))) p = (True, p\<lparr>opt_screen_height := x\<rparr>)"
  "uint x \<le> 1000 \<Longrightarrow> parse_options (map parsed (number_entry ''max-fps'' (uint x))) p = (True, p\<lparr>opt_max_fps := x\<rparr>)"
  "- 1 \<le> sint y \<Longrightarrow> parse_options (map parsed (number_entry ''window-x'' (sint y))) p = (True, p\<lparr>opt_window_x := y\<rparr>)"
  "- 1 \<le> sint y \<Longrightarrow> parse_options (map parsed (number_entry ''window-y'' (sint y))) p = (True, p\<lparr>opt_window_y := y\<rparr>)"
  "uint z \<le> 0x7FFFFFFF \<Longrightarrow> parse_options (map parsed (number_entry ''bit-rate'' (uint z))) p = (True, p\<lparr>opt_bit_rate := z\<rparr>)"
  by (simp_all add: number_entry_def number_values entry_steps)

lemma parse_flags:
  "parse_options (map parsed (flag_entry ''show-touches'' b)) p = (True, p\<lparr>opt_show_touches := b \<or> opt_show_touches p\<rparr>)"
  "parse_options (map parsed (flag_entry ''fullscreen'' b)) p = (True, p\<lparr>opt_fullscreen := b \<or> opt_fullscreen p\<rparr>)"
  "parse_options (map parsed (flag_entry ''always-on-top'' b)) p = (True, p\<lparr>opt_always_on_top := b \<or> opt_always_on_top p\<rparr>)"
  "parse_options (map parsed (flag_entry ''no-control'' b)) p = (True, p\<lparr>opt_control := \<not> b \<and> opt_control p\<rparr>)"
  "parse_options (map parsed (flag_entry ''no-display'' b)) p = (True, p\<lparr>opt_display := \<not> b \<and> opt_display p\<rparr>)"
  "parse_options (map parsed (flag_entry ''turn-screen-off'' b)) p = (True, p\<lparr>opt_turn_screen_off := b \<or> opt_turn_screen_off p\<rparr>)"
  "parse_options (map parsed (flag_entry ''render-expired-frames'' b)) p =
     (True, p\<lparr>opt_render_expired_frames := b \<or> opt_render_expired_frames p\<rparr>)"
  "parse_options (map parsed (flag_entry ''prefer-text'' b)) p = (True, p\<lparr>opt_prefer_text := b \<or> opt_prefer_text p\<rparr>)"
  "parse_options (map parsed (flag_entry ''window-borderless'' b)) p =
     (True, p\<lparr>opt_window_borderless := b \<or> opt_window_borderless p\<rparr>)"
  "parse_options (map parsed (flag_entry ''headless'' b)) p = (True, p\<lparr>opt_headless := b \<or> opt_headless p\<rparr>)"
  "parse_options (map parsed (flag_entry ''help'' b)) p = (True, p\<lparr>opt_help := b \<or> opt_help p\<rparr>)"
  "parse_options (map parsed (flag_entry ''version'' b)) p = (True, p\<lparr>opt_version := b \<or> opt_version p\<rparr>)"
  by (cases b; simp add: flag_entry_def entry_steps)+

lemma parse_entries:
  assumes "options_ok p"
  shows "parse_options (map parsed (entries p)) IRobotCore_new = (True, p)"
  using assms unfolding options_ok_def values_ok_def
  by (cases p)
    (auto simp: entries_def parse_options_append parse_texts parse_format parse_numbers parse_flags IRobotCore_new_def Let_def)

text \<open>C11. Every consistent set of options can be given on the command line: the parser, starting from
  the defaults, reads the printed options back exactly, with no argument left over.\<close>

theorem parse_args_roundtrip:
  assumes "options_ok p"
  shows "ParseArgs (print_args p) IRobotCore_new = (True, p)"
proof -
  have "check_options False p = (True, p)"
    using assms by (cases "opt_record_filename p") (auto simp: check_options_def options_ok_def Let_def)
  then show ?thesis
    by (simp add: ParseArgs_def print_args_def getopt_entries [OF entries_ok] parse_entries [OF assms])
qed

theorem parse_args_sound_witness:
  "\<exists>p. ParseArgs [''-m'', ''1024'', ''--record=a.mkv'', ''-nt''] IRobotCore_new = (True, p) \<and> opt_max_size p = 1024 \<and>
     opt_record_format p = RECORDER_FORMAT_MKV \<and> options_ok p"
proof -
  have "ParseArgs [''-m'', ''1024'', ''--record=a.mkv'', ''-nt''] IRobotCore_new =
      (True, IRobotCore_new\<lparr>opt_max_size := 1024, opt_record_filename := Some ''a.mkv'', opt_control := False, opt_show_touches := True,
        opt_record_format := RECORDER_FORMAT_MKV\<rparr>)"
    by code_simp
  from this parse_args_sound [OF this] show ?thesis by simp
qed

theorem parse_args_roundtrip_witness:
  "ParseArgs (print_args (IRobotCore_new\<lparr>opt_window_x := 100, opt_crop := Some ''1224:1440:0:0''\<rparr>)) IRobotCore_new =
     (True, IRobotCore_new\<lparr>opt_window_x := 100, opt_crop := Some ''1224:1440:0:0''\<rparr>)"
  by (rule parse_args_roundtrip) (simp add: options_ok_def values_ok_def IRobotCore_new_def DEFAULT_BIT_RATE_def)

end
