(* ===== verification/Irobot_Core.thy ===== *)
theory Irobot_Core
  imports Cli Command
begin

section \<open>Starting and ending the program (src/src/core/irobot_core.cpp)\<close>

text \<open>
  \<open>Start\<close> brings the components up, runs the event loop and takes them down again. Each
  component's own operation is modelled in its theory; here the calls are recorded in the order in
  which they are made, so that what is started can be compared with what is stopped, joined and
  destroyed. The answers of the calls that can fail are an argument, arbitrary in the theorems: no
  call is made twice. Passing from the loop to the end supposes that the loop returns.
\<close>

datatype core_part =
    C_Server | C_Touches_On | C_Touches_Off | C_Agent | C_Sdl | C_Receiver | C_Fps_Counter | C_Video_Buffer
  | C_File_Handler | C_Decoder | C_Recorder | C_Stream | C_Controller | C_Screen | C_Input_Manager

datatype core_op =
    Op_Init | Op_Start | Op_ConnectTo | Op_ReadDeviceInfomation | Op_InitFileHandler | Op_InitRendering | Op_TurnScreenOff
  | Op_SwitchFullscreen | Op_SwitchState | Op_EventLoop | Op_Wait | Op_Stop | Op_Interrupt | Op_Join | Op_Destroy

record core_state =
  cs_trace :: "(core_part \<times> core_op) list"
  cs_cannot_cont :: bool
  cs_show_touches_waited :: bool
  cs_fps_counter_initialized :: bool
  cs_video_buffer_initialized :: bool
  cs_file_handler_initialized :: bool
  cs_recorder_initialized :: bool
  cs_controller_initialized :: bool
  cs_controller_started :: bool

definition core_start :: core_state where
  "core_start = \<lparr>cs_trace = [], cs_cannot_cont = False, cs_show_touches_waited = False, cs_fps_counter_initialized = False,
     cs_video_buffer_initialized = False, cs_file_handler_initialized = False, cs_recorder_initialized = False,
     cs_controller_initialized = False, cs_controller_started = False\<rparr>"

type_synonym answers = "core_part \<times> core_op \<Rightarrow> bool"

text \<open>A call; one whose failure sets \<open>cannot_cont\<close>; one under a condition.\<close>

definition call :: "core_part \<Rightarrow> core_op \<Rightarrow> core_state \<Rightarrow> core_state" where
  "call c f s = s\<lparr>cs_trace := cs_trace s @ [(c, f)]\<rparr>"

definition must :: "answers \<Rightarrow> core_part \<Rightarrow> core_op \<Rightarrow> core_state \<Rightarrow> core_state" where
  "must ans c f s = (call c f s)\<lparr>cs_cannot_cont := cs_cannot_cont s \<or> \<not> ans (c, f)\<rparr>"

definition call_if :: "bool \<Rightarrow> (core_state \<Rightarrow> core_state) \<Rightarrow> core_state \<Rightarrow> core_state" where
  "call_if b f s = (if b then f s else s)"

subsection \<open>Bringing up\<close>

text \<open>The result tells whether \<open>Start\<close> goes on.\<close>

definition start_server :: "IRobotCore \<Rightarrow> answers \<Rightarrow> core_state \<Rightarrow> bool \<times> core_state" where
  "start_server p ans s =
     (let s = call C_Server Op_Start s in
      if \<not> ans (C_Server, Op_Start) then (False, s)
      else
        let s = call_if (opt_show_touches p) (\<lambda>s. (call C_Touches_On Op_Start s)\<lparr>cs_show_touches_waited := False\<rparr>) s;
            s = call C_Agent Op_Init s
        in if \<not> ans (C_Agent, Op_Init) then (False, s) else (True, s))"

text \<open>The operands of \<open>&\<close> are evaluated both, so a call behind it is made in any case.\<close>

definition connect_server :: "IRobotCore \<Rightarrow> answers \<Rightarrow> core_state \<Rightarrow> core_state" where
  "connect_server p ans s =
     (let s = must ans C_Sdl Op_Init (s\<lparr>cs_cannot_cont := False\<rparr>);
          s = call_if (\<not> opt_headless p) (call C_Screen Op_InitFileHandler) s;
          s = must ans C_Server Op_ConnectTo s
      in must ans C_Receiver Op_ReadDeviceInfomation s)"

definition init_video :: "IRobotCore \<Rightarrow> answers \<Rightarrow> core_state \<Rightarrow> core_state" where
  "init_video p ans s =
     (let s = call_if (\<not> cs_cannot_cont s \<and> opt_display p) (\<lambda>s.
            let s = (must ans C_Fps_Counter Op_Init s)\<lparr>cs_fps_counter_initialized := True\<rparr>;
                s = (must ans C_Video_Buffer Op_Init s)\<lparr>cs_video_buffer_initialized := True\<rparr>;
                s = call_if (\<not> cs_cannot_cont s \<and> opt_control p)
                  (\<lambda>s. (must ans C_File_Handler Op_Init s)\<lparr>cs_file_handler_initialized := True\<rparr>) s
            in call C_Decoder Op_Init s) s;
          s = call_if (\<not> cs_cannot_cont s \<and> opt_record_filename p \<noteq> None)
            (\<lambda>s. (must ans C_Recorder Op_Init s)\<lparr>cs_recorder_initialized := True\<rparr>) s;
          s = call C_Stream Op_Init s;
          s = must ans C_Stream Op_Start s
      in must ans C_Agent Op_Start s)"

definition init_display :: "IRobotCore \<Rightarrow> answers \<Rightarrow> core_state \<Rightarrow> core_state" where
  "init_display p ans s = call_if (\<not> cs_cannot_cont s \<and> opt_display p) (\<lambda>s.
     let s = call_if (opt_control p) (\<lambda>s.
           let s = (must ans C_Controller Op_Init s)\<lparr>cs_controller_initialized := True\<rparr>
           in (must ans C_Controller Op_Start s)\<lparr>cs_controller_started := True\<rparr>) s;
         s = call_if (\<not> opt_headless p) (must ans C_Screen Op_InitRendering) s;
         s = call_if (\<not> cs_cannot_cont s \<and> opt_turn_screen_off p) (call C_Agent Op_TurnScreenOff) s
     in call_if (\<not> opt_headless p \<and> opt_fullscreen p) (call C_Screen Op_SwitchFullscreen) s) s"

definition wait_show_touches :: "IRobotCore \<Rightarrow> core_state \<Rightarrow> core_state" where
  "wait_show_touches p = call_if (opt_show_touches p) (\<lambda>s. (call C_Touches_On Op_Wait s)\<lparr>cs_show_touches_waited := True\<rparr>)"

subsection \<open>Running\<close>

definition run_events :: "IRobotCore \<Rightarrow> answers \<Rightarrow> core_state \<Rightarrow> bool \<times> core_state" where
  "run_events p ans s =
     (if \<not> opt_headless p then (ans (C_Input_Manager, Op_EventLoop), call C_Screen Op_Destroy (call C_Input_Manager Op_EventLoop s))
      else (False, call C_Agent Op_EventLoop (call C_Fps_Counter Op_SwitchState s)))"

subsection \<open>Taking down\<close>

definition stop_all :: "core_state \<Rightarrow> core_state" where
  "stop_all s =
     (let s = call C_Stream Op_Stop s;
          s = call_if (cs_controller_started s) (\<lambda>s. call C_Agent Op_Stop (call C_Controller Op_Stop s)) s;
          s = call_if (cs_file_handler_initialized s) (call C_File_Handler Op_Stop) s;
          s = call_if (cs_fps_counter_initialized s) (call C_Fps_Counter Op_Interrupt) s
      in call C_Server Op_Stop s)"

definition destroy_all :: "IRobotCore \<Rightarrow> core_state \<Rightarrow> core_state" where
  "destroy_all p s =
     (let s = call C_Stream Op_Join s;
          s = call_if (cs_controller_started s) (\<lambda>s. call C_Agent Op_Join (call C_Controller Op_Join s)) s;
          s = call_if (cs_controller_initialized s) (\<lambda>s. call C_Agent Op_Destroy (call C_Controller Op_Destroy s)) s;
          s = call_if (cs_recorder_initialized s) (call C_Recorder Op_Destroy) s;
          s = call_if (cs_file_handler_initialized s) (\<lambda>s. call C_File_Handler Op_Destroy (call C_File_Handler Op_Join s)) s;
          s = call_if (cs_video_buffer_initialized s) (call C_Video_Buffer Op_Destroy) s;
          s = call_if (cs_fps_counter_initialized s) (\<lambda>s. call C_Fps_Counter Op_Destroy (call C_Fps_Counter Op_Join s)) s;
          s = call_if (opt_show_touches p) (\<lambda>s.
            let s = call_if (\<not> cs_show_touches_waited s) (call C_Touches_On Op_Wait) s
            in call C_Touches_Off Op_Wait (call C_Touches_Off Op_Start s)) s
      in call C_Server Op_Destroy s)"

definition IRobotCore_Start :: "IRobotCore \<Rightarrow> answers \<Rightarrow> bool \<times> (core_part \<times> core_op) list" where
  "IRobotCore_Start p ans =
     (let (go, s) = start_server p ans core_start in
      if \<not> go then (False, cs_trace s)
      else
        let s = connect_server p ans s;
            s = init_video p ans s;
            s = init_display p ans s;
            s = wait_show_touches p s;
            (ret, s) = run_events p ans s;
            s = stop_all s;
            s = destroy_all p s
        in (ret, cs_trace s))"

definition show_touches_argv :: "bool \<Rightarrow> string list" where
  "show_touches_argv enabled =
     [''shell'', ''settings'', ''put'', ''system'', ''show_touches'', if enabled then ''1'' else ''0'']"

definition SetShowTouchesEnabled :: "string option \<Rightarrow> bool \<Rightarrow> proc_world \<Rightarrow> (int \<times> proc_world) option" where
  "SetShowTouchesEnabled serial enabled w = adb_execute serial (show_touches_argv enabled) w"

definition WaitShowTouches :: "int \<Rightarrow> proc_world \<Rightarrow> proc_world" where
  "WaitShowTouches process w = snd (process_check_success process w)"

subsection \<open>The calls of each part\<close>

text \<open>A part of the trace that is there or not.\<close>

definition only :: "bool \<Rightarrow> 'a list \<Rightarrow> 'a list" where
  "only b xs = (if b then xs else [])"

lemma only_simps [simp]: "only True xs = xs" "only False xs = []" "set (only b xs) = {x. b \<and> x \<in> set xs}"
  "distinct (only b xs) \<longleftrightarrow> (b \<longrightarrow> distinct xs)"
  by (auto simp: only_def)

lemma call_fields [simp]:
  "cs_trace (call c f s) = cs_trace s @ [(c, f)]" "cs_cannot_cont (call c f s) = cs_cannot_cont s"
  "cs_show_touches_waited (call c f s) = cs_show_touches_waited s"
  "cs_fps_counter_initialized (call c f s) = cs_fps_counter_initialized s"
  "cs_video_buffer_initialized (call c f s) = cs_video_buffer_initialized s"
  "cs_file_handler_initialized (call c f s) = cs_file_handler_initialized s"
  "cs_recorder_initialized (call c f s) = cs_recorder_initialized s"
  "cs_controller_initialized (call c f s) = cs_controller_initialized s"
  "cs_controller_started (call c f s) = cs_controller_started s"
  by (simp_all add: call_def)

lemma must_fields [simp]:
  "cs_trace (must ans c f s) = cs_trace s @ [(c, f)]" "cs_cannot_cont (must ans c f s) \<longleftrightarrow> cs_cannot_cont s \<or> \<not> ans (c, f)"
  "cs_show_touches_waited (must ans c f s) = cs_show_touches_waited s"
  "cs_fps_counter_initialized (must ans c f s) = cs_fps_counter_initialized s"
  "cs_video_buffer_initialized (must ans c f s) = cs_video_buffer_initialized s"
  "cs_file_handler_initialized (must ans c f s) = cs_file_handler_initialized s"
  "cs_recorder_initialized (must ans c f s) = cs_recorder_initialized s"
  "cs_controller_initialized (must ans c f s) = cs_controller_initialized s"
  "cs_controller_started (must ans c f s) = cs_controller_started s"
  by (simp_all add: must_def)

text \<open>What a conditional step leaves alone when the step does.\<close>

lemma call_if_keeps: "(\<And>s. g (f s) = g s) \<Longrightarrow> g (call_if b f s) = g s"
  by (simp add: call_if_def)

lemma call_if_trace [simp]:
  "cs_trace (call_if b (call c f) s) = cs_trace s @ only b [(c, f)]"
  "cs_trace (call_if b (\<lambda>s. call c' f' (call c f s)) s) = cs_trace s @ only b [(c, f), (c', f')]"
  "cs_trace (call_if b (must ans c f) s) = cs_trace s @ only b [(c, f)]"
  "cs_trace (call_if b (\<lambda>s. call c' f' (call c f (call_if (\<not> cs_show_touches_waited s) (call d e) s))) s) =
     cs_trace s @ only b (only (\<not> cs_show_touches_waited s) [(d, e)] @ [(c, f), (c', f')])"
  by (simp_all add: call_if_def)

lemmas call_if_fields [simp] =
  call_if_keeps [where g = cs_fps_counter_initialized] call_if_keeps [where g = cs_video_buffer_initialized]
  call_if_keeps [where g = cs_file_handler_initialized] call_if_keeps [where g = cs_recorder_initialized]
  call_if_keeps [where g = cs_controller_initialized] call_if_keeps [where g = cs_controller_started]
  call_if_keeps [where g = cs_show_touches_waited]

lemma connect_server_trace:
  "cs_trace (connect_server p ans s) = cs_trace s @ [(C_Sdl, Op_Init)] @ only (\<not> opt_headless p) [(C_Screen, Op_InitFileHandler)]
     @ [(C_Server, Op_ConnectTo), (C_Receiver, Op_ReadDeviceInfomation)]"
  by (simp add: connect_server_def Let_def)

definition no_flags :: "core_state \<Rightarrow> bool" where
  "no_flags s \<longleftrightarrow> \<not> cs_fps_counter_initialized s \<and> \<not> cs_video_buffer_initialized s \<and> \<not> cs_file_handler_initialized s \<and>
     \<not> cs_recorder_initialized s \<and> \<not> cs_controller_initialized s \<and> \<not> cs_controller_started s"

lemma connect_server_flags: "no_flags s \<Longrightarrow> no_flags (connect_server p ans s)"
  by (simp add: connect_server_def Let_def no_flags_def)

definition same_but_recorder :: "core_state \<Rightarrow> core_state \<Rightarrow> bool" where
  "same_but_recorder s s' \<longleftrightarrow> cs_fps_counter_initialized s' = cs_fps_counter_initialized s \<and>
     cs_video_buffer_initialized s' = cs_video_buffer_initialized s \<and>
     cs_file_handler_initialized s' = cs_file_handler_initialized s \<and>
     cs_controller_initialized s' = cs_controller_initialized s \<and> cs_controller_started s' = cs_controller_started s"

text \<open>A flag tells that the initialisation was called, whatever it answered.\<close>

lemma init_video_trace:
  assumes flags: "no_flags s" and s': "s' = init_video p ans s"
  shows "cs_trace s' = cs_trace s @ only (cs_fps_counter_initialized s') ([(C_Fps_Counter, Op_Init), (C_Video_Buffer, Op_Init)]
       @ only (cs_file_handler_initialized s') [(C_File_Handler, Op_Init)] @ [(C_Decoder, Op_Init)])
     @ only (cs_recorder_initialized s') [(C_Recorder, Op_Init)]
     @ [(C_Stream, Op_Init), (C_Stream, Op_Start), (C_Agent, Op_Start)]"
    and "cs_video_buffer_initialized s' = cs_fps_counter_initialized s'"
    and "cs_file_handler_initialized s' \<Longrightarrow> cs_fps_counter_initialized s'"
    and "\<not> cs_controller_initialized s'" and "\<not> cs_controller_started s'"
proof -
  define s0 where "s0 = (must ans C_Video_Buffer Op_Init ((must ans C_Fps_Counter Op_Init s)\<lparr>cs_fps_counter_initialized := True\<rparr>))
    \<lparr>cs_video_buffer_initialized := True\<rparr>"
  define s1 where "s1 = call_if (\<not> cs_cannot_cont s \<and> opt_display p) (\<lambda>s. call C_Decoder Op_Init
    (call_if (\<not> cs_cannot_cont s0 \<and> opt_control p)
      (\<lambda>s. (must ans C_File_Handler Op_Init s)\<lparr>cs_file_handler_initialized := True\<rparr>) s0)) s"
  define s2 where "s2 = call_if (\<not> cs_cannot_cont s1 \<and> opt_record_filename p \<noteq> None)
    (\<lambda>s. (must ans C_Recorder Op_Init s)\<lparr>cs_recorder_initialized := True\<rparr>) s1"
  have eq: "s' = must ans C_Agent Op_Start (must ans C_Stream Op_Start (call C_Stream Op_Init s2))"
    unfolding s' init_video_def s2_def s1_def s0_def Let_def call_if_def by simp
  have s0: "cs_trace s0 = cs_trace s @ [(C_Fps_Counter, Op_Init), (C_Video_Buffer, Op_Init)]" "cs_fps_counter_initialized s0"
    "cs_video_buffer_initialized s0" "\<not> cs_file_handler_initialized s0" "\<not> cs_controller_initialized s0"
    "\<not> cs_controller_started s0" "\<not> cs_recorder_initialized s0"
    using flags by (simp_all add: s0_def no_flags_def)
  have "cs_trace s1 = cs_trace s @ only (cs_fps_counter_initialized s1) ([(C_Fps_Counter, Op_Init), (C_Video_Buffer, Op_Init)]
       @ only (cs_file_handler_initialized s1) [(C_File_Handler, Op_Init)] @ [(C_Decoder, Op_Init)]) \<and>
    cs_video_buffer_initialized s1 = cs_fps_counter_initialized s1 \<and>
    (cs_file_handler_initialized s1 \<longrightarrow> cs_fps_counter_initialized s1) \<and>
    \<not> cs_controller_initialized s1 \<and> \<not> cs_controller_started s1 \<and> \<not> cs_recorder_initialized s1"
    using flags s0
    by (cases "\<not> cs_cannot_cont s \<and> opt_display p"; cases "\<not> cs_cannot_cont s0 \<and> opt_control p")
      (simp_all add: s1_def call_if_def no_flags_def)
  then have s1: "cs_trace s1 = cs_trace s @ only (cs_fps_counter_initialized s1) ([(C_Fps_Counter, Op_Init), (C_Video_Buffer, Op_Init)]
       @ only (cs_file_handler_initialized s1) [(C_File_Handler, Op_Init)] @ [(C_Decoder, Op_Init)])"
    "cs_video_buffer_initialized s1 = cs_fps_counter_initialized s1"
    "cs_file_handler_initialized s1 \<Longrightarrow> cs_fps_counter_initialized s1"
    "\<not> cs_controller_initialized s1" "\<not> cs_controller_started s1" "\<not> cs_recorder_initialized s1" by blast+
  have s2: "cs_trace s2 = cs_trace s1 @ only (cs_recorder_initialized s2) [(C_Recorder, Op_Init)]" "same_but_recorder s1 s2"
    using s1(6) by (auto simp: s2_def call_if_def same_but_recorder_def)
  from s1 s2 show "cs_trace s' = cs_trace s @ only (cs_fps_counter_initialized s') ([(C_Fps_Counter, Op_Init), (C_Video_Buffer, Op_Init)]
       @ only (cs_file_handler_initialized s') [(C_File_Handler, Op_Init)] @ [(C_Decoder, Op_Init)])
     @ only (cs_recorder_initialized s') [(C_Recorder, Op_Init)]
     @ [(C_Stream, Op_Init), (C_Stream, Op_Start), (C_Agent, Op_Start)]"
    "cs_video_buffer_initialized s' = cs_fps_counter_initialized s'"
    "cs_file_handler_initialized s' \<Longrightarrow> cs_fps_counter_initialized s'"
    "\<not> cs_controller_initialized s'" "\<not> cs_controller_started s'"
    by (auto simp: eq same_but_recorder_def)
qed

text \<open>The other flags are those before.\<close>

definition same_flags :: "core_state \<Rightarrow> core_state \<Rightarrow> bool" where
  "same_flags s s' \<longleftrightarrow> cs_fps_counter_initialized s' = cs_fps_counter_initialized s \<and>
     cs_video_buffer_initialized s' = cs_video_buffer_initialized s \<and>
     cs_file_handler_initialized s' = cs_file_handler_initialized s \<and>
     cs_recorder_initialized s' = cs_recorder_initialized s"

lemma init_display_trace:
  assumes "\<not> cs_controller_initialized s" and "\<not> cs_controller_started s" and s': "s' = init_display p ans s"
  shows "(\<exists>a b c. cs_trace s' = cs_trace s
     @ only (cs_controller_initialized s') [(C_Controller, Op_Init), (C_Controller, Op_Start)]
     @ only a [(C_Screen, Op_InitRendering)] @ only b [(C_Agent, Op_TurnScreenOff)] @ only c [(C_Screen, Op_SwitchFullscreen)]) \<and>
   cs_controller_started s' = cs_controller_initialized s' \<and>
   (cs_controller_initialized s' \<longrightarrow> opt_control p \<and> opt_display p) \<and> same_flags s s'"
proof (cases "\<not> cs_cannot_cont s \<and> opt_display p")
  case False
  then have "s' = s" using s' by (auto simp: init_display_def call_if_def)
  with assms(1,2) show ?thesis by (auto simp: same_flags_def intro: exI [of _ False])
next
  case True
  define s1 where "s1 = call_if (opt_control p) (\<lambda>s.
    let s = (must ans C_Controller Op_Init s)\<lparr>cs_controller_initialized := True\<rparr>
    in (must ans C_Controller Op_Start s)\<lparr>cs_controller_started := True\<rparr>) s"
  define s2 where "s2 = call_if (\<not> opt_headless p) (must ans C_Screen Op_InitRendering) s1"
  define s3 where "s3 = call_if (\<not> cs_cannot_cont s2 \<and> opt_turn_screen_off p) (call C_Agent Op_TurnScreenOff) s2"
  have s1: "cs_trace s1 = cs_trace s @ only (opt_control p) [(C_Controller, Op_Init), (C_Controller, Op_Start)]"
    "cs_controller_initialized s1 = opt_control p" "cs_controller_started s1 = opt_control p" "same_flags s s1"
    using assms(1,2) by (simp_all add: s1_def call_if_def Let_def same_flags_def)
  have "s' = call_if (\<not> opt_headless p \<and> opt_fullscreen p) (call C_Screen Op_SwitchFullscreen) s3"
    using True unfolding s' init_display_def s1_def s2_def s3_def Let_def by (subst call_if_def) simp
  then show ?thesis using s1 True by (auto simp: s2_def s3_def same_flags_def)
qed

lemma run_events_trace:
  "run_events p ans s = (ret, s') \<Longrightarrow> cs_trace s' = cs_trace s @ only (\<not> opt_headless p) [(C_Input_Manager, Op_EventLoop), (C_Screen, Op_Destroy)]
     @ only (opt_headless p) [(C_Fps_Counter, Op_SwitchState), (C_Agent, Op_EventLoop)]"
  by (auto simp: run_events_def split: if_splits)

lemma stop_all_trace:
  "cs_trace (stop_all s) = cs_trace s @ [(C_Stream, Op_Stop)]
     @ (only (cs_controller_started s) [(C_Controller, Op_Stop), (C_Agent, Op_Stop)]
        @ only (cs_file_handler_initialized s) [(C_File_Handler, Op_Stop)]
        @ only (cs_fps_counter_initialized s) [(C_Fps_Counter, Op_Interrupt)]) @ [(C_Server, Op_Stop)]"
  by (simp add: stop_all_def Let_def)

lemma destroy_all_trace:
  "cs_trace (destroy_all p s) = cs_trace s @ [(C_Stream, Op_Join)]
     @ (only (cs_controller_started s) [(C_Controller, Op_Join), (C_Agent, Op_Join)]
        @ only (cs_controller_initialized s) [(C_Controller, Op_Destroy), (C_Agent, Op_Destroy)]
        @ only (cs_recorder_initialized s) [(C_Recorder, Op_Destroy)]
        @ only (cs_file_handler_initialized s) [(C_File_Handler, Op_Join), (C_File_Handler, Op_Destroy)]
        @ only (cs_video_buffer_initialized s) [(C_Video_Buffer, Op_Destroy)]
        @ only (cs_fps_counter_initialized s) [(C_Fps_Counter, Op_Join), (C_Fps_Counter, Op_Destroy)]
        @ only (opt_show_touches p) (only (\<not> cs_show_touches_waited s) [(C_Touches_On, Op_Wait)]
            @ [(C_Touches_Off, Op_Start), (C_Touches_Off, Op_Wait)])) @ [(C_Server, Op_Destroy)]"
  by (simp add: destroy_all_def Let_def)

subsection \<open>The whole run\<close>

definition setup_calls :: "IRobotCore \<Rightarrow> bool \<Rightarrow> bool \<Rightarrow> bool \<Rightarrow> bool \<Rightarrow> bool \<Rightarrow> bool \<Rightarrow> bool \<Rightarrow> (core_part \<times> core_op) list" where
  "setup_calls p fps fh rec ci a b c =
     [(C_Server, Op_Start)] @ only (opt_show_touches p) [(C_Touches_On, Op_Start)] @ [(C_Agent, Op_Init), (C_Sdl, Op_Init)]
     @ only (\<not> opt_headless p) [(C_Screen, Op_InitFileHandler)] @ [(C_Server, Op_ConnectTo), (C_Receiver, Op_ReadDeviceInfomation)]
     @ only fps ([(C_Fps_Counter, Op_Init), (C_Video_Buffer, Op_Init)] @ only fh [(C_File_Handler, Op_Init)] @ [(C_Decoder, Op_Init)])
     @ only rec [(C_Recorder, Op_Init)] @ [(C_Stream, Op_Init), (C_Stream, Op_Start), (C_Agent, Op_Start)]
     @ only ci [(C_Controller, Op_Init), (C_Controller, Op_Start)] @ only a [(C_Screen, Op_InitRendering)]
     @ only b [(C_Agent, Op_TurnScreenOff)] @ only c [(C_Screen, Op_SwitchFullscreen)]
     @ only (opt_show_touches p) [(C_Touches_On, Op_Wait)]
     @ only (\<not> opt_headless p) [(C_Input_Manager, Op_EventLoop), (C_Screen, Op_Destroy)]
     @ only (opt_headless p) [(C_Fps_Counter, Op_SwitchState), (C_Agent, Op_EventLoop)]"

definition stop_calls :: "bool \<Rightarrow> bool \<Rightarrow> bool \<Rightarrow> (core_part \<times> core_op) list" where
  "stop_calls fps fh ci = only ci [(C_Controller, Op_Stop), (C_Agent, Op_Stop)] @ only fh [(C_File_Handler, Op_Stop)]
     @ only fps [(C_Fps_Counter, Op_Interrupt)]"

definition end_calls :: "IRobotCore \<Rightarrow> bool \<Rightarrow> bool \<Rightarrow> bool \<Rightarrow> bool \<Rightarrow> (core_part \<times> core_op) list" where
  "end_calls p fps fh rec ci = only ci [(C_Controller, Op_Join), (C_Agent, Op_Join), (C_Controller, Op_Destroy), (C_Agent, Op_Destroy)]
     @ only rec [(C_Recorder, Op_Destroy)] @ only fh [(C_File_Handler, Op_Join), (C_File_Handler, Op_Destroy)]
     @ only fps [(C_Video_Buffer, Op_Destroy)] @ only fps [(C_Fps_Counter, Op_Join), (C_Fps_Counter, Op_Destroy)]
     @ only (opt_show_touches p) [(C_Touches_Off, Op_Start), (C_Touches_Off, Op_Wait)]"

lemma only_append: "only b xs @ only b ys = only b (xs @ ys)"
  by (simp add: only_def)

lemma only_nested: "only b (only c xs @ ys) = only (b \<and> c) xs @ only b ys"
  by (simp add: only_def)

lemma wait_show_touches_fields:
  assumes "s' = wait_show_touches p s"
  shows "cs_trace s' = cs_trace s @ only (opt_show_touches p) [(C_Touches_On, Op_Wait)]" and "same_flags s s'"
    and "cs_controller_initialized s' = cs_controller_initialized s" and "cs_controller_started s' = cs_controller_started s"
    and "opt_show_touches p \<Longrightarrow> cs_show_touches_waited s'"
  using assms by (auto simp: wait_show_touches_def call_if_def same_flags_def)

lemma run_events_fields:
  assumes "run_events p ans s = (ret, s')"
  shows "same_flags s s'" and "cs_controller_initialized s' = cs_controller_initialized s"
    and "cs_controller_started s' = cs_controller_started s" and "cs_show_touches_waited s' = cs_show_touches_waited s"
    and "ret \<longleftrightarrow> \<not> opt_headless p \<and> ans (C_Input_Manager, Op_EventLoop)"
  using assms by (auto simp: run_events_def same_flags_def split: if_splits)

lemma stop_all_fields:
  "same_flags s (stop_all s)" "cs_controller_initialized (stop_all s) = cs_controller_initialized s"
  "cs_controller_started (stop_all s) = cs_controller_started s" "cs_show_touches_waited (stop_all s) = cs_show_touches_waited s"
  by (simp_all add: stop_all_def same_flags_def Let_def)

lemma start_server_fields:
  assumes "ans (C_Server, Op_Start)" and "ans (C_Agent, Op_Init)"
  shows "\<exists>s. start_server p ans core_start = (True, s) \<and> no_flags s \<and>
    cs_trace s = [(C_Server, Op_Start)] @ only (opt_show_touches p) [(C_Touches_On, Op_Start)] @ [(C_Agent, Op_Init)]"
  using assms by (simp add: start_server_def Let_def call_if_def core_start_def no_flags_def)

lemma core_trace:
  assumes ok: "ans (C_Server, Op_Start)" "ans (C_Agent, Op_Init)"
  shows "\<exists>fps fh rec ci a b c. (fh \<longrightarrow> fps) \<and> (ci \<longrightarrow> opt_control p \<and> opt_display p) \<and>
    fst (IRobotCore_Start p ans) = (\<not> opt_headless p \<and> ans (C_Input_Manager, Op_EventLoop)) \<and>
    snd (IRobotCore_Start p ans) = setup_calls p fps fh rec ci a b c @ [(C_Stream, Op_Stop)] @ stop_calls fps fh ci
      @ [(C_Server, Op_Stop), (C_Stream, Op_Join)] @ end_calls p fps fh rec ci @ [(C_Server, Op_Destroy)]"
proof -
  from start_server_fields [OF ok] obtain s0 where s0: "start_server p ans core_start = (True, s0)" "no_flags s0"
    "cs_trace s0 = [(C_Server, Op_Start)] @ only (opt_show_touches p) [(C_Touches_On, Op_Start)] @ [(C_Agent, Op_Init)]" by blast
  define s1 where "s1 = connect_server p ans s0"
  define s2 where "s2 = init_video p ans s1"
  define s3 where "s3 = init_display p ans s2"
  define s4 where "s4 = wait_show_touches p s3"
  obtain ret s5 where s5: "run_events p ans s4 = (ret, s5)" by fastforce
  note f1 = connect_server_flags [OF s0(2), of p ans, folded s1_def]
  note v = init_video_trace [OF f1 s2_def]
  note d = init_display_trace [OF v(4,5) s3_def]
  note w = wait_show_touches_fields [OF s4_def]
  note r = run_events_fields [OF s5]
  from d obtain a b c where d': "cs_trace s3 = cs_trace s2
     @ only (cs_controller_initialized s3) [(C_Controller, Op_Init), (C_Controller, Op_Start)]
     @ only a [(C_Screen, Op_InitRendering)] @ only b [(C_Agent, Op_TurnScreenOff)] @ only c [(C_Screen, Op_SwitchFullscreen)]" by blast
  let ?fps = "cs_fps_counter_initialized s2" and ?fh = "cs_file_handler_initialized s2"
    and ?rec = "cs_recorder_initialized s2" and ?ci = "cs_controller_initialized s3"
  have flags: "cs_fps_counter_initialized s5 = ?fps" "cs_video_buffer_initialized s5 = ?fps" "cs_file_handler_initialized s5 = ?fh"
    "cs_recorder_initialized s5 = ?rec" "cs_controller_initialized s5 = ?ci" "cs_controller_started s5 = ?ci"
    using d w r v(2) by (auto simp: same_flags_def)
  have t5: "cs_trace s5 = setup_calls p ?fps ?fh ?rec ?ci a b c"
    using run_events_trace [OF s5] w(1) d' v(1) s0(3) connect_server_trace [of p ans s0]
    by (simp add: setup_calls_def flip: s1_def)
  note st = stop_all_fields [of s5]
  have flags6: "cs_fps_counter_initialized (stop_all s5) = ?fps" "cs_video_buffer_initialized (stop_all s5) = ?fps"
    "cs_file_handler_initialized (stop_all s5) = ?fh" "cs_recorder_initialized (stop_all s5) = ?rec"
    "cs_controller_initialized (stop_all s5) = ?ci" "cs_controller_started (stop_all s5) = ?ci"
    using st flags by (auto simp: same_flags_def)
  have waited: "opt_show_touches p \<Longrightarrow> cs_show_touches_waited (stop_all s5)" using st(4) r(4) w(5) by simp
  have "snd (IRobotCore_Start p ans) = cs_trace (destroy_all p (stop_all s5))" "fst (IRobotCore_Start p ans) = ret"
    using s0(1) s5 by (simp_all add: IRobotCore_Start_def Let_def flip: s1_def s2_def s3_def s4_def)
  moreover have "cs_trace (destroy_all p (stop_all s5)) = setup_calls p ?fps ?fh ?rec ?ci a b c @ [(C_Stream, Op_Stop)] @ stop_calls ?fps ?fh ?ci
      @ [(C_Server, Op_Stop), (C_Stream, Op_Join)] @ end_calls p ?fps ?fh ?rec ?ci @ [(C_Server, Op_Destroy)]"
    using waited by (cases "opt_show_touches p"; cases ?ci)
      (simp_all add: destroy_all_trace stop_all_trace flags flags6 t5 stop_calls_def end_calls_def)
  moreover have "?fh \<longrightarrow> ?fps" "?ci \<longrightarrow> opt_control p \<and> opt_display p" using v(3) d by simp_all
  ultimately show ?thesis using r(5)
    by - (rule exI [of _ ?fps], rule exI [of _ ?fh], rule exI [of _ ?rec], rule exI [of _ ?ci],
      rule exI [of _ a], rule exI [of _ b], rule exI [of _ c], simp)
qed


text \<open>The agent's threads and sockets are taken down by the code of the controller.\<close>

text \<open>Without control, or without a display, the agent's threads are started but never stopped,
  joined or destroyed: a run ends while they may still use the sockets and the decoded frames, which
  were destroyed.\<close>

theorem agent_left_running:
  assumes "ans (C_Server, Op_Start)" and "ans (C_Agent, Op_Init)" and "\<not> opt_control p \<or> \<not> opt_display p"
  shows "(C_Agent, Op_Start) \<in> set (snd (IRobotCore_Start p ans)) \<and>
    (\<forall>f \<in> {Op_Stop, Op_Join, Op_Destroy}. (C_Agent, f) \<notin> set (snd (IRobotCore_Start p ans)))"
proof -
  from core_trace [OF assms(1,2), of p] obtain fps fh rec ci a b c where ci: "ci \<longrightarrow> opt_control p \<and> opt_display p" and
    t: "snd (IRobotCore_Start p ans) = setup_calls p fps fh rec ci a b c @ [(C_Stream, Op_Stop)] @ stop_calls fps fh ci
      @ [(C_Server, Op_Stop), (C_Stream, Op_Join)] @ end_calls p fps fh rec ci @ [(C_Server, Op_Destroy)]" by blast
  from ci assms(3) have "\<not> ci" by blast
  then show ?thesis unfolding t by (auto simp: setup_calls_def stop_calls_def end_calls_def)
qed

text \<open>A failure after the agent is up does not end the run: the event loop is entered all the same.\<close>

lemma loop_entered_after_failure:
  assumes "ans (C_Server, Op_Start)" and "ans (C_Agent, Op_Init)" and "\<not> opt_headless p"
  shows "(C_Input_Manager, Op_EventLoop) \<in> set (snd (IRobotCore_Start p ans))"
  using core_trace [OF assms(1,2), of p] assms(3) by (auto simp: setup_calls_def)

text \<open>A failed initialisation is destroyed all the same.\<close>

lemma failed_init_destroyed:
  assumes "ans (C_Server, Op_Start)" and "ans (C_Agent, Op_Init)" and "(C_File_Handler, Op_Init) \<in> set (snd (IRobotCore_Start p ans))"
  shows "(C_File_Handler, Op_Destroy) \<in> set (snd (IRobotCore_Start p ans))"
  using core_trace [OF assms(1,2), of p] assms(3) by (auto simp: setup_calls_def stop_calls_def end_calls_def)

text \<open>When the agent cannot listen the server stays up.\<close>

lemma server_left_running:
  assumes "ans (C_Server, Op_Start)" and "\<not> ans (C_Agent, Op_Init)"
  shows "IRobotCore_Start p ans = (False, [(C_Server, Op_Start)] @ only (opt_show_touches p) [(C_Touches_On, Op_Start)] @ [(C_Agent, Op_Init)])"
  using assms by (simp add: IRobotCore_Start_def start_server_def core_start_def Let_def call_if_def)

text \<open>A run without a window always reports a failure.\<close>

lemma headless_fails:
  assumes "opt_headless p"
  shows "\<not> fst (IRobotCore_Start p ans)"
proof (cases "ans (C_Server, Op_Start) \<and> ans (C_Agent, Op_Init)")
  case True
  with core_trace [of ans p] assms show ?thesis by auto
next
  case False
  then show ?thesis by (auto simp: IRobotCore_Start_def start_server_def Let_def)
qed

subsection \<open>The program\<close>

text \<open>\<open>argv\<close> without the name of the program; \<open>network_ok\<close> is the answer of \<open>avformat_network_init\<close>.\<close>

definition iRobotMain :: "string list \<Rightarrow> bool \<Rightarrow> answers \<Rightarrow> int" where
  "iRobotMain argv network_ok ans =
     (let (ok, p) = ParseArgs argv IRobotCore_new in
      if \<not> ok then 1
      else if opt_help p then 0
      else if opt_version p then 0
      else if \<not> network_ok then 1
      else if fst (IRobotCore_Start p ans) then 0 else 1)"

subsection \<open>The log of the multimedia library\<close>

fun SDLPriorityFromAVLevel :: "int \<Rightarrow> int" where
  "SDLPriorityFromAVLevel level =
     (if level = 0 \<or> level = 8 then 6
      else if level = 16 then 5
      else if level = 24 then 4
      else if level = 32 then 3
      else 0)"

text \<open>The inner option is a message that is not logged.\<close>

definition AVLogCallback :: "char allocator \<Rightarrow> int \<Rightarrow> string \<Rightarrow> (int \<times> string) option option" where
  "AVLogCallback SDL_malloc level fmt =
     (let priority = SDLPriorityFromAVLevel level in
      if priority = 0 then Some None
      else case SDL_malloc (length fmt + 10) of
          None \<Rightarrow> Some None
        | Some local_fmt \<Rightarrow> do {
            local_fmt \<leftarrow> store_block local_fmt 0 (''[FFmpeg] '' @ [NUL]);
            local_fmt \<leftarrow> store_block local_fmt 9 (fmt @ [NUL]);
            Some (Some (priority, cstr local_fmt))
          })"

lemma av_log_fits:
  assumes "malloc_ok SDL_malloc" and "SDL_malloc (length fmt + 10) = Some b" and "cstring fmt" and "SDLPriorityFromAVLevel level = k" and "k \<noteq> 0"
  shows "AVLogCallback SDL_malloc level fmt = Some (Some (k, ''[FFmpeg] '' @ fmt))"
proof -
  have "length b = length fmt + 10" using malloc_okD [OF assms(1,2)] .
  moreover have "cstr (''[FFmpeg] '' @ fmt @ [NUL]) = ''[FFmpeg] '' @ fmt"
    using assms(3) cstr_cstring [of "''[FFmpeg] '' @ fmt"] cstr_append_NUL [of "''[FFmpeg] '' @ fmt" "[]"]
    by (simp add: cstring_def NUL_def)
  ultimately show ?thesis
    using assms by (simp add: AVLogCallback_def Let_def store_block_def del: SDLPriorityFromAVLevel.simps)
qed

subsection \<open>Instances\<close>

definition stream_fails :: answers where
  "stream_fails c \<longleftrightarrow> c \<noteq> (C_Stream, Op_Start)"


theorem agent_left_running_witness:
  "(C_Agent, Op_Join) \<notin> set (snd (IRobotCore_Start (IRobotCore_new\<lparr>opt_control := False\<rparr>) (\<lambda>c. True)))"
  using agent_left_running [of "\<lambda>c. True" "IRobotCore_new\<lparr>opt_control := False\<rparr>"] by simp

end
