(* ===== verification/Spec2Isabelle.thy ===== *)
theory Spec2Isabelle
  imports Buffer_Util Cbuf Queue Str_Util Control_Msg Control_Json Net Device_Msg Blob_Msg Worker
    Controller Fps_Counter Video_Buffer Recorder Stream Command Windows Device_Server
    Event_Converter Screen Agent_Controller Agent_Stream Events
    Agent_Manager Float_Arith Brain File_Handler Input_Manager Input_Events Session Locks Controller_Locks Cli Irobot_Core
begin

text \<open>
  A verification library for irobot, a desktop client, written in C++, that mirrors and controls an
  Android device. This theory imports every other one; the properties are in the theories of the
  components they are about, and those that span components in \<^theory_text>\<open>Session\<close>.

  \<^bold>\<open>The program.\<close> \<^verbatim>\<open>src/src/irobot.cpp\<close> calls \<^verbatim>\<open>iRobotMain\<close>, which reads the command line and starts a
  session (\<^verbatim>\<open>core/irobot_core.cpp\<close>). The session pushes a server to the device with \<^verbatim>\<open>adb\<close>, connects
  two sockets to it (\<^verbatim>\<open>core/device_server.cpp\<close>, \<^verbatim>\<open>platform\<close>), and then runs these threads: the
  stream (\<^verbatim>\<open>video/stream.cpp\<close>) receives packets of video and hands them to the decoder and to the
  recorder, which has a thread of its own; the decoder hands frames to the window through the
  video buffer; the main thread (\<^verbatim>\<open>ui/input_manager.cpp\<close>, \<^verbatim>\<open>ui/screen.cpp\<close>) renders them and turns
  the events of the user into control messages; the controller (\<^verbatim>\<open>core/controller.cpp\<close>) sends these
  to the device, and its receiver (\<^verbatim>\<open>android/receiver.cpp\<close>) reads what the device sends back; the
  file handler (\<^verbatim>\<open>android/file_handler.cpp\<close>) installs or pushes dropped files; a counter displays
  the frame rate; and the agent (\<^verbatim>\<open>agent\<close>) lets a local client send control messages as JSON and
  receive images.

  \<^bold>\<open>Conventions.\<close> A definition has the name of the function, structure or macro it models, prefixed
  by its class where two classes share the name. A structure is a record, an enumeration a
  datatype with a function to its numbers, an integer of fixed width a word, \<^verbatim>\<open>int\<close> an \<open>int\<close> whose
  overflow is checked, and a \<^verbatim>\<open>float\<close> a rational, an infinity or not a number. \<open>None\<close> as the result
  of an operation means that the code has no defined result there: an access out of bounds, a
  failed assertion, the use of a null or released object, a join that does not return. A theorem
  that the result is \<open>Some\<close> excludes all of them. Errors the code handles are values of the result.
  Libraries and the system are arguments: lists of answers, or functions, that are arbitrary in the
  theorems unless a hypothesis names what is documented of them. Threads are step relations in
  which a critical section is one step; the theorems are about every reachable state.

  \<^bold>\<open>Foundations.\<close>
  \<^item> \<^theory_text>\<open>Prelude\<close>: integers, checked buffers, C strings, the predicate \<open>defined\<close> of results.
  \<^item> \<^theory_text>\<open>C_Stdlib\<close>, \<^theory_text>\<open>Float_Arith\<close>: the functions of the C library the program calls, and the
    rounding of \<^verbatim>\<open>float\<close>, executable.
  \<^item> \<^theory_text>\<open>Fifo\<close>: the contract of a queue, as the locales \<open>fifo\<close>, \<open>bounded_fifo\<close> and
    \<open>unbounded_fifo\<close>, with what follows for every sequence of operations.
  \<^item> \<^theory_text>\<open>Worker\<close>: the pattern of an actor (\<^verbatim>\<open>core/actor.cpp\<close> and its subclasses): a queue, a stop
    flag, a condition variable and a thread. Its invariant says that no wake-up is lost and that
    messages are handled once and in order; the locales \<open>message_sink\<close> and \<open>message_log\<close> state what
    a handler must do for the stream it writes and for what it releases.
  \<^item> \<^theory_text>\<open>Locks\<close>: the same threads with every call on the mutex and the condition (\<^verbatim>\<open>util/lock.hpp\<close>) as a
    step of its own, for any number of clients. A simulation shows that each step is one of the
    worker's or invisible to it, which is what allows the worker to take a critical section at once.

  \<^bold>\<open>Utilities\<close> (\<^verbatim>\<open>util\<close>).
  \<^item> \<^theory_text>\<open>Buffer_Util\<close>: big-endian integers; reads invert writes.
  \<^item> \<^theory_text>\<open>Cbuf\<close>, \<^theory_text>\<open>Queue\<close>: the two queues; each interprets its locale on the code's operations. The
    linked queue lives in an explicit store.
  \<^item> \<^theory_text>\<open>Str_Util\<close>: the string functions, with reference definitions and the cases in which they go
    wrong.

  \<^bold>\<open>Messages\<close> (\<^verbatim>\<open>message\<close>).
  \<^item> \<^theory_text>\<open>Common\<close>: geometry, floats, the enumerations of Android.
  \<^item> \<^theory_text>\<open>Control_Msg\<close>: the binary encoding; a decoder for the device's side gives the round trip.
  \<^item> \<^theory_text>\<open>Control_Json\<close>: the JSON printer with its two fixed buffers, and the reader over a JSON
    library given as a record of functions; a small JSON text type instantiates it.
  \<^item> \<^theory_text>\<open>Device_Msg\<close>: messages of the device and the receiver thread; \<^theory_text>\<open>Blob_Msg\<close>: images.

  \<^bold>\<open>Device\<close> (\<^verbatim>\<open>platform\<close>, \<^verbatim>\<open>core\<close>, \<^verbatim>\<open>android\<close>).
  \<^item> \<^theory_text>\<open>Net\<close>, \<^theory_text>\<open>Command\<close>: sockets and processes over a model of the system's calls, as on Unix.
    \<^theory_text>\<open>Windows\<close>: the same for the Windows build, where an argument list becomes one command line; a
    reader of command lines gives the round trip.
  \<^item> \<^theory_text>\<open>Device_Server\<close>: start, tunnel, connection and end of the server; no descriptor, process or
    allocation is leaked or released twice on any path.
  \<^item> \<^theory_text>\<open>Controller\<close>: the worker that serializes and sends control messages; it interprets both
    locales of \<^theory_text>\<open>Worker\<close>. \<^theory_text>\<open>Controller_Locks\<close>: its threads at the level of the locks.
  \<^item> \<^theory_text>\<open>File_Handler\<close>: the worker that runs \<^verbatim>\<open>adb\<close> for dropped files.

  \<^bold>\<open>Video\<close> (\<^verbatim>\<open>video\<close>).
  \<^item> \<^theory_text>\<open>Fps_Counter\<close>, \<^theory_text>\<open>Video_Buffer\<close> (with the decoder), \<^theory_text>\<open>Recorder\<close>: one step relation each.
  \<^item> \<^theory_text>\<open>Stream\<close>: the stream thread over the locale \<open>stream_sinks\<close>, interpreted on the decoder and
    the recorder of the library, so that the main theorem is about packets on the wire and packets
    in the file.

  \<^bold>\<open>User interface\<close> (\<^verbatim>\<open>ui\<close>).
  \<^item> \<^theory_text>\<open>Event_Converter\<close>, \<^theory_text>\<open>Events\<close>: tables and events; \<^theory_text>\<open>Screen\<close>: the window over the live objects
    of SDL.
  \<^item> \<^theory_text>\<open>Input_Manager\<close>: every handler of the main thread; \<^theory_text>\<open>Input_Events\<close>: what they preserve, what
    they send and what they release.

  \<^bold>\<open>Agent\<close> (\<^verbatim>\<open>agent\<close>).
  \<^item> \<^theory_text>\<open>Agent_Controller\<close>: the connection for control messages; the locale \<open>agent_entity\<close> is the
    contract of its handler, interpreted in \<^theory_text>\<open>Agent_Manager\<close>, which joins agent and controller and
    records events. \<^theory_text>\<open>Agent_Stream\<close>: the connection for images. \<^theory_text>\<open>Brain\<close> (\<^verbatim>\<open>ai\<close>): how a frame is
    saved and converted for it, over the functions of the image library.

  \<^bold>\<open>The whole\<close>.
  \<^item> \<^theory_text>\<open>Cli\<close>: the command line, over a model of \<^verbatim>\<open>getopt_long\<close>. \<^theory_text>\<open>Irobot_Core\<close>: the calls \<^verbatim>\<open>Start\<close>
    makes to bring the components up and take them down, in order, for all answers.
  \<^item> \<^theory_text>\<open>Session\<close>: main thread, agent and controller together; every run of a session is a run of
    the controller, and the input of the user is what the device decodes.

  \<^bold>\<open>Bounds.\<close> The loops of \<^verbatim>\<open>Destroy\<close> over a queue have a number of turns as argument; the size of
  the queue is passed and is more than the elements it holds, so the loop ends at the empty queue.
  The thread of the agent that receives and the waiting of the joins have a bound because they may
  run for ever; the theorems hold for every bound. \<open>worker_run\<close> takes the number of turns the
  theorem states. Other loops are recursive functions with a measure, or \<open>partial_function\<close> with a
  proof that they return.

  \<^bold>\<open>Not modelled.\<close> The macros of \<^verbatim>\<open>util/log.hpp\<close>: one library call each. The calls on the locks of the
  threads that are not workers: there a critical section is one step. What is compiled for macOS only,
  and for Windows outside \<^verbatim>\<open>platform\<close> and \<^verbatim>\<open>util\<close>. The text of the usage and the version. The memory below the mutexes: the frame the
  stream writes without the lock while the agent reads it is a finding, not a behaviour of the
  model. In \<^theory_text>\<open>Session\<close>, the other threads between two pushes of one event. The tests and the
  vendored headers and examples of FFmpeg.
\<close>

end
